(* ===== verification/Prelude.thy ===== *)
theory Prelude
  imports Main "HOL-Library.Word" "HOL-Library.Monad_Syntax"
begin

text \<open>
  Shared vocabulary of the development: the machine integers the sources use, byte buffers with
  checked reads and writes, big-endian 16-bit fields, and the lemma collections the component
  theories rewrite with.

  Convention on failure. A source-level \<open>assert\<close> that does not hold, a null pointer that
  is dereferenced and an access outside an array all stop the program (Circle halts in
  \<open>assertion_failed\<close>, the rest is undefined behaviour). Such a run is the value
  \<open>None\<close> of the \<open>option\<close> monad. Error codes that a function returns are ordinary
  values inside \<open>Some\<close>.
\<close>

unbundle bit_operations_syntax

type_synonym u8 = "8 word"
type_synonym u16 = "16 word"
type_synonym u32 = "32 word"

text \<open>A C string is the list of its bytes, without the terminating zero.\<close>

type_synonym cstring = "u8 list"

abbreviation cstr :: "string \<Rightarrow> cstring" where
  "cstr s \<equiv> map of_char s"

definition c_string :: "cstring \<Rightarrow> bool" where
  "c_string s \<longleftrightarrow> 0 \<notin> set s"

named_theorems buf_simps "rewriting of checked buffer accesses"
named_theorems res_simps "when a monadic result is Some"

text \<open>Unsigned 32-bit arithmetic on \<open>nat\<close>: the wrap-around is written where the code adds.\<close>

abbreviation wrap32 :: "nat \<Rightarrow> nat" where
  "wrap32 n \<equiv> n mod 2 ^ 32"

lemma wrap32_id [simp]: "n < 2 ^ 32 \<Longrightarrow> n mod 2 ^ 32 = (n::nat)"
  by simp

lemma wrap32_sub:
  assumes "b \<le> a" "a < 2 ^ 32"
  shows "wrap32 (a + 2 ^ 32 - b) = a - b"
proof -
  have "a + 2 ^ 32 - b = (a - b) + 2 ^ 32" using assms(1) by simp
  then have "wrap32 (a + 2 ^ 32 - b) = wrap32 (a - b)" by (simp only: mod_add_self2)
  then show ?thesis using assms by simp
qed

subsection \<open>Assertions\<close>

definition assert :: "bool \<Rightarrow> unit option" where
  "assert b = (if b then Some () else None)"

lemma assert_simps [simp]:
  "assert True = Some ()" "assert False = None"
  "(assert b = Some u) = b" "(assert b = None) = (\<not> b)"
  by (auto simp: assert_def)

lemma bind_assert [res_simps]:
  "(assert b \<bind> f = Some r) = (b \<and> f () = Some r)"
  by (cases b) auto

lemmas bind_some [res_simps] = Option.bind_eq_Some_conv

subsection \<open>Postconditions of computations that may fail\<close>

text \<open>
  \<open>post Q m\<close>: whenever \<open>m\<close> returns, its value satisfies \<open>Q\<close>. The introduction
  rules follow the structure of a \<open>do\<close> block, so that a property of a method is derived
  from those of the methods it calls.
\<close>

definition post :: "('a \<Rightarrow> bool) \<Rightarrow> 'a option \<Rightarrow> bool" where
  "post Q m \<longleftrightarrow> (\<forall>x. m = Some x \<longrightarrow> Q x)"

lemma postI: "(\<And>x. m = Some x \<Longrightarrow> Q x) \<Longrightarrow> post Q m"
  by (simp add: post_def)

lemma postD: "post Q m \<Longrightarrow> m = Some x \<Longrightarrow> Q x"
  by (simp add: post_def)

lemma post_bind: "post (\<lambda>x. post Q (f x)) m \<Longrightarrow> post Q (m \<bind> f)"
  by (cases m) (auto simp: post_def)

lemma post_Some [simp]: "post Q (Some x) = Q x" and post_None [simp]: "post Q None"
  by (auto simp: post_def)

lemma post_if: "(b \<Longrightarrow> post Q m) \<Longrightarrow> (\<not> b \<Longrightarrow> post Q n) \<Longrightarrow> post Q (if b then m else n)"
  by simp

lemma post_any: "(\<And>x. Q x) \<Longrightarrow> post Q m"
  by (simp add: post_def)

lemmas post_rules = post_bind post_if

subsection \<open>Checked buffer accesses\<close>

definition get_at :: "'a list \<Rightarrow> nat \<Rightarrow> 'a option" where
  "get_at xs i = (if i < length xs then Some (xs ! i) else None)"

definition put_at :: "'a list \<Rightarrow> nat \<Rightarrow> 'a \<Rightarrow> 'a list option" where
  "put_at xs i v = (if i < length xs then Some (xs[i := v]) else None)"

definition put_block :: "'a list \<Rightarrow> nat \<Rightarrow> 'a list \<Rightarrow> 'a list option" where
  "put_block xs i ys =
     (if i + length ys \<le> length xs then Some (take i xs @ ys @ drop (i + length ys) xs) else None)"

definition get_block :: "'a list \<Rightarrow> nat \<Rightarrow> nat \<Rightarrow> 'a list option" where
  "get_block xs i n = (if i + n \<le> length xs then Some (take n (drop i xs)) else None)"

lemma get_at_in [buf_simps]: "i < length xs \<Longrightarrow> get_at xs i = Some (xs ! i)"
  by (simp add: get_at_def)

lemma get_at_Some [res_simps]: "(get_at xs i = Some v) = (i < length xs \<and> v = xs ! i)"
  by (auto simp: get_at_def)

lemma put_at_in [buf_simps]: "i < length xs \<Longrightarrow> put_at xs i v = Some (xs[i := v])"
  by (simp add: put_at_def)

lemma put_at_Some [res_simps]: "(put_at xs i v = Some ys) = (i < length xs \<and> ys = xs[i := v])"
  by (auto simp: put_at_def)

lemma put_block_in [buf_simps]:
  "i + length ys \<le> length xs \<Longrightarrow>
     put_block xs i ys = Some (take i xs @ ys @ drop (i + length ys) xs)"
  by (simp add: put_block_def)

lemma put_block_Some [res_simps]:
  "(put_block xs i ys = Some zs) =
     (i + length ys \<le> length xs \<and> zs = take i xs @ ys @ drop (i + length ys) xs)"
  by (auto simp: put_block_def)

lemma put_block_length: "put_block xs i ys = Some zs \<Longrightarrow> length zs = length xs"
  by (auto simp: put_block_def split: if_splits)

lemma get_block_in [buf_simps]:
  "i + n \<le> length xs \<Longrightarrow> get_block xs i n = Some (take n (drop i xs))"
  by (simp add: get_block_def)

lemma get_block_Some [res_simps]:
  "(get_block xs i n = Some ys) = (i + n \<le> length xs \<and> ys = take n (drop i xs))"
  by (auto simp: get_block_def)

text \<open>What a buffer holds below a write position after a write at that position.\<close>

lemma take_list_update_end:
  "i < length xs \<Longrightarrow> take (Suc i) (xs[i := v]) = take i xs @ [v]"
  by (simp add: take_Suc_conv_app_nth)

lemma take_put_block_end:
  "i + length ys \<le> length xs \<Longrightarrow>
     take (i + length ys) (take i xs @ ys @ drop (i + length ys) xs) = take i xs @ ys"
  by (cases ys) auto

lemma drop_take_append_end:
  "k \<le> i \<Longrightarrow> i \<le> length xs \<Longrightarrow> drop k (take i xs @ ys) = drop k (take i xs) @ ys"
  by simp

lemma nth_append_middle: "i = length xs \<Longrightarrow> (xs @ y # ys) ! i = y"
  by simp

lemma drop_nth_Cons: "drop i xs = y # ys \<Longrightarrow> i < length xs \<and> xs ! i = y \<and> drop (Suc i) xs = ys"
proof -
  assume d: "drop i xs = y # ys"
  then have l: "i < length xs"
    by (metis drop_eq_Nil linorder_not_le list.distinct(1))
  with d show ?thesis
    by (metis Cons_nth_drop_Suc list.inject)
qed

subsection \<open>Sixteen-bit big-endian fields\<close>

definition hi8 :: "u16 \<Rightarrow> u8" where
  "hi8 v = ucast (drop_bit 8 v)"

definition lo8 :: "u16 \<Rightarrow> u8" where
  "lo8 v = ucast (v AND 0xFF)"

definition be16 :: "u8 \<Rightarrow> u8 \<Rightarrow> u16" where
  "be16 h l = push_bit 8 (ucast h) OR ucast l"

lemma mask8_u16: "(0xFF :: u16) = mask 8"
  by (simp add: mask_eq_exp_minus_1)

lemma be16_hi8_lo8 [simp]: "be16 (hi8 v) (lo8 v) = v"
proof (rule bit_word_eqI)
  fix n :: nat
  assume n: "n < LENGTH(16)"
  show "bit (be16 (hi8 v) (lo8 v)) n = bit v n"
    using n by (cases "n < 8") (auto simp: be16_def hi8_def lo8_def mask8_u16 bit_simps)
qed

end
