(* ===== verification/Circle_Interface.thy ===== *)
theory Circle_Interface
  imports Prelude
begin

text \<open>
  The services the sources take from the Circle framework (a git submodule, not part of this
  repository), as parameters. The record \<open>circle\<close> collects the functions that the MQTT
  client and the packet classes call: the heap (\<open>operator new\<close>), the socket
  (\<open>CNetSocket\<close>) and the timer (\<open>CTimer\<close>). They act on an abstract world
  \<open>'w\<close> that the model only threads through.

  What the code relies on is stated as locales: \<open>circle_contract\<close> (a successful
  allocation has the requested size, a receive delivers at most the bytes asked for, and reports
  their number) and \<open>ptr_list\<close> (the sequence semantics of \<open>CPtrList\<close>). Each locale is
  interpreted on a concrete instance, a scripted network and a list with numbered elements, and
  those instances serve as test beds for the concrete runs of the component theories.
\<close>

subsection \<open>Heap, socket and timer\<close>

record 'w circle =
  FRAME_BUFFER_SIZE :: nat
  HZ :: nat
  heap_new :: "nat \<Rightarrow> 'w \<Rightarrow> u8 list option \<times> 'w"
  sock_Send :: "u8 list \<Rightarrow> bool \<Rightarrow> 'w \<Rightarrow> int \<times> 'w"
  sock_Receive :: "nat \<Rightarrow> bool \<Rightarrow> 'w \<Rightarrow> (int \<times> u8 list) \<times> 'w"
  GetTicks :: "'w \<Rightarrow> u32 \<times> 'w"

text \<open>
  The second argument of \<open>sock_Send\<close> and \<open>sock_Receive\<close> is the flag
  \<open>MSG_DONTWAIT\<close>. \<open>sock_Receive\<close> returns the length (negative on error) and the
  bytes it stores into the buffer it was given.
\<close>

locale circle_contract =
  fixes C :: "('w, 'x) circle_scheme"
  assumes heap_length: "heap_new C n w = (Some buf, w') \<Longrightarrow> length buf = n"
    and recv_length: "sock_Receive C n dw w = ((r, bs), w') \<Longrightarrow>
          0 \<le> r \<Longrightarrow> int (length bs) = r \<and> length bs \<le> n"
    and recv_error: "sock_Receive C n dw w = ((r, bs), w') \<Longrightarrow> r < 0 \<Longrightarrow> bs = []"
    and frame_pos: "0 < FRAME_BUFFER_SIZE C"
begin

lemma recv_bytes:
  assumes "sock_Receive C n dw w = ((r, bs), w')"
  shows "length bs = nat r \<and> nat r \<le> max n 0"
  using recv_length [OF assms] recv_error [OF assms] by (cases "0 \<le> r") auto

end

text \<open>
  A scripted network: the frames still to be received (an empty frame means that nothing is
  available now; after the last frame a receive fails unless the peer is open), the frames sent so
  far, all of which the peer takes, and a clock.
\<close>

record script =
  rx_frames :: "u8 list list"
  tx_frames :: "u8 list list"
  clock :: u32
  peer_open :: bool

definition script_circle :: "nat \<Rightarrow> script circle" where
  "script_circle fbs = \<lparr>
     FRAME_BUFFER_SIZE = fbs, HZ = 100,
     heap_new = (\<lambda>n w. (Some (replicate n 0), w)),
     sock_Send = (\<lambda>bs _ w. (int (length bs), w\<lparr>tx_frames := tx_frames w @ [bs]\<rparr>)),
     sock_Receive = (\<lambda>n _ w. (case rx_frames w of
        [] \<Rightarrow> ((if peer_open w then 0 else -1, []), w)
      | f # fs \<Rightarrow> ((int (length (take n f)), take n f),
          w\<lparr>rx_frames := (if drop n f = [] then fs else drop n f # fs)\<rparr>))),
     GetTicks = (\<lambda>w. (clock w, w))\<rparr>"

interpretation script_net: circle_contract "script_circle (Suc k)"
  by unfold_locales (auto simp: script_circle_def split: list.splits if_splits)

subsection \<open>Client connections\<close>

text \<open>
  What the network clients call to open a connection: creation of a plain or TLS client socket,
  certificates and set-up of the TLS session (\<open>CTLSSimpleClientSocket\<close>), connecting and
  deleting the socket. A client holds at most one socket, so the functions do not name it.

  \<open>null_string\<close> is the string that \<open>strlen\<close> finds at address 0; it is \<open>None\<close> on a machine on which the
  access faults. It matters since \<open>CTLSSimpleClientSocket::Setup\<close> passes its optional personalization string to
  \<open>CCTR_DRBG::Seed\<close>, which calls \<open>strlen\<close>, and the clients leave it out. \<open>ssl_Setup\<close> is the rest of
  \<open>Setup\<close> with the server name and the string as it was read.
\<close>

record 'w net_env = "'w circle" +
  sock_new :: "bool \<Rightarrow> 'w \<Rightarrow> 'w"
  ssl_AddCertificatePath :: "cstring \<Rightarrow> 'w \<Rightarrow> int \<times> 'w"
  ssl_Setup :: "cstring \<Rightarrow> cstring \<Rightarrow> 'w \<Rightarrow> int \<times> 'w"
  sock_Connect :: "u8 list \<Rightarrow> u16 \<Rightarrow> 'w \<Rightarrow> int \<times> 'w"
  sock_delete :: "'w \<Rightarrow> 'w"
  null_string :: "cstring option"

definition simple_Setup ::
  "('w, 'x) net_env_scheme \<Rightarrow> cstring \<Rightarrow> cstring option \<Rightarrow> 'w \<Rightarrow> (int \<times> 'w) option" where
  "simple_Setup E pServername pPersonalizationString w = do {
     str \<leftarrow> (case pPersonalizationString of None \<Rightarrow> null_string E | Some s \<Rightarrow> Some s);
     Some (ssl_Setup E pServername str w)
   }"

text \<open>
  The scripted network with a peer that accepts connections while it is open. Address 0 is readable
  and holds an empty string.
\<close>

definition script_net_env :: "nat \<Rightarrow> script net_env" where
  "script_net_env fbs = \<lparr>
     FRAME_BUFFER_SIZE = FRAME_BUFFER_SIZE (script_circle fbs), HZ = HZ (script_circle fbs),
     heap_new = heap_new (script_circle fbs), sock_Send = sock_Send (script_circle fbs),
     sock_Receive = sock_Receive (script_circle fbs), GetTicks = GetTicks (script_circle fbs),
     sock_new = (\<lambda>b w. w), ssl_AddCertificatePath = (\<lambda>p w. (1, w)), ssl_Setup = (\<lambda>h str w. (0, w)),
     sock_Connect = (\<lambda>a p w. (if peer_open w then 0 else -1, w)), sock_delete = (\<lambda>w. w), null_string = Some []\<rparr>"

subsection \<open>Linked lists of pointers\<close>

text \<open>
  The operations of \<open>CPtrList\<close> that the sources call, for a list type \<open>'l\<close>, element
  handles \<open>'e\<close> (\<open>TPtrListElement *\<close>, \<open>None\<close> is the null pointer) and stored
  pointers \<open>'p\<close>.
\<close>

record ('l, 'e, 'p) ptr_list_ops =
  pl_GetFirst :: "'l \<Rightarrow> 'e option"
  pl_GetNext :: "'l \<Rightarrow> 'e \<Rightarrow> 'e option"
  pl_GetPtr :: "'l \<Rightarrow> 'e \<Rightarrow> 'p"
  pl_InsertBefore :: "'l \<Rightarrow> 'e \<Rightarrow> 'p \<Rightarrow> 'l"
  pl_InsertAfter :: "'l \<Rightarrow> 'e option \<Rightarrow> 'p \<Rightarrow> 'l"
  pl_Remove :: "'l \<Rightarrow> 'e \<Rightarrow> 'l"
  pl_Find :: "'l \<Rightarrow> 'p \<Rightarrow> 'e option"

definition first_handle :: "('e \<times> 'p) list \<Rightarrow> 'e option" where
  "first_handle xs = (case xs of [] \<Rightarrow> None | x # _ \<Rightarrow> Some (fst x))"

lemma first_handle_simps [simp]:
  "first_handle [] = None" "first_handle ((e, p) # xs) = Some e"
  by (simp_all add: first_handle_def)

text \<open>The pointers in list order: what the list holds, without the handles.\<close>

definition ptrs_of :: "('l \<Rightarrow> ('e \<times> 'p) list) \<Rightarrow> 'l \<Rightarrow> 'p list" where
  "ptrs_of elems l = map snd (elems l)"

locale ptr_list =
  fixes L :: "('l, 'e, 'p) ptr_list_ops"
    and elems :: "'l \<Rightarrow> ('e \<times> 'p) list"
  assumes GetFirst: "pl_GetFirst L l = first_handle (elems l)"
    and GetNext: "elems l = xs @ (e, p) # ys \<Longrightarrow> pl_GetNext L l e = first_handle ys"
    and GetPtr: "elems l = xs @ (e, p) # ys \<Longrightarrow> pl_GetPtr L l e = p"
    and InsertBefore: "elems l = xs @ (e, p) # ys \<Longrightarrow>
          \<exists>e'. elems (pl_InsertBefore L l e q) = xs @ (e', q) # (e, p) # ys"
    and InsertAfter_empty: "elems l = [] \<Longrightarrow>
          \<exists>e'. elems (pl_InsertAfter L l None q) = [(e', q)]"
    and InsertAfter: "elems l = xs @ (e, p) # ys \<Longrightarrow>
          \<exists>e'. elems (pl_InsertAfter L l (Some e) q) = xs @ (e, p) # (e', q) # ys"
    and Remove: "elems l = xs @ (e, p) # ys \<Longrightarrow> elems (pl_Remove L l e) = xs @ ys"
    and Find_None: "(pl_Find L l q = None) = (q \<notin> snd ` set (elems l))"
    and Find_Some: "pl_Find L l q = Some e \<Longrightarrow> (e, q) \<in> set (elems l)"
begin

abbreviation ptrs :: "'l \<Rightarrow> 'p list" where
  "ptrs \<equiv> ptrs_of elems"

lemma ptrs_InsertBefore:
  "elems l = xs @ (e, p) # ys \<Longrightarrow>
     ptrs (pl_InsertBefore L l e q) = map snd xs @ q # p # map snd ys"
  using InsertBefore [of l xs e p ys q] by (auto simp: ptrs_of_def)

lemma ptrs_InsertAfter:
  "elems l = xs @ (e, p) # ys \<Longrightarrow>
     ptrs (pl_InsertAfter L l (Some e) q) = map snd xs @ p # q # map snd ys"
  using InsertAfter [of l xs e p ys q] by (auto simp: ptrs_of_def)

lemma ptrs_InsertAfter_empty:
  "elems l = [] \<Longrightarrow> ptrs (pl_InsertAfter L l None q) = [q]"
  using InsertAfter_empty [of l q] by (auto simp: ptrs_of_def)

lemma ptrs_Remove:
  "elems l = xs @ (e, p) # ys \<Longrightarrow> ptrs (pl_Remove L l e) = map snd xs @ map snd ys"
  by (simp add: ptrs_of_def Remove)

lemma Find_iff: "(pl_Find L l q \<noteq> None) = (q \<in> set (ptrs l))"
  using Find_None [of l q] by (simp add: ptrs_of_def)

end

text \<open>
  The instance: elements carry serial numbers, so that the handle of an element stays valid while
  others come and go. A list with a repeated number is read as the empty list, which makes the
  laws hold without a side condition.
\<close>

type_synonym 'p numbered = "(nat \<times> 'p) list"

definition num_elems :: "'p numbered \<Rightarrow> (nat \<times> 'p) list" where
  "num_elems l = (if distinct (map fst l) then l else [])"

definition num_fresh :: "'p numbered \<Rightarrow> nat" where
  "num_fresh l = Suc (foldr max (map fst l) 0)"

fun num_next :: "(nat \<times> 'p) list \<Rightarrow> nat \<Rightarrow> nat option" where
  "num_next [] e = None"
| "num_next ((a, p) # xs) e = (if a = e then first_handle xs else num_next xs e)"

fun num_insert :: "bool \<Rightarrow> (nat \<times> 'p) list \<Rightarrow> nat \<Rightarrow> nat \<times> 'p \<Rightarrow> (nat \<times> 'p) list" where
  "num_insert before [] e q = []"
| "num_insert before ((a, p) # xs) e q =
     (if a = e then (if before then q # (a, p) # xs else (a, p) # q # xs)
      else (a, p) # num_insert before xs e q)"

definition num_list_ops :: "('p numbered, nat, 'p) ptr_list_ops" where
  "num_list_ops = \<lparr>
     pl_GetFirst = (\<lambda>l. first_handle (num_elems l)),
     pl_GetNext = (\<lambda>l e. num_next (num_elems l) e),
     pl_GetPtr = (\<lambda>l e. the (map_of (num_elems l) e)),
     pl_InsertBefore = (\<lambda>l e p. num_insert True (num_elems l) e (num_fresh (num_elems l), p)),
     pl_InsertAfter = (\<lambda>l e p. case e of
        None \<Rightarrow> (num_fresh (num_elems l), p) # num_elems l
      | Some e' \<Rightarrow> num_insert False (num_elems l) e' (num_fresh (num_elems l), p)),
     pl_Remove = (\<lambda>l e. filter (\<lambda>x. fst x \<noteq> e) (num_elems l)),
     pl_Find = (\<lambda>l p. map_option fst (List.find (\<lambda>x. snd x = p) (num_elems l)))\<rparr>"

lemma num_elems_distinct: "distinct (map fst (num_elems l))"
  by (simp add: num_elems_def)

lemma num_elems_id: "distinct (map fst l) \<Longrightarrow> num_elems l = l"
  by (simp add: num_elems_def)

lemma num_fresh_greater: "e \<in> fst ` set l \<Longrightarrow> e < num_fresh l"
proof (induction l)
  case (Cons x l)
  then show ?case
    by (cases "e \<in> fst ` set l") (auto simp: num_fresh_def less_Suc_eq_le le_max_iff_disj)
qed simp

lemma num_fresh_new: "num_fresh l \<notin> fst ` set l"
  using num_fresh_greater by blast

lemma num_next_middle:
  "e \<notin> fst ` set xs \<Longrightarrow> num_next (xs @ (e, p) # ys) e = first_handle ys"
  by (induction xs) auto

lemma num_insert_middle:
  "e \<notin> fst ` set xs \<Longrightarrow> num_insert b (xs @ (e, p) # ys) e q =
     xs @ (if b then [q, (e, p)] else [(e, p), q]) @ ys"
  by (induction xs) auto

lemma num_remove_middle:
  "e \<notin> fst ` set xs \<Longrightarrow> e \<notin> fst ` set ys \<Longrightarrow>
     filter (\<lambda>x. fst x \<noteq> e) (xs @ (e, p) # ys) = xs @ ys"
  by (simp, subst (1 2) filter_True) force+

lemma num_split:
  assumes "num_elems l = xs @ (e, p) # ys"
  shows "e \<notin> fst ` set xs" "e \<notin> fst ` set ys" "distinct (map fst xs)" "distinct (map fst ys)"
    "fst ` set xs \<inter> fst ` set ys = {}"
  using num_elems_distinct [of l] unfolding assms by auto

lemma num_insert_elems:
  assumes "num_elems l = xs @ (e, p) # ys"
  shows "num_elems (num_insert b (num_elems l) e (num_fresh (num_elems l), q)) =
    xs @ (if b then [(num_fresh (num_elems l), q), (e, p)]
          else [(e, p), (num_fresh (num_elems l), q)]) @ ys"
  using num_split [OF assms] num_fresh_new [of "num_elems l"]
  unfolding assms by (subst num_elems_id) (auto simp: num_insert_middle)

lemma find_None_iff_snd: "(List.find (\<lambda>x. snd x = q) xs = None) = (q \<notin> snd ` set xs)"
  by (force simp: find_None_iff)

lemma find_Some_snd: "List.find (\<lambda>x. snd x = q) xs = Some (e, r) \<Longrightarrow> (e, q) \<in> set xs"
  by (induction xs) (auto split: if_splits)

interpretation num_list: ptr_list num_list_ops num_elems
proof unfold_locales
  fix l :: "'p numbered" and xs ys e p and q :: 'p
  show "pl_GetFirst num_list_ops l = first_handle (num_elems l)"
    by (simp add: num_list_ops_def)
  show "(pl_Find num_list_ops l q = None) = (q \<notin> snd ` set (num_elems l))"
    by (simp add: num_list_ops_def find_None_iff_snd)
  show "pl_Find num_list_ops l q = Some e \<Longrightarrow> (e, q) \<in> set (num_elems l)"
    by (auto simp: num_list_ops_def dest: find_Some_snd)
  show "num_elems l = [] \<Longrightarrow> \<exists>e'. num_elems (pl_InsertAfter num_list_ops l None q) = [(e', q)]"
    by (auto simp: num_list_ops_def num_elems_id)
  assume eq: "num_elems l = xs @ (e, p) # ys"
  note split = num_split [OF eq]
  show "pl_GetNext num_list_ops l e = first_handle ys"
    using split by (simp add: num_list_ops_def eq num_next_middle)
  show "pl_GetPtr num_list_ops l e = p"
    using split by (simp add: num_list_ops_def eq map_add_dom_app_simps(3) dom_map_of_conv_image_fst)
  show "\<exists>e'. num_elems (pl_InsertBefore num_list_ops l e q) = xs @ (e', q) # (e, p) # ys"
    using num_insert_elems [OF eq, of True q] by (auto simp: num_list_ops_def)
  show "\<exists>e'. num_elems (pl_InsertAfter num_list_ops l (Some e) q) = xs @ (e, p) # (e', q) # ys"
    using num_insert_elems [OF eq, of False q] by (auto simp: num_list_ops_def)
  show "num_elems (pl_Remove num_list_ops l e) = xs @ ys"
    using split by (simp add: num_list_ops_def eq num_remove_middle num_elems_id
        del: filter.simps filter_append)
qed

end
