(* ===== verification/Mqtt_Protocol.thy ===== *)
theory Mqtt_Protocol
  imports Circle_Interface
begin

text \<open>
  The constants of \<open>include/circle-mbedtls/mqtt.h\<close> and the packet types with their numbers.
  The enumeration \<open>TMQTTPacketType\<close> is four bits wide in the code that casts to it, so the
  value 0, which has no enumerator, is represented by a constructor of its own.
\<close>

definition MQTT_PROTOCOL_LEVEL :: u8 where "MQTT_PROTOCOL_LEVEL = 4"

definition MQTT_QOS_AT_MOST_ONCE :: u8 where "MQTT_QOS_AT_MOST_ONCE = 0"
definition MQTT_QOS_AT_LEAST_ONCE :: u8 where "MQTT_QOS_AT_LEAST_ONCE = 1"
definition MQTT_QOS_EXACTLY_ONCE :: u8 where "MQTT_QOS_EXACTLY_ONCE = 2"

definition MQTT_FLAG_RETAIN :: u8 where "MQTT_FLAG_RETAIN = 1"
definition MQTT_FLAG_QOS_SHIFT :: nat where "MQTT_FLAG_QOS_SHIFT = 1"
definition MQTT_FLAG_QOS_MASK :: u8 where "MQTT_FLAG_QOS_MASK = 6"
definition MQTT_FLAG_DUP :: u8 where "MQTT_FLAG_DUP = 8"

definition MQTT_CONNECT_FLAG_CLEAN_SESSION :: u8 where "MQTT_CONNECT_FLAG_CLEAN_SESSION = 2"
definition MQTT_CONNECT_FLAG_WILL :: u8 where "MQTT_CONNECT_FLAG_WILL = 4"
definition MQTT_CONNECT_FLAG_WILL_QOS_SHIFT :: nat where "MQTT_CONNECT_FLAG_WILL_QOS_SHIFT = 3"
definition MQTT_CONNECT_FLAG_WILL_RETAIN :: u8 where "MQTT_CONNECT_FLAG_WILL_RETAIN = 32"
definition MQTT_CONNECT_FLAG_PASSWORD :: u8 where "MQTT_CONNECT_FLAG_PASSWORD = 64"
definition MQTT_CONNECT_FLAG_USER_NAME :: u8 where "MQTT_CONNECT_FLAG_USER_NAME = 128"
definition MQTT_CONNACK_FLAG_SP :: u8 where "MQTT_CONNACK_FLAG_SP = 1"

definition MQTT_SEND_TRIES :: nat where "MQTT_SEND_TRIES = 5"

definition MQTT_RESEND_TIMEOUT :: "('w, 'x) circle_scheme \<Rightarrow> u32" where
  "MQTT_RESEND_TIMEOUT C = of_nat (5 * HZ C)"
definition MQTT_PING_TIMEOUT :: "('w, 'x) circle_scheme \<Rightarrow> u32" where
  "MQTT_PING_TIMEOUT C = of_nat (5 * HZ C)"

lemmas mqtt_qos_defs =
  MQTT_QOS_AT_MOST_ONCE_def MQTT_QOS_AT_LEAST_ONCE_def MQTT_QOS_EXACTLY_ONCE_def

lemmas mqtt_flag_defs =
  MQTT_FLAG_RETAIN_def MQTT_FLAG_QOS_SHIFT_def MQTT_FLAG_QOS_MASK_def MQTT_FLAG_DUP_def

datatype packet_type =
    MQTTPacketTypeZero
  | MQTTConnect | MQTTConnAck | MQTTPublish | MQTTPubAck | MQTTPubRec | MQTTPubRel | MQTTPubComp
  | MQTTSubscribe | MQTTSubAck | MQTTUnsubscribe | MQTTUnsubAck | MQTTPingReq | MQTTPingResp
  | MQTTDisconnect | MQTTPacketTypeUnknown

fun type_code :: "packet_type \<Rightarrow> nat" where
  "type_code MQTTPacketTypeZero = 0"
| "type_code MQTTConnect = 1"
| "type_code MQTTConnAck = 2"
| "type_code MQTTPublish = 3"
| "type_code MQTTPubAck = 4"
| "type_code MQTTPubRec = 5"
| "type_code MQTTPubRel = 6"
| "type_code MQTTPubComp = 7"
| "type_code MQTTSubscribe = 8"
| "type_code MQTTSubAck = 9"
| "type_code MQTTUnsubscribe = 10"
| "type_code MQTTUnsubAck = 11"
| "type_code MQTTPingReq = 12"
| "type_code MQTTPingResp = 13"
| "type_code MQTTDisconnect = 14"
| "type_code MQTTPacketTypeUnknown = 15"

definition all_types :: "packet_type list" where
  "all_types = [MQTTPacketTypeZero, MQTTConnect, MQTTConnAck, MQTTPublish, MQTTPubAck, MQTTPubRec,
     MQTTPubRel, MQTTPubComp, MQTTSubscribe, MQTTSubAck, MQTTUnsubscribe, MQTTUnsubAck, MQTTPingReq,
     MQTTPingResp, MQTTDisconnect, MQTTPacketTypeUnknown]"

text \<open>The cast \<open>(TMQTTPacketType) (x >> 4)\<close> of a byte.\<close>

definition type_of_byte :: "u8 \<Rightarrow> packet_type" where
  "type_of_byte b = all_types ! unat (drop_bit 4 b)"

lemma type_code_less: "type_code t < 16"
  by (cases t) auto

lemma all_types_code: "all_types ! type_code t = t"
  by (cases t) (simp_all add: all_types_def eval_nat_numeral)

text \<open>The control byte \<open>((u8) Type << 4) | Flags\<close>, and what the receiver reads back from it.\<close>

definition control_byte :: "packet_type \<Rightarrow> u8 \<Rightarrow> u8" where
  "control_byte t f = push_bit 4 (of_nat (type_code t)) OR f"

lemma mask4_u8: "(0x0F :: u8) = mask 4"
  by (simp add: mask_eq_exp_minus_1)

lemma small_flags:
  assumes "(f :: u8) \<le> 0x0F"
  shows "take_bit 4 f = f" "drop_bit 4 f = 0"
proof -
  have "unat f < 16"
    using assms by (simp add: word_le_nat_alt)
  then show "take_bit 4 f = f"
    by (simp add: word_unat_eq_iff unsigned_take_bit_eq take_bit_nat_eq_self)
  then show "drop_bit 4 f = 0"
    by (simp only: take_bit_eq_self_iff_drop_bit_eq_0)
qed

lemma control_byte_flags:
  assumes "f \<le> 0x0F"
  shows "control_byte t f AND 0x0F = f"
  using small_flags(1) [OF assms]
  by (simp add: control_byte_def mask4_u8 take_bit_push_bit flip: take_bit_eq_mask)

lemma control_byte_type:
  assumes "f \<le> 0x0F"
  shows "type_of_byte (control_byte t f) = t"
proof -
  have "drop_bit 4 (push_bit 4 (of_nat (type_code t) :: u8)) = of_nat (type_code t)"
    by (cases t) simp_all
  then have "drop_bit 4 (control_byte t f) = of_nat (type_code t)"
    using small_flags(2) [OF assms] by (simp add: control_byte_def)
  moreover have "unat (of_nat (type_code t) :: u8) = type_code t"
    using type_code_less [of t] by (simp add: unat_of_nat)
  ultimately show ?thesis
    by (simp add: type_of_byte_def all_types_code)
qed

end
