(* ===== verification/Mqtt_Send_Packet.thy ===== *)
theory Mqtt_Send_Packet
  imports Mqtt_Protocol
begin

text \<open>
  The class \<open>CMQTTSendPacket\<close> (\<open>include/circle-mbedtls/mqttsendpacket.h\<close>,
  \<open>src/circle-mbedtls/mqttsendpacket.cpp\<close>): a packet under construction in a fixed buffer that
  leaves room for the fixed header in front, and its transmission.

  Fields that the constructor does not write keep what the storage held (the argument
  \<open>mem\<close> of the constructor). Lengths and positions are natural numbers with the
  32-bit wrap-around of \<open>unsigned\<close> and \<open>size_t\<close> (default 32-bit target) written out.

  The lemmas relate every operation to the abstract packet: its payload, that is the bytes between
  the reserved header and the write position. Appending is concatenation or sets the error flag,
  and \<open>Send\<close> emits control byte, remaining length and payload.
\<close>

definition MAX_LENGTH_FIXED_HEADER :: nat where "MAX_LENGTH_FIXED_HEADER = 5"

record mqtt_send_packet =
  sp_Type :: packet_type
  sp_MaxPacketSize :: nat
  sp_Error :: bool
  sp_Buffer :: "u8 list option"
  sp_BufPtr :: nat
  sp_Flags :: u8
  sp_SendTries :: nat
  sp_ScheduledTime :: u32
  sp_QoS :: u8
  sp_PacketIdentifier :: u16

definition CMQTTSendPacket_new ::
  "('w, 'x) circle_scheme \<Rightarrow> mqtt_send_packet \<Rightarrow> packet_type \<Rightarrow> nat \<Rightarrow> 'w \<Rightarrow>
     (mqtt_send_packet \<times> 'w) option" where
  "CMQTTSendPacket_new C mem Type nMaxPacketSize w = do {
     assert (nMaxPacketSize \<ge> 128);
     let p = mem\<lparr>sp_Type := Type, sp_MaxPacketSize := nMaxPacketSize, sp_Error := False,
                  sp_BufPtr := MAX_LENGTH_FIXED_HEADER, sp_Flags := 0,
                  sp_SendTries := MQTT_SEND_TRIES\<rparr>;
     let (buf, w') = heap_new C nMaxPacketSize w;
     case buf of
       None \<Rightarrow> Some (p\<lparr>sp_Buffer := None, sp_Error := True\<rparr>, w')
     | Some b \<Rightarrow>
         Some (p\<lparr>sp_Buffer := Some b,
                 sp_Flags := (if Type = MQTTPubRel \<or> Type = MQTTSubscribe \<or> Type = MQTTUnsubscribe
                              then push_bit 1 1 else 0)\<rparr>, w')
   }"

definition CMQTTSendPacket_delete :: "mqtt_send_packet \<Rightarrow> mqtt_send_packet" where
  "CMQTTSendPacket_delete p = p\<lparr>sp_Buffer := None\<rparr>"

definition SetFlags :: "mqtt_send_packet \<Rightarrow> u8 \<Rightarrow> mqtt_send_packet option" where
  "SetFlags p uchFlags = do {
     assert (sp_Type p = MQTTPublish);
     assert (uchFlags \<le> 0x0F);
     Some (p\<lparr>sp_Flags := uchFlags\<rparr>)
   }"

text \<open>\<open>m_pBuffer[m_nBufPtr++] = v\<close>, and the \<open>memcpy\<close> to the write position.\<close>

definition store_byte :: "mqtt_send_packet \<Rightarrow> u8 \<Rightarrow> mqtt_send_packet option" where
  "store_byte p v = do {
     buf \<leftarrow> sp_Buffer p;
     buf' \<leftarrow> put_at buf (sp_BufPtr p) v;
     Some (p\<lparr>sp_Buffer := Some buf', sp_BufPtr := wrap32 (sp_BufPtr p + 1)\<rparr>)
   }"

definition store_block :: "mqtt_send_packet \<Rightarrow> u8 list \<Rightarrow> mqtt_send_packet option" where
  "store_block p bs = do {
     buf \<leftarrow> sp_Buffer p;
     buf' \<leftarrow> put_block buf (sp_BufPtr p) bs;
     Some (p\<lparr>sp_Buffer := Some buf', sp_BufPtr := wrap32 (sp_BufPtr p + length bs)\<rparr>)
   }"

definition AppendByte :: "mqtt_send_packet \<Rightarrow> u8 \<Rightarrow> mqtt_send_packet option" where
  "AppendByte p uchValue =
     (if sp_Error p then Some p
      else if sp_BufPtr p \<ge> sp_MaxPacketSize p then Some (p\<lparr>sp_Error := True\<rparr>)
      else store_byte p uchValue)"

definition AppendWord :: "mqtt_send_packet \<Rightarrow> u16 \<Rightarrow> mqtt_send_packet option" where
  "AppendWord p usValue =
     (if sp_Error p then Some p
      else if wrap32 (sp_BufPtr p + 1) \<ge> sp_MaxPacketSize p then Some (p\<lparr>sp_Error := True\<rparr>)
      else do { p \<leftarrow> store_byte p (hi8 usValue); store_byte p (lo8 usValue) })"

definition AppendString :: "mqtt_send_packet \<Rightarrow> cstring \<Rightarrow> mqtt_send_packet option" where
  "AppendString p pString =
     (if sp_Error p then Some p
      else let nLength = length pString in
      if wrap32 (sp_BufPtr p + nLength + 2) > sp_MaxPacketSize p then Some (p\<lparr>sp_Error := True\<rparr>)
      else do {
        p \<leftarrow> store_byte p (of_nat (nLength div 256));
        p \<leftarrow> store_byte p (of_nat nLength AND 0xFF);
        if nLength > 0 then store_block p pString else Some p
      })"

definition AppendData :: "mqtt_send_packet \<Rightarrow> u8 list \<Rightarrow> mqtt_send_packet option" where
  "AppendData p pBuffer =
     (if sp_Error p then Some p
      else let nLength = length pBuffer in
      if wrap32 (sp_BufPtr p + nLength) > sp_MaxPacketSize p then Some (p\<lparr>sp_Error := True\<rparr>)
      else if nLength > 0 then store_block p pBuffer else Some p)"

text \<open>The \<open>do ... while\<close> loop of \<open>Send\<close> that fills \<open>EncodedLength[4]\<close>.\<close>

fun encode_length :: "nat \<Rightarrow> u8 list \<Rightarrow> u8 list option" where
  "encode_length nTempLength EncodedLength =
     (let uchByte = of_nat nTempLength AND 0x7F;
          nTempLength' = nTempLength div 128;
          uchByte' = (if nTempLength' > 0 then uchByte OR 0x80 else uchByte)
      in if length EncodedLength < 4
         then (if nTempLength' > 0 then encode_length nTempLength' (EncodedLength @ [uchByte'])
               else Some (EncodedLength @ [uchByte']))
         else None)"

declare encode_length.simps [simp del]

definition Send ::
  "('w, 'x) circle_scheme \<Rightarrow> mqtt_send_packet \<Rightarrow> 'w \<Rightarrow> (bool \<times> mqtt_send_packet \<times> 'w) option" where
  "Send C p w =
     (if sp_Error p then Some (False, p, w)
      else if sp_SendTries p = 0 then Some (False, p, w)
      else do {
        let p = p\<lparr>sp_SendTries := sp_SendTries p - 1\<rparr>;
        assert (sp_BufPtr p \<ge> MAX_LENGTH_FIXED_HEADER);
        let nRemainingLength = sp_BufPtr p - MAX_LENGTH_FIXED_HEADER;
        EncodedLength \<leftarrow> encode_length nRemainingLength [];
        let nLengthBytes = length EncodedLength;
        assert (nLengthBytes > 0);
        assert (nLengthBytes < MAX_LENGTH_FIXED_HEADER - 1);
        buf \<leftarrow> sp_Buffer p;
        buf \<leftarrow> put_block buf (MAX_LENGTH_FIXED_HEADER - nLengthBytes) EncodedLength;
        buf \<leftarrow> put_at buf (MAX_LENGTH_FIXED_HEADER - nLengthBytes - 1)
                  (control_byte (sp_Type p) (sp_Flags p));
        let p = p\<lparr>sp_Buffer := Some buf\<rparr>;
        let nSendLength = 1 + nLengthBytes + nRemainingLength;
        data \<leftarrow> get_block buf (MAX_LENGTH_FIXED_HEADER - nLengthBytes - 1) nSendLength;
        let (nResult, w') = sock_Send C data True w;
        Some (nResult = int nSendLength, p, w')
      })"

text \<open>The accessors used by the retransmission queue.\<close>

definition SetScheduledTime :: "mqtt_send_packet \<Rightarrow> u32 \<Rightarrow> mqtt_send_packet" where
  "SetScheduledTime p nTime = p\<lparr>sp_ScheduledTime := nTime\<rparr>"

definition SetQoS :: "mqtt_send_packet \<Rightarrow> u8 \<Rightarrow> mqtt_send_packet" where
  "SetQoS p uchQoS = p\<lparr>sp_QoS := uchQoS\<rparr>"

definition SetPacketIdentifier :: "mqtt_send_packet \<Rightarrow> u16 \<Rightarrow> mqtt_send_packet" where
  "SetPacketIdentifier p usPacketIdentifier = p\<lparr>sp_PacketIdentifier := usPacketIdentifier\<rparr>"

subsection \<open>Invariant and abstract payload\<close>

definition sp_wf :: "mqtt_send_packet \<Rightarrow> bool" where
  "sp_wf p \<longleftrightarrow>
     128 \<le> sp_MaxPacketSize p \<and> sp_MaxPacketSize p < 2 ^ 31 \<and>
     MAX_LENGTH_FIXED_HEADER \<le> sp_BufPtr p \<and> sp_BufPtr p \<le> sp_MaxPacketSize p \<and>
     sp_Flags p \<le> 0x0F \<and> sp_SendTries p \<le> MQTT_SEND_TRIES \<and>
     (case sp_Buffer p of None \<Rightarrow> sp_Error p | Some b \<Rightarrow> length b = sp_MaxPacketSize p)"

definition sp_payload :: "mqtt_send_packet \<Rightarrow> u8 list" where
  "sp_payload p = (case sp_Buffer p of None \<Rightarrow> []
     | Some b \<Rightarrow> drop MAX_LENGTH_FIXED_HEADER (take (sp_BufPtr p) b))"

definition sp_room :: "mqtt_send_packet \<Rightarrow> nat" where
  "sp_room p = sp_MaxPacketSize p - sp_BufPtr p"

text \<open>Appending as the class promises it: concatenation, or the sticky error flag.\<close>

definition sp_extend :: "mqtt_send_packet \<Rightarrow> u8 list \<Rightarrow> mqtt_send_packet" where
  "sp_extend p bs = p\<lparr>
     sp_Buffer := map_option
       (\<lambda>b. take (sp_BufPtr p) b @ bs @ drop (sp_BufPtr p + length bs) b) (sp_Buffer p),
     sp_BufPtr := sp_BufPtr p + length bs\<rparr>"

definition sp_put :: "mqtt_send_packet \<Rightarrow> u8 list \<Rightarrow> mqtt_send_packet" where
  "sp_put p bs =
     (if sp_Error p then p
      else if length bs \<le> sp_room p then sp_extend p bs
      else p\<lparr>sp_Error := True\<rparr>)"

lemma sp_wfD:
  assumes "sp_wf p"
  shows "128 \<le> sp_MaxPacketSize p" "sp_MaxPacketSize p < 2 ^ 31"
    "5 \<le> sp_BufPtr p" "sp_BufPtr p \<le> sp_MaxPacketSize p" "sp_Flags p \<le> 0x0F"
  using assms by (auto simp: sp_wf_def MAX_LENGTH_FIXED_HEADER_def)

lemma sp_wf_buffer:
  assumes "sp_wf p" "\<not> sp_Error p"
  obtains b where "sp_Buffer p = Some b" "length b = sp_MaxPacketSize p"
  using assms by (auto simp: sp_wf_def split: option.splits)

lemma sp_payload_length:
  assumes "sp_wf p" "\<not> sp_Error p"
  shows "length (sp_payload p) = sp_BufPtr p - 5"
proof -
  obtain b where "sp_Buffer p = Some b" "length b = sp_MaxPacketSize p"
    using assms by (rule sp_wf_buffer)
  with sp_wfD [OF assms(1)] show ?thesis
    by (simp add: sp_payload_def MAX_LENGTH_FIXED_HEADER_def)
qed

lemma sp_extend_fields [simp]:
  "sp_Type (sp_extend p bs) = sp_Type p" "sp_Error (sp_extend p bs) = sp_Error p"
  "sp_MaxPacketSize (sp_extend p bs) = sp_MaxPacketSize p" "sp_Flags (sp_extend p bs) = sp_Flags p"
  "sp_SendTries (sp_extend p bs) = sp_SendTries p" "sp_QoS (sp_extend p bs) = sp_QoS p"
  "sp_BufPtr (sp_extend p bs) = sp_BufPtr p + length bs"
  "sp_PacketIdentifier (sp_extend p bs) = sp_PacketIdentifier p"
  by (simp_all add: sp_extend_def)

lemma sp_wf_extend:
  assumes "sp_wf p" "length bs \<le> sp_room p"
  shows "sp_wf (sp_extend p bs)"
  using assms by (auto simp: sp_wf_def sp_extend_def sp_room_def split: option.splits)

lemma sp_payload_extend:
  assumes "sp_wf p" "\<not> sp_Error p" "length bs \<le> sp_room p"
  shows "sp_payload (sp_extend p bs) = sp_payload p @ bs"
proof -
  obtain b where "sp_Buffer p = Some b" "length b = sp_MaxPacketSize p"
    using assms(1,2) by (rule sp_wf_buffer)
  with sp_wfD [OF assms(1)] assms(3) show ?thesis
    by (simp add: sp_payload_def sp_extend_def sp_room_def MAX_LENGTH_FIXED_HEADER_def
        min_absorb1)
qed

lemma sp_extend_Nil [simp]: "sp_extend p [] = p"
  by (cases p) (simp add: sp_extend_def option.map_ident)

lemma sp_extend_append:
  assumes "sp_wf p" "length xs + length ys \<le> sp_room p"
  shows "sp_extend (sp_extend p xs) ys = sp_extend p (xs @ ys)"
  using assms
  by (auto simp: sp_extend_def sp_wf_def sp_room_def ac_simps option.map_comp comp_def
      split: option.splits intro!: mqtt_send_packet.fold_congs)

lemma sp_room_extend: "sp_room (sp_extend p bs) = sp_room p - length bs"
  by (simp add: sp_room_def)

subsection \<open>The append operations refine \<open>sp_put\<close>\<close>

lemma store_byte_extend:
  assumes "sp_wf p" "\<not> sp_Error p" "1 \<le> sp_room p"
  shows "store_byte p v = Some (sp_extend p [v])"
proof -
  obtain b where "sp_Buffer p = Some b" "length b = sp_MaxPacketSize p"
    using assms(1,2) by (rule sp_wf_buffer)
  with sp_wfD [OF assms(1)] assms(3) show ?thesis
    by (simp add: store_byte_def sp_extend_def sp_room_def buf_simps upd_conv_take_nth_drop)
qed

lemma store_block_extend:
  assumes "sp_wf p" "\<not> sp_Error p" "length bs \<le> sp_room p"
  shows "store_block p bs = Some (sp_extend p bs)"
proof -
  obtain b where "sp_Buffer p = Some b" "length b = sp_MaxPacketSize p"
    using assms(1,2) by (rule sp_wf_buffer)
  with sp_wfD [OF assms(1)] assms(3) show ?thesis
    by (simp add: store_block_def sp_extend_def sp_room_def buf_simps)
qed

lemma AppendByte_put:
  assumes "sp_wf p"
  shows "AppendByte p v = Some (sp_put p [v])"
  using assms sp_wfD [OF assms]
  by (auto simp: AppendByte_def sp_put_def store_byte_extend sp_room_def)

lemma AppendWord_put:
  assumes "sp_wf p"
  shows "AppendWord p v = Some (sp_put p [hi8 v, lo8 v])"
proof (cases "sp_Error p \<or> sp_room p < 2")
  case True
  then show ?thesis
    using sp_wfD [OF assms] by (auto simp: AppendWord_def sp_put_def sp_room_def)
next
  case False
  then have "\<not> sp_Error p" "2 \<le> sp_room p" by auto
  then show ?thesis
    using sp_wfD [OF assms] assms
    by (simp add: AppendWord_def sp_put_def store_byte_extend sp_wf_extend sp_room_extend
        sp_extend_append) (simp add: sp_room_def)
qed

text \<open>A C string goes out with its 16-bit length in front.\<close>

definition mqtt_string :: "cstring \<Rightarrow> u8 list" where
  "mqtt_string s = of_nat (length s div 256) # (of_nat (length s) AND 0xFF) # s"

lemma mqtt_string_length [simp]: "length (mqtt_string s) = length s + 2"
  by (simp add: mqtt_string_def)

lemma hi8_of_nat: "hi8 (of_nat n) = of_nat (n div 256)"
proof -
  have "unat (drop_bit 8 (of_nat n :: u16)) = n mod 2 ^ 16 div 256"
    by (simp add: unat_drop_bit_eq drop_bit_eq_div unat_of_nat unat_div_distrib)
  then have "unat (hi8 (of_nat n)) = n mod 2 ^ 16 div 256 mod 256"
    by (simp add: hi8_def unsigned_ucast_eq take_bit_eq_mod)
  also have "n mod 2 ^ 16 = 256 * (n div 256 mod 256) + n mod 256"
    using mod_mult2_eq [of n 256 256] by simp
  also have "\<dots> div 256 mod 256 = n div 256 mod 256" by simp
  finally show ?thesis by (simp add: word_unat_eq_iff unat_of_nat)
qed

lemma lo8_of_nat: "lo8 (of_nat n) = of_nat n AND 0xFF"
proof -
  have m: "(0xFF :: u8) = - 1" by simp
  have "lo8 (of_nat n) = (of_nat n :: u8)"
    by (rule bit_word_eqI) (auto simp: lo8_def mask8_u16 bit_simps)
  then show ?thesis by (simp only: m and.right_neutral)
qed

text \<open>The two bytes in front are the length as a 16-bit big-endian field.\<close>

lemma mqtt_string_fields:
  "mqtt_string s = hi8 (of_nat (length s)) # lo8 (of_nat (length s)) # s"
  by (simp add: mqtt_string_def hi8_of_nat lo8_of_nat)

lemma AppendString_put:
  assumes "sp_wf p" "length s + 2 < 2 ^ 31"
  shows "AppendString p s = Some (sp_put p (mqtt_string s))"
proof (cases "sp_Error p \<or> sp_room p < length s + 2")
  case True
  then show ?thesis
    using sp_wfD [OF assms(1)] assms(2)
    by (auto simp: AppendString_def sp_put_def Let_def sp_room_def mqtt_string_def)
next
  case False
  let ?h = "of_nat (length s div 256) :: u8" and ?l = "of_nat (length s) AND 0xFF :: u8"
  from False have e: "\<not> sp_Error p" and r: "length s + 2 \<le> sp_room p" by auto
  have 1: "store_byte p ?h = Some (sp_extend p [?h])"
    using assms(1) e r by (simp add: store_byte_extend)
  have 2: "store_byte (sp_extend p [?h]) ?l = Some (sp_extend p [?h, ?l])"
    using assms(1) e r
    by (simp add: store_byte_extend sp_wf_extend sp_room_extend sp_extend_append)
  have 3: "(if s \<noteq> [] then store_block (sp_extend p [?h, ?l]) s else Some (sp_extend p [?h, ?l])) =
      Some (sp_extend p (mqtt_string s))"
    using assms(1) e r
    by (simp add: store_block_extend sp_wf_extend sp_room_extend sp_extend_append mqtt_string_def)
  have "\<not> wrap32 (sp_BufPtr p + length s + 2) > sp_MaxPacketSize p"
    using sp_wfD [OF assms(1)] r assms(2) by (simp add: sp_room_def)
  with e r 1 2 3 show ?thesis
    by (auto simp: AppendString_def sp_put_def Let_def)
qed

lemma AppendData_put:
  assumes "sp_wf p" "length bs < 2 ^ 31"
  shows "AppendData p bs = Some (sp_put p bs)"
  using assms sp_wfD [OF assms(1)]
  by (auto simp: AppendData_def sp_put_def Let_def store_block_extend sp_room_def)

subsection \<open>The remaining length\<close>

text \<open>
  The variable-length encoding of the protocol, seven bits per byte, least significant first, as a
  plain recursive function, and its value.
\<close>

fun enc_len :: "nat \<Rightarrow> u8 list" where
  "enc_len n = (if n < 128 then [of_nat n] else (of_nat (n mod 128) OR 0x80) # enc_len (n div 128))"

declare enc_len.simps [simp del]

fun dec_len :: "u8 list \<Rightarrow> nat" where
  "dec_len [] = 0"
| "dec_len (b # bs) = unat (b AND 0x7F) + 128 * dec_len bs"

lemma mask7_u8: "(0x7F :: u8) = mask 7"
  by (simp add: mask_eq_exp_minus_1)

lemma unat_and_7F: "unat ((b :: u8) AND 0x7F) = unat b mod 128"
  by (simp add: mask7_u8 unsigned_take_bit_eq take_bit_nat_def flip: take_bit_eq_mask)

lemma of_nat_and_7F: "(of_nat n AND 0x7F :: u8) = of_nat (n mod 128)"
  by (rule word_unat_eq_iff [THEN iffD2]) (simp add: unat_and_7F unat_of_nat mod_mod_cancel)

lemma low7_or_80:
  assumes "k < 128"
  shows "(of_nat k OR 0x80 :: u8) AND 0x7F = of_nat k" "(of_nat k OR 0x80 :: u8) AND 0x80 \<noteq> 0"
proof -
  have k: "(of_nat k :: u8) AND 0x7F = of_nat k"
    using assms by (simp add: of_nat_and_7F)
  show "(of_nat k OR 0x80 :: u8) AND 0x7F = of_nat k"
    by (simp add: bit.conj_disj_distrib2 k)
  have "bit ((of_nat k OR 0x80 :: u8) AND 0x80) 7"
    by (simp add: bit_simps)
  then show "(of_nat k OR 0x80 :: u8) AND 0x80 \<noteq> 0"
    by auto
qed

lemma low7_no_80:
  assumes "k < 128"
  shows "(of_nat k :: u8) AND 0x80 = 0"
proof -
  have k: "(of_nat k :: u8) AND 0x7F = of_nat k"
    using assms by (simp add: of_nat_and_7F)
  have "(of_nat k :: u8) AND 0x80 = (of_nat k AND 0x7F) AND 0x80"
    by (simp only: k)
  also have "\<dots> = 0"
    by (simp only: and.assoc) simp
  finally show ?thesis .
qed

lemma enc_len_nonempty [simp]: "enc_len n \<noteq> []"
  by (subst enc_len.simps) simp

lemma dec_enc_len: "dec_len (enc_len n) = n"
proof (induction n rule: enc_len.induct)
  case (1 n)
  show ?case
  proof (cases "n < 128")
    case True
    then show ?thesis
      by (simp add: enc_len.simps [of n] of_nat_and_7F unat_of_nat)
  next
    case False
    with 1 show ?thesis
      by (simp add: enc_len.simps [of n] low7_or_80 unat_of_nat)
  qed
qed

lemma enc_len_length: "(length (enc_len n) \<le> Suc k) = (n < 128 ^ Suc k)"
proof (induction k arbitrary: n)
  case 0
  then show ?case by (subst enc_len.simps) simp
next
  case (Suc k)
  show ?case
  proof (cases "n < 128")
    case True
    then have "n < 128 ^ Suc (Suc k)"
      by (rule less_le_trans) simp
    with True show ?thesis by (simp add: enc_len.simps [of n])
  next
    case False
    then show ?thesis
      using Suc.IH [of "n div 128"]
      by (simp add: enc_len.simps [of n] div_less_iff_less_mult mult.commute)
  qed
qed

lemma encode_length_enc:
  "encode_length n acc =
     (if length acc + length (enc_len n) \<le> 4 then Some (acc @ enc_len n) else None)"
proof (induction n acc rule: encode_length.induct)
  case (1 n acc)
  show ?case
  proof (cases "n < 128")
    case True
    then show ?thesis
      by (simp add: encode_length.simps [of n] enc_len.simps [of n] of_nat_and_7F)
  next
    case False
    then have d: "0 < n div 128" by (simp add: div_greater_zero_iff)
    with False show ?thesis
      using "1.IH" [OF refl refl refl]
      by (simp add: encode_length.simps [of n] enc_len.simps [of n] of_nat_and_7F Let_def)
  qed
qed

subsection \<open>Transmission\<close>

definition sp_frame :: "mqtt_send_packet \<Rightarrow> u8 list" where
  "sp_frame p = control_byte (sp_Type p) (sp_Flags p) #
     enc_len (length (sp_payload p)) @ sp_payload p"

lemma sp_frame_buffer:
  assumes "sp_Buffer p = Some b" "length b = sp_MaxPacketSize p" "sp_wf p" "n = length e"
    "0 < n" "n < 5"
  shows "take (1 + n + (sp_BufPtr p - 5))
      (drop (5 - n - 1) ((take (5 - n) b @ e @ drop 5 b)[5 - n - 1 := c])) =
    c # e @ sp_payload p"
proof -
  have l: "5 \<le> length b" "sp_BufPtr p \<le> length b" "5 \<le> sp_BufPtr p"
    using assms(2) sp_wfD [OF assms(3)] by auto
  have less: "4 - n < 5 - n" using assms(6) by simp
  have "drop (5 - n - 1) ((take (5 - n) b @ e @ drop 5 b)[5 - n - 1 := c]) = c # e @ drop 5 b"
    using l assms(4-6) less by (simp add: drop_update_swap list_update_append drop_take
        flip: Cons_nth_drop_Suc)
  moreover have "take (sp_BufPtr p - 5) (drop 5 b) = sp_payload p"
    using assms(1) by (simp add: sp_payload_def MAX_LENGTH_FIXED_HEADER_def drop_take)
  ultimately show ?thesis
    using assms(4) by simp
qed

text \<open>Transmission changes only the header area of the buffer and the number of tries left.\<close>

definition sp_same :: "mqtt_send_packet \<Rightarrow> mqtt_send_packet \<Rightarrow> bool" where
  "sp_same p q \<longleftrightarrow> sp_payload q = sp_payload p \<and>
     (\<exists>b n. q = p\<lparr>sp_SendTries := n, sp_Buffer := b\<rparr>)"

lemma sp_sameD:
  assumes "sp_same p q"
  shows "sp_Type q = sp_Type p" "sp_Flags q = sp_Flags p" "sp_payload q = sp_payload p"
    "sp_QoS q = sp_QoS p" "sp_PacketIdentifier q = sp_PacketIdentifier p"
    "sp_ScheduledTime q = sp_ScheduledTime p" "sp_Error q = sp_Error p"
    "sp_MaxPacketSize q = sp_MaxPacketSize p" "sp_BufPtr q = sp_BufPtr p"
  using assms by (auto simp: sp_same_def)

lemma sp_same_refl [simp]: "sp_same p p"
proof -
  have "p = p\<lparr>sp_SendTries := sp_SendTries p, sp_Buffer := sp_Buffer p\<rparr>" by simp
  then show ?thesis unfolding sp_same_def by blast
qed

lemma Send_step:
  assumes wf: "sp_wf p" and e: "\<not> sp_Error p" and t: "0 < sp_SendTries p"
    and small: "length (sp_payload p) < 2 ^ 21"
    and send: "sock_Send C (sp_frame p) True w = (r, w')"
  shows "\<exists>q. Send C p w = Some (r = int (length (sp_frame p)), q, w') \<and> sp_wf q \<and> sp_same p q \<and>
           sp_SendTries q = sp_SendTries p - 1"
proof -
  obtain b where b: "sp_Buffer p = Some b" "length b = sp_MaxPacketSize p"
    using wf e by (rule sp_wf_buffer)
  let ?n = "sp_BufPtr p - 5" and ?c = "control_byte (sp_Type p) (sp_Flags p)"
  let ?e = "enc_len ?n"
  let ?b = "(take (5 - length ?e) b @ ?e @ drop 5 b)[5 - length ?e - 1 := ?c]"
  let ?q = "p\<lparr>sp_SendTries := sp_SendTries p - 1, sp_Buffer := Some ?b\<rparr>"
  have n: "length (sp_payload p) = ?n"
    using wf e by (rule sp_payload_length)
  then have le: "length ?e \<le> 3" "0 < length ?e"
    using small enc_len_length [of ?n 2] by simp_all
  have lb: "5 \<le> length b" "sp_BufPtr p \<le> length b" "5 \<le> sp_BufPtr p"
    using b sp_wfD [OF wf] by auto
  have lb': "length ?b = length b"
    using lb le by simp
  have frame: "take (1 + length ?e + ?n) (drop (5 - length ?e - 1) ?b) = sp_frame p"
    using sp_frame_buffer [OF b wf refl, of ?e ?c] le by (simp add: sp_frame_def n)
  have len: "length (sp_frame p) = 1 + length ?e + ?n"
    by (simp add: sp_frame_def n)
  have enc: "encode_length ?n [] = Some ?e"
    using le by (simp add: encode_length_enc)
  have blk: "put_block b (5 - length ?e) ?e = Some (take (5 - length ?e) b @ ?e @ drop 5 b)"
    using lb le by (subst put_block_in) auto
  have ctl: "put_at (take (5 - length ?e) b @ ?e @ drop 5 b) (5 - length ?e - 1) ?c = Some ?b"
    using lb le by (subst put_at_in) auto
  have get: "get_block ?b (5 - length ?e - 1) (1 + length ?e + ?n) = Some (sp_frame p)"
    using lb le lb' frame by (subst get_block_in) auto
  have "Send C p w = Some (r = int (length (sp_frame p)), ?q, w')"
    using e t b le lb enc blk ctl get send unfolding Send_def MAX_LENGTH_FIXED_HEADER_def len
    by (simp add: Let_def)
  moreover have "sp_payload ?q = sp_payload p"
    using b lb le by (simp add: sp_payload_def MAX_LENGTH_FIXED_HEADER_def drop_take)
  then have "sp_same p ?q"
    unfolding sp_same_def by blast
  moreover have "sp_wf ?q"
    using wf b lb' by (auto simp: sp_wf_def)
  ultimately show ?thesis
    by (intro exI [of _ ?q]) simp
qed

end
