(* ===== verification/Mqtt_Receive_Packet.thy ===== *)
theory Mqtt_Receive_Packet
  imports Mqtt_Send_Packet
begin

text \<open>
  The class \<open>CMQTTReceivePacket\<close> (\<open>include/circle-mbedtls/mqttreceivepacket.h\<close>,
  \<open>src/circle-mbedtls/mqttreceivepacket.cpp\<close>): reassembly of packets from the byte
  stream of the socket, the basic validity checks, and the field readers.

  The lemmas show that a receive step stays inside the buffer whatever the peer sends, that the
  outcome of a step depends only on the bytes collected so far, and that a frame produced by
  \<open>CMQTTSendPacket\<close> is recognised, in whatever pieces it arrives.
\<close>

datatype receive_status =
    MQTTReceiveContinue | MQTTReceivePacketOK | MQTTReceivePacketInvalid | MQTTReceiveDisconnect
  | MQTTReceiveNotEnoughMemory | MQTTReceiveUnknown

record mqtt_receive_packet =
  rp_BufferSize :: nat
  rp_Buffer :: "u8 list option"
  rp_InPtr :: nat
  rp_OutPtr :: nat
  rp_Type :: packet_type
  rp_Flags :: u8
  rp_RemainingLength :: nat
  rp_BytesConsumed :: nat

definition CMQTTReceivePacket_new ::
  "('w, 'x) circle_scheme \<Rightarrow> mqtt_receive_packet \<Rightarrow> nat \<Rightarrow> nat \<Rightarrow> 'w \<Rightarrow>
     (mqtt_receive_packet \<times> 'w) option" where
  "CMQTTReceivePacket_new C mem nMaxPacketSize nMaxPacketsQueued w = do {
     let n = wrap32 (nMaxPacketSize * nMaxPacketsQueued + FRAME_BUFFER_SIZE C);
     assert (nMaxPacketSize \<ge> 128);
     assert (nMaxPacketsQueued \<ge> 1);
     let (buf, w') = heap_new C n w;
     Some (mem\<lparr>rp_BufferSize := n, rp_InPtr := 0, rp_Buffer := buf\<rparr>, w')
   }"

definition CMQTTReceivePacket_delete :: "mqtt_receive_packet \<Rightarrow> mqtt_receive_packet" where
  "CMQTTReceivePacket_delete p = p\<lparr>rp_Buffer := None\<rparr>"

definition Reset :: "mqtt_receive_packet \<Rightarrow> mqtt_receive_packet" where
  "Reset p = p\<lparr>rp_InPtr := 0\<rparr>"

text \<open>The loop of \<open>Complete\<close> that moves the rest of the stream to the front.\<close>

function move_front :: "u8 list \<Rightarrow> nat \<Rightarrow> nat \<Rightarrow> nat \<Rightarrow> (u8 list \<times> nat) option" where
  "move_front buf i nOutPtr nInPtr =
     (if nInPtr > nOutPtr
      then do {
        v \<leftarrow> get_at buf nOutPtr;
        buf' \<leftarrow> put_at buf i v;
        move_front buf' (i + 1) (nOutPtr + 1) nInPtr
      }
      else Some (buf, i))"
  by pat_completeness auto
termination by (relation "measure (\<lambda>(buf, i, out, inp). inp - out)") auto

declare move_front.simps [simp del]

definition Complete :: "mqtt_receive_packet \<Rightarrow> mqtt_receive_packet option" where
  "Complete p = do {
     assert (rp_InPtr p \<ge> rp_OutPtr p);
     buf \<leftarrow> rp_Buffer p;
     (buf', i) \<leftarrow> move_front buf 0 (rp_OutPtr p) (rp_InPtr p);
     Some (p\<lparr>rp_Buffer := Some buf', rp_OutPtr := max (rp_OutPtr p) (rp_InPtr p), rp_InPtr := i\<rparr>)
   }"

text \<open>
  The loop of \<open>Receive\<close> that decodes the remaining length. It returns the final
  \<open>m_nOutPtr\<close> and either the status of an early return or the length.
\<close>

function decode_remaining ::
  "u8 list \<Rightarrow> nat \<Rightarrow> nat \<Rightarrow> nat \<Rightarrow> nat \<Rightarrow> (nat \<times> (receive_status + nat)) option" where
  "decode_remaining buf nInPtr nOutPtr nShift nRemainingLength =
     (if nShift > 7 * 3 then Some (nOutPtr, Inl MQTTReceivePacketInvalid)
      else if nInPtr \<le> nOutPtr then Some (nOutPtr, Inl MQTTReceiveContinue)
      else do {
        uchByte \<leftarrow> get_at buf nOutPtr;
        if uchByte = 0 \<and> nOutPtr > 1 then Some (nOutPtr, Inl MQTTReceivePacketInvalid)
        else
          let nRemainingLength' = wrap32 (nRemainingLength + unat (uchByte AND 0x7F) * 2 ^ nShift)
          in if uchByte AND 0x80 \<noteq> 0
             then decode_remaining buf nInPtr (nOutPtr + 1) (nShift + 7) nRemainingLength'
             else Some (nOutPtr + 1, Inr nRemainingLength')
      })"
  by pat_completeness auto
termination by (relation "measure (\<lambda>(buf, inp, out, sh, len). 28 - sh)") auto

declare decode_remaining.simps [simp del]

text \<open>The \<open>switch\<close> with the basic checks on the received packet.\<close>

definition basic_checks :: "packet_type \<Rightarrow> u8 \<Rightarrow> nat \<Rightarrow> receive_status" where
  "basic_checks Type uchFlags nRemainingLength =
     (case Type of
        MQTTConnAck \<Rightarrow> if uchFlags \<noteq> 0 \<or> nRemainingLength \<noteq> 2
                       then MQTTReceivePacketInvalid else MQTTReceivePacketOK
      | MQTTPublish \<Rightarrow>
          (let uchQoS = drop_bit MQTT_FLAG_QOS_SHIFT (uchFlags AND MQTT_FLAG_QOS_MASK)
           in if uchQoS > MQTT_QOS_EXACTLY_ONCE \<or> nRemainingLength < (if uchQoS = 0 then 3 else 5)
              then MQTTReceivePacketInvalid else MQTTReceivePacketOK)
      | MQTTPubAck \<Rightarrow> if uchFlags \<noteq> 0 \<or> nRemainingLength \<noteq> 2
                      then MQTTReceivePacketInvalid else MQTTReceivePacketOK
      | MQTTPubRec \<Rightarrow> if uchFlags \<noteq> 0 \<or> nRemainingLength \<noteq> 2
                      then MQTTReceivePacketInvalid else MQTTReceivePacketOK
      | MQTTPubComp \<Rightarrow> if uchFlags \<noteq> 0 \<or> nRemainingLength \<noteq> 2
                      then MQTTReceivePacketInvalid else MQTTReceivePacketOK
      | MQTTUnsubAck \<Rightarrow> if uchFlags \<noteq> 0 \<or> nRemainingLength \<noteq> 2
                      then MQTTReceivePacketInvalid else MQTTReceivePacketOK
      | MQTTPubRel \<Rightarrow> if uchFlags \<noteq> push_bit 1 1 \<or> nRemainingLength \<noteq> 2
                      then MQTTReceivePacketInvalid else MQTTReceivePacketOK
      | MQTTSubAck \<Rightarrow> if uchFlags \<noteq> 0 \<or> nRemainingLength < 3
                      then MQTTReceivePacketInvalid else MQTTReceivePacketOK
      | MQTTPingResp \<Rightarrow> if uchFlags \<noteq> 0 \<or> nRemainingLength \<noteq> 0
                      then MQTTReceivePacketInvalid else MQTTReceivePacketOK
      | _ \<Rightarrow> MQTTReceivePacketInvalid)"

text \<open>What \<open>Receive\<close> does once the bytes are in the buffer.\<close>

definition parse_buffer :: "mqtt_receive_packet \<Rightarrow> (receive_status \<times> mqtt_receive_packet) option" where
  "parse_buffer p = do {
     buf \<leftarrow> rp_Buffer p;
     let p = p\<lparr>rp_OutPtr := 1\<rparr>;
     (nOutPtr, res) \<leftarrow> decode_remaining buf (rp_InPtr p) 1 0 0;
     let p = p\<lparr>rp_OutPtr := nOutPtr\<rparr>;
     case res of
       Inl status \<Rightarrow> Some (status, p)
     | Inr nRemainingLength \<Rightarrow>
         if rp_InPtr p < wrap32 (rp_OutPtr p + nRemainingLength)
         then Some (MQTTReceiveContinue, p)
         else do {
           b0 \<leftarrow> get_at buf 0;
           let p = p\<lparr>rp_Type := type_of_byte b0, rp_Flags := b0 AND 0x0F,
                     rp_RemainingLength := nRemainingLength, rp_BytesConsumed := 0\<rparr>;
           Some (basic_checks (rp_Type p) (rp_Flags p) nRemainingLength, p)
         }
   }"

definition Receive ::
  "('w, 'x) circle_scheme \<Rightarrow> mqtt_receive_packet \<Rightarrow> 'w \<Rightarrow>
     (receive_status \<times> mqtt_receive_packet \<times> 'w) option" where
  "Receive C p w =
     (case rp_Buffer p of
        None \<Rightarrow> Some (MQTTReceiveNotEnoughMemory, p, w)
      | Some buf \<Rightarrow>
          if rp_InPtr p > wrap32 (rp_BufferSize p + 2 ^ 32 - FRAME_BUFFER_SIZE C)
          then Some (MQTTReceiveNotEnoughMemory, p, w)
          else let ((nBytesReceived, bytes), w') = sock_Receive C (FRAME_BUFFER_SIZE C) True w in
          if nBytesReceived < 0 then Some (MQTTReceiveDisconnect, p, w')
          else do {
            buf' \<leftarrow> put_block buf (rp_InPtr p) bytes;
            (status, p') \<leftarrow> parse_buffer
               (p\<lparr>rp_Buffer := Some buf', rp_InPtr := wrap32 (rp_InPtr p + nat nBytesReceived)\<rparr>);
            Some (status, p', w')
          })"

text \<open>The field readers.\<close>

definition GetByte :: "mqtt_receive_packet \<Rightarrow> (u8 \<times> mqtt_receive_packet) option" where
  "GetByte p = do {
     let p = p\<lparr>rp_BytesConsumed := wrap32 (rp_BytesConsumed p + 1)\<rparr>;
     assert (rp_RemainingLength p \<ge> rp_BytesConsumed p);
     buf \<leftarrow> rp_Buffer p;
     v \<leftarrow> get_at buf (rp_OutPtr p);
     Some (v, p\<lparr>rp_OutPtr := rp_OutPtr p + 1\<rparr>)
   }"

definition GetWord :: "mqtt_receive_packet \<Rightarrow> (u16 \<times> mqtt_receive_packet) option" where
  "GetWord p = do {
     let p = p\<lparr>rp_BytesConsumed := wrap32 (rp_BytesConsumed p + 2)\<rparr>;
     assert (rp_RemainingLength p \<ge> rp_BytesConsumed p);
     buf \<leftarrow> rp_Buffer p;
     h \<leftarrow> get_at buf (rp_OutPtr p);
     l \<leftarrow> get_at buf (rp_OutPtr p + 1);
     Some (be16 h l, p\<lparr>rp_OutPtr := rp_OutPtr p + 2\<rparr>)
   }"

text \<open>
  The copy loop of \<open>GetString\<close>: \<open>n\<close> characters still to copy, the characters copied so
  far, which fill the front of the destination, an array of \<open>nSize\<close> characters. The Boolean is false
  if a character above \<open>0x7F\<close> ended the loop. The terminating zero needs a place, too.
\<close>

fun copy_chars :: "u8 list \<Rightarrow> nat \<Rightarrow> nat \<Rightarrow> nat \<Rightarrow> cstring \<Rightarrow> (bool \<times> nat \<times> cstring) option" where
  "copy_chars buf nSize nOutPtr 0 out = do { assert (length out < nSize); Some (True, nOutPtr, out) }"
| "copy_chars buf nSize nOutPtr (Suc n) out = do {
     chChar \<leftarrow> get_at buf nOutPtr;
     if chChar AND 0x80 \<noteq> 0 then Some (False, nOutPtr + 1, out)
     else do {
       assert (length out < nSize);
       copy_chars buf nSize (nOutPtr + 1) n (out @ [chChar])
     }
   }"

text \<open>
  The destination \<open>pBuffer\<close> is given by the size of the array it points to; a null pointer
  (\<open>None\<close>) has no place to write to.
\<close>

definition GetString ::
  "mqtt_receive_packet \<Rightarrow> nat option \<Rightarrow> nat \<Rightarrow> (nat \<times> cstring \<times> mqtt_receive_packet) option" where
  "GetString p pBuffer nBufferSize = do {
     (usLength, p) \<leftarrow> GetWord p;
     let p = p\<lparr>rp_BytesConsumed := wrap32 (rp_BytesConsumed p + unat usLength)\<rparr>;
     if rp_RemainingLength p < rp_BytesConsumed p then Some (0, [], p)
     else if unat usLength + 1 > nBufferSize then Some (0, [], p)
     else do {
       buf \<leftarrow> rp_Buffer p;
       (ok, nOutPtr, out) \<leftarrow> copy_chars buf (case pBuffer of None \<Rightarrow> 0 | Some n \<Rightarrow> n) (rp_OutPtr p) (unat usLength) [];
       Some (if ok then unat usLength else 0, out, p\<lparr>rp_OutPtr := nOutPtr\<rparr>)
     }
   }"

text \<open>\<open>GetData\<close> returns a pointer into the buffer; the model returns the bytes it points to.\<close>

definition GetData ::
  "mqtt_receive_packet \<Rightarrow> nat \<Rightarrow> (u8 list option \<times> mqtt_receive_packet) option" where
  "GetData p nLength = do {
     let p = p\<lparr>rp_BytesConsumed := wrap32 (rp_BytesConsumed p + nLength)\<rparr>;
     if rp_RemainingLength p < rp_BytesConsumed p then Some (None, p)
     else do {
       buf \<leftarrow> rp_Buffer p;
       data \<leftarrow> get_block buf (rp_OutPtr p) nLength;
       Some (Some data, p\<lparr>rp_OutPtr := rp_OutPtr p + nLength\<rparr>)
     }
   }"

subsection \<open>Invariant and abstract stream\<close>

definition rp_wf :: "('w, 'x) circle_scheme \<Rightarrow> mqtt_receive_packet \<Rightarrow> bool" where
  "rp_wf C p \<longleftrightarrow>
     FRAME_BUFFER_SIZE C \<le> rp_BufferSize p \<and> rp_BufferSize p < 2 ^ 31 \<and>
     rp_InPtr p \<le> rp_BufferSize p \<and>
     (case rp_Buffer p of None \<Rightarrow> True | Some b \<Rightarrow> length b = rp_BufferSize p)"

text \<open>The bytes received and not yet completed.\<close>

definition rp_stream :: "mqtt_receive_packet \<Rightarrow> u8 list" where
  "rp_stream p = (case rp_Buffer p of None \<Rightarrow> [] | Some b \<Rightarrow> take (rp_InPtr p) b)"

text \<open>A complete packet has been announced: its unread part lies inside the stream.\<close>

definition rp_ready :: "mqtt_receive_packet \<Rightarrow> bool" where
  "rp_ready p \<longleftrightarrow> rp_Buffer p \<noteq> None \<and> rp_RemainingLength p < 2 ^ 28 \<and>
     rp_BytesConsumed p \<le> rp_RemainingLength p \<and>
     rp_OutPtr p + (rp_RemainingLength p - rp_BytesConsumed p) \<le> rp_InPtr p"

definition rp_rest :: "mqtt_receive_packet \<Rightarrow> u8 list" where
  "rp_rest p = take (rp_RemainingLength p - rp_BytesConsumed p) (drop (rp_OutPtr p) (rp_stream p))"

lemma rp_wf_stream_length:
  assumes "rp_wf C p" "rp_Buffer p \<noteq> None"
  shows "length (rp_stream p) = rp_InPtr p"
  using assms by (auto simp: rp_wf_def rp_stream_def)

lemma rp_rest_length:
  assumes "rp_wf C p" "rp_ready p"
  shows "length (rp_rest p) = rp_RemainingLength p - rp_BytesConsumed p"
  using assms by (auto simp: rp_wf_def rp_ready_def rp_rest_def rp_stream_def)

lemma rp_ready_buffer:
  assumes "rp_wf C p" "rp_ready p"
  obtains b where "rp_Buffer p = Some b" "length b = rp_BufferSize p" "rp_InPtr p \<le> length b"
  using assms by (auto simp: rp_wf_def rp_ready_def)

lemma move_front_correct:
  "out \<le> inp \<Longrightarrow> inp \<le> length buf \<Longrightarrow> i \<le> out \<Longrightarrow>
     \<exists>buf'. move_front buf i out inp = Some (buf', i + (inp - out)) \<and> length buf' = length buf \<and>
       take (i + (inp - out)) buf' = take i buf @ drop out (take inp buf)"
proof (induction buf i out inp rule: move_front.induct)
  case (1 buf i out inp)
  show ?case
  proof (cases "inp > out")
    case False
    with "1.prems" show ?thesis
      by (simp add: move_front.simps [of buf])
  next
    case True
    let ?v = "buf ! out" and ?b = "buf[i := buf ! out]"
    have get: "get_at buf out = Some ?v" and put: "put_at buf i ?v = Some ?b"
      using True "1.prems" by (auto simp: buf_simps)
    obtain buf' where b': "move_front ?b (i + 1) (out + 1) inp = Some (buf', i + 1 + (inp - (out + 1)))"
      "length buf' = length ?b"
      "take (i + 1 + (inp - (out + 1))) buf' = take (i + 1) ?b @ drop (out + 1) (take inp ?b)"
      using "1.IH" [OF True get put] True "1.prems" by auto
    have i: "i + 1 + (inp - (out + 1)) = i + (inp - out)"
      using True by simp
    have "take (i + 1) ?b = take i buf @ [?v]"
      using "1.prems" True by (simp add: take_list_update_end)
    moreover have "drop (out + 1) (take inp ?b) = drop (out + 1) (take inp buf)"
      using "1.prems" by (simp add: take_update_swap)
    moreover have "drop out (take inp buf) = ?v # drop (out + 1) (take inp buf)"
      using True "1.prems" by (simp add: Cons_nth_drop_Suc [symmetric])
    ultimately show ?thesis
      using b' get put True unfolding i
      by (intro exI [of _ buf']) (simp add: move_front.simps [of buf])
  qed
qed

lemma Complete_stream:
  assumes "rp_wf C p" "rp_Buffer p \<noteq> None" "rp_OutPtr p \<le> rp_InPtr p"
  shows "\<exists>q. Complete p = Some q \<and> rp_wf C q \<and> rp_Buffer q \<noteq> None \<and>
           rp_stream q = drop (rp_OutPtr p) (rp_stream p)"
proof -
  obtain b where b: "rp_Buffer p = Some b" "length b = rp_BufferSize p" "rp_InPtr p \<le> length b"
    using assms by (auto simp: rp_wf_def)
  obtain b' where b': "move_front b 0 (rp_OutPtr p) (rp_InPtr p) = Some (b', rp_InPtr p - rp_OutPtr p)"
    "length b' = length b" "take (rp_InPtr p - rp_OutPtr p) b' = drop (rp_OutPtr p) (take (rp_InPtr p) b)"
    using move_front_correct [OF assms(3) b(3), of 0] by auto
  show ?thesis
    using assms b b' by (auto simp: Complete_def rp_wf_def rp_stream_def)
qed

subsection \<open>Decoding the remaining length\<close>

lemma unat_and_7F_less: "unat ((b :: u8) AND 0x7F) \<le> 127"
  by (simp add: unat_and_7F less_Suc_eq_le [symmetric])

lemma decode_step_bound:
  assumes "len < 2 ^ sh" "sh \<le> 21"
  shows "len + unat ((b :: u8) AND 0x7F) * 2 ^ sh < 2 ^ (sh + 7)"
    "len + unat ((b :: u8) AND 0x7F) * 2 ^ sh < 2 ^ 28"
proof -
  have "len + unat (b AND 0x7F) * 2 ^ sh < 2 ^ sh + 127 * 2 ^ sh"
    using assms(1) unat_and_7F_less [of b] by (intro add_less_le_mono) auto
  also have "\<dots> = 2 ^ (sh + 7)"
    by (simp add: power_add)
  finally show 1: "len + unat (b AND 0x7F) * 2 ^ sh < 2 ^ (sh + 7)" .
  also have "(2 :: nat) ^ (sh + 7) \<le> 2 ^ 28"
    using assms(2) by (intro power_increasing) auto
  finally show "len + unat (b AND 0x7F) * 2 ^ sh < 2 ^ 28" .
qed

lemma decode_remaining_safe:
  "inp \<le> length buf \<Longrightarrow> len < 2 ^ sh \<Longrightarrow>
     \<exists>out' res. decode_remaining buf inp out sh len = Some (out', res) \<and>
       (case res of Inl s \<Rightarrow> s \<in> {MQTTReceivePacketInvalid, MQTTReceiveContinue}
        | Inr n \<Rightarrow> out < out' \<and> out' \<le> inp \<and> n < 2 ^ 28)"
proof (induction buf inp out sh len rule: decode_remaining.induct)
  case (1 buf inp out sh len)
  show ?case
  proof (cases "sh > 7 * 3 \<or> inp \<le> out \<or> (buf ! out = 0 \<and> out > 1)")
    case True
    with "1.prems" show ?thesis
      by (auto simp: decode_remaining.simps [of buf] buf_simps)
  next
    case False
    then have c: "\<not> sh > 7 * 3" "\<not> inp \<le> out" "\<not> (buf ! out = 0 \<and> out > 1)" by auto
    let ?n = "len + unat (buf ! out AND 0x7F) * 2 ^ sh"
    have n: "?n < 2 ^ (sh + 7)" "?n < 2 ^ 28"
      using decode_step_bound [OF "1.prems"(2), of "buf ! out"] c by auto
    have get: "get_at buf out = Some (buf ! out)"
      using c "1.prems" by (simp add: buf_simps)
    have w: "wrap32 ?n = ?n" using n by simp
    show ?thesis
    proof (cases "buf ! out AND 0x80 = 0")
      case True
      then show ?thesis
        using c get n w by (simp add: decode_remaining.simps [of buf])
    next
      case False
      have step: "decode_remaining buf inp out sh len = decode_remaining buf inp (out + 1) (sh + 7) ?n"
        using c get w False by (subst decode_remaining.simps) (auto simp: Let_def)
      have "\<exists>out' res. decode_remaining buf inp (out + 1) (sh + 7) ?n = Some (out', res) \<and>
         (case res of Inl s \<Rightarrow> s \<in> {MQTTReceivePacketInvalid, MQTTReceiveContinue}
          | Inr n \<Rightarrow> out + 1 < out' \<and> out' \<le> inp \<and> n < 2 ^ 28)"
        using "1.IH" [OF c(1,2) get c(3) refl] False "1.prems"(1) n w by simp
      then obtain out' res where d: "decode_remaining buf inp (out + 1) (sh + 7) ?n = Some (out', res)"
        and k: "case res of Inl s \<Rightarrow> s \<in> {MQTTReceivePacketInvalid, MQTTReceiveContinue}
          | Inr n \<Rightarrow> out + 1 < out' \<and> out' \<le> inp \<and> n < 2 ^ 28"
        by blast
      show ?thesis
        unfolding step d using k by (cases res) auto
    qed
  qed
qed

text \<open>A well-formed length field is decoded to its value.\<close>

lemma decode_remaining_enc:
  "drop out (take inp buf) = enc_len n @ rest \<Longrightarrow> inp \<le> length buf \<Longrightarrow>
   sh + 7 * length (enc_len n) \<le> 28 \<Longrightarrow> len < 2 ^ sh \<Longrightarrow> (out > 1 \<Longrightarrow> n > 0) \<Longrightarrow>
   decode_remaining buf inp out sh len = Some (out + length (enc_len n), Inr (len + n * 2 ^ sh))"
proof (induction n arbitrary: out sh len rule: enc_len.induct)
  case (1 n)
  define b where "b = hd (enc_len n)"
  have hd: "out < inp" "buf ! out = b"
    "drop (Suc out) (take inp buf) = tl (enc_len n) @ rest"
  proof -
    have "drop out (take inp buf) = b # tl (enc_len n) @ rest"
      using "1.prems"(1) by (simp add: b_def)
    from drop_nth_Cons [OF this] show "out < inp" "buf ! out = b"
      "drop (Suc out) (take inp buf) = tl (enc_len n) @ rest"
      by auto
  qed
  have get: "get_at buf out = Some b"
    using hd "1.prems"(2) by (simp add: buf_simps)
  have sh: "sh \<le> 21"
    using "1.prems"(3) by (cases "enc_len n") auto
  have w: "wrap32 (len + unat (b AND 0x7F) * 2 ^ sh) = len + unat (b AND 0x7F) * 2 ^ sh"
    using decode_step_bound(2) [OF "1.prems"(4) sh, of b] by simp
  show ?case
  proof (cases "n < 128")
    case True
    then have b: "b = of_nat n" and e: "enc_len n = [of_nat n]"
      by (simp_all add: b_def enc_len.simps [of n])
    have "b AND 0x80 = 0" "unat (b AND 0x7F) = n"
      using True by (simp_all add: b low7_no_80 of_nat_and_7F unat_of_nat)
    moreover have "\<not> (b = 0 \<and> out > 1)"
      using "1.prems"(5) True by (auto simp: b word_unat_eq_iff unat_of_nat)
    ultimately show ?thesis
      using get hd sh w e by (subst decode_remaining.simps) (simp add: Let_def)
  next
    case False
    then have b: "b = of_nat (n mod 128) OR 0x80" and e: "enc_len n = b # enc_len (n div 128)"
      by (simp_all add: b_def enc_len.simps [of n])
    have b7: "b AND 0x80 \<noteq> 0" "unat (b AND 0x7F) = n mod 128"
      using low7_or_80 [of "n mod 128"] by (simp_all add: b unat_of_nat)
    then have "b \<noteq> 0" by auto
    let ?l = "len + (n mod 128) * 2 ^ sh"
    have step: "decode_remaining buf inp out sh len = decode_remaining buf inp (Suc out) (sh + 7) ?l"
      using get hd sh w b7 \<open>b \<noteq> 0\<close> by (subst decode_remaining.simps) (simp add: Let_def)
    have l: "?l < 2 ^ (sh + 7)"
      using decode_step_bound(1) [OF "1.prems"(4) sh, of b] b7 by simp
    have ih: "decode_remaining buf inp (Suc out) (sh + 7) ?l =
        Some (Suc out + length (enc_len (n div 128)), Inr (?l + n div 128 * 2 ^ (sh + 7)))"
      using False hd "1.prems"(2,3) l e
      by (intro "1.IH") (auto simp: div_greater_zero_iff)
    have "n * 2 ^ sh = (n div 128 * 128 + n mod 128) * 2 ^ sh"
      by (simp only: div_mult_mod_eq)
    also have "\<dots> = n mod 128 * 2 ^ sh + n div 128 * 2 ^ (sh + 7)"
      unfolding add_mult_distrib power_add by simp
    finally have "?l + n div 128 * 2 ^ (sh + 7) = len + n * 2 ^ sh" by simp
    with ih step e show ?thesis by simp
  qed
qed

subsection \<open>Receiving\<close>

lemma rp_free_space:
  assumes "rp_wf C p"
  shows "wrap32 (rp_BufferSize p + 2 ^ 32 - FRAME_BUFFER_SIZE C) = rp_BufferSize p - FRAME_BUFFER_SIZE C"
proof -
  obtain k where "rp_BufferSize p = FRAME_BUFFER_SIZE C + k"
    using assms by (auto simp: rp_wf_def dest!: le_Suc_ex)
  then show ?thesis
    using assms by (simp add: rp_wf_def)
qed

lemma basic_checks_range:
  "basic_checks t f n \<in> {MQTTReceivePacketOK, MQTTReceivePacketInvalid}"
  by (cases t) (simp_all add: basic_checks_def Let_def)

text \<open>
  Parsing what is in the buffer never leaves the buffer; a packet is announced only when all of it
  has arrived.
\<close>

lemma parse_buffer_safe:
  assumes wf: "rp_wf C p" and b: "rp_Buffer p = Some b"
  shows "\<exists>s q. parse_buffer p = Some (s, q) \<and> rp_wf C q \<and> rp_Buffer q = Some b \<and>
           rp_InPtr q = rp_InPtr p \<and>
           s \<in> {MQTTReceiveContinue, MQTTReceivePacketOK, MQTTReceivePacketInvalid} \<and>
           (s = MQTTReceivePacketOK \<longrightarrow> rp_ready q \<and> rp_BytesConsumed q = 0 \<and> 2 \<le> rp_OutPtr q \<and>
              basic_checks (rp_Type q) (rp_Flags q) (rp_RemainingLength q) = MQTTReceivePacketOK)"
proof -
  have len: "rp_InPtr p \<le> length b"
    using wf b by (simp add: rp_wf_def)
  obtain out res where d: "decode_remaining b (rp_InPtr p) 1 0 0 = Some (out, res)"
    and r: "case res of Inl s \<Rightarrow> s \<in> {MQTTReceivePacketInvalid, MQTTReceiveContinue}
        | Inr n \<Rightarrow> 1 < out \<and> out \<le> rp_InPtr p \<and> n < 2 ^ 28"
    using decode_remaining_safe [OF len, of 0 0 1] by auto
  show ?thesis
  proof (cases res)
    case (Inl s)
    with r d b wf show ?thesis
      by (auto simp: parse_buffer_def rp_wf_def)
  next
    case (Inr n)
    have w: "wrap32 (out + n) = out + n"
      using r Inr wf by (simp add: rp_wf_def)
    have "0 < length b" using r Inr len by (cases b) auto
    then show ?thesis
      using r Inr d b wf w basic_checks_range [of "type_of_byte (b ! 0)" "b ! 0 AND 0x0F" n]
      by (auto simp: parse_buffer_def rp_wf_def rp_ready_def get_at_def Let_def)
  qed
qed

lemma Receive_step:
  assumes contract: "circle_contract C" and wf: "rp_wf C p" and b: "rp_Buffer p = Some b"
    and room: "rp_InPtr p + FRAME_BUFFER_SIZE C \<le> rp_BufferSize p"
    and recv: "sock_Receive C (FRAME_BUFFER_SIZE C) True w = ((r, bs), w')" and r: "0 \<le> r"
  shows "\<exists>b'. rp_wf C (p\<lparr>rp_Buffer := Some b', rp_InPtr := rp_InPtr p + length bs\<rparr>) \<and>
           take (rp_InPtr p + length bs) b' = rp_stream p @ bs \<and>
           Receive C p w =
             map_option (\<lambda>(s, q). (s, q, w'))
               (parse_buffer (p\<lparr>rp_Buffer := Some b', rp_InPtr := rp_InPtr p + length bs\<rparr>))"
proof -
  have l: "length bs = nat r" "length bs \<le> FRAME_BUFFER_SIZE C"
    using circle_contract.recv_length [OF contract recv r] by auto
  let ?b = "take (rp_InPtr p) b @ bs @ drop (rp_InPtr p + length bs) b"
  have lb: "length b = rp_BufferSize p" using wf b by (simp add: rp_wf_def)
  have put: "put_block b (rp_InPtr p) bs = Some ?b"
    using lb room l by (simp add: buf_simps)
  have w: "wrap32 (rp_InPtr p + nat r) = rp_InPtr p + length bs"
    using wf room l by (simp add: rp_wf_def)
  have "rp_wf C (p\<lparr>rp_Buffer := Some ?b, rp_InPtr := rp_InPtr p + length bs\<rparr>)"
    using wf lb room l by (simp add: rp_wf_def)
  moreover have "take (rp_InPtr p + length bs) ?b = rp_stream p @ bs"
    using wf b lb room l by (simp add: rp_stream_def rp_wf_def min_absorb1)
  moreover have "Receive C p w = map_option (\<lambda>(s, q). (s, q, w'))
      (parse_buffer (p\<lparr>rp_Buffer := Some ?b, rp_InPtr := rp_InPtr p + length bs\<rparr>))"
    using b room recv r put w unfolding Receive_def rp_free_space [OF wf]
    by (auto simp: map_option_case split: option.splits)
  ultimately show ?thesis by blast
qed

lemma Receive_full:
  assumes wf: "rp_wf C p" and b: "rp_Buffer p = Some b"
    and room: "\<not> rp_InPtr p + FRAME_BUFFER_SIZE C \<le> rp_BufferSize p"
  shows "Receive C p w = Some (MQTTReceiveNotEnoughMemory, p, w)"
  using b room wf unfolding Receive_def rp_free_space [OF wf] by (auto simp: rp_wf_def)

lemma Receive_closed:
  assumes wf: "rp_wf C p" and b: "rp_Buffer p = Some b"
    and room: "rp_InPtr p + FRAME_BUFFER_SIZE C \<le> rp_BufferSize p"
    and recv: "sock_Receive C (FRAME_BUFFER_SIZE C) True w = ((r, bs), w')" and r: "r < 0"
  shows "Receive C p w = Some (MQTTReceiveDisconnect, p, w')"
  using b room recv r unfolding Receive_def rp_free_space [OF wf] by auto

subsection \<open>Frames\<close>

text \<open>A packet on the wire: control byte, remaining length, payload.\<close>

definition mqtt_frame :: "packet_type \<Rightarrow> u8 \<Rightarrow> u8 list \<Rightarrow> u8 list" where
  "mqtt_frame t f payload = control_byte t f # enc_len (length payload) @ payload"

lemma sp_frame_mqtt: "sp_frame p = mqtt_frame (sp_Type p) (sp_Flags p) (sp_payload p)"
  by (simp add: sp_frame_def mqtt_frame_def)

lemma enc_len_4: "n < 2 ^ 28 \<Longrightarrow> length (enc_len n) \<le> 4"
  using enc_len_length [of n 3] by simp

lemma parse_frame:
  assumes wf: "rp_wf C p" and b: "rp_Buffer p = Some b" and f: "f \<le> 0x0F"
    and small: "length payload < 2 ^ 28"
    and stream: "rp_stream p = mqtt_frame t f payload @ rest"
  shows "\<exists>q. parse_buffer p = Some (basic_checks t f (length payload), q) \<and>
     rp_wf C q \<and> rp_Buffer q = Some b \<and> rp_InPtr q = rp_InPtr p \<and>
     rp_Type q = t \<and> rp_Flags q = f \<and> rp_RemainingLength q = length payload \<and>
     rp_BytesConsumed q = 0 \<and> rp_ready q \<and> rp_rest q = payload \<and>
     drop (rp_OutPtr q + length payload) (rp_stream q) = rest"
proof -
  let ?n = "length payload" and ?e = "enc_len (length payload)"
  have s: "take (rp_InPtr p) b = control_byte t f # ?e @ payload @ rest"
    using stream b by (simp add: rp_stream_def mqtt_frame_def)
  have len: "rp_InPtr p \<le> length b" using wf b by (simp add: rp_wf_def)
  then have inp: "rp_InPtr p = 1 + length ?e + ?n + length rest"
    using arg_cong [OF s, of length] by simp
  have dec: "decode_remaining b (rp_InPtr p) 1 0 0 = Some (1 + length ?e, Inr ?n)"
    using decode_remaining_enc [of 1 "rp_InPtr p" b ?n "payload @ rest" 0 0] s len enc_len_4 [OF small]
    by simp
  have b0: "get_at b 0 = Some (control_byte t f)"
    using s inp len by (cases b) (auto simp: get_at_def)
  have w: "wrap32 (1 + length ?e + ?n) = 1 + length ?e + ?n"
    using small enc_len_4 [OF small] by simp
  let ?q = "p\<lparr>rp_OutPtr := 1 + length ?e, rp_Type := t, rp_Flags := f,
      rp_RemainingLength := ?n, rp_BytesConsumed := 0\<rparr>"
  have "parse_buffer p = Some (basic_checks t f ?n, ?q)"
    using b dec b0 w inp
    by (simp add: parse_buffer_def Let_def control_byte_type [OF f] control_byte_flags [OF f])
  moreover have "rp_ready ?q" "rp_wf C ?q"
    using wf b inp small by (auto simp: rp_ready_def rp_wf_def)
  moreover have "rp_stream ?q = control_byte t f # ?e @ payload @ rest"
    using b s by (simp add: rp_stream_def)
  then have "rp_rest ?q = payload" "drop (1 + length ?e + ?n) (rp_stream ?q) = rest"
    by (simp_all add: rp_rest_def)
  ultimately show ?thesis
    using b by (intro exI [of _ ?q]) simp
qed

lemma decode_remaining_short:
  "drop out (take inp buf) = take k (enc_len n) \<Longrightarrow> k < length (enc_len n) \<Longrightarrow> inp \<le> length buf \<Longrightarrow>
   out \<le> inp \<Longrightarrow> sh + 7 * length (enc_len n) \<le> 28 \<Longrightarrow> len < 2 ^ sh \<Longrightarrow>
   \<exists>out'. decode_remaining buf inp out sh len = Some (out', Inl MQTTReceiveContinue)"
proof (induction n arbitrary: k out sh len rule: enc_len.induct)
  case (1 n)
  have sh: "sh \<le> 21"
    using "1.prems"(5) by (cases "enc_len n") auto
  show ?case
  proof (cases k)
    case 0
    then have "inp \<le> out" using "1.prems" by simp
    with sh show ?thesis by (subst decode_remaining.simps) simp
  next
    case (Suc k')
    then have n: "\<not> n < 128"
      using "1.prems"(2) by (auto simp: enc_len.simps [of n] split: if_splits)
    define b where "b = (of_nat (n mod 128) OR 0x80 :: u8)"
    have e: "enc_len n = b # enc_len (n div 128)"
      using n by (simp add: b_def enc_len.simps [of n])
    have "drop out (take inp buf) = b # take k' (enc_len (n div 128))"
      using "1.prems"(1) Suc e by simp
    from drop_nth_Cons [OF this]
    have hd: "out < inp" "buf ! out = b" "drop (Suc out) (take inp buf) = take k' (enc_len (n div 128))"
      by auto
    have get: "get_at buf out = Some b"
      using hd "1.prems"(3) by (simp add: buf_simps)
    have b7: "b AND 0x80 \<noteq> 0"
      using low7_or_80(2) [of "n mod 128"] by (simp add: b_def)
    then have b0: "b \<noteq> 0" by auto
    let ?l = "len + unat (b AND 0x7F) * 2 ^ sh"
    have l: "?l < 2 ^ (sh + 7)" "wrap32 ?l = ?l"
      using decode_step_bound [OF "1.prems"(6) sh, of b] by auto
    have step: "decode_remaining buf inp out sh len = decode_remaining buf inp (Suc out) (sh + 7) ?l"
      using get hd sh l b7 b0 by (subst decode_remaining.simps) (simp add: Let_def)
    show ?thesis
      unfolding step
      using "1.IH" [OF n hd(3)] hd(1) "1.prems"(2,3,5) l Suc e by simp
  qed
qed

text \<open>A proper prefix of a frame makes the receiver wait for more.\<close>

lemma parse_prefix:
  assumes wf: "rp_wf C p" and b: "rp_Buffer p = Some b" and small: "length payload < 2 ^ 28"
    and stream: "rp_stream p = take k (mqtt_frame t f payload)"
    and k: "k < length (mqtt_frame t f payload)"
  shows "\<exists>q. parse_buffer p = Some (MQTTReceiveContinue, q) \<and> rp_wf C q \<and>
           rp_Buffer q = Some b \<and> rp_stream q = rp_stream p \<and> rp_InPtr q = rp_InPtr p"
proof -
  let ?n = "length payload" and ?e = "enc_len (length payload)"
  have len: "rp_InPtr p \<le> length b" using wf b by (simp add: rp_wf_def)
  have s: "take (rp_InPtr p) b = take k (control_byte t f # ?e @ payload)"
    using stream b by (simp add: rp_stream_def mqtt_frame_def)
  have inp: "rp_InPtr p = k"
    using arg_cong [OF s, of length] len k by (simp add: mqtt_frame_def)
  have "\<exists>out res. decode_remaining b k 1 0 0 = Some (out, res) \<and>
      (res = Inl MQTTReceiveContinue \<or> (res = Inr ?n \<and> k < wrap32 (out + ?n)))"
  proof (cases "k \<le> length ?e")
    case True
    show ?thesis
    proof (cases k)
      case 0
      then show ?thesis by (subst decode_remaining.simps) simp
    next
      case (Suc k')
      then have "drop 1 (take k b) = take k' ?e"
        using s inp True by simp
      then show ?thesis
        using decode_remaining_short [of 1 k b k' ?n 0 0] Suc inp len True enc_len_4 [OF small]
        by auto
    qed
  next
    case False
    then have "drop 1 (take k b) = ?e @ take (k - 1 - length ?e) payload"
      using s inp by (cases k) (auto simp: )
    then have "decode_remaining b k 1 0 0 = Some (1 + length ?e, Inr ?n)"
      using decode_remaining_enc [of 1 k b ?n "take (k - 1 - length ?e) payload" 0 0]
        len inp enc_len_4 [OF small] by simp
    moreover have "wrap32 (1 + length ?e + ?n) = 1 + length ?e + ?n"
      using small enc_len_4 [OF small] by simp
    ultimately show ?thesis
      using k by (auto simp: mqtt_frame_def)
  qed
  then show ?thesis
    using b wf inp by (auto simp: parse_buffer_def Let_def rp_wf_def rp_stream_def)
qed

subsection \<open>The field readers consume the packet\<close>

definition rp_adv :: "mqtt_receive_packet \<Rightarrow> nat \<Rightarrow> mqtt_receive_packet" where
  "rp_adv p n = p\<lparr>rp_BytesConsumed := rp_BytesConsumed p + n, rp_OutPtr := rp_OutPtr p + n\<rparr>"

lemma rp_adv_fields [simp]:
  "rp_Buffer (rp_adv p n) = rp_Buffer p" "rp_InPtr (rp_adv p n) = rp_InPtr p"
  "rp_OutPtr (rp_adv p n) = rp_OutPtr p + n" "rp_Type (rp_adv p n) = rp_Type p"
  "rp_Flags (rp_adv p n) = rp_Flags p" "rp_RemainingLength (rp_adv p n) = rp_RemainingLength p"
  "rp_BytesConsumed (rp_adv p n) = rp_BytesConsumed p + n"
  "rp_BufferSize (rp_adv p n) = rp_BufferSize p" "rp_stream (rp_adv p n) = rp_stream p"
  "rp_wf C (rp_adv p n) = rp_wf C p" "rp_adv (rp_adv p m) n = rp_adv p (m + n)"
  by (simp_all add: rp_adv_def rp_stream_def rp_wf_def split: option.splits)

lemma rp_adv_ready:
  assumes "rp_wf C p" "rp_ready p" "n \<le> length (rp_rest p)"
  shows "rp_ready (rp_adv p n)" "rp_rest (rp_adv p n) = drop n (rp_rest p)"
  using assms rp_rest_length [OF assms(1,2)]
  by (auto simp: rp_ready_def rp_rest_def drop_take add.commute)

lemma rp_rest_nth:
  assumes "rp_wf C p" "rp_ready p" "i < length (rp_rest p)" "rp_Buffer p = Some b"
  shows "get_at b (rp_OutPtr p + i) = Some (rp_rest p ! i)"
proof -
  have "i < rp_RemainingLength p - rp_BytesConsumed p"
    using assms rp_rest_length [OF assms(1,2)] by simp
  moreover have "rp_OutPtr p + (rp_RemainingLength p - rp_BytesConsumed p) \<le> rp_InPtr p"
    using assms(2) unfolding rp_ready_def by blast
  moreover have "rp_InPtr p \<le> length b"
    using assms(1,4) by (simp add: rp_wf_def)
  ultimately show ?thesis
    using assms(4) by (simp add: get_at_def rp_rest_def rp_stream_def)
qed

lemma rp_consume_wrap:
  assumes "rp_ready p" "n < 2 ^ 31"
  shows "wrap32 (rp_BytesConsumed p + n) = rp_BytesConsumed p + n"
  using assms by (simp add: rp_ready_def)

lemma GetByte_rest:
  assumes "rp_wf C p" "rp_ready p" "rp_rest p = v # rest"
  shows "GetByte p = Some (v, rp_adv p 1)"
proof -
  obtain b where b: "rp_Buffer p = Some b" using assms(1,2) by (rule rp_ready_buffer)
  have "rp_BytesConsumed p + 1 \<le> rp_RemainingLength p"
    using rp_rest_length [OF assms(1,2)] assms(3) by simp
  moreover have "get_at b (rp_OutPtr p) = Some v"
    using rp_rest_nth [OF assms(1,2) _ b, of 0] assms(3) by simp
  moreover have "wrap32 (rp_BytesConsumed p + 1) = rp_BytesConsumed p + 1"
    using assms(2) by (rule rp_consume_wrap) simp
  ultimately show ?thesis
    using b by (simp add: GetByte_def rp_adv_def)
qed

lemma GetWord_rest:
  assumes "rp_wf C p" "rp_ready p" "rp_rest p = h # l # rest"
  shows "GetWord p = Some (be16 h l, rp_adv p 2)"
proof -
  obtain b where b: "rp_Buffer p = Some b" using assms(1,2) by (rule rp_ready_buffer)
  have "rp_BytesConsumed p + 2 \<le> rp_RemainingLength p"
    using rp_rest_length [OF assms(1,2)] assms(3) by simp
  moreover have "get_at b (rp_OutPtr p) = Some h" "get_at b (rp_OutPtr p + 1) = Some l"
    using rp_rest_nth [OF assms(1,2) _ b, of 0] rp_rest_nth [OF assms(1,2) _ b, of 1] assms(3)
    by simp_all
  moreover have "wrap32 (rp_BytesConsumed p + 2) = rp_BytesConsumed p + 2"
    using assms(2) by (rule rp_consume_wrap) simp
  ultimately show ?thesis
    using b by (simp add: GetWord_def rp_adv_def)
qed

text \<open>Reading past the end of the packet trips the assertion of the reader.\<close>

lemma GetWord_short:
  assumes "rp_wf C p" "rp_ready p" "length (rp_rest p) < 2"
  shows "GetWord p = None"
proof -
  have "rp_RemainingLength p < rp_BytesConsumed p + 2"
    using rp_rest_length [OF assms(1,2)] assms(2,3) by (simp add: rp_ready_def)
  moreover have "wrap32 (rp_BytesConsumed p + 2) = rp_BytesConsumed p + 2"
    using assms(2) by (rule rp_consume_wrap) simp
  ultimately show ?thesis
    by (simp add: GetWord_def)
qed

lemma GetData_rest:
  assumes "rp_wf C p" "rp_ready p" "n \<le> length (rp_rest p)"
  shows "GetData p n = Some (Some (take n (rp_rest p)), rp_adv p n)"
proof -
  obtain b where b: "rp_Buffer p = Some b" "rp_InPtr p \<le> length b"
    using assms(1,2) by (rule rp_ready_buffer)
  have n: "n \<le> rp_RemainingLength p - rp_BytesConsumed p"
    using rp_rest_length [OF assms(1,2)] assms(3) by simp
  have r: "rp_OutPtr p + (rp_RemainingLength p - rp_BytesConsumed p) \<le> rp_InPtr p"
    "rp_RemainingLength p < 2 ^ 28" "rp_BytesConsumed p \<le> rp_RemainingLength p"
    using assms(2) unfolding rp_ready_def by blast+
  have "wrap32 (rp_BytesConsumed p + n) = rp_BytesConsumed p + n"
    using assms(2) n r by (intro rp_consume_wrap) auto
  moreover have "get_block b (rp_OutPtr p) n = Some (take n (rp_rest p))"
    using b n r by (simp add: buf_simps rp_rest_def rp_stream_def drop_take min_absorb1)
  ultimately show ?thesis
    using b n r by (simp add: GetData_def rp_adv_def Let_def)
qed

definition ascii :: "cstring \<Rightarrow> bool" where
  "ascii s \<longleftrightarrow> (\<forall>c \<in> set s. c AND 0x80 = 0)"

lemma copy_chars_correct:
  "take n (drop i buf) = s \<Longrightarrow> length s = n \<Longrightarrow> ascii s \<Longrightarrow> length acc + n < k \<Longrightarrow>
     copy_chars buf k i n acc = Some (True, i + n, acc @ s)"
proof (induction n arbitrary: i s acc)
  case 0
  then show ?case by simp
next
  case (Suc n)
  then obtain c s' where s: "s = c # s'" by (cases s) auto
  have l: "i < length buf"
    using Suc.prems(1,2) s by (cases "i < length buf") auto
  then have d: "drop i buf = buf ! i # drop (Suc i) buf"
    by (simp add: Cons_nth_drop_Suc)
  have c: "buf ! i = c" "take n (drop (Suc i) buf) = s'"
    using Suc.prems(1) s unfolding d by auto
  have "copy_chars buf k (Suc i) n (acc @ [c]) = Some (True, Suc i + n, (acc @ [c]) @ s')"
    using Suc.prems(2,3,4) s c(2) by (intro Suc.IH) (auto simp: ascii_def)
  then show ?case
    using l c(1) Suc.prems(3,4) s by (simp add: buf_simps ascii_def)
qed

lemma GetString_rest:
  assumes "rp_wf C p" "rp_ready p" "rp_rest p = h # l # s @ rest"
    and len: "length s = unat (be16 h l)" and "ascii s" "length s < nBufferSize" "nBufferSize \<le> m"
  shows "GetString p (Some m) nBufferSize = Some (length s, s, rp_adv p (2 + length s))"
proof -
  obtain b where b: "rp_Buffer p = Some b" "rp_InPtr p \<le> length b"
    using assms(1,2) by (rule rp_ready_buffer)
  have w: "GetWord p = Some (be16 h l, rp_adv p 2)"
    using assms(1-3) by (rule GetWord_rest)
  let ?q = "rp_adv p 2"
  have q: "rp_ready ?q" "rp_rest ?q = s @ rest"
    using rp_adv_ready [OF assms(1,2), of 2] assms(3) by simp_all
  have n: "length s \<le> rp_RemainingLength p - (rp_BytesConsumed p + 2)"
    using rp_rest_length [of C ?q] assms(1) q by simp
  have le: "rp_BytesConsumed p + 2 + length s \<le> rp_RemainingLength p"
    using n q(1) by (auto simp: rp_ready_def)
  have c: "wrap32 (rp_BytesConsumed ?q + length s) = rp_BytesConsumed p + 2 + length s"
    using le assms(2) by (simp add: rp_ready_def)
  have "take (length s) (rp_rest ?q) = s" using q by simp
  then have "take (length s) (drop (rp_OutPtr p + 2) b) = s"
    using n b q(1) by (simp add: rp_rest_def rp_stream_def drop_take min_def rp_ready_def
        split: if_splits)
  then have "copy_chars b m (rp_OutPtr p + 2) (length s) [] = Some (True, rp_OutPtr p + 2 + length s, s)"
    using copy_chars_correct [of "length s" "rp_OutPtr p + 2" b s "[]"] assms(5-7) by simp
  then show ?thesis
    using w le c b assms(6) by (simp add: GetString_def len [symmetric] rp_adv_def Let_def)
qed

text \<open>Every outcome of \<open>Receive\<close>, whatever the peer sends.\<close>

context circle_contract
begin

lemma Receive_cases:
  assumes wf: "rp_wf C p"
  shows "\<exists>st q w'. Receive C p w = Some (st, q, w') \<and> rp_wf C q \<and> st \<noteq> MQTTReceiveUnknown \<and>
     (st = MQTTReceivePacketOK \<longrightarrow> rp_ready q \<and> rp_BytesConsumed q = 0 \<and> 2 \<le> rp_OutPtr q \<and>
        basic_checks (rp_Type q) (rp_Flags q) (rp_RemainingLength q) = MQTTReceivePacketOK \<and>
        (\<exists>r bs. sock_Receive C (FRAME_BUFFER_SIZE C) True w = ((r, bs), w') \<and>
           rp_stream q = rp_stream p @ bs))"
proof (cases "rp_Buffer p")
  case None
  then show ?thesis using wf by (simp add: Receive_def)
next
  case (Some b)
  obtain r bs w' where recv: "sock_Receive C (FRAME_BUFFER_SIZE C) True w = ((r, bs), w')"
    by (metis surj_pair)
  consider (full) "\<not> rp_InPtr p + FRAME_BUFFER_SIZE C \<le> rp_BufferSize p"
    | (closed) "rp_InPtr p + FRAME_BUFFER_SIZE C \<le> rp_BufferSize p" "r < 0"
    | (data) "rp_InPtr p + FRAME_BUFFER_SIZE C \<le> rp_BufferSize p" "0 \<le> r"
    by linarith
  then show ?thesis
  proof cases
    case full
    then show ?thesis using Receive_full [OF wf Some] wf by simp
  next
    case closed
    then show ?thesis using Receive_closed [OF wf Some _ recv] wf by simp
  next
    case data
    obtain b' where b': "rp_wf C (p\<lparr>rp_Buffer := Some b', rp_InPtr := rp_InPtr p + length bs\<rparr>)"
      "take (rp_InPtr p + length bs) b' = rp_stream p @ bs"
      "Receive C p w = map_option (\<lambda>(s, q). (s, q, w'))
         (parse_buffer (p\<lparr>rp_Buffer := Some b', rp_InPtr := rp_InPtr p + length bs\<rparr>))"
      using Receive_step [OF circle_contract_axioms wf Some data(1) recv data(2)] by blast
    with parse_buffer_safe [OF b'(1), of b'] recv show ?thesis
      by (auto simp: rp_stream_def)
  qed
qed

end

end
