(* ===== verification/Mqtt_Queue.thy ===== *)
theory Mqtt_Queue
  imports Mqtt_Receive_Packet "HOL-Library.Multiset"
begin

text \<open>
  The two lists of \<open>CMQTTClient\<close> (end of \<open>src/circle-mbedtls/mqttclient.cpp\<close>): the
  retransmission queue, ordered by scheduled time, and the store of packet identifiers for the
  exactly-once receiver. Both are \<open>CPtrList\<close> objects of Circle; the functions walk them
  through the operations passed as parameter. A loop that would not end is the value
  \<open>None\<close>.

  Under the laws of \<open>ptr_list\<close> every function returns, and acts on the list of pointers as
  a plain list function: ordered insertion, removal of the first match, membership.
\<close>

text \<open>The C++ comparison \<open>(int) (a - b) > 0\<close> on \<open>unsigned\<close> tick counts.\<close>

definition time_after :: "u32 \<Rightarrow> u32 \<Rightarrow> bool" where
  "time_after a b \<longleftrightarrow> sint (a - b) > 0"

partial_function (option) insert_position ::
  "('l, 'e, mqtt_send_packet) ptr_list_ops \<Rightarrow> 'l \<Rightarrow> u32 \<Rightarrow> 'e option \<Rightarrow> 'e option \<Rightarrow>
     ('e option \<times> 'e option) option" where
  "insert_position L q nScheduledTime pPrevElement pElement =
     (case pElement of
        None \<Rightarrow> Some (pPrevElement, None)
      | Some e \<Rightarrow>
          if time_after (sp_ScheduledTime (pl_GetPtr L q e)) nScheduledTime
          then Some (pPrevElement, Some e)
          else insert_position L q nScheduledTime (Some e) (pl_GetNext L q e))"

definition InsertPacketIntoQueue ::
  "('l, 'e, mqtt_send_packet) ptr_list_ops \<Rightarrow> 'l \<Rightarrow> mqtt_send_packet \<Rightarrow> u32 \<Rightarrow> 'l option" where
  "InsertPacketIntoQueue L q pPacket nScheduledTime = do {
     let pPacket = SetScheduledTime pPacket nScheduledTime;
     (pPrevElement, pElement) \<leftarrow> insert_position L q nScheduledTime None (pl_GetFirst L q);
     Some (case pElement of
             Some e \<Rightarrow> pl_InsertBefore L q e pPacket
           | None \<Rightarrow> pl_InsertAfter L q pPrevElement pPacket)
   }"

partial_function (option) remove_from ::
  "('l, 'e, mqtt_send_packet) ptr_list_ops \<Rightarrow> 'l \<Rightarrow> u16 \<Rightarrow> 'e option \<Rightarrow>
     (mqtt_send_packet option \<times> 'l) option" where
  "remove_from L q usPacketIdentifier pElement =
     (case pElement of
        None \<Rightarrow> Some (None, q)
      | Some e \<Rightarrow>
          let pPacket = pl_GetPtr L q e in
          if sp_PacketIdentifier pPacket = usPacketIdentifier
          then Some (Some pPacket, pl_Remove L q e)
          else remove_from L q usPacketIdentifier (pl_GetNext L q e))"

definition RemovePacketFromQueue ::
  "('l, 'e, mqtt_send_packet) ptr_list_ops \<Rightarrow> 'l \<Rightarrow> u16 \<Rightarrow>
     (mqtt_send_packet option \<times> 'l) option" where
  "RemovePacketFromQueue L q usPacketIdentifier =
     remove_from L q usPacketIdentifier (pl_GetFirst L q)"

partial_function (option) remove_all ::
  "('l, 'e, 'p) ptr_list_ops \<Rightarrow> 'l \<Rightarrow> 'e option \<Rightarrow> 'l option" where
  "remove_all L q pElement =
     (case pElement of
        None \<Rightarrow> Some q
      | Some e \<Rightarrow> remove_all L (pl_Remove L q e) (pl_GetNext L q e))"

definition CleanupQueue :: "('l, 'e, mqtt_send_packet) ptr_list_ops \<Rightarrow> 'l \<Rightarrow> 'l option" where
  "CleanupQueue L q = remove_all L q (pl_GetFirst L q)"

definition InsertPacketIdentifierIntoStore ::
  "('s, 'f, u16) ptr_list_ops \<Rightarrow> 's \<Rightarrow> u16 \<Rightarrow> 's" where
  "InsertPacketIdentifierIntoStore S s usPacketIdentifier =
     (case pl_GetFirst S s of
        None \<Rightarrow> pl_InsertAfter S s None usPacketIdentifier
      | Some pFirst \<Rightarrow> pl_InsertBefore S s pFirst usPacketIdentifier)"

definition IsPacketIdentifierInStore :: "('s, 'f, u16) ptr_list_ops \<Rightarrow> 's \<Rightarrow> u16 \<Rightarrow> bool" where
  "IsPacketIdentifierInStore S s usPacketIdentifier \<longleftrightarrow> pl_Find S s usPacketIdentifier \<noteq> None"

definition RemovePacketIdentifierFromStore ::
  "('s, 'f, u16) ptr_list_ops \<Rightarrow> 's \<Rightarrow> u16 \<Rightarrow> bool \<times> 's" where
  "RemovePacketIdentifierFromStore S s usPacketIdentifier =
     (case pl_Find S s usPacketIdentifier of
        None \<Rightarrow> (False, s)
      | Some e \<Rightarrow> (True, pl_Remove S s e))"

definition CleanupPacketIdentifierStore :: "('s, 'f, u16) ptr_list_ops \<Rightarrow> 's \<Rightarrow> 's option" where
  "CleanupPacketIdentifierStore S s = remove_all S s (pl_GetFirst S s)"

subsection \<open>The list functions they implement\<close>

fun queue_insert :: "mqtt_send_packet \<Rightarrow> mqtt_send_packet list \<Rightarrow> mqtt_send_packet list" where
  "queue_insert p [] = [p]"
| "queue_insert p (x # xs) =
     (if time_after (sp_ScheduledTime x) (sp_ScheduledTime p) then p # x # xs
      else x # queue_insert p xs)"

fun queue_remove :: "u16 \<Rightarrow> mqtt_send_packet list \<Rightarrow> mqtt_send_packet option \<times> mqtt_send_packet list" where
  "queue_remove i [] = (None, [])"
| "queue_remove i (x # xs) =
     (if sp_PacketIdentifier x = i then (Some x, xs)
      else let (r, ys) = queue_remove i xs in (r, x # ys))"

lemma queue_insert_set [simp]: "set (queue_insert p xs) = insert p (set xs)"
  by (induction xs) auto

lemma queue_insert_length [simp]: "length (queue_insert p xs) = Suc (length xs)"
  by (induction xs) auto

lemma queue_remove_set: "set (snd (queue_remove i xs)) \<subseteq> set xs"
  by (induction xs) (auto split: prod.splits)

lemma queue_remove_found:
  "fst (queue_remove i xs) = Some p \<Longrightarrow> p \<in> set xs \<and> sp_PacketIdentifier p = i"
  by (induction xs) (auto split: prod.splits if_splits)

lemma queue_remove_None: "(fst (queue_remove i xs) = None) = (i \<notin> sp_PacketIdentifier ` set xs)"
  by (induction xs) (auto split: prod.splits)

lemma queue_insert_split:
  "queue_insert p xs =
     takeWhile (\<lambda>x. \<not> time_after (sp_ScheduledTime x) (sp_ScheduledTime p)) xs @ p #
     dropWhile (\<lambda>x. \<not> time_after (sp_ScheduledTime x) (sp_ScheduledTime p)) xs"
  by (induction xs) auto

subsection \<open>Order of the queue\<close>

text \<open>
  Tick counts wrap around, so \<open>time_after\<close> is no order. It is one on any window of
  \<open>2 ^ 31\<close> ticks that starts at some base time: there it compares the distances from the base.
\<close>

definition in_window :: "u32 \<Rightarrow> u32 \<Rightarrow> bool" where
  "in_window base t \<longleftrightarrow> unat (t - base) < 2 ^ 31"

lemma uint_small:
  fixes v :: u32
  assumes "unat v < 2 ^ 31"
  shows "0 \<le> uint v" "uint v < 2 ^ 31" "sint v = uint v"
proof -
  have "int (unat v) < int (2 ^ 31)" using assms by (simp only: of_nat_less_iff)
  then show b: "uint v < 2 ^ 31" "0 \<le> uint v" by simp_all
  then have "- (2 ^ 31) \<le> uint v" by linarith
  with b show "sint v = uint v"
    by (simp add: sint_uint signed_take_bit_int_eq_self)
qed

lemma sint_diff_pos:
  fixes x y :: u32
  assumes "unat x < 2 ^ 31" "unat y < 2 ^ 31"
  shows "(sint (x - y) > 0) = (unat y < unat x)"
proof -
  note b = uint_small [OF assms(1)] uint_small [OF assms(2)]
  have "sint (x - y) = signed_take_bit 31 (uint x - uint y)"
    using b by (simp add: sint_word_ariths)
  also have "\<dots> = uint x - uint y"
    using b by (intro signed_take_bit_int_eq_self) linarith+
  finally show ?thesis by (simp add: word_less_def flip: word_less_nat_alt)
qed

lemma time_after_window:
  assumes "in_window base a" "in_window base b"
  shows "time_after a b = (unat (b - base) < unat (a - base))"
  using sint_diff_pos [of "a - base" "b - base"] assms by (simp add: time_after_def in_window_def)

definition queue_sorted :: "mqtt_send_packet list \<Rightarrow> bool" where
  "queue_sorted ps \<longleftrightarrow> sorted_wrt (\<lambda>p q. \<not> time_after (sp_ScheduledTime p) (sp_ScheduledTime q)) ps"

lemma queue_sorted_insert:
  assumes "queue_sorted ps" "\<forall>q \<in> set (p # ps). in_window base (sp_ScheduledTime q)"
  shows "queue_sorted (queue_insert p ps)"
  using assms
proof (induction ps)
  case (Cons q ps)
  then show ?case
    by (auto simp: queue_sorted_def time_after_window [of base]) 
qed (simp add: queue_sorted_def)

context ptr_list
begin

lemma remove_all_correct: "\<exists>q'. remove_all L q (pl_GetFirst L q) = Some q' \<and> ptrs q' = []"
proof -
  have "elems q = ys \<Longrightarrow> \<exists>q'. remove_all L q (first_handle ys) = Some q' \<and> elems q' = []" for ys
  proof (induction ys arbitrary: q)
    case Nil
    then show ?case by (simp add: remove_all.simps)
  next
    case (Cons y ys)
    obtain e p where y: "y = (e, p)" by (cases y)
    have "elems (pl_Remove L q e) = ys" "pl_GetNext L q e = first_handle ys"
      using Cons.prems y Remove [of q "[]" e p ys] GetNext [of q "[]" e p ys] by simp_all
    with Cons.IH show ?case
      by (simp add: y remove_all.simps [of L q "Some e"])
  qed
  then show ?thesis by (auto simp: GetFirst ptrs_of_def)
qed

end

locale send_queue = ptr_list L elems
  for L :: "('l, 'e, mqtt_send_packet) ptr_list_ops"
    and elems :: "'l \<Rightarrow> ('e \<times> mqtt_send_packet) list"
begin

abbreviation earlier :: "u32 \<Rightarrow> 'e \<times> mqtt_send_packet \<Rightarrow> bool" where
  "earlier t x \<equiv> \<not> time_after (sp_ScheduledTime (snd x)) t"

lemma insert_position_walk:
  "elems q = xs @ ys \<Longrightarrow>
     insert_position L q t prev (first_handle ys) =
       Some (if takeWhile (earlier t) ys = [] then prev else Some (fst (last (takeWhile (earlier t) ys))),
             first_handle (dropWhile (earlier t) ys))"
proof (induction ys arbitrary: xs prev)
  case Nil
  then show ?case by (simp add: insert_position.simps)
next
  case (Cons y ys)
  obtain e p where y: "y = (e, p)" by (cases y)
  have n: "pl_GetNext L q e = first_handle ys" "pl_GetPtr L q e = p"
    using Cons.prems y GetNext [of q xs e p ys] GetPtr [of q xs e p ys] by simp_all
  have "insert_position L q t (Some e) (first_handle ys) =
      Some (if takeWhile (earlier t) ys = [] then Some e else Some (fst (last (takeWhile (earlier t) ys))),
            first_handle (dropWhile (earlier t) ys))"
    using Cons.prems by (intro Cons.IH [of "xs @ [y]"]) simp
  then show ?case
    by (simp add: y n insert_position.simps [of L q t prev "Some e"])
qed

lemma insert_correct:
  "\<exists>q'. InsertPacketIntoQueue L q p t = Some q' \<and>
     ptrs q' = queue_insert (SetScheduledTime p t) (ptrs q)"
proof -
  let ?a = "takeWhile (earlier t) (elems q)" and ?b = "dropWhile (earlier t) (elems q)"
  let ?p = "SetScheduledTime p t"
  have ab: "elems q = ?a @ ?b" by simp
  have st: "sp_ScheduledTime ?p = t" by (simp add: SetScheduledTime_def)
  have spec: "queue_insert ?p (ptrs q) = map snd ?a @ ?p # map snd ?b"
    by (simp add: queue_insert_split st ptrs_of_def takeWhile_map dropWhile_map comp_def)
  have walk: "insert_position L q t None (pl_GetFirst L q) =
      Some (if ?a = [] then None else Some (fst (last ?a)), first_handle ?b)"
    using insert_position_walk [of q "[]" "elems q" t None] by (simp add: GetFirst)
  show ?thesis
  proof (cases ?b)
    case (Cons y ys)
    obtain e r where y: "y = (e, r)" by (cases y)
    have "ptrs (pl_InsertBefore L q e ?p) = map snd ?a @ ?p # map snd ?b"
      using ptrs_InsertBefore [of q ?a e r ys ?p] ab Cons y by simp
    then show ?thesis
      using walk spec Cons y by (simp add: InsertPacketIntoQueue_def Let_def)
  next
    case Nil
    show ?thesis
    proof (cases "?a = []")
      case True
      then have "elems q = []" using ab Nil by simp
      then have "ptrs (pl_InsertAfter L q None ?p) = [?p]" by (rule ptrs_InsertAfter_empty)
      then show ?thesis
        using walk spec Nil True by (simp add: InsertPacketIntoQueue_def Let_def)
    next
      case False
      then obtain xs e r where a: "?a = xs @ [(e, r)]"
        by (metis append_butlast_last_id surj_pair)
      have "ptrs (pl_InsertAfter L q (Some e) ?p) = map snd ?a @ [?p]"
        using ptrs_InsertAfter [of q xs e r "[]" ?p] ab Nil a by simp
      then show ?thesis
        using walk spec Nil False a by (simp add: InsertPacketIntoQueue_def Let_def)
    qed
  qed
qed

text \<open>Insertion keeps the other elements and their handles in place.\<close>

lemma insert_keeps:
  assumes "InsertPacketIntoQueue L q p t = Some q'"
  shows "\<exists>xs ys e. elems q = xs @ ys \<and> elems q' = xs @ (e, SetScheduledTime p t) # ys"
proof -
  let ?a = "takeWhile (earlier t) (elems q)" and ?b = "dropWhile (earlier t) (elems q)"
  let ?p = "SetScheduledTime p t"
  have walk: "insert_position L q t None (pl_GetFirst L q) =
      Some (if ?a = [] then None else Some (fst (last ?a)), first_handle ?b)"
    using insert_position_walk [of q "[]" "elems q" t None] by (simp add: GetFirst)
  have ab: "elems q = ?a @ ?b" by simp
  have "\<exists>e. elems q' = ?a @ (e, ?p) # ?b"
  proof (cases ?b)
    case (Cons y ys)
    then show ?thesis
      using InsertBefore [of q ?a "fst y" "snd y" ys ?p] ab assms walk
      by (auto simp: InsertPacketIntoQueue_def Let_def first_handle_def)
  next
    case Nil
    show ?thesis
    proof (cases "?a = []")
      case True
      then have "elems q = []" using ab Nil by simp
      then show ?thesis
        using InsertAfter_empty [of q ?p] assms walk Nil True
        by (auto simp: InsertPacketIntoQueue_def Let_def)
    next
      case False
      then obtain xs e r where a: "?a = xs @ [(e, r)]"
        by (metis append_butlast_last_id surj_pair)
      then show ?thesis
        using InsertAfter [of q xs e r "[]" ?p] ab assms walk Nil
        by (auto simp: InsertPacketIntoQueue_def Let_def)
    qed
  qed
  then show ?thesis using ab by blast
qed

lemma remove_from_walk:
  "elems q = xs @ ys \<Longrightarrow>
     \<exists>q'. remove_from L q i (first_handle ys) = Some (fst (queue_remove i (map snd ys)), q') \<and>
       ptrs q' = map snd xs @ snd (queue_remove i (map snd ys))"
proof (induction ys arbitrary: xs)
  case Nil
  then show ?case by (simp add: remove_from.simps ptrs_of_def)
next
  case (Cons y ys)
  obtain e p where y: "y = (e, p)" by (cases y)
  have n: "pl_GetNext L q e = first_handle ys" "pl_GetPtr L q e = p"
    using Cons.prems y GetNext [of q xs e p ys] GetPtr [of q xs e p ys] by simp_all
  show ?case
  proof (cases "sp_PacketIdentifier p = i")
    case True
    then show ?thesis
      using y n Cons.prems ptrs_Remove [of q xs e p ys]
      by (simp add: remove_from.simps [of L q i "Some e"])
  next
    case False
    obtain q' where "remove_from L q i (first_handle ys) = Some (fst (queue_remove i (map snd ys)), q')"
      "ptrs q' = map snd (xs @ [y]) @ snd (queue_remove i (map snd ys))"
      using Cons.IH [of "xs @ [y]"] Cons.prems by auto
    with False show ?thesis
      by (simp add: y n remove_from.simps [of L q i "Some e"] split: prod.splits)
  qed
qed

lemma remove_correct:
  "\<exists>q'. RemovePacketFromQueue L q i = Some (fst (queue_remove i (ptrs q)), q') \<and>
     ptrs q' = snd (queue_remove i (ptrs q))"
  using remove_from_walk [of q "[]" "elems q" i]
  by (simp add: RemovePacketFromQueue_def GetFirst ptrs_of_def)

lemma cleanup_correct: "\<exists>q'. CleanupQueue L q = Some q' \<and> ptrs q' = []"
  unfolding CleanupQueue_def by (rule remove_all_correct)

end

locale id_store = ptr_list S elems
  for S :: "('s, 'f, u16) ptr_list_ops"
    and elems :: "'s \<Rightarrow> ('f \<times> u16) list"
begin

lemma store_insert: "ptrs (InsertPacketIdentifierIntoStore S s i) = i # ptrs s"
proof (cases "elems s")
  case Nil
  then show ?thesis
    using ptrs_InsertAfter_empty [of s i]
    by (simp add: InsertPacketIdentifierIntoStore_def GetFirst ptrs_of_def)
next
  case (Cons y ys)
  then show ?thesis
    using ptrs_InsertBefore [of s "[]" "fst y" "snd y" ys i]
    by (simp add: InsertPacketIdentifierIntoStore_def GetFirst ptrs_of_def first_handle_def)
qed

lemma store_member: "IsPacketIdentifierInStore S s i = (i \<in> set (ptrs s))"
  by (simp add: IsPacketIdentifierInStore_def Find_iff del: not_None_eq)

lemma store_remove:
  "fst (RemovePacketIdentifierFromStore S s i) = (i \<in> set (ptrs s))"
  "mset (ptrs s) = (if i \<in> set (ptrs s) then {#i#} else {#}) +
     mset (ptrs (snd (RemovePacketIdentifierFromStore S s i)))"
proof -
  have "fst (RemovePacketIdentifierFromStore S s i) = (i \<in> set (ptrs s)) \<and>
    mset (ptrs s) = (if i \<in> set (ptrs s) then {#i#} else {#}) +
      mset (ptrs (snd (RemovePacketIdentifierFromStore S s i)))"
  proof (cases "pl_Find S s i")
    case None
    then show ?thesis
      using Find_iff [of s i] by (simp add: RemovePacketIdentifierFromStore_def)
  next
    case (Some e)
    then obtain xs ys where e: "elems s = xs @ (e, i) # ys"
      using Find_Some [OF Some] by (meson split_list)
    have "i \<in> set (ptrs s)" using e by (simp add: ptrs_of_def)
    moreover have "mset (ptrs s) = {#i#} + mset (ptrs (pl_Remove S s e))"
      using ptrs_Remove [OF e] e by (simp add: ptrs_of_def)
    ultimately show ?thesis
      using Some by (simp add: RemovePacketIdentifierFromStore_def)
  qed
  then show "fst (RemovePacketIdentifierFromStore S s i) = (i \<in> set (ptrs s))"
    "mset (ptrs s) = (if i \<in> set (ptrs s) then {#i#} else {#}) +
       mset (ptrs (snd (RemovePacketIdentifierFromStore S s i)))"
    by auto
qed

lemma store_cleanup: "\<exists>s'. CleanupPacketIdentifierStore S s = Some s' \<and> ptrs s' = []"
  unfolding CleanupPacketIdentifierStore_def by (rule remove_all_correct)

end

interpretation num_queue: send_queue num_list_ops num_elems
  by unfold_locales

interpretation num_store: id_store num_list_ops num_elems
  by unfold_locales

end
