(* ===== verification/Mqtt_Client.thy ===== *)
theory Mqtt_Client
  imports Mqtt_Queue
begin

text \<open>
  The class \<open>CMQTTClient\<close> (\<open>include/circle-mbedtls/mqttclient.h\<close>,
  \<open>src/circle-mbedtls/mqttclient.cpp\<close>): connection state machine, packet handlers of the
  receiver, retransmission and keep-alive.

  The client is a record of its member variables; every method is a function from the client and
  the world to the new client and world, \<open>None\<close> when an assertion fails. The callbacks
  \<open>OnConnect\<close>, \<open>OnDisconnect\<close> and \<open>OnMessage\<close> have empty bodies in the class; the
  model records their calls in \<open>mc_Events\<close>. Log output is left out. The loops of
  \<open>Receiver\<close> and \<open>Sender\<close> are partial functions: the outer \<open>option\<close> is
  \<open>None\<close> where the loop does not end.
\<close>

datatype disconnect_reason =
    MQTTDisconnectFromApplication | MQTTDisconnectUnacceptableProtocolVersion
  | MQTTDisconnectIdentifierRejected | MQTTDisconnectServerUnavailable
  | MQTTDisconnectBadUsernameOrPassword | MQTTDisconnectNotAuthorized
  | MQTTDisconnectDNSError | MQTTDisconnectConnectFailed | MQTTDisconnectFromPeer
  | MQTTDisconnectInvalidPacket | MQTTDisconnectPacketIdentifier | MQTTDisconnectSubscribeError
  | MQTTDisconnectSendFailed | MQTTDisconnectPingFailed | MQTTDisconnectNotSupported
  | MQTTDisconnectInsufficientResources | MQTTDisconnectSSLSetupFailed | MQTTDisconnectUnknown

datatype connect_status =
    MQTTStatusDisconnected | MQTTStatusConnectPending | MQTTStatusConnected
  | MQTTStatusWaitForPingResp | MQTTStatusUnknown

datatype client_event =
    OnConnect bool
  | OnDisconnect disconnect_reason
  | OnMessage cstring "u8 list option" nat bool

text \<open>
  The services beyond those of \<open>net_env\<close>: the two list objects, what freshly allocated packet
  storage holds, name resolution, the board serial number and sleeping.
\<close>

record ('w, 'q, 'e, 's, 'f) mqtt_env = "'w net_env" +
  env_Q :: "('q, 'e, mqtt_send_packet) ptr_list_ops"
  env_S :: "('s, 'f, u16) ptr_list_ops"
  raw_packet :: "'w \<Rightarrow> mqtt_send_packet"
  dns_Resolve :: "cstring \<Rightarrow> 'w \<Rightarrow> u8 list option \<times> 'w"
  board_Serial :: "'w \<Rightarrow> (u32 \<times> u32) option \<times> 'w"
  MsSleep :: "nat \<Rightarrow> 'w \<Rightarrow> 'w"

record ('q, 's) mqtt_client =
  mc_MaxPacketSize :: nat
  mc_MaxTopicSize :: nat
  mc_TopicBuffer :: "nat option"
  mc_Socket :: bool
  mc_ConnectStatus :: connect_status
  mc_KeepAliveSeconds :: nat
  mc_TimerRunning :: bool
  mc_TimerElapsesAt :: u32
  mc_NextPacketIdentifier :: u16
  mc_ReceivePacket :: mqtt_receive_packet
  mc_RetransmissionQueue :: 'q
  mc_PacketIdentifierStore :: 's
  mc_Events :: "client_event list"

text \<open>
  The constructor: the list members start as the empty lists \<open>q0\<close> and \<open>s0\<close> that
  \<open>CPtrList\<close> constructs; the members it does not set (keep-alive period, timer, next
  identifier) keep what the storage \<open>mem\<close> held until \<open>Connect\<close> sets them.
\<close>

definition CMQTTClient_new ::
  "('w, 'q, 'e, 's, 'f) mqtt_env \<Rightarrow> ('q, 's) mqtt_client \<Rightarrow> 'q \<Rightarrow> 's \<Rightarrow> nat \<Rightarrow> nat \<Rightarrow> nat \<Rightarrow> 'w \<Rightarrow>
     (('q, 's) mqtt_client \<times> 'w) option" where
  "CMQTTClient_new E mem q0 s0 nMaxPacketSize nMaxPacketsQueued nMaxTopicSize w = do {
     (rp, w) \<leftarrow> CMQTTReceivePacket_new E (mc_ReceivePacket mem) nMaxPacketSize nMaxPacketsQueued w;
     let (topic, w) = heap_new E (wrap32 (nMaxTopicSize + 1)) w;
     Some (mem\<lparr>mc_MaxPacketSize := nMaxPacketSize, mc_MaxTopicSize := nMaxTopicSize,
               mc_TopicBuffer := map_option length topic, mc_Socket := False,
               mc_ConnectStatus := MQTTStatusDisconnected, mc_ReceivePacket := rp,
               mc_RetransmissionQueue := q0, mc_PacketIdentifierStore := s0, mc_Events := []\<rparr>, w)
   }"

text \<open>The destructor; the receive buffer goes with the member \<open>m_ReceivePacket\<close>.\<close>

definition CMQTTClient_delete ::
  "('w, 'q, 'e, 's, 'f) mqtt_env \<Rightarrow> ('q, 's) mqtt_client \<Rightarrow> ('q, 's) mqtt_client option" where
  "CMQTTClient_delete E c = do {
     assert (mc_ConnectStatus c = MQTTStatusDisconnected);
     assert (\<not> mc_Socket c);
     q \<leftarrow> CleanupQueue (env_Q E) (mc_RetransmissionQueue c);
     s \<leftarrow> CleanupPacketIdentifierStore (env_S E) (mc_PacketIdentifierStore c);
     Some (c\<lparr>mc_RetransmissionQueue := q, mc_PacketIdentifierStore := s, mc_TopicBuffer := None,
             mc_ReceivePacket := CMQTTReceivePacket_delete (mc_ReceivePacket c)\<rparr>)
   }"

definition IsConnected :: "('q, 's) mqtt_client \<Rightarrow> bool" where
  "IsConnected c \<longleftrightarrow> mc_ConnectStatus c \<in>
     {MQTTStatusConnected, MQTTStatusWaitForPingResp, MQTTStatusUnknown}"

definition callback :: "client_event \<Rightarrow> ('q, 's) mqtt_client \<Rightarrow> ('q, 's) mqtt_client" where
  "callback ev c = c\<lparr>mc_Events := mc_Events c @ [ev]\<rparr>"

definition CloseConnection ::
  "('w, 'q, 'e, 's, 'f) mqtt_env \<Rightarrow> disconnect_reason \<Rightarrow> ('q, 's) mqtt_client \<Rightarrow> 'w \<Rightarrow>
     (('q, 's) mqtt_client \<times> 'w) option" where
  "CloseConnection E Reason c w =
     (if mc_ConnectStatus c = MQTTStatusDisconnected then Some (c, w)
      else do {
        let c = c\<lparr>mc_ConnectStatus := MQTTStatusDisconnected, mc_TimerRunning := False\<rparr>;
        q \<leftarrow> CleanupQueue (env_Q E) (mc_RetransmissionQueue c);
        s \<leftarrow> CleanupPacketIdentifierStore (env_S E) (mc_PacketIdentifierStore c);
        let c = c\<lparr>mc_RetransmissionQueue := q, mc_PacketIdentifierStore := s\<rparr>;
        assert (mc_Socket c);
        let w = sock_delete E w;
        let c = c\<lparr>mc_Socket := False\<rparr>;
        Some (callback (OnDisconnect Reason) c, w)
      })"

definition start_timer ::
  "('w, 'q, 'e, 's, 'f) mqtt_env \<Rightarrow> u32 \<Rightarrow> ('q, 's) mqtt_client \<Rightarrow> 'w \<Rightarrow>
     ('q, 's) mqtt_client \<times> 'w" where
  "start_timer E d c w =
     (let (t, w') = GetTicks E w
      in (c\<lparr>mc_TimerElapsesAt := t + d, mc_TimerRunning := True\<rparr>, w'))"

definition SendPacket ::
  "('w, 'q, 'e, 's, 'f) mqtt_env \<Rightarrow> mqtt_send_packet \<Rightarrow> ('q, 's) mqtt_client \<Rightarrow> 'w \<Rightarrow>
     (bool \<times> mqtt_send_packet \<times> ('q, 's) mqtt_client \<times> 'w) option" where
  "SendPacket E pPacket c w =
     (if mc_ConnectStatus c = MQTTStatusDisconnected then Some (False, pPacket, c, w)
      else do {
        assert (mc_Socket c);
        (ok, pPacket, w) \<leftarrow> Send E pPacket w;
        if \<not> ok then Some (False, pPacket, c, w)
        else if sp_Type pPacket \<in> {MQTTConnect, MQTTPublish, MQTTPubAck, MQTTPubRec, MQTTPubRel,
                                   MQTTPubComp, MQTTSubscribe, MQTTUnsubscribe}
        then (let (c, w) =
                (if mc_ConnectStatus c = MQTTStatusConnected \<and> mc_KeepAliveSeconds c > 0
                 then start_timer E (of_nat (mc_KeepAliveSeconds c * HZ E)) c w else (c, w))
              in Some (True, pPacket, c, w))
        else if sp_Type pPacket = MQTTPingReq
        then do {
          assert (mc_KeepAliveSeconds c > 0);
          assert (mc_ConnectStatus c = MQTTStatusConnected);
          let c = c\<lparr>mc_ConnectStatus := MQTTStatusWaitForPingResp\<rparr>;
          assert (\<not> mc_TimerRunning c);
          let (c, w) = start_timer E (MQTT_PING_TIMEOUT E) c w;
          Some (True, pPacket, c, w)
        }
        else do {
          assert (sp_Type pPacket = MQTTDisconnect);
          Some (True, pPacket, c, w)
        }
      })"

text \<open>\<open>new CMQTTSendPacket (Type, nMaxPacketSize)\<close>, also for packets on the stack.\<close>

definition new_packet ::
  "('w, 'q, 'e, 's, 'f) mqtt_env \<Rightarrow> packet_type \<Rightarrow> nat \<Rightarrow> 'w \<Rightarrow>
     (mqtt_send_packet \<times> 'w) option" where
  "new_packet E Type n w = CMQTTSendPacket_new E (raw_packet E w) Type n w"

definition enqueue ::
  "('w, 'q, 'e, 's, 'f) mqtt_env \<Rightarrow> mqtt_send_packet \<Rightarrow> ('q, 's) mqtt_client \<Rightarrow> 'w \<Rightarrow>
     (('q, 's) mqtt_client \<times> 'w) option" where
  "enqueue E pPacket c w = do {
     let (t, w) = GetTicks E w;
     q \<leftarrow> InsertPacketIntoQueue (env_Q E) (mc_RetransmissionQueue c) pPacket (t + MQTT_RESEND_TIMEOUT E);
     Some (c\<lparr>mc_RetransmissionQueue := q\<rparr>, w)
   }"

text \<open>\<open>if (++m_usNextPacketIdentifier == 0) m_usNextPacketIdentifier++\<close>\<close>

definition take_identifier :: "('q, 's) mqtt_client \<Rightarrow> u16 \<times> ('q, 's) mqtt_client" where
  "take_identifier c =
     (let i = mc_NextPacketIdentifier c; n = i + 1
      in (i, c\<lparr>mc_NextPacketIdentifier := (if n = 0 then n + 1 else n)\<rparr>))"

subsection \<open>Connecting\<close>

record connect_args =
  ca_UseSSL :: bool
  ca_Host :: cstring
  ca_Port :: u16
  ca_ClientIdentifier :: "cstring option"
  ca_Username :: "cstring option"
  ca_Password :: "cstring option"
  ca_KeepAliveSeconds :: u16
  ca_CleanSession :: bool
  ca_WillTopic :: "cstring option"
  ca_WillQoS :: u8
  ca_WillRetain :: bool
  ca_WillPayload :: "u8 list"

definition hex_digit :: "nat \<Rightarrow> u8" where
  "hex_digit n = of_nat (if n < 10 then 48 + n else 87 + n)"

text \<open>The format \<open>%08x\<close>.\<close>

definition hex8 :: "u32 \<Rightarrow> cstring" where
  "hex8 v = map (\<lambda>i. hex_digit (unat v div 16 ^ i mod 16)) [7, 6, 5, 4, 3, 2, 1, 0]"

definition client_identifier ::
  "('w, 'q, 'e, 's, 'f) mqtt_env \<Rightarrow> connect_args \<Rightarrow> 'w \<Rightarrow> cstring \<times> 'w" where
  "client_identifier E a w =
     (case ca_ClientIdentifier a of
        Some i \<Rightarrow> (i, w)
      | None \<Rightarrow>
          let (r, w) = board_Serial E w;
              (s0, s1) = (case r of Some (s0, s1) \<Rightarrow> (s0, s1) | None \<Rightarrow> (0, 0))
          in (cstr ''raspi'' @ hex8 s1 @ hex8 s0, w))"

definition connect_flags :: "connect_args \<Rightarrow> u8 option" where
  "connect_flags a = do {
     let f = (if ca_CleanSession a then MQTT_CONNECT_FLAG_CLEAN_SESSION else 0);
     f \<leftarrow> (case ca_WillTopic a of None \<Rightarrow> Some f
           | Some _ \<Rightarrow> do {
               assert (ca_WillQoS a \<le> MQTT_QOS_EXACTLY_ONCE);
               Some (f OR MQTT_CONNECT_FLAG_WILL OR
                     push_bit MQTT_CONNECT_FLAG_WILL_QOS_SHIFT (ca_WillQoS a) OR
                     (if ca_WillRetain a then MQTT_CONNECT_FLAG_WILL_RETAIN else 0)) });
     Some (case ca_Username a of None \<Rightarrow> f
           | Some _ \<Rightarrow> f OR MQTT_CONNECT_FLAG_USER_NAME OR
               (case ca_Password a of None \<Rightarrow> 0 | Some _ \<Rightarrow> MQTT_CONNECT_FLAG_PASSWORD))
   }"

text \<open>The optional parts at the end of the CONNECT packet: last will, user name and password.\<close>

definition append_will :: "connect_args \<Rightarrow> mqtt_send_packet \<Rightarrow> mqtt_send_packet option" where
  "append_will a p =
     (case ca_WillTopic a of None \<Rightarrow> Some p
      | Some topic \<Rightarrow> do {
          p \<leftarrow> AppendString p topic;
          assert (length (ca_WillPayload a) < 0x10000);
          p \<leftarrow> AppendWord p (of_nat (length (ca_WillPayload a)));
          if length (ca_WillPayload a) > 0 then AppendData p (ca_WillPayload a) else Some p })"

definition append_user :: "connect_args \<Rightarrow> mqtt_send_packet \<Rightarrow> mqtt_send_packet option" where
  "append_user a p =
     (case ca_Username a of None \<Rightarrow> Some p
      | Some user \<Rightarrow> do {
          p \<leftarrow> AppendString p user;
          (case ca_Password a of None \<Rightarrow> Some p | Some pw \<Rightarrow> AppendString p pw) })"

definition connect_packet ::
  "('w, 'q, 'e, 's, 'f) mqtt_env \<Rightarrow> connect_args \<Rightarrow> nat \<Rightarrow> cstring \<Rightarrow> 'w \<Rightarrow>
     (mqtt_send_packet \<times> 'w) option" where
  "connect_packet E a nMaxPacketSize ClientIdentifier w = do {
     flags \<leftarrow> connect_flags a;
     (p, w) \<leftarrow> new_packet E MQTTConnect nMaxPacketSize w;
     p \<leftarrow> AppendString p (cstr ''MQTT'');
     p \<leftarrow> AppendByte p MQTT_PROTOCOL_LEVEL;
     p \<leftarrow> AppendByte p flags;
     p \<leftarrow> AppendWord p (ca_KeepAliveSeconds a);
     p \<leftarrow> AppendString p ClientIdentifier;
     p \<leftarrow> append_will a p;
     p \<leftarrow> append_user a p;
     Some (p, w)
   }"

text \<open>Socket creation and TCP or TLS connection: the reason of failure, if any.\<close>

definition open_connection ::
  "('w, 'q, 'e, 's, 'f) mqtt_env \<Rightarrow> connect_args \<Rightarrow> u8 list \<Rightarrow> 'w \<Rightarrow>
     (disconnect_reason option \<times> 'w) option" where
  "open_connection E a IPServer w = do {
     let w = sock_new E (ca_UseSSL a) w;
     (setup_failed, w) \<leftarrow>
       (if ca_UseSSL a
        then let (r, w) = ssl_AddCertificatePath E (cstr ''/'') w
             in if r < 0 then Some (True, w)
                else do { (r, w) \<leftarrow> simple_Setup E (ca_Host a) None w; Some (r \<noteq> 0, w) }
        else Some (False, w));
     Some (if setup_failed then (Some MQTTDisconnectSSLSetupFailed, sock_delete E w)
           else let (nResult, w) = sock_Connect E IPServer (ca_Port a) w
                in if nResult \<noteq> 0 then (Some MQTTDisconnectConnectFailed, sock_delete E w)
                   else (None, w))
   }"

definition Connect ::
  "('w, 'q, 'e, 's, 'f) mqtt_env \<Rightarrow> connect_args \<Rightarrow> ('q, 's) mqtt_client \<Rightarrow> 'w \<Rightarrow>
     (('q, 's) mqtt_client \<times> 'w) option" where
  "Connect E a c w = do {
     assert (mc_ConnectStatus c = MQTTStatusDisconnected);
     if mc_TopicBuffer c = None then Some (callback (OnDisconnect MQTTDisconnectInsufficientResources) c, w)
     else
       let (ip, w) = dns_Resolve E (ca_Host a) w in
       case ip of
         None \<Rightarrow> Some (callback (OnDisconnect MQTTDisconnectDNSError) c, w)
       | Some IPServer \<Rightarrow> do {
           assert (\<not> mc_Socket c);
           (failure, w) \<leftarrow> open_connection E a IPServer w;
           case failure of
             Some Reason \<Rightarrow> Some (callback (OnDisconnect Reason) c, w)
           | None \<Rightarrow> do {
               let c = c\<lparr>mc_Socket := True,
                         mc_KeepAliveSeconds := unat (ca_KeepAliveSeconds a),
                         mc_TimerRunning := False,
                         mc_NextPacketIdentifier := 1,
                         mc_ReceivePacket := Reset (mc_ReceivePacket c),
                         mc_ConnectStatus := MQTTStatusConnectPending\<rparr>;
               let (ClientIdentifier, w) = client_identifier E a w;
               (p, w) \<leftarrow> connect_packet E a (mc_MaxPacketSize c) ClientIdentifier w;
               (ok, _, c, w) \<leftarrow> SendPacket E p c w;
               if ok then Some (c, w) else CloseConnection E MQTTDisconnectSendFailed c w
             }
         }
   }"

definition Disconnect ::
  "('w, 'q, 'e, 's, 'f) mqtt_env \<Rightarrow> bool \<Rightarrow> ('q, 's) mqtt_client \<Rightarrow> 'w \<Rightarrow>
     (('q, 's) mqtt_client \<times> 'w) option" where
  "Disconnect E bForce c w = do {
     (c, w) \<leftarrow> (if bForce then Some (c, w)
                else do {
                  (p, w) \<leftarrow> new_packet E MQTTDisconnect 128 w;
                  (_, _, c, w) \<leftarrow> SendPacket E p c w;
                  Some (c, w) });
     CloseConnection E MQTTDisconnectFromApplication c w
   }"

subsection \<open>Subscribing and publishing\<close>

text \<open>The common end of \<open>Subscribe\<close>, \<open>Unsubscribe\<close> and \<open>Publish\<close> for a queued packet.\<close>

definition send_and_queue ::
  "('w, 'q, 'e, 's, 'f) mqtt_env \<Rightarrow> mqtt_send_packet \<Rightarrow> u8 \<Rightarrow> u16 \<Rightarrow> ('q, 's) mqtt_client \<Rightarrow> 'w \<Rightarrow>
     (('q, 's) mqtt_client \<times> 'w) option" where
  "send_and_queue E p uchQoS usPacketIdentifier c w = do {
     (ok, p, c, w) \<leftarrow> SendPacket E p c w;
     if \<not> ok then CloseConnection E MQTTDisconnectSendFailed c w
     else enqueue E (SetPacketIdentifier (SetQoS p uchQoS) usPacketIdentifier) c w
   }"

definition Subscribe ::
  "('w, 'q, 'e, 's, 'f) mqtt_env \<Rightarrow> cstring \<Rightarrow> u8 \<Rightarrow> ('q, 's) mqtt_client \<Rightarrow> 'w \<Rightarrow>
     (('q, 's) mqtt_client \<times> 'w) option" where
  "Subscribe E pTopic uchQoS c w = do {
     assert (uchQoS \<le> MQTT_QOS_EXACTLY_ONCE);
     let (usPacketIdentifier, c) = take_identifier c;
     (p, w) \<leftarrow> new_packet E MQTTSubscribe (mc_MaxPacketSize c) w;
     p \<leftarrow> AppendWord p usPacketIdentifier;
     p \<leftarrow> AppendString p pTopic;
     p \<leftarrow> AppendByte p uchQoS;
     send_and_queue E p MQTT_QOS_AT_LEAST_ONCE usPacketIdentifier c w
   }"

definition Unsubscribe ::
  "('w, 'q, 'e, 's, 'f) mqtt_env \<Rightarrow> cstring \<Rightarrow> ('q, 's) mqtt_client \<Rightarrow> 'w \<Rightarrow>
     (('q, 's) mqtt_client \<times> 'w) option" where
  "Unsubscribe E pTopic c w = do {
     let (usPacketIdentifier, c) = take_identifier c;
     (p, w) \<leftarrow> new_packet E MQTTUnsubscribe (mc_MaxPacketSize c) w;
     p \<leftarrow> AppendWord p usPacketIdentifier;
     p \<leftarrow> AppendString p pTopic;
     send_and_queue E p MQTT_QOS_AT_LEAST_ONCE usPacketIdentifier c w
   }"

definition publish_flags :: "u8 \<Rightarrow> bool \<Rightarrow> u8" where
  "publish_flags uchQoS bRetain =
     (let f = push_bit MQTT_FLAG_QOS_SHIFT uchQoS in if bRetain then f OR MQTT_FLAG_RETAIN else f)"

definition publish_packet ::
  "('w, 'q, 'e, 's, 'f) mqtt_env \<Rightarrow> nat \<Rightarrow> cstring \<Rightarrow> u8 list \<Rightarrow> u8 \<Rightarrow> bool \<Rightarrow> u16 \<Rightarrow> 'w \<Rightarrow>
     (mqtt_send_packet \<times> 'w) option" where
  "publish_packet E nMaxPacketSize pTopic pPayload uchQoS bRetain usPacketIdentifier w = do {
     (p, w) \<leftarrow> new_packet E MQTTPublish nMaxPacketSize w;
     p \<leftarrow> SetFlags p (publish_flags uchQoS bRetain);
     p \<leftarrow> AppendString p pTopic;
     p \<leftarrow> AppendWord p usPacketIdentifier;
     p \<leftarrow> (if length pPayload > 0 then AppendData p pPayload else Some p);
     Some (p, w)
   }"

definition Publish ::
  "('w, 'q, 'e, 's, 'f) mqtt_env \<Rightarrow> cstring \<Rightarrow> u8 list \<Rightarrow> u8 \<Rightarrow> bool \<Rightarrow> ('q, 's) mqtt_client \<Rightarrow> 'w \<Rightarrow>
     (('q, 's) mqtt_client \<times> 'w) option" where
  "Publish E pTopic pPayload uchQoS bRetain c w = do {
     assert (uchQoS \<le> MQTT_QOS_EXACTLY_ONCE);
     let (usPacketIdentifier, c) = take_identifier c;
     (p, w) \<leftarrow> publish_packet E (mc_MaxPacketSize c) pTopic pPayload uchQoS bRetain usPacketIdentifier w;
     (ok, p, c, w) \<leftarrow> SendPacket E p c w;
     if \<not> ok then CloseConnection E MQTTDisconnectSendFailed c w
     else if uchQoS \<ge> MQTT_QOS_AT_LEAST_ONCE
     then enqueue E (SetPacketIdentifier (SetQoS p uchQoS) usPacketIdentifier) c w
     else Some (c, w)
   }"

subsection \<open>The packet handlers of the receiver\<close>

definition complete_packet :: "('q, 's) mqtt_client \<Rightarrow> ('q, 's) mqtt_client option" where
  "complete_packet c = do {
     rp \<leftarrow> Complete (mc_ReceivePacket c);
     Some (c\<lparr>mc_ReceivePacket := rp\<rparr>)
   }"

definition read_byte :: "('q, 's) mqtt_client \<Rightarrow> (u8 \<times> ('q, 's) mqtt_client) option" where
  "read_byte c = do {
     (v, rp) \<leftarrow> GetByte (mc_ReceivePacket c);
     Some (v, c\<lparr>mc_ReceivePacket := rp\<rparr>)
   }"

definition read_word :: "('q, 's) mqtt_client \<Rightarrow> (u16 \<times> ('q, 's) mqtt_client) option" where
  "read_word c = do {
     (v, rp) \<leftarrow> GetWord (mc_ReceivePacket c);
     Some (v, c\<lparr>mc_ReceivePacket := rp\<rparr>)
   }"

text \<open>\<open>(TMQTTDisconnectReason) uchReturnCode\<close> for the codes 1 to 5 of the connect acknowledge.\<close>

definition reason_of_code :: "u8 \<Rightarrow> disconnect_reason" where
  "reason_of_code uchReturnCode =
     (if uchReturnCode > 5 then MQTTDisconnectUnknown
      else [MQTTDisconnectFromApplication, MQTTDisconnectUnacceptableProtocolVersion,
            MQTTDisconnectIdentifierRejected, MQTTDisconnectServerUnavailable,
            MQTTDisconnectBadUsernameOrPassword, MQTTDisconnectNotAuthorized] ! unat uchReturnCode)"

definition handle_ConnAck ::
  "('w, 'q, 'e, 's, 'f) mqtt_env \<Rightarrow> ('q, 's) mqtt_client \<Rightarrow> 'w \<Rightarrow>
     (('q, 's) mqtt_client \<times> 'w) option" where
  "handle_ConnAck E c w = do {
     (uchConnAckFlags, c) \<leftarrow> read_byte c;
     (uchReturnCode, c) \<leftarrow> read_byte c;
     c \<leftarrow> complete_packet c;
     if mc_ConnectStatus c \<noteq> MQTTStatusConnectPending
     then CloseConnection E MQTTDisconnectInvalidPacket c w
     else if uchReturnCode = 0
     then Some (callback (OnConnect (uchConnAckFlags AND MQTT_CONNACK_FLAG_SP \<noteq> 0))
                  (c\<lparr>mc_ConnectStatus := MQTTStatusConnected\<rparr>), w)
     else CloseConnection E (reason_of_code uchReturnCode) c w
   }"

definition deliver ::
  "cstring \<Rightarrow> u8 list option \<Rightarrow> nat \<Rightarrow> bool \<Rightarrow> ('q, 's) mqtt_client \<Rightarrow> ('q, 's) mqtt_client" where
  "deliver topic payload n retain c = callback (OnMessage topic payload n retain) c"

text \<open>The acknowledgement packets of the receiver: default size, one identifier.\<close>

definition ack_packet ::
  "('w, 'q, 'e, 's, 'f) mqtt_env \<Rightarrow> packet_type \<Rightarrow> u16 \<Rightarrow> 'w \<Rightarrow> (mqtt_send_packet \<times> 'w) option" where
  "ack_packet E Type usPacketIdentifier w = do {
     (p, w) \<leftarrow> new_packet E Type 128 w;
     p \<leftarrow> AppendWord p usPacketIdentifier;
     Some (p, w)
   }"

text \<open>The three quality-of-service branches, after topic, identifier and payload have been read.\<close>

definition publish_branch ::
  "('w, 'q, 'e, 's, 'f) mqtt_env \<Rightarrow> u8 \<Rightarrow> u16 \<Rightarrow> cstring \<Rightarrow> u8 list option \<Rightarrow> nat \<Rightarrow> bool \<Rightarrow>
     ('q, 's) mqtt_client \<Rightarrow> 'w \<Rightarrow> (('q, 's) mqtt_client \<times> 'w) option" where
  "publish_branch E uchQoS usPacketIdentifier topic payload n retain c w =
     (if uchQoS = MQTT_QOS_AT_MOST_ONCE
      then do {
        c \<leftarrow> complete_packet (deliver topic payload n retain c);
        Some (c, w)
      }
      else if uchQoS = MQTT_QOS_AT_LEAST_ONCE
      then do {
        (p, w) \<leftarrow> ack_packet E MQTTPubAck usPacketIdentifier w;
        (ok, _, c, w) \<leftarrow> SendPacket E p c w;
        if \<not> ok then do {
          c \<leftarrow> complete_packet c;
          CloseConnection E MQTTDisconnectSendFailed c w
        } else do {
          c \<leftarrow> complete_packet (deliver topic payload n retain c);
          Some (c, w)
        }
      }
      else if uchQoS = MQTT_QOS_EXACTLY_ONCE
      then do {
        (p, w) \<leftarrow> ack_packet E MQTTPubRec usPacketIdentifier w;
        (ok, _, c, w) \<leftarrow> SendPacket E p c w;
        if \<not> ok then do {
          c \<leftarrow> complete_packet c;
          CloseConnection E MQTTDisconnectSendFailed c w
        } else do {
          let c = (if \<not> IsPacketIdentifierInStore (env_S E) (mc_PacketIdentifierStore c) usPacketIdentifier
                   then deliver topic payload n retain
                     (c\<lparr>mc_PacketIdentifierStore := InsertPacketIdentifierIntoStore (env_S E)
                          (mc_PacketIdentifierStore c) usPacketIdentifier\<rparr>)
                   else c);
          c \<leftarrow> complete_packet c;
          Some (c, w)
        }
      }
      else Some (c, w))"

definition handle_Publish ::
  "('w, 'q, 'e, 's, 'f) mqtt_env \<Rightarrow> ('q, 's) mqtt_client \<Rightarrow> 'w \<Rightarrow>
     (('q, 's) mqtt_client \<times> 'w) option" where
  "handle_Publish E c w = do {
     let uchFlags = rp_Flags (mc_ReceivePacket c);
     let uchQoS = drop_bit MQTT_FLAG_QOS_SHIFT (uchFlags AND MQTT_FLAG_QOS_MASK);
     let bRetain = (uchFlags AND MQTT_FLAG_RETAIN \<noteq> 0);
     (nTopicLen, topic, rp) \<leftarrow> GetString (mc_ReceivePacket c) (mc_TopicBuffer c) (wrap32 (mc_MaxTopicSize c + 1));
     let c = c\<lparr>mc_ReceivePacket := rp\<rparr>;
     if nTopicLen = 0 then CloseConnection E MQTTDisconnectNotSupported c w
     else do {
       let nPayloadLength = wrap32 (rp_RemainingLength rp + 2 ^ 32 - (nTopicLen + 2));
       (valid, usPacketIdentifier, nPayloadLength, c) \<leftarrow>
         (if uchQoS > MQTT_QOS_AT_MOST_ONCE
          then do {
            (usPacketIdentifier, c) \<leftarrow> read_word c;
            if usPacketIdentifier = 0 \<or> nPayloadLength < 2
            then Some (False, usPacketIdentifier, nPayloadLength, c)
            else Some (True, usPacketIdentifier, nPayloadLength - 2, c)
          }
          else Some (True, 0, nPayloadLength, c));
       if \<not> valid then CloseConnection E MQTTDisconnectInvalidPacket c w
       else do {
         (pPayload, rp) \<leftarrow> GetData (mc_ReceivePacket c) nPayloadLength;
         publish_branch E uchQoS usPacketIdentifier topic pPayload nPayloadLength bRetain
           (c\<lparr>mc_ReceivePacket := rp\<rparr>) w
       }
     }
   }"

text \<open>\<open>RemovePacketFromQueue\<close> and the check that the packet was sent with the given quality.\<close>

definition take_queued ::
  "('w, 'q, 'e, 's, 'f) mqtt_env \<Rightarrow> u16 \<Rightarrow> u8 \<Rightarrow> ('q, 's) mqtt_client \<Rightarrow>
     (bool \<times> ('q, 's) mqtt_client) option" where
  "take_queued E usPacketIdentifier uchQoS c = do {
     (pPacket, q) \<leftarrow> RemovePacketFromQueue (env_Q E) (mc_RetransmissionQueue c) usPacketIdentifier;
     Some (case pPacket of None \<Rightarrow> False | Some p \<Rightarrow> sp_QoS p = uchQoS, c\<lparr>mc_RetransmissionQueue := q\<rparr>)
   }"

definition handle_PubAck ::
  "('w, 'q, 'e, 's, 'f) mqtt_env \<Rightarrow> ('q, 's) mqtt_client \<Rightarrow> 'w \<Rightarrow>
     (('q, 's) mqtt_client \<times> 'w) option" where
  "handle_PubAck E c w = do {
     (usPacketIdentifier, c) \<leftarrow> read_word c;
     c \<leftarrow> complete_packet c;
     (ok, c) \<leftarrow> take_queued E usPacketIdentifier MQTT_QOS_AT_LEAST_ONCE c;
     if ok then Some (c, w) else CloseConnection E MQTTDisconnectPacketIdentifier c w
   }"

definition handle_PubRec ::
  "('w, 'q, 'e, 's, 'f) mqtt_env \<Rightarrow> ('q, 's) mqtt_client \<Rightarrow> 'w \<Rightarrow>
     (('q, 's) mqtt_client \<times> 'w) option" where
  "handle_PubRec E c w = do {
     (usPacketIdentifier, c) \<leftarrow> read_word c;
     c \<leftarrow> complete_packet c;
     (ok, c) \<leftarrow> take_queued E usPacketIdentifier MQTT_QOS_EXACTLY_ONCE c;
     if \<not> ok then CloseConnection E MQTTDisconnectPacketIdentifier c w
     else do {
       (p, w) \<leftarrow> ack_packet E MQTTPubRel usPacketIdentifier w;
       send_and_queue E p MQTT_QOS_EXACTLY_ONCE usPacketIdentifier c w
     }
   }"

definition handle_PubRel ::
  "('w, 'q, 'e, 's, 'f) mqtt_env \<Rightarrow> ('q, 's) mqtt_client \<Rightarrow> 'w \<Rightarrow>
     (('q, 's) mqtt_client \<times> 'w) option" where
  "handle_PubRel E c w = do {
     (usPacketIdentifier, c) \<leftarrow> read_word c;
     c \<leftarrow> complete_packet c;
     if usPacketIdentifier = 0 then CloseConnection E MQTTDisconnectInvalidPacket c w
     else do {
       (p, w) \<leftarrow> ack_packet E MQTTPubComp usPacketIdentifier w;
       (ok, _, c, w) \<leftarrow> SendPacket E p c w;
       if \<not> ok then CloseConnection E MQTTDisconnectSendFailed c w
       else Some (c\<lparr>mc_PacketIdentifierStore := snd (RemovePacketIdentifierFromStore (env_S E)
                       (mc_PacketIdentifierStore c) usPacketIdentifier)\<rparr>, w)
     }
   }"

definition handle_PubComp ::
  "('w, 'q, 'e, 's, 'f) mqtt_env \<Rightarrow> ('q, 's) mqtt_client \<Rightarrow> 'w \<Rightarrow>
     (('q, 's) mqtt_client \<times> 'w) option" where
  "handle_PubComp E c w = do {
     (usPacketIdentifier, c) \<leftarrow> read_word c;
     c \<leftarrow> complete_packet c;
     (ok, c) \<leftarrow> take_queued E usPacketIdentifier MQTT_QOS_EXACTLY_ONCE c;
     if ok then Some (c, w) else CloseConnection E MQTTDisconnectPacketIdentifier c w
   }"

definition handle_SubAck ::
  "('w, 'q, 'e, 's, 'f) mqtt_env \<Rightarrow> ('q, 's) mqtt_client \<Rightarrow> 'w \<Rightarrow>
     (('q, 's) mqtt_client \<times> 'w) option" where
  "handle_SubAck E c w = do {
     (usPacketIdentifier, c) \<leftarrow> read_word c;
     (uchReturnCode, c) \<leftarrow> read_byte c;
     c \<leftarrow> complete_packet c;
     if uchReturnCode > MQTT_QOS_EXACTLY_ONCE
     then CloseConnection E MQTTDisconnectSubscribeError c w
     else do {
       (ok, c) \<leftarrow> take_queued E usPacketIdentifier MQTT_QOS_AT_LEAST_ONCE c;
       if ok then Some (c, w) else CloseConnection E MQTTDisconnectPacketIdentifier c w
     }
   }"

definition handle_UnsubAck ::
  "('w, 'q, 'e, 's, 'f) mqtt_env \<Rightarrow> ('q, 's) mqtt_client \<Rightarrow> 'w \<Rightarrow>
     (('q, 's) mqtt_client \<times> 'w) option" where
  "handle_UnsubAck E c w = do {
     (usPacketIdentifier, c) \<leftarrow> read_word c;
     c \<leftarrow> complete_packet c;
     (ok, c) \<leftarrow> take_queued E usPacketIdentifier MQTT_QOS_AT_LEAST_ONCE c;
     if ok then Some (c, w) else CloseConnection E MQTTDisconnectPacketIdentifier c w
   }"

definition handle_PingResp ::
  "('w, 'q, 'e, 's, 'f) mqtt_env \<Rightarrow> ('q, 's) mqtt_client \<Rightarrow> 'w \<Rightarrow>
     (('q, 's) mqtt_client \<times> 'w) option" where
  "handle_PingResp E c w = do {
     c \<leftarrow> complete_packet c;
     let c = c\<lparr>mc_ConnectStatus := MQTTStatusConnected\<rparr>;
     Some (if mc_KeepAliveSeconds c > 0
           then start_timer E (of_nat (mc_KeepAliveSeconds c * HZ E)) c w else (c, w))
   }"

definition handle_packet ::
  "('w, 'q, 'e, 's, 'f) mqtt_env \<Rightarrow> ('q, 's) mqtt_client \<Rightarrow> 'w \<Rightarrow>
     (('q, 's) mqtt_client \<times> 'w) option" where
  "handle_packet E c w =
     (case rp_Type (mc_ReceivePacket c) of
        MQTTConnAck \<Rightarrow> handle_ConnAck E c w
      | MQTTPublish \<Rightarrow> handle_Publish E c w
      | MQTTPubAck \<Rightarrow> handle_PubAck E c w
      | MQTTPubRec \<Rightarrow> handle_PubRec E c w
      | MQTTPubRel \<Rightarrow> handle_PubRel E c w
      | MQTTPubComp \<Rightarrow> handle_PubComp E c w
      | MQTTSubAck \<Rightarrow> handle_SubAck E c w
      | MQTTUnsubAck \<Rightarrow> handle_UnsubAck E c w
      | MQTTPingResp \<Rightarrow> handle_PingResp E c w
      | _ \<Rightarrow> None)"

text \<open>One turn of the loop of \<open>Receiver\<close>: whether the method goes on, and the new state.\<close>

definition Receiver_step ::
  "('w, 'q, 'e, 's, 'f) mqtt_env \<Rightarrow> ('q, 's) mqtt_client \<Rightarrow> 'w \<Rightarrow>
     (bool \<times> ('q, 's) mqtt_client \<times> 'w) option" where
  "Receiver_step E c w =
     (if \<not> mc_Socket c then Some (False, c, w)
      else do {
        (Status, rp, w) \<leftarrow> Receive E (mc_ReceivePacket c) w;
        let c = c\<lparr>mc_ReceivePacket := rp\<rparr>;
        case Status of
          MQTTReceiveContinue \<Rightarrow> Some (False, c, w)
        | MQTTReceivePacketOK \<Rightarrow> map_option (Pair True) (handle_packet E c w)
        | MQTTReceivePacketInvalid \<Rightarrow>
            map_option (Pair False) (CloseConnection E MQTTDisconnectInvalidPacket c w)
        | MQTTReceiveDisconnect \<Rightarrow>
            map_option (Pair False) (CloseConnection E MQTTDisconnectFromPeer c w)
        | MQTTReceiveNotEnoughMemory \<Rightarrow>
            map_option (Pair False) (CloseConnection E MQTTDisconnectInsufficientResources c w)
        | MQTTReceiveUnknown \<Rightarrow> None
      })"

partial_function (option) Receiver ::
  "('w, 'q, 'e, 's, 'f) mqtt_env \<Rightarrow> ('q, 's) mqtt_client \<Rightarrow> 'w \<Rightarrow>
     (('q, 's) mqtt_client \<times> 'w) option option" where
  "Receiver E c w =
     (case Receiver_step E c w of
        None \<Rightarrow> Some None
      | Some (go, c', w') \<Rightarrow> if go then Receiver E c' w' else Some (Some (c', w')))"

subsection \<open>Retransmission and keep-alive\<close>

text \<open>One turn of the loop of \<open>Sender\<close>: the next element to look at, \<open>None\<close> to leave.\<close>

definition Sender_step ::
  "('w, 'q, 'e, 's, 'f) mqtt_env \<Rightarrow> u32 \<Rightarrow> 'e \<Rightarrow> ('q, 's) mqtt_client \<Rightarrow> 'w \<Rightarrow>
     ('e option \<times> ('q, 's) mqtt_client \<times> 'w) option" where
  "Sender_step E nTicks e c w =
     (let q = mc_RetransmissionQueue c; pPacket = pl_GetPtr (env_Q E) q e in
      if time_after (sp_ScheduledTime pPacket) nTicks then Some (None, c, w)
      else do {
        let pNextElement = pl_GetNext (env_Q E) q e;
        let c = c\<lparr>mc_RetransmissionQueue := pl_Remove (env_Q E) q e\<rparr>;
        pPacket \<leftarrow> (if sp_Type pPacket = MQTTPublish
                    then SetFlags pPacket (sp_Flags pPacket OR MQTT_FLAG_DUP) else Some pPacket);
        (ok, pPacket, c, w) \<leftarrow> SendPacket E pPacket c w;
        if \<not> ok then map_option (Pair None) (CloseConnection E MQTTDisconnectSendFailed c w)
        else map_option (Pair pNextElement) (enqueue E pPacket c w)
      })"

partial_function (option) Sender_loop ::
  "('w, 'q, 'e, 's, 'f) mqtt_env \<Rightarrow> u32 \<Rightarrow> 'e option \<Rightarrow> ('q, 's) mqtt_client \<Rightarrow> 'w \<Rightarrow>
     (('q, 's) mqtt_client \<times> 'w) option option" where
  "Sender_loop E nTicks pElement c w =
     (case pElement of
        None \<Rightarrow> Some (Some (c, w))
      | Some e \<Rightarrow>
          (case Sender_step E nTicks e c w of
             None \<Rightarrow> Some None
           | Some (next, c', w') \<Rightarrow> Sender_loop E nTicks next c' w'))"

definition Sender ::
  "('w, 'q, 'e, 's, 'f) mqtt_env \<Rightarrow> ('q, 's) mqtt_client \<Rightarrow> 'w \<Rightarrow>
     (('q, 's) mqtt_client \<times> 'w) option option" where
  "Sender E c w =
     (let (nTicks, w) = GetTicks E w
      in Sender_loop E nTicks (pl_GetFirst (env_Q E) (mc_RetransmissionQueue c)) c w)"

definition KeepAliveHandler ::
  "('w, 'q, 'e, 's, 'f) mqtt_env \<Rightarrow> ('q, 's) mqtt_client \<Rightarrow> 'w \<Rightarrow>
     (('q, 's) mqtt_client \<times> 'w) option" where
  "KeepAliveHandler E c w =
     (if \<not> mc_TimerRunning c then Some (c, w)
      else let (t, w) = GetTicks E w in
      if time_after (mc_TimerElapsesAt c) t then Some (c, w)
      else let c = c\<lparr>mc_TimerRunning := False\<rparr> in
      if mc_ConnectStatus c = MQTTStatusConnected
      then do {
        (p, w) \<leftarrow> new_packet E MQTTPingReq 128 w;
        (ok, _, c, w) \<leftarrow> SendPacket E p c w;
        if ok then Some (c, w) else CloseConnection E MQTTDisconnectSendFailed c w
      }
      else do {
        assert (mc_ConnectStatus c = MQTTStatusWaitForPingResp);
        CloseConnection E MQTTDisconnectPingFailed c w
      })"

text \<open>One turn of the endless loop of \<open>Run\<close> (\<open>OnLoop\<close> is empty in the class).\<close>

definition Run_step ::
  "('w, 'q, 'e, 's, 'f) mqtt_env \<Rightarrow> ('q, 's) mqtt_client \<Rightarrow> 'w \<Rightarrow>
     (('q, 's) mqtt_client \<times> 'w) option option" where
  "Run_step E c w =
     (if mc_ConnectStatus c \<noteq> MQTTStatusDisconnected
      then do {
        r \<leftarrow> Receiver E c w;
        case r of None \<Rightarrow> Some None
        | Some (c, w) \<Rightarrow> do {
            r \<leftarrow> Sender E c w;
            case r of None \<Rightarrow> Some None
            | Some (c, w) \<Rightarrow>
                Some (map_option (\<lambda>(c, w). (c, MsSleep E 50 w)) (KeepAliveHandler E c w))
          }
      }
      else Some (Some (c, MsSleep E 200 w)))"

end
