(* ===== verification/Mqtt_Client_Inv.thy ===== *)
theory Mqtt_Client_Inv
  imports Mqtt_Client
begin

text \<open>
  The invariant of the MQTT client and its preservation by every method. The methods are shown to
  return, that is to trip no assertion, whenever the invariant holds and the arguments satisfy the
  assertions on them; for the receiver the one malformed packet that does trip an assertion is
  characterised exactly.
\<close>

locale mqtt_client_env =
  circle_contract E + queue: send_queue "env_Q E" qel + store: id_store "env_S E" sel
  for E :: "('w, 'q, 'e, 's, 'f) mqtt_env"
    and qel :: "'q \<Rightarrow> ('e \<times> mqtt_send_packet) list"
    and sel :: "'s \<Rightarrow> ('f \<times> u16) list"

text \<open>Packets small enough for a three-byte remaining length.\<close>

definition pkt_ok :: "mqtt_send_packet \<Rightarrow> bool" where
  "pkt_ok p \<longleftrightarrow> sp_wf p \<and> sp_MaxPacketSize p \<le> 2 ^ 21"

definition queueable :: "mqtt_send_packet \<Rightarrow> bool" where
  "queueable p \<longleftrightarrow> pkt_ok p \<and> sp_Type p \<in> {MQTTPublish, MQTTSubscribe, MQTTUnsubscribe, MQTTPubRel}"

definition mc_inv ::
  "('w, 'q, 'e, 's, 'f) mqtt_env \<Rightarrow> ('q \<Rightarrow> ('e \<times> mqtt_send_packet) list) \<Rightarrow>
     ('s \<Rightarrow> ('f \<times> u16) list) \<Rightarrow> ('q, 's) mqtt_client \<Rightarrow> bool" where
  "mc_inv E qel sel c \<longleftrightarrow>
     128 \<le> mc_MaxPacketSize c \<and> mc_MaxPacketSize c \<le> 2 ^ 21 \<and>
     rp_wf E (mc_ReceivePacket c) \<and>
     (\<forall>n. mc_TopicBuffer c = Some n \<longrightarrow> n = wrap32 (mc_MaxTopicSize c + 1)) \<and>
     (mc_ConnectStatus c \<noteq> MQTTStatusDisconnected \<longrightarrow> mc_TopicBuffer c \<noteq> None) \<and>
     mc_ConnectStatus c \<noteq> MQTTStatusUnknown \<and>
     mc_Socket c = (mc_ConnectStatus c \<noteq> MQTTStatusDisconnected) \<and>
     (mc_ConnectStatus c = MQTTStatusDisconnected \<longrightarrow>
        ptrs_of qel (mc_RetransmissionQueue c) = [] \<and> ptrs_of sel (mc_PacketIdentifierStore c) = []) \<and>
     (mc_ConnectStatus c \<noteq> MQTTStatusDisconnected \<longrightarrow> mc_NextPacketIdentifier c \<noteq> 0) \<and>
     (mc_TimerRunning c \<and> mc_ConnectStatus c \<noteq> MQTTStatusDisconnected \<longrightarrow>
        mc_KeepAliveSeconds c > 0 \<and>
        mc_ConnectStatus c \<in> {MQTTStatusConnected, MQTTStatusWaitForPingResp}) \<and>
     (mc_ConnectStatus c = MQTTStatusWaitForPingResp \<longrightarrow> mc_TimerRunning c) \<and>
     (\<forall>p \<in> set (ptrs_of qel (mc_RetransmissionQueue c)). queueable p)"

text \<open>While a connection is open the buffer for topics is there, with the size \<open>GetString\<close> is told.\<close>

lemma mc_inv_topic:
  "mc_inv E qel sel c \<Longrightarrow> mc_Socket c \<Longrightarrow> mc_TopicBuffer c = Some (wrap32 (mc_MaxTopicSize c + 1))"
  by (auto simp: mc_inv_def)

lemma mc_inv_topic_size:
  "mc_inv E qel sel c \<Longrightarrow> mc_TopicBuffer c \<noteq> None \<Longrightarrow> mc_TopicBuffer c = Some (wrap32 (mc_MaxTopicSize c + 1))"
  by (auto simp: mc_inv_def)

lemma pkt_ok_small:
  assumes "pkt_ok p" "\<not> sp_Error p"
  shows "length (sp_payload p) < 2 ^ 21"
  using assms sp_payload_length [of p] sp_wfD [of p] by (auto simp: pkt_ok_def)

lemma pkt_ok_same:
  assumes "pkt_ok p" "sp_wf q" "sp_same p q"
  shows "pkt_ok q"
  using assms sp_sameD [OF assms(3)] by (simp add: pkt_ok_def)

text \<open>\<open>Send\<close> never fails an assertion on such a packet; success costs one try.\<close>

lemma Send_total:
  assumes "pkt_ok p"
  shows "\<exists>ok q w'. Send C p w = Some (ok, q, w') \<and> pkt_ok q \<and> sp_same p q \<and>
     (ok \<longrightarrow> \<not> sp_Error p \<and> sp_SendTries p = Suc (sp_SendTries q))"
proof (cases "sp_Error p \<or> sp_SendTries p = 0")
  case True
  with assms show ?thesis by (auto simp: Send_def)
next
  case False
  obtain r w' where s: "sock_Send C (sp_frame p) True w = (r, w')"
    by (cases "sock_Send C (sp_frame p) True w")
  obtain q where "Send C p w = Some (r = int (length (sp_frame p)), q, w')" "sp_wf q" "sp_same p q"
    "sp_SendTries q = sp_SendTries p - 1"
    using Send_step [OF _ _ _ _ s] False assms pkt_ok_small [OF assms] by (auto simp: pkt_ok_def)
  with False pkt_ok_same [OF assms] show ?thesis by auto
qed

lemma new_packet_ok:
  assumes "circle_contract E" "128 \<le> n" "n \<le> 2 ^ 21"
  shows "\<exists>p w'. new_packet E t n w = Some (p, w') \<and> pkt_ok p \<and> sp_Type p = t \<and>
     sp_MaxPacketSize p = n \<and> sp_BufPtr p = 5 \<and> sp_SendTries p = MQTT_SEND_TRIES"
proof -
  obtain b w' where h: "heap_new E n w = (b, w')" by (cases "heap_new E n w")
  show ?thesis
  proof (cases b)
    case None
    with h assms show ?thesis
      by (simp add: new_packet_def CMQTTSendPacket_new_def pkt_ok_def sp_wf_def
          MAX_LENGTH_FIXED_HEADER_def)
  next
    case (Some buf)
    then have "length buf = n"
      using circle_contract.heap_length [OF assms(1)] h by blast
    with Some h assms show ?thesis
      by (simp add: new_packet_def CMQTTSendPacket_new_def pkt_ok_def sp_wf_def
          MAX_LENGTH_FIXED_HEADER_def)
  qed
qed

lemma pkt_ok_put [simp]:
  assumes "pkt_ok p"
  shows "pkt_ok (sp_put p bs)" "sp_Type (sp_put p bs) = sp_Type p"
    "sp_SendTries (sp_put p bs) = sp_SendTries p"
    "sp_MaxPacketSize (sp_put p bs) = sp_MaxPacketSize p"
  using assms sp_wf_extend [of p bs]
  by (auto simp: pkt_ok_def sp_put_def sp_wf_def split: option.splits)

text \<open>Strings and data that exist in a 32-bit address space.\<close>

definition fits_memory :: "'a list \<Rightarrow> bool" where
  "fits_memory xs \<longleftrightarrow> length xs + 2 < 2 ^ 31"

lemma append_ok:
  assumes "pkt_ok p"
  shows "AppendByte p v = Some (sp_put p [v])" "AppendWord p u = Some (sp_put p [hi8 u, lo8 u])"
    "fits_memory s \<Longrightarrow> AppendString p s = Some (sp_put p (mqtt_string s))"
    "fits_memory bs \<Longrightarrow> AppendData p bs = Some (sp_put p bs)"
  using assms AppendByte_put AppendWord_put AppendString_put AppendData_put
  by (simp_all add: pkt_ok_def fits_memory_def)

definition timer_only :: "('q, 's) mqtt_client \<Rightarrow> ('q, 's) mqtt_client \<Rightarrow> bool" where
  "timer_only c c' \<longleftrightarrow>
     c' = c\<lparr>mc_TimerRunning := mc_TimerRunning c', mc_TimerElapsesAt := mc_TimerElapsesAt c'\<rparr>"

lemma timer_only_refl [simp]: "timer_only c c"
  by (simp add: timer_only_def)

lemma timer_onlyD:
  assumes "timer_only c c'"
  shows "mc_ConnectStatus c' = mc_ConnectStatus c" "mc_ReceivePacket c' = mc_ReceivePacket c"
    "mc_RetransmissionQueue c' = mc_RetransmissionQueue c" "mc_Events c' = mc_Events c"
    "mc_PacketIdentifierStore c' = mc_PacketIdentifierStore c" "mc_Socket c' = mc_Socket c"
    "mc_MaxPacketSize c' = mc_MaxPacketSize c" "mc_MaxTopicSize c' = mc_MaxTopicSize c"
    "mc_NextPacketIdentifier c' = mc_NextPacketIdentifier c"
    "mc_KeepAliveSeconds c' = mc_KeepAliveSeconds c" "mc_TopicBuffer c' = mc_TopicBuffer c"
  by (subst assms [unfolded timer_only_def], simp)+

lemma start_timer_only:
  "timer_only c (fst (start_timer E d c w))" "mc_TimerRunning (fst (start_timer E d c w))"
  by (simp_all add: start_timer_def timer_only_def split: prod.splits)

definition app_types :: "packet_type set" where
  "app_types = {MQTTConnect, MQTTPublish, MQTTPubAck, MQTTPubRec, MQTTPubRel, MQTTPubComp,
                MQTTSubscribe, MQTTUnsubscribe}"

lemma SendPacket_app_eq:
  assumes "Send E p w = Some (ok, q, w1)" "sp_Type q \<in> app_types" "mc_Socket c"
    "mc_ConnectStatus c \<noteq> MQTTStatusDisconnected"
  shows "SendPacket E p c w = Some (ok, q,
     if ok \<and> mc_ConnectStatus c = MQTTStatusConnected \<and> mc_KeepAliveSeconds c > 0
     then start_timer E (of_nat (mc_KeepAliveSeconds c * HZ E)) c w1 else (c, w1))"
  using assms unfolding SendPacket_def app_types_def [symmetric] by auto

lemma mc_inv_timer:
  assumes "mc_inv E qel sel c" "timer_only c c'"
    "mc_ConnectStatus c = MQTTStatusConnected" "0 < mc_KeepAliveSeconds c"
  shows "mc_inv E qel sel c'"
  using assms(1,3,4) timer_onlyD [OF assms(2)] by (simp add: mc_inv_def)

lemma SendPacket_app:
  assumes "pkt_ok p" "sp_Type p \<in> app_types" "mc_inv E qel sel c"
  shows "\<exists>ok p' c' w'. SendPacket E p c w = Some (ok, p', c', w') \<and> pkt_ok p' \<and> sp_same p p' \<and>
     timer_only c c' \<and> mc_inv E qel sel c' \<and>
     (ok \<longrightarrow> mc_ConnectStatus c \<noteq> MQTTStatusDisconnected \<and> \<not> sp_Error p \<and>
        sp_SendTries p = Suc (sp_SendTries p'))"
proof (cases "mc_ConnectStatus c = MQTTStatusDisconnected")
  case True
  then have "SendPacket E p c w = Some (False, p, c, w)" by (simp add: SendPacket_def)
  then show ?thesis
    by (intro exI [of _ False] exI [of _ p] exI [of _ c] exI [of _ w]) (use assms in simp)
next
  case False
  obtain ok q w1 where s: "Send E p w = Some (ok, q, w1)" "pkt_ok q" "sp_same p q"
    "ok \<longrightarrow> \<not> sp_Error p \<and> sp_SendTries p = Suc (sp_SendTries q)"
    using Send_total [OF assms(1), of E w] by blast
  have sock: "mc_Socket c" using assms(3) False by (simp add: mc_inv_def)
  have t: "sp_Type q \<in> app_types" using assms(2) sp_sameD(1) [OF s(3)] by simp
  obtain c1 w2 where st: "start_timer E (of_nat (mc_KeepAliveSeconds c * HZ E)) c w1 = (c1, w2)"
    by (cases "start_timer E (of_nat (mc_KeepAliveSeconds c * HZ E)) c w1")
  have c1: "timer_only c c1"
    using start_timer_only(1) [of c E _ w1] st by (metis fst_conv)
  show ?thesis
  proof (cases "ok \<and> mc_ConnectStatus c = MQTTStatusConnected \<and> mc_KeepAliveSeconds c > 0")
    case True
    then have "SendPacket E p c w = Some (ok, q, c1, w2)"
      using SendPacket_app_eq [OF s(1) t sock False] st by simp
    moreover have "mc_inv E qel sel c1"
      using mc_inv_timer [OF assms(3) c1] True by simp
    ultimately show ?thesis
      by (intro exI [of _ ok] exI [of _ q] exI [of _ c1] exI [of _ w2])
        (use s(2-4) False c1 in simp)
  next
    case outer: False
    then have "SendPacket E p c w = Some (ok, q, c, w1)"
      unfolding SendPacket_app_eq [OF s(1) t sock False] by auto
    then show ?thesis
      by (intro exI [of _ ok] exI [of _ q] exI [of _ c] exI [of _ w1])
        (use s(2-4) False assms(3) in simp)
  qed
qed

text \<open>The sends left to the packets of the queue.\<close>

definition total_tries :: "mqtt_send_packet list \<Rightarrow> nat" where
  "total_tries ps = sum_list (map sp_SendTries ps)"

lemma total_tries_simps [simp]:
  "total_tries [] = 0" "total_tries (p # ps) = sp_SendTries p + total_tries ps"
  "total_tries (ps @ qs) = total_tries ps + total_tries qs"
  by (simp_all add: total_tries_def)

lemma flags_or_dup: "f \<le> 0x0F \<Longrightarrow> f OR MQTT_FLAG_DUP \<le> 0x0F"
proof -
  assume "f \<le> 0x0F"
  then have "take_bit 4 (f OR 8) = f OR 8" using small_flags(1) [of f] by simp
  then have "take_bit 4 (unat (f OR 8)) = unat (f OR 8)"
    by (metis unsigned_take_bit_eq)
  then have "unat (f OR 8) < 16"
    using take_bit_nat_less_exp [of 4 "unat (f OR 8)"] by simp
  then show ?thesis by (simp add: MQTT_FLAG_DUP_def word_le_nat_alt)
qed

definition connect_args_ok :: "connect_args \<Rightarrow> bool" where
  "connect_args_ok a \<longleftrightarrow>
     (case ca_ClientIdentifier a of None \<Rightarrow> True | Some s \<Rightarrow> fits_memory s) \<and>
     (case ca_Username a of None \<Rightarrow> True | Some s \<Rightarrow> fits_memory s) \<and>
     (case ca_Password a of None \<Rightarrow> True | Some s \<Rightarrow> fits_memory s) \<and>
     (case ca_WillTopic a of None \<Rightarrow> True
      | Some s \<Rightarrow> fits_memory s \<and> ca_WillQoS a \<le> MQTT_QOS_EXACTLY_ONCE \<and>
          length (ca_WillPayload a) < 0x10000)"

lemma publish_flags_small: "k \<le> MQTT_QOS_EXACTLY_ONCE \<Longrightarrow> publish_flags k r \<le> 0x0F"
proof -
  assume "k \<le> MQTT_QOS_EXACTLY_ONCE"
  then have "unat k \<le> 2" by (simp add: MQTT_QOS_EXACTLY_ONCE_def word_le_nat_alt)
  then have "k = 0 \<or> k = 1 \<or> k = 2"
    by (auto simp: word_unat_eq_iff)
  then show ?thesis
    by (auto simp: publish_flags_def mqtt_flag_defs)
qed

lemma pkt_ok_flags: "pkt_ok p \<Longrightarrow> f \<le> 0x0F \<Longrightarrow> pkt_ok (p\<lparr>sp_Flags := f\<rparr>)"
  by (simp add: pkt_ok_def sp_wf_def split: option.splits)

context mqtt_client_env
begin

lemma CloseConnection_inv:
  assumes "mc_inv E qel sel c \<or> (mc_Socket c \<and> mc_ConnectStatus c \<noteq> MQTTStatusDisconnected \<and>
      128 \<le> mc_MaxPacketSize c \<and> mc_MaxPacketSize c \<le> 2 ^ 21 \<and> rp_wf E (mc_ReceivePacket c) \<and>
      (\<forall>n. mc_TopicBuffer c = Some n \<longrightarrow> n = wrap32 (mc_MaxTopicSize c + 1)))"
  shows "\<exists>c' w'. CloseConnection E r c w = Some (c', w') \<and> mc_inv E qel sel c' \<and>
     mc_ConnectStatus c' = MQTTStatusDisconnected \<and> \<not> mc_Socket c' \<and>
     (mc_ConnectStatus c \<noteq> MQTTStatusDisconnected \<longrightarrow> mc_Events c' = mc_Events c @ [OnDisconnect r])"
proof (cases "mc_ConnectStatus c = MQTTStatusDisconnected")
  case True
  with assms show ?thesis by (auto simp: CloseConnection_def mc_inv_def)
next
  case False
  obtain q where q: "CleanupQueue (env_Q E) (mc_RetransmissionQueue c) = Some q" "ptrs_of qel q = []"
    using queue.cleanup_correct by blast
  obtain s where s: "CleanupPacketIdentifierStore (env_S E) (mc_PacketIdentifierStore c) = Some s"
    "ptrs_of sel s = []"
    using store.store_cleanup by blast
  have "mc_Socket c" using assms False by (auto simp: mc_inv_def)
  then show ?thesis
    using False q s assms by (auto simp: CloseConnection_def mc_inv_def callback_def Let_def)
qed

lemma close_inv:
  assumes "mc_inv E qel sel c"
  shows "\<exists>c' w'. CloseConnection E r c w = Some (c', w') \<and> mc_inv E qel sel c'"
  using CloseConnection_inv [of c r w] assms by blast

lemma enqueue_inv:
  assumes "mc_inv E qel sel c" "queueable p" "mc_ConnectStatus c \<noteq> MQTTStatusDisconnected"
  shows "\<exists>c' w' t. enqueue E p c w = Some (c', w') \<and> mc_inv E qel sel c' \<and>
     mc_ConnectStatus c' = mc_ConnectStatus c \<and> mc_Events c' = mc_Events c \<and>
     mc_ReceivePacket c' = mc_ReceivePacket c \<and>
     ptrs_of qel (mc_RetransmissionQueue c') =
       queue_insert (SetScheduledTime p t) (ptrs_of qel (mc_RetransmissionQueue c))"
proof -
  obtain t w' where t: "GetTicks E w = (t, w')" by (cases "GetTicks E w")
  obtain q where q: "InsertPacketIntoQueue (env_Q E) (mc_RetransmissionQueue c) p
      (t + MQTT_RESEND_TIMEOUT E) = Some q"
    "ptrs_of qel q = queue_insert (SetScheduledTime p (t + MQTT_RESEND_TIMEOUT E))
      (ptrs_of qel (mc_RetransmissionQueue c))"
    using queue.insert_correct by blast
  have "queueable (SetScheduledTime p u)" for u
    using assms(2) by (simp add: queueable_def pkt_ok_def sp_wf_def SetScheduledTime_def
        split: option.splits)
  then show ?thesis
    using assms t q by (auto simp: enqueue_def mc_inv_def)
qed

lemma send_and_queue_inv:
  assumes "mc_inv E qel sel c" "queueable p"
  shows "\<exists>c' w'. send_and_queue E p k i c w = Some (c', w') \<and> mc_inv E qel sel c'"
proof -
  have "pkt_ok p" "sp_Type p \<in> app_types"
    using assms(2) by (auto simp: queueable_def app_types_def)
  then obtain ok p' c1 w1 where s: "SendPacket E p c w = Some (ok, p', c1, w1)" "pkt_ok p'"
    "sp_same p p'" "timer_only c c1" "mc_inv E qel sel c1"
    "ok \<longrightarrow> mc_ConnectStatus c \<noteq> MQTTStatusDisconnected"
    using SendPacket_app assms(1) by metis
  show ?thesis
  proof (cases ok)
    case False
    then show ?thesis
      using s close_inv [OF s(5), of MQTTDisconnectSendFailed w1] by (auto simp: send_and_queue_def)
  next
    case True
    let ?p = "SetPacketIdentifier (SetQoS p' k) i"
    have "queueable ?p"
      using s(2) assms(2) sp_sameD(1) [OF s(3)]
      by (simp add: queueable_def pkt_ok_def sp_wf_def SetPacketIdentifier_def SetQoS_def
          split: option.splits)
    moreover have "mc_ConnectStatus c1 \<noteq> MQTTStatusDisconnected"
      using True s timer_onlyD(1) [OF s(4)] by simp
    ultimately show ?thesis
      using True s(1) enqueue_inv [OF s(5), of ?p w1] by (auto simp: send_and_queue_def)
  qed
qed

lemma take_identifier_inv:
  assumes "mc_inv E qel sel c"
  shows "mc_inv E qel sel (snd (take_identifier c))"
    "mc_ConnectStatus c \<noteq> MQTTStatusDisconnected \<Longrightarrow> fst (take_identifier c) \<noteq> 0"
    "mc_MaxPacketSize (snd (take_identifier c)) = mc_MaxPacketSize c"
  using assms by (auto simp: take_identifier_def mc_inv_def Let_def)

lemma pkt_ok_new:
  assumes "mc_inv E qel sel c"
  shows "\<exists>p w'. new_packet E t (mc_MaxPacketSize c) w = Some (p, w') \<and> pkt_ok p \<and> sp_Type p = t"
  using new_packet_ok [OF circle_contract_axioms, of "mc_MaxPacketSize c" t w] assms
  by (auto simp: mc_inv_def)

lemma pkt_ok_128:
  "\<exists>p w'. new_packet E t 128 w = Some (p, w') \<and> pkt_ok p \<and> sp_Type p = t"
  using new_packet_ok [OF circle_contract_axioms, of 128 t w] by auto

lemma Subscribe_inv:
  assumes inv: "mc_inv E qel sel c" and "uchQoS \<le> MQTT_QOS_EXACTLY_ONCE" "fits_memory topic"
  shows "\<exists>c' w'. Subscribe E topic uchQoS c w = Some (c', w') \<and> mc_inv E qel sel c'"
proof -
  obtain i c1 where i: "take_identifier c = (i, c1)" by (cases "take_identifier c")
  have inv1: "mc_inv E qel sel c1" using take_identifier_inv(1) [OF inv] i by simp
  obtain p w1 where p: "new_packet E MQTTSubscribe (mc_MaxPacketSize c1) w = Some (p, w1)" "pkt_ok p"
    "sp_Type p = MQTTSubscribe"
    using pkt_ok_new [OF inv1] by blast
  let ?p = "sp_put (sp_put (sp_put p [hi8 i, lo8 i]) (mqtt_string topic)) [uchQoS]"
  have "queueable ?p" using p by (simp add: queueable_def)
  from send_and_queue_inv [OF inv1 this] show ?thesis
    using assms(2,3) i p by (simp add: Subscribe_def append_ok)
qed

lemma Unsubscribe_inv:
  assumes inv: "mc_inv E qel sel c" and "fits_memory topic"
  shows "\<exists>c' w'. Unsubscribe E topic c w = Some (c', w') \<and> mc_inv E qel sel c'"
proof -
  obtain i c1 where i: "take_identifier c = (i, c1)" by (cases "take_identifier c")
  have inv1: "mc_inv E qel sel c1" using take_identifier_inv(1) [OF inv] i by simp
  obtain p w1 where p: "new_packet E MQTTUnsubscribe (mc_MaxPacketSize c1) w = Some (p, w1)" "pkt_ok p"
    "sp_Type p = MQTTUnsubscribe"
    using pkt_ok_new [OF inv1] by blast
  let ?p = "sp_put (sp_put p [hi8 i, lo8 i]) (mqtt_string topic)"
  have "queueable ?p" using p by (simp add: queueable_def)
  from send_and_queue_inv [OF inv1 this] show ?thesis
    using assms(2) i p by (simp add: Unsubscribe_def append_ok)
qed

lemma publish_packet_ok:
  assumes inv: "mc_inv E qel sel c" and "uchQoS \<le> MQTT_QOS_EXACTLY_ONCE"
    "fits_memory topic" "fits_memory payload"
  shows "\<exists>p w'. publish_packet E (mc_MaxPacketSize c) topic payload uchQoS retain i w = Some (p, w') \<and>
     queueable p"
proof -
  obtain p w1 where p: "new_packet E MQTTPublish (mc_MaxPacketSize c) w = Some (p, w1)" "pkt_ok p"
    "sp_Type p = MQTTPublish"
    using pkt_ok_new [OF inv] by blast
  let ?p = "p\<lparr>sp_Flags := publish_flags uchQoS retain\<rparr>"
  have f: "SetFlags p (publish_flags uchQoS retain) = Some ?p" "pkt_ok ?p" "sp_Type ?p = MQTTPublish"
    using p publish_flags_small [OF assms(2)] pkt_ok_flags by (simp_all add: SetFlags_def)
  let ?q = "sp_put (sp_put ?p (mqtt_string topic)) [hi8 i, lo8 i]"
  have q: "pkt_ok ?q" "sp_Type ?q = MQTTPublish" using f by simp_all
  show ?thesis
    using p(1) f q assms(3,4) by (simp add: publish_packet_def append_ok queueable_def)
qed

lemma Publish_inv:
  assumes inv: "mc_inv E qel sel c" and "uchQoS \<le> MQTT_QOS_EXACTLY_ONCE"
    "fits_memory topic" "fits_memory payload"
  shows "\<exists>c' w'. Publish E topic payload uchQoS retain c w = Some (c', w') \<and> mc_inv E qel sel c'"
proof -
  obtain i c1 where i: "take_identifier c = (i, c1)" by (cases "take_identifier c")
  have inv1: "mc_inv E qel sel c1" using take_identifier_inv(1) [OF inv] i by simp
  obtain p w1 where p: "publish_packet E (mc_MaxPacketSize c1) topic payload uchQoS retain i w =
      Some (p, w1)" "queueable p"
    using publish_packet_ok [OF inv1 assms(2-4)] by blast
  have pp: "pkt_ok p" "sp_Type p \<in> app_types"
    using p(2) by (auto simp: queueable_def app_types_def)
  obtain ok p' c2 w2 where s: "SendPacket E p c1 w1 = Some (ok, p', c2, w2)" "mc_inv E qel sel c2"
    using SendPacket_app [OF pp inv1] by blast
  have "send_and_queue E p uchQoS i c1 w1 =
      (if ok then enqueue E (SetPacketIdentifier (SetQoS p' uchQoS) i) c2 w2
       else CloseConnection E MQTTDisconnectSendFailed c2 w2)"
    using s by (simp add: send_and_queue_def)
  moreover have "\<exists>c' w'. send_and_queue E p uchQoS i c1 w1 = Some (c', w') \<and> mc_inv E qel sel c'"
    using send_and_queue_inv [OF inv1 p(2)] .
  ultimately show ?thesis
    using assms(2) i p(1) s by (auto simp: Publish_def)
qed

lemma SendPacket_Disconnect:
  assumes "pkt_ok p" "sp_Type p = MQTTDisconnect" "mc_inv E qel sel c"
  shows "\<exists>ok p' w'. SendPacket E p c w = Some (ok, p', c, w')"
proof (cases "mc_ConnectStatus c = MQTTStatusDisconnected")
  case True
  then show ?thesis by (auto simp: SendPacket_def)
next
  case False
  obtain ok q w1 where s: "Send E p w = Some (ok, q, w1)" "sp_same p q"
    using Send_total [OF assms(1), of E w] by blast
  moreover have "mc_Socket c" using assms(3) False by (simp add: mc_inv_def)
  ultimately show ?thesis
    using False assms(2) sp_sameD(1) [OF s(2)] by (auto simp: SendPacket_def)
qed

lemma Disconnect_inv:
  assumes inv: "mc_inv E qel sel c"
  shows "\<exists>c' w'. Disconnect E force c w = Some (c', w') \<and> mc_inv E qel sel c' \<and>
     mc_ConnectStatus c' = MQTTStatusDisconnected"
proof (cases force)
  case True
  then show ?thesis
    using CloseConnection_inv [of c] inv by (fastforce simp: Disconnect_def)
next
  case False
  obtain p w1 where p: "new_packet E MQTTDisconnect 128 w = Some (p, w1)" "pkt_ok p"
    "sp_Type p = MQTTDisconnect"
    using pkt_ok_128 by blast
  obtain ok p' w2 where "SendPacket E p c w1 = Some (ok, p', c, w2)"
    using SendPacket_Disconnect [OF p(2,3) inv] by blast
  then show ?thesis
    using False p CloseConnection_inv [of c MQTTDisconnectFromApplication w2] inv
    by (auto simp: Disconnect_def)
qed

lemma SendPacket_PingReq:
  assumes "pkt_ok p" "sp_Type p = MQTTPingReq" "mc_inv E qel sel c"
    "mc_ConnectStatus c = MQTTStatusConnected" "\<not> mc_TimerRunning c" "0 < mc_KeepAliveSeconds c"
  shows "\<exists>ok p' c' w'. SendPacket E p c w = Some (ok, p', c', w') \<and> mc_inv E qel sel c' \<and>
     (ok \<longrightarrow> mc_ConnectStatus c' = MQTTStatusWaitForPingResp) \<and> (\<not> ok \<longrightarrow> c' = c)"
proof -
  obtain ok q w1 where s: "Send E p w = Some (ok, q, w1)" "sp_same p q"
    using Send_total [OF assms(1), of E w] by blast
  have sock: "mc_Socket c" using assms(3,4) by (simp add: mc_inv_def)
  obtain t w2 where t: "GetTicks E w1 = (t, w2)" by (cases "GetTicks E w1")
  show ?thesis
    using assms sock s(1) t sp_sameD(1) [OF s(2)]
    by (cases ok) (auto simp: SendPacket_def start_timer_def mc_inv_def)
qed

lemma KeepAliveHandler_inv:
  assumes inv: "mc_inv E qel sel c"
    and live: "mc_ConnectStatus c \<noteq> MQTTStatusDisconnected \<or> \<not> mc_TimerRunning c"
  shows "\<exists>c' w'. KeepAliveHandler E c w = Some (c', w') \<and> mc_inv E qel sel c'"
proof -
  obtain t w1 where t: "GetTicks E w = (t, w1)" by (cases "GetTicks E w")
  let ?c = "c\<lparr>mc_TimerRunning := False\<rparr>"
  consider (idle) "\<not> mc_TimerRunning c \<or> time_after (mc_TimerElapsesAt c) t"
    | (ping) "mc_TimerRunning c" "\<not> time_after (mc_TimerElapsesAt c) t"
        "mc_ConnectStatus c = MQTTStatusConnected" "0 < mc_KeepAliveSeconds c"
    | (lost) "mc_TimerRunning c" "\<not> time_after (mc_TimerElapsesAt c) t"
        "mc_ConnectStatus c = MQTTStatusWaitForPingResp"
    using inv live by (auto simp: mc_inv_def)
  then show ?thesis
  proof cases
    case idle
    then show ?thesis
      using t inv by (cases "mc_TimerRunning c") (auto simp: KeepAliveHandler_def)
  next
    case ping
    obtain p w2 where p: "new_packet E MQTTPingReq 128 w1 = Some (p, w2)" "pkt_ok p"
      "sp_Type p = MQTTPingReq"
      using pkt_ok_128 by blast
    have inv': "mc_inv E qel sel ?c" using inv ping by (simp add: mc_inv_def)
    obtain ok p' c1 w3 where s: "SendPacket E p ?c w2 = Some (ok, p', c1, w3)" "mc_inv E qel sel c1"
      using SendPacket_PingReq [OF p(2,3) inv', of w2] ping by auto
    show ?thesis
      using ping t p(1) s close_inv [OF s(2), of MQTTDisconnectSendFailed w3]
      by (auto simp: KeepAliveHandler_def)
  next
    case lost
    have "mc_Socket ?c \<and> mc_ConnectStatus ?c \<noteq> MQTTStatusDisconnected \<and>
        128 \<le> mc_MaxPacketSize ?c \<and> mc_MaxPacketSize ?c \<le> 2 ^ 21 \<and> rp_wf E (mc_ReceivePacket ?c) \<and>
        (\<forall>n. mc_TopicBuffer ?c = Some n \<longrightarrow> n = wrap32 (mc_MaxTopicSize ?c + 1))"
      using inv lost by (simp add: mc_inv_def)
    then show ?thesis
      using lost t CloseConnection_inv [of ?c MQTTDisconnectPingFailed w1]
      by (auto simp: KeepAliveHandler_def)
  qed
qed

text \<open>The arguments of \<open>Connect\<close> that meet its assertions.\<close>

lemma connect_packet_ok:
  assumes inv: "mc_inv E qel sel c" and args: "connect_args_ok a" and "fits_memory i"
  shows "\<exists>p w'. connect_packet E a (mc_MaxPacketSize c) i w = Some (p, w') \<and> pkt_ok p \<and>
     sp_Type p = MQTTConnect"
proof -
  obtain f where f: "connect_flags a = Some f"
    using args by (auto simp: connect_flags_def connect_args_ok_def split: option.splits)
  obtain p w1 where p: "new_packet E MQTTConnect (mc_MaxPacketSize c) w = Some (p, w1)" "pkt_ok p"
    "sp_Type p = MQTTConnect"
    using pkt_ok_new [OF inv] by blast
  have m: "fits_memory (cstr ''MQTT'')" by (simp add: fits_memory_def)
  have "length (ca_WillPayload a) < 0x10000 \<Longrightarrow> fits_memory (ca_WillPayload a)"
    by (simp add: fits_memory_def)
  then show ?thesis
    using f p m args assms(3)
    by (auto simp: connect_packet_def append_will_def append_user_def append_ok connect_args_ok_def
        split: option.splits)
qed

lemma client_identifier_fits:
  "connect_args_ok a \<Longrightarrow> fits_memory (fst (client_identifier E a w))"
  by (auto simp: client_identifier_def connect_args_ok_def fits_memory_def hex8_def
      split: option.splits prod.splits)

lemma open_connection_None:
  "open_connection E a ip w = None \<longleftrightarrow> ca_UseSSL a \<and> null_string E = None \<and>
     0 \<le> fst (ssl_AddCertificatePath E (cstr ''/'') (sock_new E True w))"
proof (cases "ca_UseSSL a")
  case True
  obtain r w1 where "ssl_AddCertificatePath E (cstr ''/'') (sock_new E True w) = (r, w1)" by (metis surj_pair)
  then show ?thesis
    using True by (cases "null_string E") (auto simp: open_connection_def simple_Setup_def split: prod.splits)
qed (simp add: open_connection_def)

text \<open>\<open>Connect\<close> returns and keeps the invariant, unless the connection cannot be opened.\<close>

lemma Connect_inv:
  assumes inv: "mc_inv E qel sel c" and args: "connect_args_ok a"
    and status: "mc_ConnectStatus c = MQTTStatusDisconnected"
    and dns: "dns_Resolve E (ca_Host a) w = (ip, w1)"
  shows "if mc_TopicBuffer c \<noteq> None \<and> (\<exists>s. ip = Some s \<and> open_connection E a s w1 = None)
    then Connect E a c w = None
    else \<exists>c' w'. Connect E a c w = Some (c', w') \<and> mc_inv E qel sel c' \<and>
      mc_ConnectStatus c' \<in> {MQTTStatusDisconnected, MQTTStatusConnectPending}"
proof -
  have sock: "\<not> mc_Socket c" using inv status by (simp add: mc_inv_def)
  have cb: "mc_inv E qel sel (callback ev c)" "mc_ConnectStatus (callback ev c) = MQTTStatusDisconnected"
    for ev using inv status by (simp_all add: mc_inv_def callback_def)
  consider (early) "mc_TopicBuffer c = None \<or> ip = None"
    | (stuck) s where "mc_TopicBuffer c \<noteq> None" "ip = Some s" "open_connection E a s w1 = None"
    | (failed) s f w2 where "mc_TopicBuffer c \<noteq> None" "ip = Some s" "open_connection E a s w1 = Some (Some f, w2)"
    | (opened) s w2 where "mc_TopicBuffer c \<noteq> None" "ip = Some s" "open_connection E a s w1 = Some (None, w2)"
    by (metis not_None_eq surj_pair)
  then show ?thesis
  proof cases
    case early
    then show ?thesis using status dns cb by (cases "mc_TopicBuffer c") (auto simp: Connect_def)
  next
    case stuck
    then show ?thesis using status dns sock by (simp add: Connect_def)
  next
    case failed
    then show ?thesis using status dns sock cb by (simp add: Connect_def)
  next
    case (opened s w2)
    obtain i w3 where i: "client_identifier E a w2 = (i, w3)" by (cases "client_identifier E a w2")
    let ?c = "c\<lparr>mc_Socket := True, mc_KeepAliveSeconds := unat (ca_KeepAliveSeconds a),
        mc_TimerRunning := False, mc_NextPacketIdentifier := 1,
        mc_ReceivePacket := Reset (mc_ReceivePacket c), mc_ConnectStatus := MQTTStatusConnectPending\<rparr>"
    have inv1: "mc_inv E qel sel ?c"
      using inv opened(1) by (simp add: mc_inv_def Reset_def rp_wf_def split: option.splits)
    obtain p w4 where p: "connect_packet E a (mc_MaxPacketSize ?c) i w3 = Some (p, w4)" "pkt_ok p"
      "sp_Type p = MQTTConnect"
      using connect_packet_ok [OF inv1 args] client_identifier_fits [OF args, of w2] i by fastforce
    obtain ok p' c1 w5 where s: "SendPacket E p ?c w4 = Some (ok, p', c1, w5)" "mc_inv E qel sel c1"
      "timer_only ?c c1"
      using SendPacket_app [OF p(2) _ inv1, of w4] p(3) by (auto simp: app_types_def)
    show ?thesis
      using status dns sock opened i p(1) s timer_onlyD(1) [OF s(3)]
        CloseConnection_inv [of c1 MQTTDisconnectSendFailed w5]
      by (cases ok) (auto simp: Connect_def)
  qed
qed

lemma queueable_flags:
  assumes "queueable p" "f \<le> 0x0F"
  shows "queueable (p\<lparr>sp_Flags := f\<rparr>)"
  using assms pkt_ok_flags by (simp add: queueable_def)

lemma resend_flags:
  assumes "queueable p"
  shows "\<exists>p'. (if sp_Type p = MQTTPublish then SetFlags p (sp_Flags p OR MQTT_FLAG_DUP) else Some p) =
     Some p' \<and> queueable p' \<and> sp_SendTries p' = sp_SendTries p"
proof -
  have "sp_Flags p OR MQTT_FLAG_DUP \<le> 0x0F"
    using assms flags_or_dup by (simp add: queueable_def pkt_ok_def sp_wf_def)
  then show ?thesis
    using assms queueable_flags by (simp add: SetFlags_def)
qed

lemma enqueue_keeps:
  assumes "enqueue E p c w = Some (c', w')"
  shows "\<exists>xs ys e t. qel (mc_RetransmissionQueue c) = xs @ ys \<and>
     qel (mc_RetransmissionQueue c') = xs @ (e, SetScheduledTime p t) # ys"
proof -
  obtain t w1 q where "InsertPacketIntoQueue (env_Q E) (mc_RetransmissionQueue c) p t = Some q"
    "c' = c\<lparr>mc_RetransmissionQueue := q\<rparr>"
    using assms by (auto simp: enqueue_def res_simps split: prod.splits)
  then show ?thesis using queue.insert_keeps by fastforce
qed

lemma Sender_step_inv:
  assumes inv: "mc_inv E qel sel c" and live: "mc_ConnectStatus c \<noteq> MQTTStatusDisconnected"
    and e: "qel (mc_RetransmissionQueue c) = xs @ (e, p) # ys"
  shows "\<exists>next c' w'. Sender_step E nTicks e c w = Some (next, c', w') \<and> mc_inv E qel sel c' \<and>
     (\<forall>e'. next = Some e' \<longrightarrow> mc_ConnectStatus c' \<noteq> MQTTStatusDisconnected \<and>
        (\<exists>xs' p' ys'. qel (mc_RetransmissionQueue c') = xs' @ (e', p') # ys') \<and>
        total_tries (ptrs_of qel (mc_RetransmissionQueue c')) <
        total_tries (ptrs_of qel (mc_RetransmissionQueue c)))"
proof -
  let ?q = "mc_RetransmissionQueue c"
  have get: "pl_GetPtr (env_Q E) ?q e = p" "pl_GetNext (env_Q E) ?q e = first_handle ys"
    using e queue.GetPtr [of ?q xs e p ys] queue.GetNext [of ?q xs e p ys] by simp_all
  show ?thesis
  proof (cases "time_after (sp_ScheduledTime p) nTicks")
    case True
    then show ?thesis using get inv by (simp add: Sender_step_def)
  next
    case False
    let ?c = "c\<lparr>mc_RetransmissionQueue := pl_Remove (env_Q E) ?q e\<rparr>"
    have q1: "qel (mc_RetransmissionQueue ?c) = xs @ ys"
      using queue.Remove [OF e] by simp
    have ps: "queueable p" "\<forall>r \<in> set (map snd (xs @ ys)). queueable r"
      using inv e by (auto simp: mc_inv_def ptrs_of_def)
    have inv1: "mc_inv E qel sel ?c"
      using inv live ps(2) q1 by (simp add: mc_inv_def ptrs_of_def)
    obtain p1 where p1: "(if sp_Type p = MQTTPublish then SetFlags p (sp_Flags p OR MQTT_FLAG_DUP)
        else Some p) = Some p1" "queueable p1" "sp_SendTries p1 = sp_SendTries p"
      using resend_flags [OF ps(1)] by blast
    have "pkt_ok p1" "sp_Type p1 \<in> app_types"
      using p1(2) by (auto simp: queueable_def app_types_def)
    then obtain ok p2 c2 w2 where s: "SendPacket E p1 ?c w = Some (ok, p2, c2, w2)" "pkt_ok p2"
      "sp_same p1 p2" "timer_only ?c c2" "mc_inv E qel sel c2"
      "ok \<longrightarrow> sp_SendTries p1 = Suc (sp_SendTries p2)"
      using SendPacket_app [OF _ _ inv1, of p1 w] by auto
    show ?thesis
    proof (cases ok)
      case False
      then show ?thesis
        using \<open>\<not> time_after (sp_ScheduledTime p) nTicks\<close> get p1(1) s
          close_inv [OF s(5), of MQTTDisconnectSendFailed w2]
        by (auto simp: Sender_step_def Let_def)
    next
      case True
      have q2: "qel (mc_RetransmissionQueue c2) = xs @ ys"
        using timer_onlyD(3) [OF s(4)] q1 by simp
      have "queueable p2"
        using s(2) p1(2) sp_sameD(1) [OF s(3)] by (simp add: queueable_def)
      moreover have live2: "mc_ConnectStatus c2 \<noteq> MQTTStatusDisconnected"
        using timer_onlyD(1) [OF s(4)] live by simp
      ultimately obtain c3 w3 where c3: "enqueue E p2 c2 w2 = Some (c3, w3)" "mc_inv E qel sel c3"
        "mc_ConnectStatus c3 = mc_ConnectStatus c2"
        using enqueue_inv [OF s(5), of p2 w2] by blast
      obtain as bs e3 t where k: "xs @ ys = as @ bs"
        "qel (mc_RetransmissionQueue c3) = as @ (e3, SetScheduledTime p2 t) # bs"
        using enqueue_keeps [OF c3(1)] q2 by metis
      have "total_tries (map snd (xs @ ys)) = total_tries (map snd (as @ bs))"
        using k(1) by simp
      then have "total_tries (ptrs_of qel (mc_RetransmissionQueue c3)) <
          total_tries (ptrs_of qel ?q)"
        using k(2) e s(6) True p1(3) by (simp add: ptrs_of_def SetScheduledTime_def)
      moreover have "\<exists>xs' p' ys'. qel (mc_RetransmissionQueue c3) = xs' @ (e', p') # ys'"
        if "first_handle ys = Some e'" for e'
      proof -
        from that have "ys \<noteq> []" and "e' = fst (hd ys)"
          by (auto simp: first_handle_def split: list.splits if_splits)
        then obtain p' where "(e', p') \<in> set ys"
          by (metis hd_in_set prod.collapse)
        then have "(e', p') \<in> set (as @ bs)" using k(1) by (metis Un_iff set_append)
        then have "(e', p') \<in> set (qel (mc_RetransmissionQueue c3))" using k(2) by auto
        then show ?thesis by (meson split_list)
      qed
      moreover have "Sender_step E nTicks e c w = Some (first_handle ys, c3, w3)"
        using \<open>\<not> time_after (sp_ScheduledTime p) nTicks\<close> get p1(1) s(1) True c3(1)
        by (auto simp: Sender_step_def Let_def)
      ultimately show ?thesis
        using c3 live2 by auto
    qed
  qed
qed

lemma Sender_loop_inv:
  "mc_inv E qel sel c \<Longrightarrow>
   (\<forall>e. next = Some e \<longrightarrow> mc_ConnectStatus c \<noteq> MQTTStatusDisconnected \<and>
      (\<exists>xs p ys. qel (mc_RetransmissionQueue c) = xs @ (e, p) # ys)) \<Longrightarrow>
   \<exists>c' w'. Sender_loop E nTicks next c w = Some (Some (c', w')) \<and> mc_inv E qel sel c'"
proof (induction "total_tries (ptrs_of qel (mc_RetransmissionQueue c))" arbitrary: "next" c w
    rule: less_induct)
  case less
  show ?case
  proof (cases "next")
    case None
    then show ?thesis using less.prems(1) by (simp add: Sender_loop.simps)
  next
    case (Some e)
    then obtain xs p ys where live: "mc_ConnectStatus c \<noteq> MQTTStatusDisconnected"
      and q: "qel (mc_RetransmissionQueue c) = xs @ (e, p) # ys"
      using less.prems(2) by blast
    obtain next' c' w' where st: "Sender_step E nTicks e c w = Some (next', c', w')" "mc_inv E qel sel c'"
      and n: "\<forall>e'. next' = Some e' \<longrightarrow> mc_ConnectStatus c' \<noteq> MQTTStatusDisconnected \<and>
        (\<exists>xs' p' ys'. qel (mc_RetransmissionQueue c') = xs' @ (e', p') # ys') \<and>
        total_tries (ptrs_of qel (mc_RetransmissionQueue c')) <
        total_tries (ptrs_of qel (mc_RetransmissionQueue c))"
      using Sender_step_inv [OF less.prems(1) live q, of nTicks w] by blast
    have eq: "Sender_loop E nTicks (Some e) c w = Sender_loop E nTicks next' c' w'"
      using st(1) by (simp add: Sender_loop.simps [of E nTicks "Some e"])
    show ?thesis
    proof (cases next')
      case None
      then show ?thesis
        using eq st(2) Some by (simp add: Sender_loop.simps [of E nTicks None])
    next
      case inner: (Some e')
      then show ?thesis
        using eq Some less.hyps [of c' next' w'] n st(2) by auto
    qed
  qed
qed

lemma Sender_inv:
  assumes inv: "mc_inv E qel sel c"
  shows "\<exists>c' w'. Sender E c w = Some (Some (c', w')) \<and> mc_inv E qel sel c'"
proof -
  obtain t w1 where t: "GetTicks E w = (t, w1)" by (cases "GetTicks E w")
  let ?q = "mc_RetransmissionQueue c"
  have "\<forall>e. first_handle (qel ?q) = Some e \<longrightarrow> mc_ConnectStatus c \<noteq> MQTTStatusDisconnected \<and>
      (\<exists>xs p ys. qel ?q = xs @ (e, p) # ys)"
    using inv by (cases "qel ?q") (fastforce simp: mc_inv_def ptrs_of_def first_handle_def)+
  then show ?thesis
    using Sender_loop_inv [OF inv, of "first_handle (qel ?q)" t w1] t
    by (simp add: Sender_def queue.GetFirst)
qed

text \<open>Construction establishes the invariant, destruction of a closed client returns.\<close>

lemma CMQTTClient_new_inv:
  assumes "128 \<le> n" "n \<le> 2 ^ 21" "1 \<le> k" "n * k + FRAME_BUFFER_SIZE E < 2 ^ 31"
    "ptrs_of qel q0 = []" "ptrs_of sel s0 = []"
  shows "\<exists>c w'. CMQTTClient_new E mem q0 s0 n k t w = Some (c, w') \<and> mc_inv E qel sel c \<and>
     mc_ConnectStatus c = MQTTStatusDisconnected \<and> mc_Events c = []"
proof -
  let ?n = "n * k + FRAME_BUFFER_SIZE E"
  have n: "wrap32 ?n = ?n" using assms(4) by (intro wrap32_id) simp
  obtain b w1 where h: "heap_new E ?n w = (b, w1)" by (cases "heap_new E ?n w")
  obtain tb w2 where t: "heap_new E (wrap32 (t + 1)) w1 = (tb, w2)" by (cases "heap_new E (wrap32 (t + 1)) w1")
  let ?rp = "(mc_ReceivePacket mem)\<lparr>rp_BufferSize := ?n, rp_InPtr := 0, rp_Buffer := b\<rparr>"
  have "CMQTTReceivePacket_new E (mc_ReceivePacket mem) n k w = Some (?rp, w1)"
    using assms(1,3) h unfolding CMQTTReceivePacket_new_def n by simp
  moreover have "rp_wf E ?rp"
    using assms(4) h heap_length by (auto simp: rp_wf_def split: option.splits)
  ultimately show ?thesis
    using assms t heap_length by (auto simp: CMQTTClient_new_def mc_inv_def)
qed

lemma CMQTTClient_delete_ok:
  assumes "mc_inv E qel sel c" "mc_ConnectStatus c = MQTTStatusDisconnected"
  shows "\<exists>c'. CMQTTClient_delete E c = Some c' \<and> ptrs_of qel (mc_RetransmissionQueue c') = [] \<and>
     ptrs_of sel (mc_PacketIdentifierStore c') = []"
  using queue.cleanup_correct [of "mc_RetransmissionQueue c"]
    store.store_cleanup [of "mc_PacketIdentifierStore c"] assms
  by (auto simp: CMQTTClient_delete_def mc_inv_def)

end

end
