(* ===== verification/Mqtt_Receiver.thy ===== *)
theory Mqtt_Receiver
  imports Mqtt_Client_Inv
begin

text \<open>
  The packet handlers of \<open>CMQTTClient::Receiver\<close>: every handler keeps the client invariant,
  takes the announced packet off the stream or closes the connection, and trips an assertion for
  exactly one kind of malformed packet. From that follow the termination of the receiver loop
  and the exactly-once delivery of messages sent with quality of service 2.
\<close>

subsection \<open>Reading the fields of the announced packet\<close>

lemma mc_inv_rp:
  "mc_inv E qel sel c \<Longrightarrow> rp_wf E rp \<Longrightarrow> mc_inv E qel sel (c\<lparr>mc_ReceivePacket := rp\<rparr>)"
  by (simp add: mc_inv_def)

lemma mc_inv_wf: "mc_inv E qel sel c \<Longrightarrow> rp_wf E (mc_ReceivePacket c)"
  by (simp add: mc_inv_def)

lemma mc_inv_callback: "mc_inv E qel sel (callback ev c) = mc_inv E qel sel c"
  by (simp add: mc_inv_def callback_def)

lemma callback_fields [simp]:
  "mc_ReceivePacket (callback ev c) = mc_ReceivePacket c" "mc_Socket (callback ev c) = mc_Socket c"
  "mc_Events (callback ev c) = mc_Events c @ [ev]"
  "mc_PacketIdentifierStore (callback ev c) = mc_PacketIdentifierStore c"
  "mc_ConnectStatus (callback ev c) = mc_ConnectStatus c"
  "mc_RetransmissionQueue (callback ev c) = mc_RetransmissionQueue c"
  by (simp_all add: callback_def)

lemma list_2: "2 \<le> length xs \<Longrightarrow> \<exists>h l r. xs = h # l # r"
  by (cases xs; cases "tl xs") auto

lemma read_word_ok:
  assumes "rp_wf E (mc_ReceivePacket c)" "rp_ready (mc_ReceivePacket c)"
    "2 \<le> length (rp_rest (mc_ReceivePacket c))"
  shows "\<exists>v. read_word c = Some (v, c\<lparr>mc_ReceivePacket := rp_adv (mc_ReceivePacket c) 2\<rparr>)"
proof -
  obtain h l r where "rp_rest (mc_ReceivePacket c) = h # l # r"
    using list_2 [OF assms(3)] by blast
  from GetWord_rest [OF assms(1,2) this] show ?thesis by (simp add: read_word_def)
qed

lemma read_byte_ok:
  assumes "rp_wf E (mc_ReceivePacket c)" "rp_ready (mc_ReceivePacket c)"
    "rp_rest (mc_ReceivePacket c) \<noteq> []"
  shows "\<exists>v. read_byte c = Some (v, c\<lparr>mc_ReceivePacket := rp_adv (mc_ReceivePacket c) 1\<rparr>)"
proof -
  obtain v r where "rp_rest (mc_ReceivePacket c) = v # r"
    using assms(3) by (cases "rp_rest (mc_ReceivePacket c)") auto
  from GetByte_rest [OF assms(1,2) this] show ?thesis by (simp add: read_byte_def)
qed

lemma complete_ok:
  assumes "rp_wf E (mc_ReceivePacket c)" "rp_ready (mc_ReceivePacket c)"
  shows "\<exists>rp. complete_packet c = Some (c\<lparr>mc_ReceivePacket := rp\<rparr>) \<and> rp_wf E rp \<and>
     rp_stream rp = drop (rp_OutPtr (mc_ReceivePacket c)) (rp_stream (mc_ReceivePacket c))"
  using Complete_stream [OF assms(1)] assms(2)
  by (auto simp: complete_packet_def rp_ready_def)

lemma copy_chars_range:
  "i + n \<le> length buf \<Longrightarrow> length acc + n < m \<Longrightarrow>
     copy_chars buf m i n acc =
       Some (if ascii (take n (drop i buf)) then (True, i + n, acc @ take n (drop i buf))
             else (False, i + length (takeWhile (\<lambda>v. v AND 0x80 = 0) (take n (drop i buf))) + 1,
                   acc @ takeWhile (\<lambda>v. v AND 0x80 = 0) (take n (drop i buf))))"
proof (induction n arbitrary: i acc)
  case (Suc n)
  have "take (Suc n) (drop i buf) = buf ! i # take n (drop (Suc i) buf)"
    using Suc.prems by (simp add: Cons_nth_drop_Suc [symmetric])
  then show ?case
    using Suc.prems Suc.IH [of "Suc i" "acc @ [buf ! i]"]
    by (auto simp: buf_simps ascii_def)
qed (simp add: ascii_def)

text \<open>Every outcome of \<open>GetString\<close>: a non-zero length means a complete ASCII string.\<close>

lemma GetString_cases:
  assumes "rp_wf C p" "rp_ready p" "rp_rest p = h # l # r"
  shows "\<exists>n s q. GetString p (Some k) k = Some (n, s, q) \<and> rp_wf C q \<and>
     (n \<noteq> 0) = (0 < unat (be16 h l) \<and> unat (be16 h l) < k \<and> unat (be16 h l) \<le> length r \<and>
                ascii (take (unat (be16 h l)) r)) \<and>
     (n \<noteq> 0 \<longrightarrow> n = unat (be16 h l) \<and> s = take n r \<and> q = rp_adv p (2 + n))"
proof -
  let ?n = "unat (be16 h l)" and ?q = "rp_adv p 2"
  have n: "?n < 2 ^ 31" using unsigned_less [of "be16 h l"] by (rule less_trans) simp
  have w: "GetWord p = Some (be16 h l, ?q)" using GetWord_rest [OF assms] .
  have rdy: "rp_ready ?q" "rp_rest ?q = r"
    using rp_adv_ready [OF assms(1,2), of 2] assms(3) by simp_all
  have wrap: "wrap32 (rp_BytesConsumed ?q + ?n) = rp_BytesConsumed ?q + ?n"
    using rp_consume_wrap [OF rdy(1) n] .
  have len: "length r = rp_RemainingLength p - rp_BytesConsumed ?q"
    using rp_rest_length [OF _ rdy(1), of C] rdy(2) assms(1) by simp
  obtain b where b: "rp_Buffer p = Some b" "length b = rp_BufferSize p" "rp_InPtr p \<le> length b"
    using rp_ready_buffer [OF assms(1,2)] .
  show ?thesis
  proof (cases "?n \<le> length r \<and> ?n < k")
    case False
    then show ?thesis
      using w wrap len b assms(1) by (auto simp: GetString_def Let_def rp_wf_def rp_adv_def)
  next
    case True
    have "rp_OutPtr p + 2 + length r \<le> rp_InPtr p"
      using rdy(1) len by (auto simp: rp_ready_def)
    then have o: "rp_OutPtr p + 2 + ?n \<le> length b" "rp_OutPtr p + 2 + ?n \<le> rp_InPtr p"
      using True b(3) by simp_all
    have "take ?n r = take ?n (drop (rp_OutPtr p + 2) b)"
    proof -
      have "r = take (length r) (drop (rp_OutPtr p + 2) (take (rp_InPtr p) b))"
        using rdy(2) len(1) b(1) by (simp add: rp_rest_def rp_stream_def)
      then have "take ?n r = take ?n (take (length r) (drop (rp_OutPtr p + 2) (take (rp_InPtr p) b)))"
        by simp
      then show ?thesis using True o(2) by (simp add: drop_take min_def)
    qed
    then have c: "copy_chars b k (rp_OutPtr p + 2) ?n [] =
        Some (if ascii (take ?n r) then (True, rp_OutPtr p + 2 + ?n, take ?n r)
              else (False, rp_OutPtr p + 2 + length (takeWhile (\<lambda>v. v AND 0x80 = 0) (take ?n r)) + 1,
                    takeWhile (\<lambda>v. v AND 0x80 = 0) (take ?n r)))"
      using copy_chars_range [OF o(1), of "[]" k] True by simp
    show ?thesis
      using True w wrap len b c assms(1)
      by (auto simp: GetString_def Let_def rp_wf_def rp_adv_def)
  qed
qed


text \<open>Sending, queueing and closing leave the receive packet alone.\<close>

lemma start_timer_rp [simp]:
  "mc_ReceivePacket (fst (start_timer E d c w)) = mc_ReceivePacket c"
  by (simp add: start_timer_def split: prod.splits)

lemma SendPacket_rp:
  "SendPacket E p c w = Some (ok, p', c', w') \<Longrightarrow> mc_ReceivePacket c' = mc_ReceivePacket c"
  by (auto simp: SendPacket_def start_timer_def Let_def res_simps split: if_splits prod.splits)

lemma enqueue_rp: "enqueue E p c w = Some (c', w') \<Longrightarrow> mc_ReceivePacket c' = mc_ReceivePacket c"
  by (auto simp: enqueue_def res_simps split: prod.splits)

lemma CloseConnection_rp:
  "CloseConnection E r c w = Some (c', w') \<Longrightarrow> mc_ReceivePacket c' = mc_ReceivePacket c"
  by (auto simp: CloseConnection_def callback_def Let_def res_simps split: if_splits)

lemma send_and_queue_rp:
  "send_and_queue E p k i c w = Some (c', w') \<Longrightarrow> mc_ReceivePacket c' = mc_ReceivePacket c"
  by (auto simp: send_and_queue_def res_simps split: if_splits
      dest!: SendPacket_rp enqueue_rp CloseConnection_rp)

subsection \<open>Handlers keep the invariant\<close>

text \<open>
  What holds when \<open>Receive\<close> has announced a packet: the client is open and the packet lies
  unread behind its header of at least two bytes.
\<close>

definition at_packet ::
  "('w, 'q, 'e, 's, 'f) mqtt_env \<Rightarrow> ('q \<Rightarrow> ('e \<times> mqtt_send_packet) list) \<Rightarrow>
     ('s \<Rightarrow> ('f \<times> u16) list) \<Rightarrow> ('q, 's) mqtt_client \<Rightarrow> bool" where
  "at_packet E qel sel c \<longleftrightarrow> mc_inv E qel sel c \<and> mc_Socket c \<and>
     (let rp = mc_ReceivePacket c in rp_ready rp \<and> rp_BytesConsumed rp = 0 \<and> 2 \<le> rp_OutPtr rp \<and>
        basic_checks (rp_Type rp) (rp_Flags rp) (rp_RemainingLength rp) = MQTTReceivePacketOK)"

text \<open>
  The outcome of a handler: the method returns, the invariant holds again, and either the packet
  has been taken off the stream or the connection is closed.
\<close>

definition handled ::
  "('w, 'q, 'e, 's, 'f) mqtt_env \<Rightarrow> ('q \<Rightarrow> ('e \<times> mqtt_send_packet) list) \<Rightarrow>
     ('s \<Rightarrow> ('f \<times> u16) list) \<Rightarrow> nat \<Rightarrow> (('q, 's) mqtt_client \<times> 'w) option \<Rightarrow> bool" where
  "handled E qel sel n r \<longleftrightarrow> (\<exists>c' w'. r = Some (c', w') \<and> mc_inv E qel sel c' \<and>
     (mc_Socket c' \<longrightarrow> length (rp_stream (mc_ReceivePacket c')) + 2 \<le> n))"

lemma at_packetD:
  assumes "at_packet E qel sel c"
  shows "mc_inv E qel sel c" "mc_Socket c" "rp_wf E (mc_ReceivePacket c)" "rp_ready (mc_ReceivePacket c)"
    "2 \<le> rp_OutPtr (mc_ReceivePacket c)" "mc_ConnectStatus c \<noteq> MQTTStatusDisconnected"
    "length (rp_rest (mc_ReceivePacket c)) = rp_RemainingLength (mc_ReceivePacket c)"
    "rp_OutPtr (mc_ReceivePacket c) \<le> length (rp_stream (mc_ReceivePacket c))"
  using assms rp_rest_length [of E "mc_ReceivePacket c"] rp_wf_stream_length [of E "mc_ReceivePacket c"]
  by (auto simp: at_packet_def mc_inv_def Let_def rp_ready_def)

text \<open>The lengths that the basic checks guarantee.\<close>

lemma basic_checks_length:
  assumes "basic_checks t f n = MQTTReceivePacketOK"
  shows "t \<in> {MQTTConnAck, MQTTPubAck, MQTTPubRec, MQTTPubRel, MQTTPubComp, MQTTUnsubAck} \<Longrightarrow> n = 2"
    "t = MQTTSubAck \<Longrightarrow> 3 \<le> n" "t = MQTTPublish \<Longrightarrow> 3 \<le> n" "t = MQTTPingResp \<Longrightarrow> n = 0"
    "t \<in> {MQTTConnAck, MQTTPublish, MQTTPubAck, MQTTPubRec, MQTTPubRel, MQTTPubComp, MQTTSubAck,
           MQTTUnsubAck, MQTTPingResp}"
    "t = MQTTPublish \<Longrightarrow>
       drop_bit MQTT_FLAG_QOS_SHIFT (f AND MQTT_FLAG_QOS_MASK) \<le> MQTT_QOS_EXACTLY_ONCE"
  using assms by (cases t; auto simp: basic_checks_def Let_def split: if_splits)+

text \<open>
  The malformed packet that trips the assertion of \<open>GetWord\<close>: a PUBLISH with quality of
  service above 0 and an acceptable topic, after which fewer than two bytes are left.
\<close>

definition truncated_publish :: "mqtt_receive_packet \<Rightarrow> nat \<Rightarrow> bool" where
  "truncated_publish rp nMaxTopicSize \<longleftrightarrow>
     rp_Type rp = MQTTPublish \<and>
     drop_bit MQTT_FLAG_QOS_SHIFT (rp_Flags rp AND MQTT_FLAG_QOS_MASK) > MQTT_QOS_AT_MOST_ONCE \<and>
     (case rp_rest rp of h # l # r \<Rightarrow>
        (let n = unat (be16 h l) in
         0 < n \<and> n < wrap32 (nMaxTopicSize + 1) \<and> n \<le> length r \<and> ascii (take n r) \<and> length r < n + 2)
      | _ \<Rightarrow> False)"

lemma qos_cases:
  assumes "(k :: u8) \<le> MQTT_QOS_EXACTLY_ONCE"
  shows "k = MQTT_QOS_AT_MOST_ONCE \<or> k = MQTT_QOS_AT_LEAST_ONCE \<or> k = MQTT_QOS_EXACTLY_ONCE"
proof -
  have "unat k \<le> 2" using assms by (simp add: MQTT_QOS_EXACTLY_ONCE_def word_le_nat_alt)
  then show ?thesis by (auto simp: word_unat_eq_iff mqtt_qos_defs)
qed

text \<open>The handler of PUBLISH in terms of the bytes of the packet.\<close>

definition publish_qos :: "mqtt_receive_packet \<Rightarrow> u8" where
  "publish_qos rp = drop_bit MQTT_FLAG_QOS_SHIFT (rp_Flags rp AND MQTT_FLAG_QOS_MASK)"

definition publish_retain :: "mqtt_receive_packet \<Rightarrow> bool" where
  "publish_retain rp \<longleftrightarrow> rp_Flags rp AND MQTT_FLAG_RETAIN \<noteq> 0"

lemma handle_Publish_no_topic:
  assumes "rp_wf E (mc_ReceivePacket c)" "rp_ready (mc_ReceivePacket c)"
    "rp_rest (mc_ReceivePacket c) = h # l # r"
    "mc_TopicBuffer c = Some (wrap32 (mc_MaxTopicSize c + 1))"
    "\<not> (0 < unat (be16 h l) \<and> unat (be16 h l) < wrap32 (mc_MaxTopicSize c + 1) \<and> unat (be16 h l) \<le> length r \<and>
       ascii (take (unat (be16 h l)) r))"
  shows "\<exists>q. rp_wf E q \<and> handle_Publish E c w =
     CloseConnection E MQTTDisconnectNotSupported (c\<lparr>mc_ReceivePacket := q\<rparr>) w"
  using GetString_cases [OF assms(1-3), of "wrap32 (mc_MaxTopicSize c + 1)"] assms(4,5)
  by (auto simp: handle_Publish_def Let_def)

lemma handle_Publish_topic:
  assumes wf: "rp_wf E (mc_ReceivePacket c)" and rdy: "rp_ready (mc_ReceivePacket c)"
    and rest: "rp_rest (mc_ReceivePacket c) = h # l # r"
    and buf: "mc_TopicBuffer c = Some (wrap32 (mc_MaxTopicSize c + 1))"
    and topic: "0 < unat (be16 h l) \<and> unat (be16 h l) < wrap32 (mc_MaxTopicSize c + 1) \<and>
      unat (be16 h l) \<le> length r \<and> ascii (take (unat (be16 h l)) r)"
    and cons: "rp_BytesConsumed (mc_ReceivePacket c) = 0"
  shows "handle_Publish E c w =
    (let rp = mc_ReceivePacket c; n = unat (be16 h l); k = publish_qos rp;
         c' = c\<lparr>mc_ReceivePacket := rp_adv rp (2 + length r)\<rparr>
     in if k > MQTT_QOS_AT_MOST_ONCE
        then if length r < n + 2 then None
             else let i = be16 (r ! n) (r ! (n + 1)) in
             if i = 0 then CloseConnection E MQTTDisconnectInvalidPacket
               (c\<lparr>mc_ReceivePacket := rp_adv rp (2 + n + 2)\<rparr>) w
             else publish_branch E k i (take n r) (Some (drop (n + 2) r)) (length r - n - 2)
               (publish_retain rp) c' w
        else publish_branch E k 0 (take n r) (Some (drop n r)) (length r - n) (publish_retain rp) c' w)"
proof -
  let ?rp = "mc_ReceivePacket c" and ?n = "unat (be16 h l)"
  let ?q = "rp_adv ?rp (2 + ?n)"
  have g: "GetString ?rp (mc_TopicBuffer c) (wrap32 (mc_MaxTopicSize c + 1)) = Some (?n, take ?n r, ?q)"
    using GetString_cases [OF wf rdy rest, of "wrap32 (mc_MaxTopicSize c + 1)"] topic unfolding buf by fastforce
  have lr: "length r + 2 = rp_RemainingLength ?rp" "rp_RemainingLength ?rp < 2 ^ 28"
    using rp_rest_length [OF wf rdy] rest cons rdy by (simp_all add: rp_ready_def)
  have q: "rp_wf E ?q" "rp_ready ?q" "rp_rest ?q = drop ?n r"
    using wf rp_adv_ready [OF wf rdy, of "2 + ?n"] rest topic by simp_all
  have "?n + 2 \<le> rp_RemainingLength ?q" "rp_RemainingLength ?q < 2 ^ 32"
    "rp_RemainingLength ?q - (?n + 2) = length r - ?n"
    using topic lr by simp_all
  then have len: "wrap32 (rp_RemainingLength ?q + 2 ^ 32 - (?n + 2)) = length r - ?n"
    by (simp only: wrap32_sub)
  note h = handle_Publish_def Let_def publish_qos_def publish_retain_def
  consider (low) "\<not> publish_qos ?rp > MQTT_QOS_AT_MOST_ONCE"
    | (short) "publish_qos ?rp > MQTT_QOS_AT_MOST_ONCE" "length r < ?n + 2"
    | (long) "publish_qos ?rp > MQTT_QOS_AT_MOST_ONCE" "2 \<le> length r - ?n" "\<not> length r < ?n + 2"
    by linarith
  then show ?thesis
  proof cases
    case low
    have "GetData ?q (length r - ?n) = Some (Some (drop ?n r), rp_adv ?rp (2 + length r))"
      using GetData_rest [OF q(1,2), of "length r - ?n"] q(3) topic by simp
    then show ?thesis using low g len topic by (simp add: h)
  next
    case short
    then have "read_word (c\<lparr>mc_ReceivePacket := ?q\<rparr>) = None"
      using GetWord_short [OF q(1,2)] q(3) by (simp add: read_word_def)
    then show ?thesis using short g topic by (simp add: h)
  next
    case long
    let ?i = "be16 (r ! ?n) (r ! (?n + 1))"
    have "drop ?n r = r ! ?n # r ! (?n + 1) # drop (?n + 2) r"
      using long by (simp add: Cons_nth_drop_Suc)
    then have w: "read_word (c\<lparr>mc_ReceivePacket := ?q\<rparr>) = Some (?i, c\<lparr>mc_ReceivePacket := rp_adv ?q 2\<rparr>)"
      using GetWord_rest [OF q(1,2)] q(3) by (simp add: read_word_def)
    have "GetData (rp_adv ?q 2) (length r - ?n - 2) =
        Some (Some (drop (?n + 2) r), rp_adv ?rp (2 + length r))"
      using GetData_rest [of E "rp_adv ?q 2" "length r - ?n - 2"] rp_adv_ready [OF q(1,2), of 2]
        q long by (simp add: add.commute)
    then show ?thesis using long g len w topic by (simp add: h add.commute)
  qed
qed

context mqtt_client_env
begin

abbreviation ok_packet :: "('q, 's) mqtt_client \<Rightarrow> bool" where
  "ok_packet \<equiv> at_packet E qel sel"

abbreviation ok_result :: "nat \<Rightarrow> (('q, 's) mqtt_client \<times> 'w) option \<Rightarrow> bool" where
  "ok_result \<equiv> handled E qel sel"

abbreviation stream_length :: "('q, 's) mqtt_client \<Rightarrow> nat" where
  "stream_length c \<equiv> length (rp_stream (mc_ReceivePacket c))"

lemma handled_close: "mc_inv E qel sel c \<Longrightarrow> ok_result n (CloseConnection E r c w)"
  using CloseConnection_inv [of c r w] by (auto simp: handled_def)

lemma handled_some:
  "mc_inv E qel sel c \<Longrightarrow> stream_length c + 2 \<le> n \<Longrightarrow> ok_result n (Some (c, w))"
  by (simp add: handled_def)

text \<open>The common start of the handlers: an identifier is read and the packet completed.\<close>

lemma word_complete:
  assumes "ok_packet c" "2 \<le> rp_RemainingLength (mc_ReceivePacket c)"
  obtains v rp where "read_word c = Some (v, c\<lparr>mc_ReceivePacket := rp_adv (mc_ReceivePacket c) 2\<rparr>)"
    "complete_packet (c\<lparr>mc_ReceivePacket := rp_adv (mc_ReceivePacket c) 2\<rparr>) =
       Some (c\<lparr>mc_ReceivePacket := rp\<rparr>)"
    "mc_inv E qel sel (c\<lparr>mc_ReceivePacket := rp\<rparr>)" "length (rp_stream rp) + 2 \<le> stream_length c"
proof -
  note c = at_packetD [OF assms(1)]
  let ?c = "c\<lparr>mc_ReceivePacket := rp_adv (mc_ReceivePacket c) 2\<rparr>"
  obtain v where v: "read_word c = Some (v, ?c)"
    using read_word_ok [OF c(3,4)] c(7) assms(2) by auto
  have "rp_ready (mc_ReceivePacket ?c)"
    using rp_adv_ready(1) [OF c(3,4), of 2] c(7) assms(2) by simp
  then obtain rp where rp: "complete_packet ?c = Some (c\<lparr>mc_ReceivePacket := rp\<rparr>)" "rp_wf E rp"
    "rp_stream rp = drop (rp_OutPtr (mc_ReceivePacket c) + 2) (rp_stream (mc_ReceivePacket c))"
    using complete_ok [of E ?c] c(3) by auto
  have "length (rp_stream rp) + 2 \<le> stream_length c"
    unfolding rp(3) length_drop using c(5,8) by linarith
  then show thesis using that v rp mc_inv_rp [OF c(1) rp(2)] by blast
qed

lemma take_queued_inv:
  assumes "mc_inv E qel sel c"
  shows "\<exists>ok q. take_queued E i k c = Some (ok, c\<lparr>mc_RetransmissionQueue := q\<rparr>) \<and>
     mc_inv E qel sel (c\<lparr>mc_RetransmissionQueue := q\<rparr>) \<and>
     ptrs_of qel q = snd (queue_remove i (ptrs_of qel (mc_RetransmissionQueue c))) \<and>
     ok = (\<exists>p. fst (queue_remove i (ptrs_of qel (mc_RetransmissionQueue c))) = Some p \<and> sp_QoS p = k)"
proof -
  let ?ps = "ptrs_of qel (mc_RetransmissionQueue c)"
  obtain q where q: "RemovePacketFromQueue (env_Q E) (mc_RetransmissionQueue c) i =
      Some (fst (queue_remove i ?ps), q)" "ptrs_of qel q = snd (queue_remove i ?ps)"
    using queue.remove_correct by blast
  have "mc_inv E qel sel (c\<lparr>mc_RetransmissionQueue := q\<rparr>)"
    using assms q(2) queue_remove_set [of i ?ps] by (auto simp: mc_inv_def)
  then show ?thesis
    using q by (auto simp: take_queued_def split: option.splits)
qed

lemma ack_packet_ok:
  "\<exists>p w'. ack_packet E t i w = Some (p, w') \<and> pkt_ok p \<and> sp_Type p = t"
  using pkt_ok_128 [of t w] by (auto simp: ack_packet_def append_ok)

text \<open>The handlers that only match an acknowledgement with the queue.\<close>

lemma handle_ack:
  assumes "ok_packet c" "2 \<le> rp_RemainingLength (mc_ReceivePacket c)"
  shows "ok_result (stream_length c) (handle_PubAck E c w)"
    "ok_result (stream_length c) (handle_PubComp E c w)"
    "ok_result (stream_length c) (handle_UnsubAck E c w)"
proof -
  obtain v rp where s: "read_word c = Some (v, c\<lparr>mc_ReceivePacket := rp_adv (mc_ReceivePacket c) 2\<rparr>)"
    "complete_packet (c\<lparr>mc_ReceivePacket := rp_adv (mc_ReceivePacket c) 2\<rparr>) =
       Some (c\<lparr>mc_ReceivePacket := rp\<rparr>)"
    "mc_inv E qel sel (c\<lparr>mc_ReceivePacket := rp\<rparr>)" "length (rp_stream rp) + 2 \<le> stream_length c"
    using word_complete [OF assms] .
  have "ok_result (stream_length c) (do {
      (ok, c) \<leftarrow> take_queued E v k (c\<lparr>mc_ReceivePacket := rp\<rparr>);
      if ok then Some (c, w) else CloseConnection E MQTTDisconnectPacketIdentifier c w })" for k
    using take_queued_inv [OF s(3), of v k] handled_close s(4) by (auto intro!: handled_some)
  then show "ok_result (stream_length c) (handle_PubAck E c w)"
    "ok_result (stream_length c) (handle_PubComp E c w)"
    "ok_result (stream_length c) (handle_UnsubAck E c w)"
    using s(1,2) by (simp_all add: handle_PubAck_def handle_PubComp_def handle_UnsubAck_def)
qed

lemma handle_PubRec_ok:
  assumes "ok_packet c" "2 \<le> rp_RemainingLength (mc_ReceivePacket c)"
  shows "ok_result (stream_length c) (handle_PubRec E c w)"
proof -
  obtain v rp where s: "read_word c = Some (v, c\<lparr>mc_ReceivePacket := rp_adv (mc_ReceivePacket c) 2\<rparr>)"
    "complete_packet (c\<lparr>mc_ReceivePacket := rp_adv (mc_ReceivePacket c) 2\<rparr>) =
       Some (c\<lparr>mc_ReceivePacket := rp\<rparr>)"
    "mc_inv E qel sel (c\<lparr>mc_ReceivePacket := rp\<rparr>)" "length (rp_stream rp) + 2 \<le> stream_length c"
    using word_complete [OF assms] .
  obtain ok q where q: "take_queued E v MQTT_QOS_EXACTLY_ONCE (c\<lparr>mc_ReceivePacket := rp\<rparr>) =
      Some (ok, c\<lparr>mc_ReceivePacket := rp, mc_RetransmissionQueue := q\<rparr>)"
    "mc_inv E qel sel (c\<lparr>mc_ReceivePacket := rp, mc_RetransmissionQueue := q\<rparr>)"
    using take_queued_inv [OF s(3), of v MQTT_QOS_EXACTLY_ONCE] by auto
  obtain p w1 where p: "ack_packet E MQTTPubRel v w = Some (p, w1)" "queueable p"
    using ack_packet_ok [of MQTTPubRel v w] by (auto simp: queueable_def)
  obtain c' w' where c': "send_and_queue E p MQTT_QOS_EXACTLY_ONCE v
      (c\<lparr>mc_ReceivePacket := rp, mc_RetransmissionQueue := q\<rparr>) w1 = Some (c', w')" "mc_inv E qel sel c'"
    using send_and_queue_inv [OF q(2) p(2)] by blast
  show ?thesis
    using s(1,2,4) q p(1) c' send_and_queue_rp [OF c'(1)] handled_close
    by (cases ok) (auto simp: handle_PubRec_def intro!: handled_some)
qed

lemma mc_inv_store:
  "mc_inv E qel sel c \<Longrightarrow> mc_ConnectStatus c \<noteq> MQTTStatusDisconnected \<Longrightarrow>
     mc_inv E qel sel (c\<lparr>mc_PacketIdentifierStore := s\<rparr>)"
  by (simp add: mc_inv_def)

lemma handle_PubRel_ok:
  assumes "ok_packet c" "2 \<le> rp_RemainingLength (mc_ReceivePacket c)"
  shows "ok_result (stream_length c) (handle_PubRel E c w)"
proof -
  obtain v rp where s: "read_word c = Some (v, c\<lparr>mc_ReceivePacket := rp_adv (mc_ReceivePacket c) 2\<rparr>)"
    "complete_packet (c\<lparr>mc_ReceivePacket := rp_adv (mc_ReceivePacket c) 2\<rparr>) =
       Some (c\<lparr>mc_ReceivePacket := rp\<rparr>)"
    "mc_inv E qel sel (c\<lparr>mc_ReceivePacket := rp\<rparr>)" "length (rp_stream rp) + 2 \<le> stream_length c"
    using word_complete [OF assms] .
  obtain p w1 where p: "ack_packet E MQTTPubComp v w = Some (p, w1)" "pkt_ok p" "sp_Type p \<in> app_types"
    using ack_packet_ok [of MQTTPubComp v w] by (auto simp: app_types_def)
  obtain ok p' c' w' where c': "SendPacket E p (c\<lparr>mc_ReceivePacket := rp\<rparr>) w1 = Some (ok, p', c', w')"
    "mc_inv E qel sel c'" "ok \<longrightarrow> mc_ConnectStatus c' \<noteq> MQTTStatusDisconnected"
    using SendPacket_app [OF p(2,3) s(3), of w1] timer_onlyD(1) by fastforce
  show ?thesis
    using s p(1) c' SendPacket_rp [OF c'(1)] handled_close
    by (cases ok) (auto simp: handle_PubRel_def intro!: handled_some mc_inv_store)
qed

lemma handle_SubAck_ok:
  assumes "ok_packet c" "3 \<le> rp_RemainingLength (mc_ReceivePacket c)"
  shows "ok_result (stream_length c) (handle_SubAck E c w)"
proof -
  note c = at_packetD [OF assms(1)]
  let ?c2 = "c\<lparr>mc_ReceivePacket := rp_adv (mc_ReceivePacket c) 2\<rparr>"
  let ?c3 = "c\<lparr>mc_ReceivePacket := rp_adv (mc_ReceivePacket c) 3\<rparr>"
  obtain v where v: "read_word c = Some (v, ?c2)"
    using word_complete [OF assms(1)] assms(2) by auto
  have r2: "rp_ready (mc_ReceivePacket ?c2)" "rp_rest (mc_ReceivePacket ?c2) \<noteq> []"
    using rp_adv_ready [OF c(3,4), of 2] c(7) assms(2) by simp_all
  obtain u where u: "read_byte ?c2 = Some (u, ?c3)"
    using read_byte_ok [of E ?c2] r2 c(3) by auto
  have "rp_ready (mc_ReceivePacket ?c3)"
    using rp_adv_ready(1) [OF c(3,4), of 3] c(7) assms(2) by simp
  then obtain rp where rp: "complete_packet ?c3 = Some (c\<lparr>mc_ReceivePacket := rp\<rparr>)" "rp_wf E rp"
    "rp_stream rp = drop (rp_OutPtr (mc_ReceivePacket c) + 3) (rp_stream (mc_ReceivePacket c))"
    using complete_ok [of E ?c3] c(3) by auto
  have inv: "mc_inv E qel sel (c\<lparr>mc_ReceivePacket := rp\<rparr>)" using mc_inv_rp [OF c(1) rp(2)] .
  have len: "length (rp_stream rp) + 2 \<le> stream_length c"
    unfolding rp(3) length_drop using c(5,8) by linarith
  obtain ok q where q: "take_queued E v MQTT_QOS_AT_LEAST_ONCE (c\<lparr>mc_ReceivePacket := rp\<rparr>) =
      Some (ok, c\<lparr>mc_ReceivePacket := rp, mc_RetransmissionQueue := q\<rparr>)"
    "mc_inv E qel sel (c\<lparr>mc_ReceivePacket := rp, mc_RetransmissionQueue := q\<rparr>)"
    using take_queued_inv [OF inv, of v MQTT_QOS_AT_LEAST_ONCE] by auto
  show ?thesis
    using v u rp(1) len inv q handled_close
    by (auto simp: handle_SubAck_def intro!: handled_some)
qed

lemma handle_ConnAck_ok:
  assumes "ok_packet c" "rp_RemainingLength (mc_ReceivePacket c) = 2"
  shows "ok_result (stream_length c) (handle_ConnAck E c w)"
proof -
  note c = at_packetD [OF assms(1)]
  let ?c1 = "c\<lparr>mc_ReceivePacket := rp_adv (mc_ReceivePacket c) 1\<rparr>"
  let ?c2 = "c\<lparr>mc_ReceivePacket := rp_adv (mc_ReceivePacket c) 2\<rparr>"
  obtain u where u: "read_byte c = Some (u, ?c1)"
    using read_byte_ok [OF c(3,4)] c(7) assms(2) by fastforce
  have r1: "rp_ready (mc_ReceivePacket ?c1)" "rp_rest (mc_ReceivePacket ?c1) \<noteq> []"
    using rp_adv_ready [OF c(3,4), of 1] c(7) assms(2) by simp_all
  obtain v where v: "read_byte ?c1 = Some (v, ?c2)"
    using read_byte_ok [of E ?c1] r1 c(3) by (auto simp: numeral_2_eq_2)
  obtain rp where rp: "complete_packet ?c2 = Some (c\<lparr>mc_ReceivePacket := rp\<rparr>)"
    "mc_inv E qel sel (c\<lparr>mc_ReceivePacket := rp\<rparr>)" "length (rp_stream rp) + 2 \<le> stream_length c"
    using word_complete [OF assms(1)] assms(2) by auto
  have "mc_inv E qel sel (callback ev (c\<lparr>mc_ReceivePacket := rp, mc_ConnectStatus := MQTTStatusConnected\<rparr>))"
    if "mc_ConnectStatus c = MQTTStatusConnectPending" for ev
    using that rp(2) by (auto simp: mc_inv_def callback_def)
  then show ?thesis
    using u v rp handled_close by (auto simp: handle_ConnAck_def intro!: handled_some)
qed

lemma handle_PingResp_ok:
  assumes "ok_packet c"
  shows "ok_result (stream_length c) (handle_PingResp E c w)"
proof -
  note c = at_packetD [OF assms(1)]
  obtain rp where rp: "complete_packet c = Some (c\<lparr>mc_ReceivePacket := rp\<rparr>)" "rp_wf E rp"
    "rp_stream rp = drop (rp_OutPtr (mc_ReceivePacket c)) (rp_stream (mc_ReceivePacket c))"
    using complete_ok [OF c(3,4)] by auto
  have len: "length (rp_stream rp) + 2 \<le> stream_length c"
    unfolding rp(3) length_drop using c(5,8) by linarith
  let ?d = "c\<lparr>mc_ReceivePacket := rp, mc_ConnectStatus := MQTTStatusConnected\<rparr>"
  obtain t w' where "GetTicks E w = (t, w')" by (cases "GetTicks E w")
  moreover have "mc_inv E qel sel ?d" if "mc_KeepAliveSeconds c = 0"
    using c(1,2,6) rp(2) that by (auto simp: mc_inv_def)
  moreover have "mc_inv E qel sel (?d\<lparr>mc_TimerElapsesAt := t', mc_TimerRunning := True\<rparr>)"
    if "0 < mc_KeepAliveSeconds c" for t'
    using c(1,2,6) rp(2) that by (auto simp: mc_inv_def)
  ultimately show ?thesis
    using rp(1) len by (auto simp: handle_PingResp_def start_timer_def Let_def intro!: handled_some)
qed

lemma complete_drop:
  assumes "mc_inv E qel sel c" "rp_ready (mc_ReceivePacket c)" "2 \<le> rp_OutPtr (mc_ReceivePacket c)"
  obtains rp where "complete_packet c = Some (c\<lparr>mc_ReceivePacket := rp\<rparr>)"
    "mc_inv E qel sel (c\<lparr>mc_ReceivePacket := rp\<rparr>)" "length (rp_stream rp) + 2 \<le> stream_length c"
    "rp_stream rp = drop (rp_OutPtr (mc_ReceivePacket c)) (rp_stream (mc_ReceivePacket c))"
proof -
  have "rp_OutPtr (mc_ReceivePacket c) \<le> stream_length c"
    using assms(2) rp_wf_stream_length [OF mc_inv_wf [OF assms(1)]] by (auto simp: rp_ready_def)
  with complete_ok [OF mc_inv_wf [OF assms(1)] assms(2)] assms(3) mc_inv_rp [OF assms(1)] that
  show thesis by fastforce
qed

text \<open>An acknowledgement is sent; the client is as before but for its timer.\<close>

lemma send_ack:
  assumes "mc_inv E qel sel c" "t \<in> {MQTTPubAck, MQTTPubRec, MQTTPubComp}"
  obtains p w1 ok p' c' w' where "ack_packet E t i w = Some (p, w1)"
    "SendPacket E p c w1 = Some (ok, p', c', w')" "mc_inv E qel sel c'" "timer_only c c'"
    "ok \<longrightarrow> mc_ConnectStatus c \<noteq> MQTTStatusDisconnected"
proof -
  obtain p w1 where p: "ack_packet E t i w = Some (p, w1)" "pkt_ok p" "sp_Type p \<in> app_types"
    using ack_packet_ok [of t i w] assms(2) by (auto simp: app_types_def)
  from SendPacket_app [OF p(2,3) assms(1), of w1] p(1) that show thesis by blast
qed

lemma publish_branch_ok:
  assumes inv: "mc_inv E qel sel c" and rdy: "rp_ready (mc_ReceivePacket c)"
    "2 \<le> rp_OutPtr (mc_ReceivePacket c)" and qos: "k \<le> MQTT_QOS_EXACTLY_ONCE"
  shows "ok_result (stream_length c) (publish_branch E k i topic pl n retain c w)"
proof -
  have fin: "\<exists>rp. complete_packet d = Some (d\<lparr>mc_ReceivePacket := rp\<rparr>) \<and>
      mc_inv E qel sel (d\<lparr>mc_ReceivePacket := rp\<rparr>) \<and> length (rp_stream rp) + 2 \<le> stream_length c"
    if "mc_inv E qel sel d" "mc_ReceivePacket d = mc_ReceivePacket c" for d
    using complete_drop [OF that(1)] that(2) rdy by metis
  from qos_cases [OF qos] show ?thesis
  proof (elim disjE)
    assume "k = MQTT_QOS_AT_MOST_ONCE"
    with fin [of "deliver topic pl n retain c"] inv show ?thesis
      by (auto simp: publish_branch_def deliver_def mc_inv_callback intro!: handled_some)
  next
    assume k: "k = MQTT_QOS_AT_LEAST_ONCE"
    obtain p w1 ok p' c' w' where a: "ack_packet E MQTTPubAck i w = Some (p, w1)"
      "SendPacket E p c w1 = Some (ok, p', c', w')" "mc_inv E qel sel c'" "timer_only c c'"
      by (rule send_ack [OF inv, of MQTTPubAck i w]) simp_all
    show ?thesis
      using k a timer_onlyD(2) [OF a(4)] fin [of c'] fin [of "deliver topic pl n retain c'"] handled_close
      by (auto simp: publish_branch_def deliver_def mc_inv_callback mqtt_qos_defs intro!: handled_some)
  next
    assume k: "k = MQTT_QOS_EXACTLY_ONCE"
    obtain p w1 ok p' c' w' where a: "ack_packet E MQTTPubRec i w = Some (p, w1)"
      "SendPacket E p c w1 = Some (ok, p', c', w')" "mc_inv E qel sel c'" "timer_only c c'"
      "ok \<longrightarrow> mc_ConnectStatus c \<noteq> MQTTStatusDisconnected"
      by (rule send_ack [OF inv, of MQTTPubRec i w]) simp_all
    let ?d = "deliver topic pl n retain (c'\<lparr>mc_PacketIdentifierStore := InsertPacketIdentifierIntoStore
        (env_S E) (mc_PacketIdentifierStore c') i\<rparr>)"
    have rp: "mc_ReceivePacket c' = mc_ReceivePacket c" "mc_ReceivePacket ?d = mc_ReceivePacket c"
      using timer_onlyD(2) [OF a(4)] by (simp_all add: deliver_def)
    let ?e = "if IsPacketIdentifierInStore (env_S E) (mc_PacketIdentifierStore c') i then c' else ?d"
    have eq: "publish_branch E k i topic pl n retain c w =
        (if ok then map_option (\<lambda>c. (c, w')) (complete_packet ?e)
         else complete_packet c' \<bind> (\<lambda>c. CloseConnection E MQTTDisconnectSendFailed c w'))"
      using k a(1,2) by (simp add: publish_branch_def mqtt_qos_defs map_conv_bind_option comp_def)
    show ?thesis
    proof (cases ok)
      case True
      then have "mc_inv E qel sel ?e"
        using a(3,5) timer_onlyD(1) [OF a(4)] mc_inv_store [OF a(3)]
        by (simp add: deliver_def mc_inv_callback)
      with fin [of ?e] True rp show ?thesis
        unfolding eq by (auto intro!: handled_some)
    next
      case False
      with fin [OF a(3) rp(1)] handled_close show ?thesis unfolding eq by auto
    qed
  qed
qed

lemma handle_Publish_cases:
  assumes pkt: "ok_packet c" and t: "rp_Type (mc_ReceivePacket c) = MQTTPublish"
  shows "if truncated_publish (mc_ReceivePacket c) (mc_MaxTopicSize c) then handle_Publish E c w = None
     else ok_result (stream_length c) (handle_Publish E c w)"
proof -
  note c = at_packetD [OF pkt]
  let ?rp = "mc_ReceivePacket c"
  have chk: "3 \<le> rp_RemainingLength ?rp" "publish_qos ?rp \<le> MQTT_QOS_EXACTLY_ONCE"
    "rp_BytesConsumed ?rp = 0"
    using pkt basic_checks_length(3,6) [OF _ t]
    by (auto simp: at_packet_def Let_def rp_ready_def publish_qos_def)
  obtain h l r where rest: "rp_rest ?rp = h # l # r" using list_2 [of "rp_rest ?rp"] c(7) chk(1) by auto
  let ?n = "unat (be16 h l)"
  let ?topic = "0 < ?n \<and> ?n < wrap32 (mc_MaxTopicSize c + 1) \<and> ?n \<le> length r \<and> ascii (take ?n r)"
  have trunc: "truncated_publish ?rp (mc_MaxTopicSize c) =
      (?topic \<and> publish_qos ?rp > MQTT_QOS_AT_MOST_ONCE \<and> length r < ?n + 2)"
    using t rest by (auto simp: truncated_publish_def publish_qos_def Let_def)
  have buf: "mc_TopicBuffer c = Some (wrap32 (mc_MaxTopicSize c + 1))"
    using mc_inv_topic [OF c(1)] pkt by (simp add: at_packet_def Let_def)
  have adv: "mc_inv E qel sel (c\<lparr>mc_ReceivePacket := rp_adv ?rp m\<rparr>)" for m
    using mc_inv_rp [OF c(1)] c(3) by simp
  have "rp_ready (rp_adv ?rp (2 + length r))"
    using rp_adv_ready(1) [OF c(3,4)] rest by simp
  then have branch: "ok_result (stream_length c) (publish_branch E (publish_qos ?rp) i s pl m rt
      (c\<lparr>mc_ReceivePacket := rp_adv ?rp (2 + length r)\<rparr>) w)" for i s pl m rt
    using publish_branch_ok [OF adv [of "2 + length r"]] chk(2) c(5) by simp
  show ?thesis
  proof (cases ?topic)
    case True
    then show ?thesis
      unfolding handle_Publish_topic [OF c(3,4) rest buf True chk(3)] trunc
      using branch handled_close [OF adv] by (simp add: Let_def)
  next
    case False
    obtain q where q: "rp_wf E q" "handle_Publish E c w =
        CloseConnection E MQTTDisconnectNotSupported (c\<lparr>mc_ReceivePacket := q\<rparr>) w"
      using handle_Publish_no_topic [OF c(3,4) rest buf False] by blast
    have "ok_result (stream_length c) (handle_Publish E c w)"
      unfolding q(2) using mc_inv_rp [OF c(1) q(1)] by (rule handled_close)
    then show ?thesis using trunc False by auto
  qed
qed

text \<open>All handlers: the truncated PUBLISH is the only packet that does not return.\<close>

lemma handle_packet_cases:
  assumes "ok_packet c"
  shows "if truncated_publish (mc_ReceivePacket c) (mc_MaxTopicSize c) then handle_packet E c w = None
     else ok_result (stream_length c) (handle_packet E c w)"
proof -
  let ?t = "rp_Type (mc_ReceivePacket c)" and ?n = "rp_RemainingLength (mc_ReceivePacket c)"
  have ok: "basic_checks ?t (rp_Flags (mc_ReceivePacket c)) ?n = MQTTReceivePacketOK"
    using assms by (simp add: at_packet_def Let_def)
  note len = basic_checks_length [OF ok]
  show ?thesis
  proof (cases "?t = MQTTPublish")
    case True
    with handle_Publish_cases [OF assms True] show ?thesis by (simp add: handle_packet_def)
  next
    case False
    then have "\<not> truncated_publish (mc_ReceivePacket c) (mc_MaxTopicSize c)"
      by (simp add: truncated_publish_def)
    moreover have "ok_result (stream_length c) (handle_packet E c w)"
      using False len(5) len(1,2,4) handle_ack [OF assms] handle_PubRec_ok [OF assms]
        handle_PubRel_ok [OF assms] handle_SubAck_ok [OF assms] handle_ConnAck_ok [OF assms]
        handle_PingResp_ok [OF assms]
      by (cases ?t) (simp_all add: handle_packet_def)
    ultimately show ?thesis by simp
  qed
qed

subsection \<open>The receiver loop\<close>

text \<open>
  One turn of the loop: an assertion fails exactly for a truncated PUBLISH; otherwise the invariant
  holds again, and a further turn is taken with a shorter stream or a closed socket.
\<close>

lemma Receiver_step_cases:
  assumes inv: "mc_inv E qel sel c"
  shows "(\<exists>q w'. mc_Socket c \<and> Receive E (mc_ReceivePacket c) w = Some (MQTTReceivePacketOK, q, w') \<and>
       truncated_publish q (mc_MaxTopicSize c) \<and> Receiver_step E c w = None) \<or>
     (\<exists>go c' w'. Receiver_step E c w = Some (go, c', w') \<and> mc_inv E qel sel c' \<and>
       (go \<and> mc_Socket c' \<longrightarrow> (\<exists>r bs w1. sock_Receive E (FRAME_BUFFER_SIZE E) True w = ((r, bs), w1) \<and>
          stream_length c' + 2 \<le> stream_length c + length bs)))"
proof (cases "mc_Socket c")
  case False
  then show ?thesis using inv by (auto simp: Receiver_step_def)
next
  case sock: True
  obtain st q w1 where rc: "Receive E (mc_ReceivePacket c) w = Some (st, q, w1)" "rp_wf E q"
    "st \<noteq> MQTTReceiveUnknown"
    "st = MQTTReceivePacketOK \<longrightarrow> rp_ready q \<and> rp_BytesConsumed q = 0 \<and> 2 \<le> rp_OutPtr q \<and>
        basic_checks (rp_Type q) (rp_Flags q) (rp_RemainingLength q) = MQTTReceivePacketOK \<and>
        (\<exists>r bs. sock_Receive E (FRAME_BUFFER_SIZE E) True w = ((r, bs), w1) \<and>
           rp_stream q = rp_stream (mc_ReceivePacket c) @ bs)"
    using Receive_cases [OF mc_inv_wf [OF inv], of w] by blast
  let ?c = "c\<lparr>mc_ReceivePacket := q\<rparr>"
  have inv': "mc_inv E qel sel ?c" using mc_inv_rp [OF inv rc(2)] .
  show ?thesis
  proof (cases "st = MQTTReceivePacketOK")
    case True
    then have "ok_packet ?c" using rc(4) inv' sock by (simp add: at_packet_def)
    then have "if truncated_publish q (mc_MaxTopicSize c) then handle_packet E ?c w1 = None
        else ok_result (stream_length ?c) (handle_packet E ?c w1)"
      using handle_packet_cases [of ?c w1] by simp
    then show ?thesis
      using rc(1,4) sock True
      by (cases "truncated_publish q (mc_MaxTopicSize c)") (auto simp: Receiver_step_def handled_def)
  next
    case False
    then show ?thesis
      using rc(1,3) sock inv' close_inv [OF inv'] by (cases st) (fastforce simp: Receiver_step_def)+
  qed
qed

end

subsection \<open>What the handlers leave alone\<close>

text \<open>
  A property of client and world that the building blocks of the handlers preserve is preserved by
  every handler. The two uses below are the bound on the pending bytes of the network and the
  fact that the timer of a closed client is off.
\<close>

locale client_frame =
  fixes E :: "('w, 'q, 'e, 's, 'f) mqtt_env"
    and P :: "('q, 's) mqtt_client \<Rightarrow> 'w \<Rightarrow> bool"
  assumes frame_close: "P c w \<Longrightarrow> CloseConnection E r c w = Some (c', w') \<Longrightarrow> P c' w'"
    and frame_send: "P c w \<Longrightarrow> SendPacket E p c w = Some (ok, p', c', w') \<Longrightarrow> P c' w'"
    and frame_enqueue: "P c w \<Longrightarrow> enqueue E p c w = Some (c', w') \<Longrightarrow> P c' w'"
    and frame_ack: "P c w \<Longrightarrow> ack_packet E t i w = Some (p, w') \<Longrightarrow> P c w'"
    and frame_timer: "P c w \<Longrightarrow> mc_ConnectStatus c \<noteq> MQTTStatusDisconnected \<Longrightarrow>
          start_timer E d c w = (c', w') \<Longrightarrow> P c' w'"
    and frame_rp: "P c w \<Longrightarrow> P (c\<lparr>mc_ReceivePacket := rp\<rparr>) w"
    and frame_queue: "P c w \<Longrightarrow> P (c\<lparr>mc_RetransmissionQueue := q\<rparr>) w"
    and frame_store: "P c w \<Longrightarrow> P (c\<lparr>mc_PacketIdentifierStore := s\<rparr>) w"
    and frame_connected: "P c w \<Longrightarrow> P (c\<lparr>mc_ConnectStatus := MQTTStatusConnected\<rparr>) w"
    and frame_callback: "P c w \<Longrightarrow> P (callback ev c) w"
    and frame_receive: "P c w \<Longrightarrow> sock_Receive E n dw w = (x, w') \<Longrightarrow> P c w'"
    and frame_ticks: "P c w \<Longrightarrow> GetTicks E w = (u, w') \<Longrightarrow> P c w'"
begin

lemma frame_complete: "P c w \<Longrightarrow> complete_packet c = Some c' \<Longrightarrow> P c' w"
  by (auto simp: complete_packet_def res_simps intro: frame_rp)

lemma frame_word: "P c w \<Longrightarrow> read_word c = Some (v, c') \<Longrightarrow> P c' w"
  by (auto simp: read_word_def res_simps intro: frame_rp)

lemma frame_byte: "P c w \<Longrightarrow> read_byte c = Some (v, c') \<Longrightarrow> P c' w"
  by (auto simp: read_byte_def res_simps intro: frame_rp)

lemma frame_take: "P c w \<Longrightarrow> take_queued E i k c = Some (ok, c') \<Longrightarrow> P c' w"
  by (auto simp: take_queued_def res_simps intro: frame_queue)

text \<open>The same facts as rules for postconditions.\<close>

lemma frame_post:
  "P c w \<Longrightarrow> (\<And>c' w'. P c' w' \<Longrightarrow> Q1 (c', w')) \<Longrightarrow> post Q1 (CloseConnection E r c w)"
  "P c w \<Longrightarrow> (\<And>ok p' c' w'. P c' w' \<Longrightarrow> Q2 (ok, p', c', w')) \<Longrightarrow> post Q2 (SendPacket E p c w)"
  "P c w \<Longrightarrow> (\<And>c' w'. P c' w' \<Longrightarrow> Q1 (c', w')) \<Longrightarrow> post Q1 (enqueue E p c w)"
  "(\<And>p w'. (\<And>c. P c w \<Longrightarrow> P c w') \<Longrightarrow> Q3 (p, w')) \<Longrightarrow> post Q3 (ack_packet E t i w)"
  "P c w \<Longrightarrow> (\<And>c'. P c' w \<Longrightarrow> Q4 c') \<Longrightarrow> post Q4 (complete_packet c)"
  "P c w \<Longrightarrow> (\<And>v c'. P c' w \<Longrightarrow> Q5 (v, c')) \<Longrightarrow> post Q5 (read_word c)"
  "P c w \<Longrightarrow> (\<And>u c'. P c' w \<Longrightarrow> Q6 (u, c')) \<Longrightarrow> post Q6 (read_byte c)"
  "P c w \<Longrightarrow> (\<And>ok c'. P c' w \<Longrightarrow> Q7 (ok, c')) \<Longrightarrow> post Q7 (take_queued E i k c)"
  by (auto intro!: postI dest: frame_close frame_send frame_enqueue frame_ack frame_complete
      frame_word frame_byte frame_take)

lemma frame_send_queue:
  "P c w \<Longrightarrow> (\<And>c' w'. P c' w' \<Longrightarrow> Q (c', w')) \<Longrightarrow> post Q (send_and_queue E p k i c w)"
  by (auto simp: send_and_queue_def intro!: post_rules frame_post)

lemma frame_branch:
  "P c w \<Longrightarrow> (\<And>c' w'. P c' w' \<Longrightarrow> Q (c', w')) \<Longrightarrow> post Q (publish_branch E k i topic pl n rt c w)"
  by (auto simp: publish_branch_def deliver_def Let_def
      intro!: post_rules frame_post frame_callback frame_store)

lemma frame_handlers:
  assumes "P c w" and Q: "\<And>c' w'. P c' w' \<Longrightarrow> Q (c', w')"
  shows "post Q (handle_PubAck E c w)" "post Q (handle_PubComp E c w)" "post Q (handle_UnsubAck E c w)"
    "post Q (handle_PubRec E c w)" "post Q (handle_PubRel E c w)" "post Q (handle_SubAck E c w)"
    "post Q (handle_ConnAck E c w)" "post Q (handle_Publish E c w)"
  using assms(1)
  by (auto simp: handle_PubAck_def handle_PubComp_def handle_UnsubAck_def handle_PubRec_def
      handle_PubRel_def handle_SubAck_def handle_ConnAck_def handle_Publish_def Let_def
      intro!: post_rules frame_post frame_send_queue frame_branch frame_callback frame_store
        frame_connected frame_rp Q
        post_any [where m = "GetString p b k" for p b k] post_any [where m = "GetData p k" for p k])

lemma frame_PingResp:
  assumes "P c w" and Q: "\<And>c' w'. P c' w' \<Longrightarrow> Q (c', w')"
  shows "post Q (handle_PingResp E c w)"
proof -
  have "Q (if b then start_timer E d (c'\<lparr>mc_ConnectStatus := MQTTStatusConnected\<rparr>) w
        else (c'\<lparr>mc_ConnectStatus := MQTTStatusConnected\<rparr>, w))" if "P c' w" for c' b d
    using frame_timer [OF frame_connected [OF that], of d] frame_connected [OF that] Q
    by (cases "start_timer E d (c'\<lparr>mc_ConnectStatus := MQTTStatusConnected\<rparr>) w") auto
  with assms(1) show ?thesis
    by (auto simp: handle_PingResp_def Let_def simp del: mqtt_client.update_convs
        intro!: post_rules frame_post)
qed

lemma frame_packet: "P c w \<Longrightarrow> handle_packet E c w = Some (c', w') \<Longrightarrow> P c' w'"
  using frame_handlers [of c w "\<lambda>(c, w). P c w"] frame_PingResp [of c w "\<lambda>(c, w). P c w"]
  by (cases "rp_Type (mc_ReceivePacket c)") (auto simp: handle_packet_def dest: postD)

lemma frame_Receive:
  assumes "P c w" "Receive E p w = Some (st, q, w')"
  shows "P c w'"
proof -
  have "w' = w \<or> (\<exists>x. sock_Receive E (FRAME_BUFFER_SIZE E) True w = (x, w'))"
    using assms(2)
    by (auto simp: Receive_def Let_def Option.bind_eq_Some_conv split: option.splits if_splits prod.splits)
  with assms(1) frame_receive show ?thesis by blast
qed

lemma frame_Receiver_step:
  assumes "P c w" "Receiver_step E c w = Some (go, c', w')"
  shows "P c' w'"
proof (cases "mc_Socket c")
  case True
  then obtain st q w1 where r: "Receive E (mc_ReceivePacket c) w = Some (st, q, w1)"
    using assms(2) by (auto simp: Receiver_step_def res_simps)
  have d: "P (c\<lparr>mc_ReceivePacket := q\<rparr>) w1"
    using frame_rp [OF frame_Receive [OF assms(1) r]] .
  show ?thesis
    using r True assms(2) d
    by (cases st) (auto simp: Receiver_step_def
        dest: frame_packet [OF d] frame_close [OF d])
qed (use assms in \<open>auto simp: Receiver_step_def\<close>)

lemma frame_Receiver:
  assumes "P c w" "Receiver E c w = Some (Some (c', w'))"
  shows "P c' w'"
proof -
  have "F = E \<longrightarrow> P c w \<longrightarrow> (\<forall>c' w'. r = Some (c', w') \<longrightarrow> P c' w')"
    if "Receiver F c w = Some r" for F c w r
  proof (rule Receiver.raw_induct [OF _ that])
    fix f F c w r
    assume 1: "\<And>F c w r. f F c w = Some r \<Longrightarrow>
        F = E \<longrightarrow> P c w \<longrightarrow> (\<forall>c' w'. r = Some (c', w') \<longrightarrow> P c' w')"
      "(case Receiver_step F c w of None \<Rightarrow> Some None
        | Some (go, c', w') \<Rightarrow> if go then f F c' w' else Some (Some (c', w'))) = Some r"
    show "F = E \<longrightarrow> P c w \<longrightarrow> (\<forall>c' w'. r = Some (c', w') \<longrightarrow> P c' w')"
    proof (cases "Receiver_step F c w")
      case None
      with 1(2) show ?thesis by auto
    next
      case (Some a)
      obtain go c1 w1 where a: "a = (go, c1, w1)" by (cases a)
      have P: "P c1 w1" if "F = E" "P c w"
        using frame_Receiver_step [OF that(2)] that(1) Some a by simp
      show ?thesis
      proof (cases go)
        case True
        then have "f F c1 w1 = Some r" using 1(2) Some a by simp
        from 1(1) [OF this] P show ?thesis by blast
      next
        case False
        with 1(2) Some a P show ?thesis by auto
      qed
    qed
  qed
  with assms show ?thesis by blast
qed

lemma frame_Sender_step:
  "P c w \<Longrightarrow> Sender_step E nTicks e c w = Some (next, c', w') \<Longrightarrow> P c' w'"
proof -
  assume "P c w"
  then have "post (\<lambda>(next, c', w'). P c' w') (Sender_step E nTicks e c w)"
    by (auto simp: Sender_step_def Let_def map_conv_bind_option
        intro!: post_rules frame_post frame_queue post_any [where m = "SetFlags p k" for p k])
  then show "Sender_step E nTicks e c w = Some (next, c', w') \<Longrightarrow> P c' w'" by (auto dest: postD)
qed

lemma frame_Sender:
  assumes "P c w" "Sender E c w = Some (Some (c', w'))"
  shows "P c' w'"
proof -
  have loop: "F = E \<longrightarrow> P c w \<longrightarrow> (\<forall>c' w'. r = Some (c', w') \<longrightarrow> P c' w')"
    if "Sender_loop F t e c w = Some r" for F t e c w r
  proof (rule Sender_loop.raw_induct [OF _ that])
    fix f F t e c w r
    assume 1: "\<And>F t e c w r. f F t e c w = Some r \<Longrightarrow>
        F = E \<longrightarrow> P c w \<longrightarrow> (\<forall>c' w'. r = Some (c', w') \<longrightarrow> P c' w')"
      "(case e of None \<Rightarrow> Some (Some (c, w))
        | Some x \<Rightarrow> (case Sender_step F t x c w of None \<Rightarrow> Some None
           | Some (next, c', w') \<Rightarrow> f F t next c' w')) = Some r"
    show "F = E \<longrightarrow> P c w \<longrightarrow> (\<forall>c' w'. r = Some (c', w') \<longrightarrow> P c' w')"
    proof (cases "e = None \<or> (\<exists>x. e = Some x \<and> Sender_step F t x c w = None)")
      case True
      with 1(2) show ?thesis by auto
    next
      case False
      then obtain x n c1 w1 where a: "e = Some x" "Sender_step F t x c w = Some (n, c1, w1)" by auto
      have P: "P c1 w1" if "F = E" "P c w"
        using frame_Sender_step [OF that(2)] that(1) a by simp
      have "f F t n c1 w1 = Some r" using 1(2) a by simp
      from 1(1) [OF this] P show ?thesis by blast
    qed
  qed
  obtain t w1 where t: "GetTicks E w = (t, w1)" by (cases "GetTicks E w")
  with assms(2) loop frame_ticks [OF assms(1) t] show ?thesis by (auto simp: Sender_def)
qed

end

subsection \<open>A network that goes quiet\<close>

text \<open>
  \<open>Receiver\<close> runs until no complete packet is left. Circle schedules cooperatively and all
  calls in the loop are non-blocking, so nothing arrives while it runs: the bytes that the
  socket can still deliver (\<open>pending\<close>) shrink by what a receive returns, and no other
  service adds to them.
\<close>

lemma Send_world:
  assumes "Send C p w = Some (ok, p', w')"
  shows "w' = w \<or> (\<exists>bs. w' = snd (sock_Send C bs True w))"
  using assms unfolding Send_def
  by (auto simp: Let_def Option.bind_eq_Some_conv case_prod_beta split: if_splits)

locale mqtt_client_quiet = mqtt_client_env E qel sel
  for E :: "('w, 'q, 'e, 's, 'f) mqtt_env"
    and qel :: "'q \<Rightarrow> ('e \<times> mqtt_send_packet) list"
    and sel :: "'s \<Rightarrow> ('f \<times> u16) list" +
  fixes pending :: "'w \<Rightarrow> nat"
  assumes pending_receive: "sock_Receive E n dw w = ((r, bs), w') \<Longrightarrow> pending w' + length bs \<le> pending w"
    and pending_send: "sock_Send E bs dw w = (x, w') \<Longrightarrow> pending w' \<le> pending w"
    and pending_new: "heap_new E n w = (b, w') \<Longrightarrow> pending w' \<le> pending w"
    and pending_ticks: "GetTicks E w = (t, w') \<Longrightarrow> pending w' \<le> pending w"
    and pending_delete: "pending (sock_delete E w) \<le> pending w"
begin

lemma pending_Send: "Send E p w = Some (ok, p', w') \<Longrightarrow> pending w' \<le> pending w"
  using Send_world [of E p w ok p' w'] pending_send by (metis order_refl prod.collapse)

lemma pending_start_timer: "start_timer E d c w = (c', w') \<Longrightarrow> pending w' \<le> pending w"
  by (auto simp: start_timer_def split: prod.splits dest: pending_ticks)

lemma pending_SendPacket:
  assumes "SendPacket E p c w = Some (ok, p', c', w')"
  shows "pending w' \<le> pending w"
  using assms
  by (auto simp: SendPacket_def Let_def res_simps split: if_splits prod.splits
      dest!: pending_Send pending_start_timer)

lemma pending_Close: "CloseConnection E r c w = Some (c', w') \<Longrightarrow> pending w' \<le> pending w"
  using pending_delete [of w] by (auto simp: CloseConnection_def Let_def res_simps split: if_splits)

lemma pending_enqueue: "enqueue E p c w = Some (c', w') \<Longrightarrow> pending w' \<le> pending w"
  by (auto simp: enqueue_def res_simps split: prod.splits dest: pending_ticks)

lemma pending_ack: "ack_packet E t i w = Some (p, w') \<Longrightarrow> pending w' \<le> pending w"
  by (auto simp: ack_packet_def new_packet_def CMQTTSendPacket_new_def Let_def res_simps
      split: prod.splits option.splits dest: pending_new)

end

sublocale mqtt_client_quiet \<subseteq> bound: client_frame E "\<lambda>c w. pending w \<le> n" for n
  by unfold_locales
    (auto dest: pending_Close pending_SendPacket pending_enqueue pending_ack pending_start_timer
      pending_ticks pending_receive)

context mqtt_client_quiet
begin

lemma pending_step:
  assumes "Receiver_step E c w = Some (True, c', w')" "rp_wf E (mc_ReceivePacket c)"
    "sock_Receive E (FRAME_BUFFER_SIZE E) True w = ((r, bs), w1)"
  shows "pending w' + length bs \<le> pending w"
proof -
  obtain st q w2 where st: "Receive E (mc_ReceivePacket c) w = Some (st, q, w2)" "mc_Socket c"
    using assms(1) by (auto simp: Receiver_step_def res_simps split: if_splits)
  then have rc: "st = MQTTReceivePacketOK" "handle_packet E (c\<lparr>mc_ReceivePacket := q\<rparr>) w2 = Some (c', w')"
    using assms(1) by (cases st; auto simp: Receiver_step_def)+
  then have "w2 = w1" using st(1) Receive_cases [OF assms(2), of w] assms(3) by auto
  then have "pending w' \<le> pending w1"
    using bound.frame_packet [OF _ rc(2), of "pending w2"] by simp
  with pending_receive [OF assms(3)] show ?thesis by simp
qed

lemma Receiver_closed: "\<not> mc_Socket c \<Longrightarrow> Receiver E c w = Some (Some (c, w))"
  by (subst Receiver.simps) (simp add: Receiver_step_def)

text \<open>The loop ends, with the invariant unless an assertion has failed.\<close>

lemma Receiver_ends:
  "mc_inv E qel sel c \<Longrightarrow>
     \<exists>r. Receiver E c w = Some r \<and> (\<forall>c' w'. r = Some (c', w') \<longrightarrow> mc_inv E qel sel c')"
proof (induction "pending w + stream_length c" arbitrary: c w rule: less_induct)
  case less
  consider (stop) "Receiver_step E c w = None"
    | (step) go c' w' where "Receiver_step E c w = Some (go, c', w')" "mc_inv E qel sel c'"
      "go \<and> mc_Socket c' \<longrightarrow> (\<exists>r bs w1. sock_Receive E (FRAME_BUFFER_SIZE E) True w = ((r, bs), w1) \<and>
          stream_length c' + 2 \<le> stream_length c + length bs)"
    using Receiver_step_cases [OF less.prems, of w] by (elim disjE exE conjE)
  then show ?case
  proof cases
    case stop
    then show ?thesis by (subst Receiver.simps) simp
  next
    case step
    have eq: "Receiver E c w = (if go then Receiver E c' w' else Some (Some (c', w')))"
      by (subst Receiver.simps) (simp add: step(1))
    show ?thesis
    proof (cases "go \<and> mc_Socket c'")
      case True
      then obtain r bs w1 where r: "sock_Receive E (FRAME_BUFFER_SIZE E) True w = ((r, bs), w1)"
        "stream_length c' + 2 \<le> stream_length c + length bs"
        using step(3) by blast
      have "pending w' + length bs \<le> pending w"
        using pending_step [OF _ mc_inv_wf [OF less.prems] r(1)] step(1) True by simp
      then have "pending w' + stream_length c' < pending w + stream_length c"
        using r(2) by linarith
      with less.hyps step(2) True eq show ?thesis by simp
    next
      case False
      with eq step(2) Receiver_closed show ?thesis by auto
    qed
  qed
qed

end

subsection \<open>One turn of the main loop\<close>

text \<open>A closed client has its timer off; \<open>KeepAliveHandler\<close> relies on it.\<close>

definition timer_quiet :: "('q, 's) mqtt_client \<Rightarrow> bool" where
  "timer_quiet c \<longleftrightarrow> mc_ConnectStatus c \<noteq> MQTTStatusDisconnected \<or> \<not> mc_TimerRunning c"

lemma timer_quiet_send:
  "timer_quiet c \<Longrightarrow> SendPacket E p c w = Some (ok, p', c', w') \<Longrightarrow> timer_quiet c'"
  by (auto simp: timer_quiet_def SendPacket_def start_timer_def Let_def res_simps
      split: if_splits prod.splits)

interpretation quiet_frame: client_frame E "\<lambda>c w. timer_quiet c"
  for E :: "('w, 'q, 'e, 's, 'f) mqtt_env"
  by (unfold_locales; (erule (1) timer_quiet_send)?)
    (auto simp: timer_quiet_def callback_def CloseConnection_def enqueue_def start_timer_def Let_def
      res_simps split: if_splits prod.splits)

context mqtt_client_quiet
begin

lemma Run_step_ends:
  assumes inv: "mc_inv E qel sel c"
  shows "\<exists>r. Run_step E c w = Some r \<and> (\<forall>c' w'. r = Some (c', w') \<longrightarrow> mc_inv E qel sel c')"
proof (cases "mc_ConnectStatus c = MQTTStatusDisconnected")
  case True
  then show ?thesis using inv by (simp add: Run_step_def)
next
  case False
  then have q: "timer_quiet c" by (simp add: timer_quiet_def)
  obtain r where r: "Receiver E c w = Some r" "\<forall>c' w'. r = Some (c', w') \<longrightarrow> mc_inv E qel sel c'"
    using Receiver_ends [OF inv] by blast
  show ?thesis
  proof (cases r)
    case None
    then show ?thesis using False r(1) by (simp add: Run_step_def)
  next
    case (Some a)
    then obtain c1 w1 where a: "r = Some (c1, w1)" by (cases a) simp
    then have inv1: "mc_inv E qel sel c1" using r(2) by blast
    have q1: "timer_quiet c1" using quiet_frame.frame_Receiver [OF q] r(1) a by simp
    obtain c2 w2 where s: "Sender E c1 w1 = Some (Some (c2, w2))" "mc_inv E qel sel c2"
      using Sender_inv [OF inv1] by blast
    have q2: "timer_quiet c2" using quiet_frame.frame_Sender [OF q1 s(1)] .
    obtain c3 w3 where k: "KeepAliveHandler E c2 w2 = Some (c3, w3)" "mc_inv E qel sel c3"
      using KeepAliveHandler_inv [OF s(2), of w2] q2 unfolding timer_quiet_def by blast
    have "Run_step E c w = Some (Some (c3, MsSleep E 50 w3))"
      using False r(1) a s(1) k(1) by (simp add: Run_step_def)
    with k(2) show ?thesis by simp
  qed
qed

end

subsection \<open>The scripted environment\<close>

text \<open>
  The scripted network and the numbered lists as an environment of the client: names resolve to
  one address, connecting succeeds while the peer is open, fresh packet storage is zero.
\<close>

definition zero_packet :: mqtt_send_packet where
  "zero_packet = \<lparr>sp_Type = MQTTPacketTypeZero, sp_MaxPacketSize = 0, sp_Error = False,
     sp_Buffer = None, sp_BufPtr = 0, sp_Flags = 0, sp_SendTries = 0, sp_ScheduledTime = 0,
     sp_QoS = 0, sp_PacketIdentifier = 0\<rparr>"

definition script_env ::
  "nat \<Rightarrow> (script, mqtt_send_packet numbered, nat, u16 numbered, nat) mqtt_env" where
  "script_env fbs = \<lparr>
     FRAME_BUFFER_SIZE = FRAME_BUFFER_SIZE (script_circle fbs), HZ = HZ (script_circle fbs),
     heap_new = heap_new (script_circle fbs), sock_Send = sock_Send (script_circle fbs),
     sock_Receive = sock_Receive (script_circle fbs), GetTicks = GetTicks (script_circle fbs),
     sock_new = (\<lambda>b w. w), ssl_AddCertificatePath = (\<lambda>p w. (1, w)), ssl_Setup = (\<lambda>h str w. (0, w)),
     sock_Connect = (\<lambda>a p w. (if peer_open w then 0 else -1, w)), sock_delete = (\<lambda>w. w),
     null_string = Some [], env_Q = num_list_ops, env_S = num_list_ops, raw_packet = (\<lambda>w. zero_packet),
     dns_Resolve = (\<lambda>h w. (Some [10, 0, 0, 1], w)), board_Serial = (\<lambda>w. (None, w)),
     MsSleep = (\<lambda>n w. w\<lparr>clock := clock w + of_nat n\<rparr>)\<rparr>"

definition script_pending :: "script \<Rightarrow> nat" where
  "script_pending w = sum_list (map length (rx_frames w))"

lemma script_contract: "circle_contract (script_env (Suc k))"
  by unfold_locales (auto simp: script_env_def script_circle_def split: list.splits if_splits)

lemma script_lists:
  "send_queue (env_Q (script_env fbs)) num_elems" "id_store (env_S (script_env fbs)) num_elems"
  using num_queue.send_queue_axioms num_store.id_store_axioms by (simp_all add: script_env_def)

interpretation script_client: mqtt_client_quiet "script_env (Suc k)" num_elems num_elems script_pending
proof (intro mqtt_client_quiet.intro mqtt_client_env.intro script_contract script_lists)
  show "mqtt_client_quiet_axioms (script_env (Suc k)) script_pending"
    by unfold_locales
      (auto simp: script_env_def script_circle_def script_pending_def split: list.splits if_splits)
qed

end
