(* ===== verification/Mqtt_Exchange.thy ===== *)
theory Mqtt_Exchange
  imports Mqtt_Receiver "HOL-Library.AList"
begin

text \<open>
  Two parties of the protocol: what one client publishes another one delivers, and the
  exactly-once receiver as an abstract machine over identifiers and delivered messages.
\<close>

subsection \<open>From \<open>Publish\<close> to \<open>OnMessage\<close>\<close>

lemma sp_put_payload:
  assumes "sp_wf p" "\<not> sp_Error (sp_put p bs)"
  shows "\<not> sp_Error p" "sp_payload (sp_put p bs) = sp_payload p @ bs"
  using assms sp_payload_extend [of p bs] by (auto simp: sp_put_def split: if_splits)

lemma sp_put_same [simp]: "sp_Flags (sp_put p bs) = sp_Flags p"
  by (simp add: sp_put_def)

lemma new_packet_payload:
  assumes "circle_contract E" "128 \<le> n" "n \<le> 2 ^ 21" "new_packet E t n w = Some (p, w')"
  shows "pkt_ok p" "sp_Type p = t" "sp_payload p = []"
proof -
  have p: "pkt_ok p" "sp_Type p = t" "sp_BufPtr p = 5"
    using new_packet_ok [OF assms(1-3), of t w] assms(4) by auto
  then show "pkt_ok p" "sp_Type p = t" by auto
  show "sp_payload p = []"
    using p(3) by (simp add: sp_payload_def MAX_LENGTH_FIXED_HEADER_def split: option.splits)
qed

lemma publish_packet_payload:
  assumes "circle_contract E" "128 \<le> n" "n \<le> 2 ^ 21"
    and "k \<le> MQTT_QOS_EXACTLY_ONCE" "fits_memory topic" "fits_memory payload"
    and p: "publish_packet E n topic payload k retain i w = Some (p, w')" and e: "\<not> sp_Error p"
  shows "pkt_ok p" "sp_Type p = MQTTPublish" "sp_Flags p = publish_flags k retain"
    "sp_payload p = mqtt_string topic @ [hi8 i, lo8 i] @ payload"
proof -
  obtain p0 w0 where n: "new_packet E MQTTPublish n w = Some (p0, w0)"
    using p by (auto simp: publish_packet_def Option.bind_eq_Some_conv)
  note p0 = new_packet_payload [OF assms(1-3) n]
  let ?f = "publish_flags k retain"
  have f: "?f \<le> 0x0F" using assms(4) by (rule publish_flags_small)
  let ?p1 = "p0\<lparr>sp_Flags := ?f\<rparr>"
  have p1: "pkt_ok ?p1" "sp_payload ?p1 = []"
    using pkt_ok_flags [OF p0(1) f] p0(3) by (simp_all add: sp_payload_def split: option.splits)
  let ?p2 = "sp_put ?p1 (mqtt_string topic)"
  let ?p3 = "sp_put ?p2 [hi8 i, lo8 i]"
  have ok: "pkt_ok ?p2" "pkt_ok ?p3" using p1(1) by simp_all
  have eq: "p = (if payload = [] then ?p3 else sp_put ?p3 payload)"
    using p n p0(2) f ok p1(1) assms(5,6) by (auto simp: publish_packet_def SetFlags_def append_ok)
  have wf: "sp_wf ?p1" "sp_wf ?p2" "sp_wf ?p3" using p1(1) ok by (simp_all add: pkt_ok_def)
  have e3: "\<not> sp_Error ?p3" "sp_payload p = sp_payload ?p3 @ payload"
    using e eq sp_put_payload [OF wf(3), of payload] by (auto split: if_splits)
  have e2: "\<not> sp_Error ?p2" "sp_payload ?p3 = sp_payload ?p2 @ [hi8 i, lo8 i]"
    using sp_put_payload [OF wf(2) e3(1)] by auto
  have "sp_payload ?p2 = mqtt_string topic"
    using sp_put_payload(2) [OF wf(1) e2(1)] p1(2) by simp
  with e2(2) e3(2) show "sp_payload p = mqtt_string topic @ [hi8 i, lo8 i] @ payload" by simp
  show "pkt_ok p" "sp_Type p = MQTTPublish" "sp_Flags p = ?f"
    using eq ok p0(2) p1(1) by (auto split: if_splits)
qed

lemma publish_flags_read:
  assumes "k \<le> MQTT_QOS_EXACTLY_ONCE" "rp_Flags q = publish_flags k retain"
  shows "publish_qos q = k" "publish_retain q = retain"
    "5 \<le> n \<Longrightarrow> basic_checks MQTTPublish (publish_flags k retain) n = MQTTReceivePacketOK"
  using qos_cases [OF assms(1)] assms(2)
  by (cases retain; auto simp: publish_qos_def publish_retain_def publish_flags_def basic_checks_def
      Let_def mqtt_qos_defs mqtt_flag_defs)+

text \<open>The bytes of a PUBLISH packet of \<open>CMQTTClient::Publish\<close>.\<close>

definition publish_body :: "cstring \<Rightarrow> u16 \<Rightarrow> u8 list \<Rightarrow> u8 list" where
  "publish_body topic i payload = mqtt_string topic @ [hi8 i, lo8 i] @ payload"

lemma publish_arrives:
  assumes wf: "rp_wf E (mc_ReceivePacket c)" and b: "rp_Buffer (mc_ReceivePacket c) = Some b"
    and k: "k \<le> MQTT_QOS_EXACTLY_ONCE" and i: "i \<noteq> 0"
    and dest: "mc_TopicBuffer c = Some (wrap32 (mc_MaxTopicSize c + 1))"
    and topic: "topic \<noteq> []" "ascii topic" "length topic < wrap32 (mc_MaxTopicSize c + 1)" "length topic < 2 ^ 16"
    and small: "length (publish_body topic i payload) < 2 ^ 28"
    and stream: "rp_stream (mc_ReceivePacket c) =
      mqtt_frame MQTTPublish (publish_flags k retain) (publish_body topic i payload) @ rest"
  shows "\<exists>q. parse_buffer (mc_ReceivePacket c) = Some (MQTTReceivePacketOK, q) \<and> rp_wf E q \<and>
     rp_ready (rp_adv q (length (publish_body topic i payload))) \<and>
     drop (rp_OutPtr q + length (publish_body topic i payload)) (rp_stream q) = rest \<and>
     (\<forall>w. handle_packet E (c\<lparr>mc_ReceivePacket := q\<rparr>) w =
       (let pl = (if k = MQTT_QOS_AT_MOST_ONCE then [hi8 i, lo8 i] @ payload else payload)
        in publish_branch E k (if k = MQTT_QOS_AT_MOST_ONCE then 0 else i) topic (Some pl) (length pl) retain
          (c\<lparr>mc_ReceivePacket := rp_adv q (length (publish_body topic i payload))\<rparr>) w))"
proof -
  let ?body = "publish_body topic i payload" and ?n = "of_nat (length topic) :: u16"
  have head: "mqtt_string topic = hi8 ?n # lo8 ?n # topic" "unat ?n = length topic"
    using mqtt_string_fields topic(4) by (simp_all add: unat_of_nat)
  have len: "length ?body = Suc (Suc (Suc (Suc (length topic + length payload))))" by (simp add: publish_body_def)
  obtain q where q: "parse_buffer (mc_ReceivePacket c) =
      Some (basic_checks MQTTPublish (publish_flags k retain) (length ?body), q)"
    "rp_wf E q" "rp_Type q = MQTTPublish" "rp_Flags q = publish_flags k retain"
    "rp_BytesConsumed q = 0" "rp_ready q" "rp_rest q = ?body"
    "drop (rp_OutPtr q + length ?body) (rp_stream q) = rest"
    using parse_frame [OF wf b publish_flags_small [OF k] small stream] by blast
  note fl = publish_flags_read [OF k q(4)]
  have chk: "basic_checks MQTTPublish (publish_flags k retain) (length ?body) = MQTTReceivePacketOK"
    using fl(3) [of "length ?body"] len topic(1) by (cases topic) auto
  have rdy: "rp_ready (rp_adv q (length ?body))"
    using rp_adv_ready(1) [OF q(2,6)] q(7) by simp
  have rest: "rp_rest q = hi8 ?n # lo8 ?n # topic @ hi8 i # lo8 i # payload"
    using q(7) head(1) by (simp add: publish_body_def)
  let ?c = "c\<lparr>mc_ReceivePacket := q\<rparr>"
  have t: "0 < unat (be16 (hi8 ?n) (lo8 ?n)) \<and> unat (be16 (hi8 ?n) (lo8 ?n)) < wrap32 (mc_MaxTopicSize ?c + 1) \<and>
      unat (be16 (hi8 ?n) (lo8 ?n)) \<le> length (topic @ hi8 i # lo8 i # payload) \<and>
      ascii (take (unat (be16 (hi8 ?n) (lo8 ?n))) (topic @ hi8 i # lo8 i # payload))"
    using topic head(2) by simp
  have "handle_packet E ?c w =
       (let pl = (if k = MQTT_QOS_AT_MOST_ONCE then [hi8 i, lo8 i] @ payload else payload)
        in publish_branch E k (if k = MQTT_QOS_AT_MOST_ONCE then 0 else i) topic (Some pl) (length pl) retain
          (c\<lparr>mc_ReceivePacket := rp_adv q (length ?body)\<rparr>) w)" for w
    using handle_Publish_topic [of E ?c, OF _ _ _ _ t, of w] dest q(2,3,5,6) rest fl(1,2) i len head(2)
    by (auto simp: handle_packet_def Let_def nth_append mqtt_qos_defs word_gt_0)
  with q chk rdy show ?thesis by auto
qed

subsection \<open>The exactly-once receiver\<close>

text \<open>
  The abstract machine: the identifiers of messages received and not yet released, and the calls
  of \<open>OnMessage\<close>. A message whose identifier is held is a retransmission and is dropped; a
  PUBREL releases the identifier.
\<close>

datatype rx2_op = Arrive u16 client_event | Release u16

fun rx2_step :: "rx2_op \<Rightarrow> u16 multiset \<times> client_event list \<Rightarrow> u16 multiset \<times> client_event list" where
  "rx2_step (Arrive i m) (S, ms) = (if i \<in># S then (S, ms) else (add_mset i S, ms @ [m]))"
| "rx2_step (Release i) (S, ms) = (S - {#i#}, ms)"

definition rx2_abs ::
  "('s \<Rightarrow> ('f \<times> u16) list) \<Rightarrow> ('q, 's) mqtt_client \<Rightarrow> u16 multiset \<times> client_event list" where
  "rx2_abs sel c = (mset (ptrs_of sel (mc_PacketIdentifierStore c)), mc_Events c)"

text \<open>Arrivals without a release: the first message of each identifier is delivered, in order.\<close>

lemma rx2_arrivals:
  "snd (fold rx2_step (map (\<lambda>(i, m). Arrive i m) xs) (S, ms)) =
     ms @ map snd (AList.clearjunk (filter (\<lambda>x. fst x \<notin># S) xs))"
proof (induction xs arbitrary: S ms)
  case (Cons x xs)
  obtain i m where x: "x = (i, m)" by (cases x)
  have "AList.delete i (filter (\<lambda>x. fst x \<notin># S) xs) = filter (\<lambda>x. fst x \<notin># add_mset i S) xs"
    by (auto simp: AList.delete_eq case_prod_beta intro: filter_cong)
  with Cons x show ?case by simp
qed simp

text \<open>Identifier and message of a PUBLISH packet with an identifier.\<close>

definition publish_fields :: "mqtt_receive_packet \<Rightarrow> nat \<Rightarrow> (u16 \<times> client_event) option" where
  "publish_fields rp nMaxTopicSize =
     (case rp_rest rp of h # l # r \<Rightarrow>
        (let n = unat (be16 h l) in
         if 0 < n \<and> n < wrap32 (nMaxTopicSize + 1) \<and> n + 2 \<le> length r \<and> ascii (take n r) \<and>
            be16 (r ! n) (r ! (n + 1)) \<noteq> 0
         then Some (be16 (r ! n) (r ! (n + 1)),
                OnMessage (take n r) (Some (drop (n + 2) r)) (length r - n - 2) (publish_retain rp))
         else None)
      | _ \<Rightarrow> None)"

context mqtt_client_env
begin

lemma branch_exactly_once:
  assumes inv: "mc_inv E qel sel c"
    and r: "publish_branch E MQTT_QOS_EXACTLY_ONCE i topic pl n rt c w = Some (c', w')" "mc_Socket c'"
  shows "rx2_abs sel c' = rx2_step (Arrive i (OnMessage topic pl n rt)) (rx2_abs sel c)"
proof -
  obtain p w1 ok p' c1 w2 where a: "ack_packet E MQTTPubRec i w = Some (p, w1)"
    "SendPacket E p c w1 = Some (ok, p', c1, w2)" "mc_inv E qel sel c1" "timer_only c c1"
    by (rule send_ack [OF inv, of MQTTPubRec i w]) simp_all
  have close: "CloseConnection E rs d w2 = Some (c', w') \<Longrightarrow> mc_inv E qel sel d \<Longrightarrow> \<not> mc_Socket c'" for rs d
    using CloseConnection_inv [of d rs w2] by auto
  have cp: "complete_packet d = Some e \<Longrightarrow> \<exists>rp. e = d\<lparr>mc_ReceivePacket := rp\<rparr>" for d e :: "('q, 's) mqtt_client"
    by (auto simp: complete_packet_def Option.bind_eq_Some_conv)
  have "mc_inv E qel sel d" if d: "complete_packet c1 = Some d" for d
  proof -
    obtain rp where "Complete (mc_ReceivePacket c1) = Some rp" "d = c1\<lparr>mc_ReceivePacket := rp\<rparr>"
      using d by (auto simp: complete_packet_def Option.bind_eq_Some_conv)
    then show ?thesis
      using a(3) Complete_stream [OF mc_inv_wf [OF a(3)]]
      by (auto simp: Complete_def Option.bind_eq_Some_conv intro!: mc_inv_rp)
  qed
  then have ok: ok
    using r a(1,2) close
    by (auto simp: publish_branch_def mqtt_qos_defs Option.bind_eq_Some_conv split: if_splits)
  note t = timer_onlyD [OF a(4)]
  show ?thesis
    using r(1) a(1,2) ok t store.store_member [of "mc_PacketIdentifierStore c" i]
      store.store_insert [of "mc_PacketIdentifierStore c" i]
    by (auto simp: publish_branch_def mqtt_qos_defs Option.bind_eq_Some_conv rx2_abs_def deliver_def
        dest!: cp split: if_splits)
qed

lemma publish_fields_branch:
  assumes pkt: "at_packet E qel sel c" and t: "rp_Type (mc_ReceivePacket c) = MQTTPublish"
    and k: "publish_qos (mc_ReceivePacket c) = MQTT_QOS_EXACTLY_ONCE"
    and f: "publish_fields (mc_ReceivePacket c) (mc_MaxTopicSize c) = Some (i, m)"
  obtains topic pl n rt j where "m = OnMessage topic pl n rt"
    "\<And>w. handle_packet E c w = publish_branch E MQTT_QOS_EXACTLY_ONCE i topic pl n rt
       (c\<lparr>mc_ReceivePacket := rp_adv (mc_ReceivePacket c) j\<rparr>) w"
    "mc_inv E qel sel (c\<lparr>mc_ReceivePacket := rp_adv (mc_ReceivePacket c) j\<rparr>)"
    "rp_ready (rp_adv (mc_ReceivePacket c) j)"
proof -
  note c = at_packetD [OF pkt]
  obtain h l rs where rest: "rp_rest (mc_ReceivePacket c) = h # l # rs"
    using f by (auto simp: publish_fields_def split: list.splits)
  let ?n = "unat (be16 h l)" and ?rp = "mc_ReceivePacket c"
  have n: "0 < ?n" "?n < wrap32 (mc_MaxTopicSize c + 1)" "?n + 2 \<le> length rs" "ascii (take ?n rs)"
    "be16 (rs ! ?n) (rs ! (?n + 1)) \<noteq> 0" "i = be16 (rs ! ?n) (rs ! (?n + 1))"
    "m = OnMessage (take ?n rs) (Some (drop (?n + 2) rs)) (length rs - ?n - 2) (publish_retain ?rp)"
    using f rest by (auto simp: publish_fields_def Let_def split: if_splits)
  let ?c = "c\<lparr>mc_ReceivePacket := rp_adv ?rp (2 + length rs)\<rparr>"
  have cons: "rp_BytesConsumed ?rp = 0" using pkt by (simp add: at_packet_def Let_def)
  have buf: "mc_TopicBuffer c = Some (wrap32 (mc_MaxTopicSize c + 1))"
    using mc_inv_topic [OF c(1)] pkt by (simp add: at_packet_def Let_def)
  have topic: "0 < ?n \<and> ?n < wrap32 (mc_MaxTopicSize c + 1) \<and> ?n \<le> length rs \<and> ascii (take ?n rs)"
    using n by simp
  have "handle_packet E c w = publish_branch E MQTT_QOS_EXACTLY_ONCE i (take ?n rs)
      (Some (drop (?n + 2) rs)) (length rs - ?n - 2) (publish_retain ?rp) ?c w" for w
    using handle_Publish_topic [OF c(3,4) rest buf topic cons, of w] n(3,5,6) k t
    by (simp add: handle_packet_def Let_def mqtt_qos_defs)
  moreover have "mc_inv E qel sel ?c" using mc_inv_rp [OF c(1)] c(3) by simp
  moreover have "rp_ready (rp_adv ?rp (2 + length rs))"
    using rp_adv_ready(1) [OF c(3,4)] rest by simp
  ultimately show thesis using that n(7) by blast
qed

lemma publish_exactly_once:
  assumes pkt: "at_packet E qel sel c" and t: "rp_Type (mc_ReceivePacket c) = MQTTPublish"
    and k: "publish_qos (mc_ReceivePacket c) = MQTT_QOS_EXACTLY_ONCE"
    and f: "publish_fields (mc_ReceivePacket c) (mc_MaxTopicSize c) = Some (i, m)"
    and r: "handle_packet E c w = Some (c', w')" "mc_Socket c'"
  shows "rx2_abs sel c' = rx2_step (Arrive i m) (rx2_abs sel c)"
proof -
  obtain topic pl n rt j where m: "m = OnMessage topic pl n rt"
    "handle_packet E c w = publish_branch E MQTT_QOS_EXACTLY_ONCE i topic pl n rt
       (c\<lparr>mc_ReceivePacket := rp_adv (mc_ReceivePacket c) j\<rparr>) w"
    "mc_inv E qel sel (c\<lparr>mc_ReceivePacket := rp_adv (mc_ReceivePacket c) j\<rparr>)"
    using publish_fields_branch [OF pkt t k f] by metis
  from branch_exactly_once [OF m(3) r(1) [unfolded m(2)] r(2)] show ?thesis
    unfolding m(1) by (simp add: rx2_abs_def)
qed

lemma pubrel_exactly_once:
  assumes pkt: "at_packet E qel sel c" and t: "rp_Type (mc_ReceivePacket c) = MQTTPubRel"
    and f: "rp_rest (mc_ReceivePacket c) = [h, l]"
    and r: "handle_packet E c w = Some (c', w')" "mc_Socket c'"
  shows "rx2_abs sel c' = rx2_step (Release (be16 h l)) (rx2_abs sel c)"
proof -
  note c = at_packetD [OF pkt]
  have len: "2 \<le> rp_RemainingLength (mc_ReceivePacket c)" using c(7) f by simp
  let ?c2 = "c\<lparr>mc_ReceivePacket := rp_adv (mc_ReceivePacket c) 2\<rparr>"
  have w: "read_word c = Some (be16 h l, ?c2)"
    using GetWord_rest [OF c(3,4) f] by (simp add: read_word_def)
  obtain rp where rp: "complete_packet ?c2 = Some (c\<lparr>mc_ReceivePacket := rp\<rparr>)"
    "mc_inv E qel sel (c\<lparr>mc_ReceivePacket := rp\<rparr>)"
    using word_complete [OF pkt len] by metis
  obtain p w1 ok p' c1 w2 where a: "ack_packet E MQTTPubComp (be16 h l) w = Some (p, w1)"
    "SendPacket E p (c\<lparr>mc_ReceivePacket := rp\<rparr>) w1 = Some (ok, p', c1, w2)" "mc_inv E qel sel c1"
    "timer_only (c\<lparr>mc_ReceivePacket := rp\<rparr>) c1"
    by (rule send_ack [OF rp(2), of MQTTPubComp "be16 h l" w]) simp_all
  have "\<not> mc_Socket d" if "CloseConnection E rs e w'' = Some (d, w3)" "mc_inv E qel sel e" for rs d e w'' w3
    using CloseConnection_inv [of e rs w''] that by auto
  then have "c' = c1\<lparr>mc_PacketIdentifierStore := snd (RemovePacketIdentifierFromStore (env_S E)
      (mc_PacketIdentifierStore c1) (be16 h l))\<rparr>"
    using r t w rp a by (auto simp: handle_packet_def handle_PubRel_def split: if_splits)
  moreover have "mset (ptrs_of sel (snd (RemovePacketIdentifierFromStore (env_S E)
      (mc_PacketIdentifierStore c) (be16 h l)))) =
      mset (ptrs_of sel (mc_PacketIdentifierStore c)) - {#be16 h l#}"
    using store.store_remove(2) [of "mc_PacketIdentifierStore c" "be16 h l"]
    by (cases "be16 h l \<in> set (ptrs_of sel (mc_PacketIdentifierStore c))")
      (auto simp: diff_single_trivial simp flip: set_mset_mset)
  ultimately show ?thesis
    using timer_onlyD(4,5) [OF a(4)] by (simp add: rx2_abs_def)
qed

end

text \<open>
  A run of the receiver over exactly-once packets: each announced packet is handled and the
  connection stays open; what happens to the world in between is left open.
\<close>

inductive rx2_run ::
  "('w, 'q, 'e, 's, 'f) mqtt_env \<Rightarrow> ('q \<Rightarrow> ('e \<times> mqtt_send_packet) list) \<Rightarrow> ('s \<Rightarrow> ('f \<times> u16) list) \<Rightarrow>
     ('q, 's) mqtt_client \<Rightarrow> rx2_op list \<Rightarrow> ('q, 's) mqtt_client \<Rightarrow> bool"
  for E qel sel where
  finished: "rx2_run E qel sel c [] c"
| message: "at_packet E qel sel (c\<lparr>mc_ReceivePacket := rp\<rparr>) \<Longrightarrow> rp_Type rp = MQTTPublish \<Longrightarrow>
    publish_qos rp = MQTT_QOS_EXACTLY_ONCE \<Longrightarrow> publish_fields rp (mc_MaxTopicSize c) = Some (i, m) \<Longrightarrow>
    handle_packet E (c\<lparr>mc_ReceivePacket := rp\<rparr>) w = Some (c', w') \<Longrightarrow> mc_Socket c' \<Longrightarrow>
    rx2_run E qel sel c' ops c'' \<Longrightarrow> rx2_run E qel sel c (Arrive i m # ops) c''"
| release: "at_packet E qel sel (c\<lparr>mc_ReceivePacket := rp\<rparr>) \<Longrightarrow> rp_Type rp = MQTTPubRel \<Longrightarrow>
    rp_rest rp = [h, l] \<Longrightarrow>
    handle_packet E (c\<lparr>mc_ReceivePacket := rp\<rparr>) w = Some (c', w') \<Longrightarrow> mc_Socket c' \<Longrightarrow>
    rx2_run E qel sel c' ops c'' \<Longrightarrow> rx2_run E qel sel c (Release (be16 h l) # ops) c''"

inductive_cases rx2_run_NilE: "rx2_run E qel sel c [] c'"
inductive_cases rx2_run_ArriveE: "rx2_run E qel sel c (Arrive i m # ops) c'"
inductive_cases rx2_run_ReleaseE: "rx2_run E qel sel c (Release i # ops) c'"

lemma rx2_abs_rp [simp]: "rx2_abs sel (c\<lparr>mc_ReceivePacket := rp\<rparr>) = rx2_abs sel c"
  by (simp add: rx2_abs_def)

context mqtt_client_env
begin

lemma rx2_run_refines:
  "rx2_run E qel sel c ops c' \<Longrightarrow> rx2_abs sel c' = fold rx2_step ops (rx2_abs sel c)"
proof (induction rule: rx2_run.induct)
  case (message rp c i m w c' w' ops c'')
  have "rx2_abs sel c' = rx2_step (Arrive i m) (rx2_abs sel c)"
    using publish_exactly_once [OF message.hyps(1) _ _ _ message.hyps(5,6)] message.hyps(2-4) by simp
  with message.IH show ?case by simp
next
  case (release rp c h l w c' w' ops c'')
  have "rx2_abs sel c' = rx2_step (Release (be16 h l)) (rx2_abs sel c)"
    using pubrel_exactly_once [OF release.hyps(1) _ _ release.hyps(4,5)] release.hyps(2,3) by simp
  with release.IH show ?case by simp
qed simp

end

end
