(* ===== verification/Mqtt_Packet_Props.thy ===== *)
theory Mqtt_Packet_Props
  imports Mqtt_Receiver
begin

text \<open>
  The properties of the packet classes \<open>CMQTTSendPacket\<close> and \<open>CMQTTReceivePacket\<close>, each
  followed by a run on the scripted network where it has hypotheses.
\<close>

subsection \<open>Building packets\<close>

text \<open>A packet is built by a sequence of append operations.\<close>

datatype append_op = OpByte u8 | OpWord u16 | OpString cstring | OpData "u8 list"

fun run_append :: "mqtt_send_packet \<Rightarrow> append_op \<Rightarrow> mqtt_send_packet option" where
  "run_append p (OpByte v) = AppendByte p v"
| "run_append p (OpWord v) = AppendWord p v"
| "run_append p (OpString s) = AppendString p s"
| "run_append p (OpData bs) = AppendData p bs"

fun run_appends :: "mqtt_send_packet \<Rightarrow> append_op list \<Rightarrow> mqtt_send_packet option" where
  "run_appends p [] = Some p"
| "run_appends p (op # ops) = do { p \<leftarrow> run_append p op; run_appends p ops }"

fun op_bytes :: "append_op \<Rightarrow> u8 list" where
  "op_bytes (OpByte v) = [v]"
| "op_bytes (OpWord v) = [hi8 v, lo8 v]"
| "op_bytes (OpString s) = mqtt_string s"
| "op_bytes (OpData bs) = bs"

definition op_fits :: "append_op \<Rightarrow> bool" where
  "op_fits op \<longleftrightarrow> length (op_bytes op) < 2 ^ 31"

lemma run_append_put:
  assumes "sp_wf p" "op_fits op"
  shows "run_append p op = Some (sp_put p (op_bytes op))"
  using assms by (cases op) (simp_all add: op_fits_def AppendByte_put AppendWord_put AppendString_put
      AppendData_put)

lemma sp_put_wf:
  assumes "sp_wf p"
  shows "sp_wf (sp_put p bs)"
  using assms sp_wf_extend [OF assms, of bs]
  by (auto simp: sp_put_def sp_wf_def split: option.splits)

lemma sp_put_error:
  assumes "sp_wf p"
  shows "\<not> sp_Error (sp_put p bs) \<longleftrightarrow> \<not> sp_Error p \<and> length bs \<le> sp_room p"
    "\<not> sp_Error (sp_put p bs) \<Longrightarrow> sp_room (sp_put p bs) = sp_room p - length bs"
    "\<not> sp_Error (sp_put p bs) \<Longrightarrow> sp_payload (sp_put p bs) = sp_payload p @ bs"
  using assms sp_payload_extend [OF assms, of bs] sp_room_extend [of p bs] by (auto simp: sp_put_def)

text \<open>
  C2. Building a packet is memory-safe and exact: whatever sequence of append operations is
  applied to a well-formed packet, none of them leaves the buffer; the packet is in error
  afterwards exactly if it was before or the operations need more room than there is; and if it
  is not, its payload is the old one followed by the encodings of all operations in order.
\<close>

theorem appends_exact:
  assumes "sp_wf p" "\<forall>op \<in> set ops. op_fits op"
  shows "\<exists>q. run_appends p ops = Some q \<and> sp_wf q \<and>
     (\<not> sp_Error q \<longleftrightarrow> \<not> sp_Error p \<and> length (concat (map op_bytes ops)) \<le> sp_room p) \<and>
     (\<not> sp_Error q \<longrightarrow> sp_payload q = sp_payload p @ concat (map op_bytes ops))"
  using assms
proof (induction ops arbitrary: p)
  case (Cons op ops)
  have step: "run_append p op = Some (sp_put p (op_bytes op))" "sp_wf (sp_put p (op_bytes op))"
    using Cons.prems run_append_put sp_put_wf by auto
  note err = sp_put_error [OF Cons.prems(1), of "op_bytes op"]
  obtain q where "run_appends (sp_put p (op_bytes op)) ops = Some q" "sp_wf q"
    "\<not> sp_Error q \<longleftrightarrow> \<not> sp_Error (sp_put p (op_bytes op)) \<and>
       length (concat (map op_bytes ops)) \<le> sp_room (sp_put p (op_bytes op))"
    "\<not> sp_Error q \<longrightarrow> sp_payload q = sp_payload (sp_put p (op_bytes op)) @ concat (map op_bytes ops)"
    using Cons.IH [OF step(2)] Cons.prems(2) by auto
  with step(1) err show ?case by auto
qed simp

definition fresh_packet :: "packet_type \<Rightarrow> mqtt_send_packet" where
  "fresh_packet t = zero_packet\<lparr>sp_Type := t, sp_MaxPacketSize := 128, sp_BufPtr := 5,
     sp_Buffer := Some (replicate 128 0), sp_SendTries := 5\<rparr>"

lemma fresh_packet_wf: "sp_wf (fresh_packet t)"
  by (simp add: fresh_packet_def zero_packet_def sp_wf_def MAX_LENGTH_FIXED_HEADER_def MQTT_SEND_TRIES_def)

lemma fresh_packet_fields [simp]:
  "sp_Type (fresh_packet t) = t" "sp_Flags (fresh_packet t) = 0" "\<not> sp_Error (fresh_packet t)"
  "sp_SendTries (fresh_packet t) = 5" "sp_payload (fresh_packet t) = []" "sp_room (fresh_packet t) = 123"
  "sp_MaxPacketSize (fresh_packet t) = 128"
  by (simp_all add: fresh_packet_def zero_packet_def sp_payload_def sp_room_def MAX_LENGTH_FIXED_HEADER_def)

theorem appends_exact_witness:
  "\<exists>q. run_appends (fresh_packet MQTTSubscribe) [OpWord 1, OpString (cstr ''a/b''), OpByte 2] = Some q \<and>
     \<not> sp_Error q \<and> sp_payload q = [0, 1, 0, 3, 97, 47, 98, 2]"
proof -
  let ?p = "fresh_packet MQTTSubscribe" and ?ops = "[OpWord 1, OpString (cstr ''a/b''), OpByte 2]"
  have "concat (map op_bytes ?ops) = [0, 1, 0, 3, 97, 47, 98, 2]"
    by (simp add: mqtt_string_def hi8_def lo8_def)
  moreover have "\<forall>op \<in> set ?ops. op_fits op"
    by (simp add: op_fits_def)
  ultimately show ?thesis
    using appends_exact [OF fresh_packet_wf, of ?ops MQTTSubscribe] by auto
qed

subsection \<open>Sending\<close>

text \<open>
  C9. A packet without error goes out as one frame: control byte (type in the upper, flags in the
  lower four bits), remaining length in the variable-length encoding, payload. \<open>Send\<close>
  reports success exactly if the socket took the whole frame, uses up one try, and leaves the
  payload as it was, so that the packet can be sent again.
\<close>

theorem send_emits_frame:
  assumes "sp_wf p" "\<not> sp_Error p" "0 < sp_SendTries p" "length (sp_payload p) < 2 ^ 21"
    and "sock_Send C (control_byte (sp_Type p) (sp_Flags p) #
      enc_len (length (sp_payload p)) @ sp_payload p) True w = (r, w')"
  shows "\<exists>q. Send C p w = Some (r = 1 + int (length (enc_len (length (sp_payload p)))) +
       int (length (sp_payload p)), q, w') \<and>
     sp_wf q \<and> sp_payload q = sp_payload p \<and> sp_Type q = sp_Type p \<and> sp_Flags q = sp_Flags p \<and>
     sp_SendTries q = sp_SendTries p - 1"
proof -
  have "sock_Send C (sp_frame p) True w = (r, w')" using assms(5) by (simp add: sp_frame_def)
  from Send_step [OF assms(1-4) this] sp_sameD show ?thesis
    by (fastforce simp: sp_frame_def add.assoc)
qed

theorem send_emits_frame_witness:
  "\<exists>q. Send (script_circle 16) (fresh_packet MQTTPingReq) \<lparr>rx_frames = [], tx_frames = [], clock = 0,
       peer_open = True\<rparr> = Some (True, q, \<lparr>rx_frames = [], tx_frames = [[0xC0, 0]], clock = 0,
       peer_open = True\<rparr>)"
proof -
  have e: "enc_len 0 = [0]" by (subst enc_len.simps) simp
  have "sock_Send (script_circle 16) [0xC0, 0] True \<lparr>rx_frames = [], tx_frames = [], clock = 0,
       peer_open = True\<rparr> = (2, \<lparr>rx_frames = [], tx_frames = [[0xC0, 0]], clock = 0, peer_open = True\<rparr>)"
    by (simp add: script_circle_def)
  moreover have "control_byte MQTTPingReq 0 = 0xC0" by (simp add: control_byte_def)
  ultimately show ?thesis
    using send_emits_frame [OF fresh_packet_wf [of MQTTPingReq], of "script_circle 16"]
    by (fastforce simp: e)
qed

text \<open>\<open>n\<close> attempts to send the same packet, with the results.\<close>

fun send_times ::
  "('w, 'x) circle_scheme \<Rightarrow> nat \<Rightarrow> mqtt_send_packet \<Rightarrow> 'w \<Rightarrow> (bool list \<times> mqtt_send_packet \<times> 'w) option" where
  "send_times C 0 p w = Some ([], p, w)"
| "send_times C (Suc n) p w = do {
     (ok, p, w) \<leftarrow> Send C p w;
     (oks, p, w) \<leftarrow> send_times C n p w;
     Some (ok # oks, p, w)
   }"

lemma send_times_exhausted:
  "sp_SendTries p = 0 \<Longrightarrow> send_times C n p w = Some (replicate n False, p, w)"
  by (induction n) (auto simp: Send_def)

text \<open>
  The number of transmissions of a packet is bounded: whatever the network does, attempts
  beyond the tries left fail and leave the network alone; every attempt returns.
\<close>

theorem send_tries_bounded:
  assumes "pkt_ok p" "sp_SendTries p \<le> n"
  shows "\<exists>oks q w'. send_times C (sp_SendTries p) p w = Some (oks, q, w') \<and>
     (sp_SendTries q = 0 \<or> sp_Error p) \<and>
     send_times C n p w = Some (oks @ replicate (n - sp_SendTries p) False, q, w')"
  using assms
proof (induction "sp_SendTries p" arbitrary: p n w)
  case 0
  then show ?case using send_times_exhausted [of p C n w] by simp
next
  case (Suc t)
  then obtain m where m: "n = Suc m" "t \<le> m" by (cases n) auto
  show ?case
  proof (cases "sp_Error p")
    case True
    then have "send_times C k p w = Some (replicate k False, p, w)" for k
      by (induction k) (auto simp: Send_def)
    with True Suc.prems(2) show ?thesis by (simp add: replicate_add [symmetric])
  next
    case False
    obtain r w1 where s: "sock_Send C (sp_frame p) True w = (r, w1)"
      by (cases "sock_Send C (sp_frame p) True w")
    obtain q where q: "Send C p w = Some (r = int (length (sp_frame p)), q, w1)" "sp_wf q" "sp_same p q"
      "sp_SendTries q = t"
      using Send_step [OF _ False _ _ s] Suc.hyps(2) Suc.prems(1) pkt_ok_small [OF Suc.prems(1) False]
      by (auto simp: pkt_ok_def)
    obtain oks q' w' where "send_times C t q w1 = Some (oks, q', w')" "sp_SendTries q' = 0 \<or> sp_Error q"
      "send_times C m q w1 = Some (oks @ replicate (m - t) False, q', w')"
      using Suc.hyps(1) [of q m w1] pkt_ok_same [OF Suc.prems(1) q(2,3)] q(4) m(2) by auto
    then show ?thesis
      using q(1) m Suc.hyps(2) [symmetric] sp_sameD(7) [OF q(3)] by simp
  qed
qed

theorem send_tries_bounded_witness:
  "\<exists>oks q w'. send_times (script_circle 16) 5 (fresh_packet MQTTPublish) \<lparr>rx_frames = [], tx_frames = [],
       clock = 0, peer_open = True\<rparr> = Some (oks, q, w') \<and>
     send_times (script_circle 16) 7 (fresh_packet MQTTPublish) \<lparr>rx_frames = [], tx_frames = [],
       clock = 0, peer_open = True\<rparr> = Some (oks @ [False, False], q, w')"
proof -
  have "pkt_ok (fresh_packet MQTTPublish)" "sp_SendTries (fresh_packet MQTTPublish) = 5"
    using fresh_packet_wf [of MQTTPublish] by (simp_all add: pkt_ok_def)
  with send_tries_bounded [of "fresh_packet MQTTPublish" 7 "script_circle 16"] show ?thesis
    by (fastforce simp: numeral_2_eq_2)
qed

text \<open>
  A string goes out with its length in front, and the length field holds the length modulo
  \<open>2 ^ 16\<close>: a receiver finds the string again exactly if it is shorter than 65536 bytes; a
  longer one is sent without error and with a field that does not match it.
\<close>

theorem append_string_length_field:
  assumes "sp_wf p" "\<not> sp_Error p" "length s + 2 \<le> sp_room p"
  shows "\<exists>q h l. AppendString p s = Some q \<and> \<not> sp_Error q \<and>
     sp_payload q = sp_payload p @ h # l # s \<and> unat (be16 h l) = length s mod 2 ^ 16"
proof -
  have len: "length s + 2 < 2 ^ 31" using assms(3) sp_wfD(2) [OF assms(1)] by (simp add: sp_room_def)
  let ?q = "sp_put p (mqtt_string s)"
  have q: "AppendString p s = Some ?q" "\<not> sp_Error ?q" "sp_payload ?q = sp_payload p @ mqtt_string s"
    using AppendString_put [OF assms(1) len] sp_put_error [OF assms(1), of "mqtt_string s"] assms by auto
  let ?n = "of_nat (length s) :: u16"
  have "mqtt_string s = hi8 ?n # lo8 ?n # s" by (rule mqtt_string_fields)
  moreover have "unat (be16 (hi8 ?n) (lo8 ?n)) = length s mod 2 ^ 16" by (simp add: unat_of_nat)
  ultimately show ?thesis using q
    by (intro exI [of _ ?q] exI [of _ "hi8 ?n"] exI [of _ "lo8 ?n"]) simp
qed

theorem append_string_length_field_witness:
  "\<exists>q h l. AppendString (fresh_packet MQTTPublish) (replicate 100 65) = Some q \<and> \<not> sp_Error q \<and>
     sp_payload q = h # l # replicate 100 65 \<and> unat (be16 h l) = 100"
  using append_string_length_field [OF fresh_packet_wf [of MQTTPublish], of "replicate 100 65"] by simp

text \<open>
  A packet whose payload needs a remaining length of four bytes, that is \<open>2 ^ 21\<close> bytes or
  more, is not sent: \<open>Send\<close> fails its assertion on the number of length bytes, although the
  protocol and \<open>MAX_LENGTH_FIXED_HEADER\<close> allow four.
\<close>

theorem send_halts_on_four_length_bytes:
  assumes "sp_wf p" "\<not> sp_Error p" "0 < sp_SendTries p" "2 ^ 21 \<le> length (sp_payload p)"
  shows "Send C p w = None"
proof -
  have n: "sp_BufPtr p - 5 = length (sp_payload p)" using sp_payload_length [OF assms(1,2)] by simp
  have "\<not> length (enc_len (length (sp_payload p))) \<le> Suc 2"
    using enc_len_length [of "length (sp_payload p)" 2] assms(4) by simp
  then have "4 \<le> length (enc_len (length (sp_payload p)))" by simp
  then have "post (\<lambda>e. \<not> length e < 4) (encode_length (sp_BufPtr p - 5) [])"
    by (simp add: encode_length_enc n post_def)
  then show ?thesis
    using assms(2,3) unfolding Send_def MAX_LENGTH_FIXED_HEADER_def
    by (cases "encode_length (sp_BufPtr p - 5) []") (auto simp: Let_def assert_def)
qed

definition large_packet :: mqtt_send_packet where
  "large_packet = zero_packet\<lparr>sp_Type := MQTTPublish, sp_MaxPacketSize := 2097157, sp_BufPtr := 2097157,
     sp_Buffer := Some (replicate 2097157 0), sp_SendTries := 5\<rparr>"

theorem send_halts_on_four_length_bytes_witness:
  "Send (script_circle 16) large_packet
     \<lparr>rx_frames = [], tx_frames = [], clock = 0, peer_open = True\<rparr> = None"
proof -
  have "sp_wf large_packet"
    by (simp add: large_packet_def zero_packet_def sp_wf_def MAX_LENGTH_FIXED_HEADER_def MQTT_SEND_TRIES_def)
  moreover have "length (sp_payload large_packet) = 2097152" "\<not> sp_Error large_packet"
    "sp_SendTries large_packet = 5"
    by (simp_all add: large_packet_def zero_packet_def sp_payload_def MAX_LENGTH_FIXED_HEADER_def)
  ultimately show ?thesis
    using send_halts_on_four_length_bytes [of large_packet] by simp
qed

text \<open>
  The remaining length survives the wire: every length below \<open>2 ^ 28\<close> is encoded in at most
  four bytes, and decoding these bytes, whatever follows them, gives the length back together
  with the position of the first payload byte. Longer packets cannot be encoded.
\<close>

theorem remaining_length_roundtrip:
  "(case encode_length n [] of
      None \<Rightarrow> 2 ^ 28 \<le> n
    | Some bytes \<Rightarrow> n < 2 ^ 28 \<and> length bytes \<le> 4 \<and>
        (\<forall>b rest. decode_remaining (b # bytes @ rest) (1 + length bytes + length rest) 1 0 0 =
           Some (1 + length bytes, Inr n)))"
proof (cases "length (enc_len n) \<le> 4")
  case True
  then have n: "n < 2 ^ 28" using enc_len_length [of n 3] by simp
  have "decode_remaining (b # enc_len n @ rest) (1 + length (enc_len n) + length rest) 1 0 0 =
      Some (1 + length (enc_len n), Inr n)" for b rest
    using decode_remaining_enc [of 1 "1 + length (enc_len n) + length rest" "b # enc_len n @ rest" n rest 0 0]
      True by simp
  then show ?thesis using True n by (simp add: encode_length_enc)
next
  case False
  then show ?thesis using enc_len_length [of n 3] by (simp add: encode_length_enc)
qed

subsection \<open>Receiving\<close>

text \<open>
  C13. Receiving is memory-safe for every peer: from a well-formed state a receive step returns, the
  state stays well-formed (positions inside the buffer), and a packet that is announced as valid
  lies completely in the buffer, unread, with type, flags and length that pass the basic checks.
\<close>

theorem receive_safe:
  assumes "circle_contract C" "rp_wf C p"
  shows "\<exists>st q w'. Receive C p w = Some (st, q, w') \<and> rp_wf C q \<and> st \<noteq> MQTTReceiveUnknown \<and>
     (st = MQTTReceivePacketOK \<longrightarrow> rp_BytesConsumed q = 0 \<and>
        rp_OutPtr q + rp_RemainingLength q \<le> rp_InPtr q \<and>
        basic_checks (rp_Type q) (rp_Flags q) (rp_RemainingLength q) = MQTTReceivePacketOK)"
  using circle_contract.Receive_cases [OF assms, of w] by (auto simp: rp_ready_def)

definition script_rp :: mqtt_receive_packet where
  "script_rp = \<lparr>rp_BufferSize = 64, rp_Buffer = Some (replicate 64 0), rp_InPtr = 0, rp_OutPtr = 0,
     rp_Type = MQTTPacketTypeZero, rp_Flags = 0, rp_RemainingLength = 0, rp_BytesConsumed = 0\<rparr>"

lemma script_rp_wf: "rp_wf (script_circle (Suc 15)) script_rp"
  by (simp add: script_rp_def rp_wf_def script_circle_def)

theorem receive_safe_witness:
  "\<exists>st q w'. Receive (script_circle (Suc 15)) script_rp \<lparr>rx_frames = [[0x20, 0xFF, 0xFF, 0xFF, 0xFF, 1]],
       tx_frames = [], clock = 0, peer_open = True\<rparr> = Some (st, q, w') \<and> rp_wf (script_circle (Suc 15)) q"
  using receive_safe [OF script_net.circle_contract_axioms script_rp_wf] by blast

text \<open>The network delivers the given pieces to successive receives.\<close>

fun delivers :: "('w, 'x) circle_scheme \<Rightarrow> 'w \<Rightarrow> u8 list list \<Rightarrow> 'w \<Rightarrow> bool" where
  "delivers C w [] w' \<longleftrightarrow> w' = w"
| "delivers C w (b # bs) w' \<longleftrightarrow>
     (let (x, w1) = sock_Receive C (FRAME_BUFFER_SIZE C) True w
      in x = (int (length b), b) \<and> delivers C w1 bs w')"

fun receive_times ::
  "('w, 'x) circle_scheme \<Rightarrow> nat \<Rightarrow> mqtt_receive_packet \<Rightarrow> 'w \<Rightarrow>
     (receive_status list \<times> mqtt_receive_packet \<times> 'w) option" where
  "receive_times C 0 p w = Some ([], p, w)"
| "receive_times C (Suc n) p w = do {
     (st, p, w) \<leftarrow> Receive C p w;
     (sts, p, w) \<leftarrow> receive_times C n p w;
     Some (st # sts, p, w)
   }"

lemma receive_piece:
  assumes "circle_contract C" "rp_wf C p" "rp_Buffer p \<noteq> None"
    "length (rp_stream p) + FRAME_BUFFER_SIZE C \<le> rp_BufferSize p"
    "sock_Receive C (FRAME_BUFFER_SIZE C) True w = ((int (length b), b), w1)"
  shows "\<exists>q. rp_wf C q \<and> rp_Buffer q \<noteq> None \<and> rp_stream q = rp_stream p @ b \<and>
     rp_BufferSize q = rp_BufferSize p \<and>
     Receive C p w = map_option (\<lambda>(s, q). (s, q, w1)) (parse_buffer q)"
proof -
  obtain buf where b: "rp_Buffer p = Some buf" using assms(3) by auto
  have "rp_InPtr p + FRAME_BUFFER_SIZE C \<le> rp_BufferSize p"
    using rp_wf_stream_length [OF assms(2,3)] assms(4) by simp
  from Receive_step [OF assms(1,2) b this assms(5)] obtain b' where
    "rp_wf C (p\<lparr>rp_Buffer := Some b', rp_InPtr := rp_InPtr p + length b\<rparr>)"
    "take (rp_InPtr p + length b) b' = rp_stream p @ b"
    "Receive C p w = map_option (\<lambda>(s, q). (s, q, w1))
       (parse_buffer (p\<lparr>rp_Buffer := Some b', rp_InPtr := rp_InPtr p + length b\<rparr>))"
    by auto
  then show ?thesis
    by (intro exI [of _ "p\<lparr>rp_Buffer := Some b', rp_InPtr := rp_InPtr p + length b\<rparr>"])
      (simp add: rp_stream_def)
qed

lemma receive_pieces:
  assumes "circle_contract C" and f: "f \<le> 0x0F" and small: "length payload < 2 ^ 28"
  shows "rp_wf C p \<Longrightarrow> rp_Buffer p \<noteq> None \<Longrightarrow> delivers C w (bs @ [b]) w' \<Longrightarrow>
     rp_stream p @ concat bs @ b = mqtt_frame t f payload @ rest \<Longrightarrow>
     length (rp_stream p @ concat bs) < length (mqtt_frame t f payload) \<Longrightarrow>
     length (rp_stream p @ concat bs) + FRAME_BUFFER_SIZE C \<le> rp_BufferSize p \<Longrightarrow>
     \<exists>q. receive_times C (Suc (length bs)) p w =
         Some (replicate (length bs) MQTTReceiveContinue @ [basic_checks t f (length payload)], q, w') \<and>
       rp_wf C q \<and> rp_ready q \<and> rp_Type q = t \<and> rp_Flags q = f \<and> rp_RemainingLength q = length payload \<and>
       rp_rest q = payload \<and> drop (rp_OutPtr q + length payload) (rp_stream q) = rest"
proof (induction bs arbitrary: p w)
  case Nil
  then obtain q where q: "rp_wf C q" "rp_Buffer q \<noteq> None" "rp_stream q = mqtt_frame t f payload @ rest"
    "Receive C p w = map_option (\<lambda>(s, q). (s, q, w')) (parse_buffer q)"
    using receive_piece [OF assms(1) Nil.prems(1,2), of w b w'] by (auto split: prod.splits)
  then obtain buf where "rp_Buffer q = Some buf" by auto
  from parse_frame [OF q(1) this f small q(3)] q(4) show ?case by auto
next
  case (Cons c bs)
  let ?F = "mqtt_frame t f payload"
  obtain w1 where w1: "sock_Receive C (FRAME_BUFFER_SIZE C) True w = ((int (length c), c), w1)"
    "delivers C w1 (bs @ [b]) w'"
    using Cons.prems(3) by (auto split: prod.splits)
  obtain q where q: "rp_wf C q" "rp_Buffer q \<noteq> None" "rp_stream q = rp_stream p @ c"
    "rp_BufferSize q = rp_BufferSize p" "Receive C p w = map_option (\<lambda>(s, q). (s, q, w1)) (parse_buffer q)"
    using receive_piece [OF assms(1) Cons.prems(1,2) _ w1(1)] Cons.prems(6) by auto
  obtain buf where buf: "rp_Buffer q = Some buf" using q(2) by auto
  have k: "length (rp_stream q) < length ?F" using Cons.prems(5) q(3) by simp
  have "rp_stream q = take (length (rp_stream q)) (rp_stream q @ concat bs @ b)" by simp
  also have "rp_stream q @ concat bs @ b = ?F @ rest" using Cons.prems(4) q(3) by simp
  finally have pre: "rp_stream q = take (length (rp_stream q)) ?F" using k by simp
  obtain q' where q': "parse_buffer q = Some (MQTTReceiveContinue, q')" "rp_wf C q'"
    "rp_Buffer q' = Some buf" "rp_stream q' = rp_stream q"
    using parse_prefix [OF q(1) buf small pre k] by blast
  have size: "rp_BufferSize q' = rp_BufferSize p"
    using q'(2,3) q(1,4) buf by (simp add: rp_wf_def)
  obtain r where "receive_times C (Suc (length bs)) q' w1 =
      Some (replicate (length bs) MQTTReceiveContinue @ [basic_checks t f (length payload)], r, w')"
    "rp_wf C r" "rp_ready r" "rp_Type r = t" "rp_Flags r = f" "rp_RemainingLength r = length payload"
    "rp_rest r = payload" "drop (rp_OutPtr r + length payload) (rp_stream r) = rest"
    using Cons.IH [OF q'(2) _ w1(2)] Cons.prems(4-6) q'(3,4) q(3) size by auto
  then show ?case
    using q(5) q'(1) by (intro exI [of _ r]) (simp del: receive_times.simps(2) add: receive_times.simps(2) [of _ "Suc _"])
qed

text \<open>
  C3. Fragmentation does not matter: a frame with valid control byte and length below \<open>2 ^ 28\<close>,
  cut into any pieces and followed by any further bytes, is recognised with the piece that
  completes it. Every earlier receive reports \<open>MQTTReceiveContinue\<close>; the last one reports the
  result of the basic checks, with the type, flags, length and payload that were sent, and the
  further bytes are still in the stream.
\<close>

theorem receive_fragmented:
  assumes "circle_contract C" "rp_wf C p" "rp_Buffer p \<noteq> None" "rp_stream p = []"
    and "f \<le> 0x0F" "length payload < 2 ^ 28" "delivers C w (bs @ [b]) w'"
    and "concat bs @ b = mqtt_frame t f payload @ rest"
    and "length (concat bs) < length (mqtt_frame t f payload)"
    and "length (concat bs) + FRAME_BUFFER_SIZE C \<le> rp_BufferSize p"
  shows "\<exists>q. receive_times C (Suc (length bs)) p w =
       Some (replicate (length bs) MQTTReceiveContinue @ [basic_checks t f (length payload)], q, w') \<and>
     rp_Type q = t \<and> rp_Flags q = f \<and> rp_RemainingLength q = length payload \<and>
     rp_rest q = payload \<and> drop (rp_OutPtr q + length payload) (rp_stream q) = rest"
  using receive_pieces [OF assms(1,5,6,2,3,7)] assms(4,8-10) by auto

theorem receive_fragmented_witness:
  "\<exists>q. receive_times (script_circle (Suc 15)) 2 script_rp
       \<lparr>rx_frames = [[0x40, 2], [0, 7, 0xD0]], tx_frames = [], clock = 0, peer_open = True\<rparr> =
       Some ([MQTTReceiveContinue, MQTTReceivePacketOK], q,
         \<lparr>rx_frames = [], tx_frames = [], clock = 0, peer_open = True\<rparr>) \<and>
     rp_Type q = MQTTPubAck \<and> rp_rest q = [0, 7]"
proof -
  let ?w = "\<lambda>fs. \<lparr>rx_frames = fs, tx_frames = [], clock = 0, peer_open = True\<rparr>"
  have d: "delivers (script_circle (Suc 15)) (?w [[0x40, 2], [0, 7, 0xD0]]) ([[0x40, 2]] @ [[0, 7, 0xD0]]) (?w [])"
    by (simp add: script_circle_def)
  have e: "enc_len (Suc (Suc 0)) = [2]" by (subst enc_len.simps) simp
  have fr: "mqtt_frame MQTTPubAck 0 [0, 7] = [0x40, 2, 0, 7]"
    by (simp add: mqtt_frame_def e control_byte_def)
  have "basic_checks MQTTPubAck 0 2 = MQTTReceivePacketOK" by (simp add: basic_checks_def)
  moreover have "rp_Buffer script_rp \<noteq> None" "rp_stream script_rp = []" "rp_BufferSize script_rp = 64"
    "FRAME_BUFFER_SIZE (script_circle (Suc 15)) = 16"
    by (simp_all add: script_rp_def rp_stream_def script_circle_def)
  moreover have "length [0, 7 :: u8] < 2 ^ 28" by simp
  note receive_fragmented [OF script_net.circle_contract_axioms script_rp_wf _ _ _ this d,
      of 0 MQTTPubAck "[0xD0]"]
  ultimately show ?thesis by (auto simp: fr numeral_2_eq_2)
qed

end
