(* ===== verification/Mqtt_Client_Props.thy ===== *)
theory Mqtt_Client_Props
  imports Mqtt_Exchange Mqtt_Packet_Props
begin

text \<open>
  The properties of \<open>CMQTTClient\<close>: invariant over all reachable states, termination of its
  loops, delivery, keep-alive, retransmission and the malformed packets it does not survive.
\<close>

subsection \<open>Reachable states\<close>

text \<open>
  The states an application can bring the client into: construction with sizes below the bounds,
  the calls of the interface with arguments that meet their assertions, and turns of the main
  loop, in any order and with any behaviour of the world in between.
\<close>

inductive client_reach ::
  "('w, 'q, 'e, 's, 'f) mqtt_env \<Rightarrow> 'q \<Rightarrow> 's \<Rightarrow> ('q, 's) mqtt_client \<Rightarrow> bool" for E q0 s0 where
  created: "128 \<le> n \<Longrightarrow> n \<le> 2 ^ 21 \<Longrightarrow> 1 \<le> k \<Longrightarrow> n * k + FRAME_BUFFER_SIZE E < 2 ^ 31 \<Longrightarrow>
    CMQTTClient_new E mem q0 s0 n k t w = Some (c, w') \<Longrightarrow> client_reach E q0 s0 c"
| connected: "client_reach E q0 s0 c \<Longrightarrow> mc_ConnectStatus c = MQTTStatusDisconnected \<Longrightarrow>
    connect_args_ok a \<Longrightarrow> Connect E a c w = Some (c', w') \<Longrightarrow> client_reach E q0 s0 c'"
| disconnected: "client_reach E q0 s0 c \<Longrightarrow> Disconnect E force c w = Some (c', w') \<Longrightarrow>
    client_reach E q0 s0 c'"
| subscribed: "client_reach E q0 s0 c \<Longrightarrow> k \<le> MQTT_QOS_EXACTLY_ONCE \<Longrightarrow> fits_memory topic \<Longrightarrow>
    Subscribe E topic k c w = Some (c', w') \<Longrightarrow> client_reach E q0 s0 c'"
| unsubscribed: "client_reach E q0 s0 c \<Longrightarrow> fits_memory topic \<Longrightarrow>
    Unsubscribe E topic c w = Some (c', w') \<Longrightarrow> client_reach E q0 s0 c'"
| published: "client_reach E q0 s0 c \<Longrightarrow> k \<le> MQTT_QOS_EXACTLY_ONCE \<Longrightarrow> fits_memory topic \<Longrightarrow>
    fits_memory payload \<Longrightarrow> Publish E topic payload k retain c w = Some (c', w') \<Longrightarrow>
    client_reach E q0 s0 c'"
| turned: "client_reach E q0 s0 c \<Longrightarrow> Run_step E c w = Some (Some (c', w')) \<Longrightarrow> client_reach E q0 s0 c'"

context mqtt_client_quiet
begin

lemma client_reach_inv:
  assumes "client_reach E q0 s0 c" "ptrs_of qel q0 = []" "ptrs_of sel s0 = []"
  shows "mc_inv E qel sel c"
  using assms(1)
proof (induction rule: client_reach.induct)
  case (created n k mem t w c w')
  with CMQTTClient_new_inv [OF created(1-4) assms(2,3), of mem t w] show ?case by auto
next
  case (connected c a w c' w')
  obtain ip w1 where dns: "dns_Resolve E (ca_Host a) w = (ip, w1)" by (metis surj_pair)
  from Connect_inv [OF connected.IH connected.hyps(3,2) dns] connected.hyps(4) show ?case by (auto split: if_splits)
next
  case (disconnected c force w c' w')
  with Disconnect_inv [OF disconnected.IH, of force w] show ?case by auto
next
  case (subscribed c k topic w c' w')
  with Subscribe_inv [OF subscribed.IH subscribed.hyps(2,3), of w] show ?case by auto
next
  case (unsubscribed c topic w c' w')
  with Unsubscribe_inv [OF unsubscribed.IH unsubscribed.hyps(2), of w] show ?case by auto
next
  case (published c k topic payload retain w c' w')
  with Publish_inv [OF published.IH published.hyps(2-4), of retain w] show ?case by auto
next
  case (turned c w c' w')
  with Run_step_ends [OF turned.IH, of w] show ?case by auto
qed

end

text \<open>
  C5. In every reachable state of the client: a socket is held exactly while the client is not
  disconnected; a disconnected client holds no queued packet and no packet identifier; the next
  identifier of an open client is not 0; the client waits for a PINGRESP only with its timer
  running and a keep-alive period set; and every queued packet is a well-formed PUBLISH,
  SUBSCRIBE, UNSUBSCRIBE or PUBREL.
\<close>

theorem client_invariant:
  assumes env: "mqtt_client_quiet E qel sel pending" and "ptrs_of qel q0 = []" "ptrs_of sel s0 = []"
    and reach: "client_reach E q0 s0 c"
  shows "mc_Socket c = (mc_ConnectStatus c \<noteq> MQTTStatusDisconnected) \<and>
     (mc_ConnectStatus c = MQTTStatusDisconnected \<longrightarrow>
        ptrs_of qel (mc_RetransmissionQueue c) = [] \<and> ptrs_of sel (mc_PacketIdentifierStore c) = []) \<and>
     (mc_ConnectStatus c \<noteq> MQTTStatusDisconnected \<longrightarrow> mc_NextPacketIdentifier c \<noteq> 0) \<and>
     (mc_ConnectStatus c = MQTTStatusWaitForPingResp \<longrightarrow> mc_TimerRunning c \<and> 0 < mc_KeepAliveSeconds c) \<and>
     (\<forall>p \<in> set (ptrs_of qel (mc_RetransmissionQueue c)). sp_wf p \<and>
        sp_Type p \<in> {MQTTPublish, MQTTSubscribe, MQTTUnsubscribe, MQTTPubRel})"
  using mqtt_client_quiet.client_reach_inv [OF env reach assms(2,3)]
  by (auto simp: mc_inv_def queueable_def pkt_ok_def)

text \<open>
  C10. No call of the interface fails an assertion in a reachable state: \<open>Disconnect\<close>,
  \<open>Subscribe\<close>, \<open>Unsubscribe\<close> and \<open>Publish\<close> with valid arguments always return, and after
  \<open>Disconnect\<close> the client is disconnected. \<open>Connect\<close> of a disconnected client returns with one exception,
  exactly: with SSL, when the host is resolved and the certificates are read, \<open>Setup\<close> is called without the
  personalization string and reads address 0, which fails on a machine where it is not readable.
\<close>

theorem client_calls_return:
  assumes env: "mqtt_client_quiet E qel sel pending" and "ptrs_of qel q0 = []" "ptrs_of sel s0 = []"
    and reach: "client_reach E q0 s0 c"
    and args: "k \<le> MQTT_QOS_EXACTLY_ONCE" "fits_memory topic" "fits_memory payload" "connect_args_ok a"
  shows "Subscribe E topic k c w \<noteq> None \<and> Unsubscribe E topic c w \<noteq> None \<and>
     Publish E topic payload k retain c w \<noteq> None \<and>
     (mc_ConnectStatus c = MQTTStatusDisconnected \<longrightarrow>
       (Connect E a c w = None \<longleftrightarrow> ca_UseSSL a \<and> null_string E = None \<and> mc_TopicBuffer c \<noteq> None \<and>
          (\<exists>ip w1. dns_Resolve E (ca_Host a) w = (Some ip, w1) \<and>
             0 \<le> fst (ssl_AddCertificatePath E (cstr ''/'') (sock_new E True w1))))) \<and>
     (\<exists>c' w'. Disconnect E force c w = Some (c', w') \<and> mc_ConnectStatus c' = MQTTStatusDisconnected)"
proof -
  have e: "mqtt_client_env E qel sel" using env by (rule mqtt_client_quiet.axioms(1))
  have inv: "mc_inv E qel sel c"
    using mqtt_client_quiet.client_reach_inv [OF env reach assms(2,3)] .
  have "Subscribe E topic k c w \<noteq> None"
    using mqtt_client_env.Subscribe_inv [OF e inv args(1,2), of w] by auto
  moreover have "Unsubscribe E topic c w \<noteq> None"
    using mqtt_client_env.Unsubscribe_inv [OF e inv args(2), of w] by auto
  moreover have "Publish E topic payload k retain c w \<noteq> None"
    using mqtt_client_env.Publish_inv [OF e inv args(1-3), of retain w] by auto
  moreover obtain ip w1 where dns: "dns_Resolve E (ca_Host a) w = (ip, w1)" by (metis surj_pair)
  have "mc_ConnectStatus c = MQTTStatusDisconnected \<longrightarrow>
      (Connect E a c w = None \<longleftrightarrow> ca_UseSSL a \<and> null_string E = None \<and> mc_TopicBuffer c \<noteq> None \<and>
         (\<exists>ip w1. dns_Resolve E (ca_Host a) w = (Some ip, w1) \<and>
            0 \<le> fst (ssl_AddCertificatePath E (cstr ''/'') (sock_new E True w1))))"
    using mqtt_client_env.Connect_inv [OF e inv args(4) _ dns]
    by (auto simp: mqtt_client_env.open_connection_None [OF e] dns split: if_splits)
  moreover have "\<exists>c' w'. Disconnect E force c w = Some (c', w') \<and> mc_ConnectStatus c' = MQTTStatusDisconnected"
    using mqtt_client_env.Disconnect_inv [OF e inv, of force w] by auto
  ultimately show ?thesis by blast
qed

text \<open>A client in the scripted environment, as the constructor leaves it and after connecting.\<close>

definition script_mem :: "(mqtt_send_packet numbered, u16 numbered) mqtt_client" where
  "script_mem = \<lparr>mc_MaxPacketSize = 0, mc_MaxTopicSize = 0, mc_TopicBuffer = None, mc_Socket = True,
     mc_ConnectStatus = MQTTStatusUnknown, mc_KeepAliveSeconds = 0, mc_TimerRunning = True,
     mc_TimerElapsesAt = 7, mc_NextPacketIdentifier = 0, mc_ReceivePacket = script_rp,
     mc_RetransmissionQueue = [], mc_PacketIdentifierStore = [], mc_Events = []\<rparr>"

definition script_world :: "u8 list list \<Rightarrow> script" where
  "script_world fs = \<lparr>rx_frames = fs, tx_frames = [], clock = 0, peer_open = True\<rparr>"

definition script_new :: "(mqtt_send_packet numbered, u16 numbered) mqtt_client" where
  "script_new = script_mem\<lparr>mc_MaxPacketSize := 1024, mc_MaxTopicSize := 256, mc_TopicBuffer := Some 257,
     mc_Socket := False, mc_ConnectStatus := MQTTStatusDisconnected,
     mc_ReceivePacket := script_rp\<lparr>rp_BufferSize := 4112, rp_Buffer := Some (replicate 4112 0)\<rparr>\<rparr>"

lemma script_new_reached: "client_reach (script_env (Suc 15)) [] [] script_new"
proof -
  have "CMQTTClient_new (script_env (Suc 15)) script_mem [] [] 1024 4 256 (script_world []) =
      Some (script_new, script_world [])"
    by (simp add: CMQTTClient_new_def CMQTTReceivePacket_new_def script_env_def script_circle_def
        script_mem_def script_new_def script_rp_def)
  then show ?thesis
    by (rule created [rotated 4]) (simp_all add: script_env_def script_circle_def)
qed

lemma script_quiet: "mqtt_client_quiet (script_env (Suc k)) num_elems num_elems script_pending"
  by (rule script_client.mqtt_client_quiet_axioms)

lemma script_client_env: "mqtt_client_env (script_env (Suc k)) num_elems num_elems"
  by (rule script_client.mqtt_client_env_axioms)

lemma num_ptrs_Nil [simp]: "ptrs_of num_elems [] = []"
  by (simp add: ptrs_of_def num_elems_def)

theorem client_invariant_witness:
  "mc_Socket script_new = False \<and> mc_ConnectStatus script_new = MQTTStatusDisconnected"
  using client_invariant [OF script_quiet num_ptrs_Nil num_ptrs_Nil script_new_reached]
  by (simp add: script_new_def)

definition plain_args :: connect_args where
  "plain_args = \<lparr>ca_UseSSL = False, ca_Host = cstr ''broker'', ca_Port = 1883,
     ca_ClientIdentifier = Some (cstr ''rpi''), ca_Username = None, ca_Password = None,
     ca_KeepAliveSeconds = 60, ca_CleanSession = True, ca_WillTopic = None, ca_WillQoS = 0,
     ca_WillRetain = False, ca_WillPayload = []\<rparr>"

lemma plain_args_ok: "connect_args_ok plain_args"
  by (simp add: connect_args_ok_def plain_args_def fits_memory_def)

definition ssl_args :: connect_args where
  "ssl_args = plain_args\<lparr>ca_UseSSL := True, ca_Port := 8883\<rparr>"

lemma ssl_args_ok: "connect_args_ok ssl_args"
  by (simp add: connect_args_ok_def ssl_args_def plain_args_def fits_memory_def)

theorem client_calls_return_witness:
  "Connect (script_env (Suc 15)) ssl_args script_new (script_world []) \<noteq> None \<and>
   Publish (script_env (Suc 15)) (cstr ''t'') [1, 2] 1 False script_new (script_world []) \<noteq> None"
proof -
  have "fits_memory (cstr ''t'')" "fits_memory [1, 2 :: u8]" "(1 :: u8) \<le> MQTT_QOS_EXACTLY_ONCE"
    by (simp_all add: fits_memory_def MQTT_QOS_EXACTLY_ONCE_def)
  then show ?thesis
    using client_calls_return [OF script_quiet num_ptrs_Nil num_ptrs_Nil script_new_reached _ _ _ ssl_args_ok,
        of 1 "cstr ''t''" "[1, 2]" "script_world []" False]
    by (simp add: script_new_def script_env_def)
qed

subsection \<open>The loops end\<close>

text \<open>
  C11. A turn of the main loop ends. In every reachable state, on a network that goes quiet, the
  receiver loop, the sender loop and the keep-alive handler return; the invariant holds again
  unless an assertion failed on the way.
\<close>

theorem run_step_terminates:
  assumes env: "mqtt_client_quiet E qel sel pending" and "ptrs_of qel q0 = []" "ptrs_of sel s0 = []"
    and reach: "client_reach E q0 s0 c"
  shows "\<exists>r. Run_step E c w = Some r \<and> (\<forall>c' w'. r = Some (c', w') \<longrightarrow> mc_inv E qel sel c')"
  using mqtt_client_quiet.Run_step_ends [OF env]
    mqtt_client_quiet.client_reach_inv [OF env reach assms(2,3)] by blast

theorem run_step_terminates_witness:
  "\<exists>r. Run_step (script_env (Suc 15)) script_new (script_world [[0xD0, 0], [0x20]]) = Some r"
  using run_step_terminates [OF script_quiet num_ptrs_Nil num_ptrs_Nil script_new_reached] by blast

text \<open>
  The retransmission loop ends even on a network that is never quiet: every resend costs the
  packet one of its tries, so \<open>Sender\<close> returns in every reachable state, without a failed
  assertion and with the invariant kept.
\<close>

theorem sender_terminates:
  assumes env: "mqtt_client_quiet E qel sel pending" and "ptrs_of qel q0 = []" "ptrs_of sel s0 = []"
    and reach: "client_reach E q0 s0 c"
  shows "\<exists>c' w'. Sender E c w = Some (Some (c', w')) \<and> mc_inv E qel sel c'"
  using mqtt_client_env.Sender_inv [OF mqtt_client_quiet.axioms(1) [OF env]]
    mqtt_client_quiet.client_reach_inv [OF env reach assms(2,3)] by blast

theorem sender_terminates_witness:
  "\<exists>c' w'. Sender (script_env (Suc 15)) script_new (script_world []) = Some (Some (c', w'))"
  using sender_terminates [OF script_quiet num_ptrs_Nil num_ptrs_Nil script_new_reached] by blast

text \<open>
  C14. The packets the receiver does not survive, exactly: of all packets that pass the basic
  checks, handling fails an assertion for a PUBLISH with quality of service above 0 whose topic is
  acceptable and followed by fewer than two bytes, and for no other. All others are
  taken off the stream, or the connection is closed.
\<close>

theorem handler_fails_only_on_truncated_publish:
  assumes env: "mqtt_client_env E qel sel" and pkt: "at_packet E qel sel c"
  shows "(handle_packet E c w = None) = truncated_publish (mc_ReceivePacket c) (mc_MaxTopicSize c) \<and>
     (\<forall>c' w'. handle_packet E c w = Some (c', w') \<longrightarrow> mc_inv E qel sel c' \<and>
        (mc_Socket c' \<longrightarrow> length (rp_stream (mc_ReceivePacket c')) <
           length (rp_stream (mc_ReceivePacket c))))"
  using mqtt_client_env.handle_packet_cases [OF env pkt, of w]
  by (auto simp: handled_def split: if_splits)

text \<open>A connected client with the given packet announced.\<close>

definition script_open :: "(mqtt_send_packet numbered, u16 numbered) mqtt_client" where
  "script_open = script_new\<lparr>mc_Socket := True, mc_ConnectStatus := MQTTStatusConnected,
     mc_KeepAliveSeconds := 60, mc_TimerRunning := False, mc_NextPacketIdentifier := 1\<rparr>"

lemma script_open_inv: "mc_inv (script_env (Suc 15)) num_elems num_elems script_open"
  by (simp add: mc_inv_def script_open_def script_new_def script_mem_def script_rp_def rp_wf_def
      script_env_def script_circle_def)

definition announced :: "packet_type \<Rightarrow> u8 \<Rightarrow> u8 list \<Rightarrow> (mqtt_send_packet numbered, u16 numbered) mqtt_client" where
  "announced t f payload = script_open\<lparr>mc_ReceivePacket :=
     \<lparr>rp_BufferSize = 64, rp_Buffer = Some (control_byte t f # of_nat (length payload) # payload @
        replicate (62 - length payload) 0), rp_InPtr = 2 + length payload, rp_OutPtr = 2, rp_Type = t,
      rp_Flags = f, rp_RemainingLength = length payload, rp_BytesConsumed = 0\<rparr>\<rparr>"

lemma announced_at_packet:
  assumes "length payload \<le> 62" "basic_checks t f (length payload) = MQTTReceivePacketOK"
  shows "at_packet (script_env (Suc 15)) num_elems num_elems (announced t f payload)"
  using assms script_open_inv
  by (auto simp: at_packet_def announced_def Let_def rp_ready_def mc_inv_def rp_wf_def script_env_def
      script_circle_def script_open_def)

lemma announced_rest: "rp_rest (mc_ReceivePacket (announced t f payload)) = payload"
  "rp_Flags (mc_ReceivePacket (announced t f payload)) = f"
  by (simp_all add: announced_def rp_rest_def rp_stream_def)

theorem handler_fails_only_on_truncated_publish_witness:
  "handle_packet (script_env (Suc 15)) (announced MQTTPublish 2 [0, 2, 97, 98, 9]) (script_world []) = None"
proof -
  let ?c = "announced MQTTPublish 2 [0, 2, 97, 98, 9]"
  have "basic_checks MQTTPublish 2 (length [0, 2, 97, 98, 9 :: u8]) = MQTTReceivePacketOK"
    by (simp add: basic_checks_def mqtt_flag_defs mqtt_qos_defs Let_def)
  then have "at_packet (script_env (Suc 15)) num_elems num_elems ?c"
    by (intro announced_at_packet) simp_all
  moreover have "rp_Type (mc_ReceivePacket ?c) = MQTTPublish" "rp_Flags (mc_ReceivePacket ?c) = 2"
    "mc_MaxTopicSize ?c = 256"
    by (simp_all add: announced_def script_open_def script_new_def)
  then have "truncated_publish (mc_ReceivePacket ?c) (mc_MaxTopicSize ?c)"
    by (simp add: truncated_publish_def announced_rest be16_def ascii_def mqtt_flag_defs mqtt_qos_defs)
  ultimately show ?thesis
    using handler_fails_only_on_truncated_publish [OF script_client_env, of 15 ?c "script_world []"] by simp
qed

subsection \<open>Delivery\<close>

text \<open>An environment whose heap does not run out and whose peer takes every frame.\<close>

definition reliable :: "('w, 'q, 'e, 's, 'f) mqtt_env \<Rightarrow> bool" where
  "reliable E \<longleftrightarrow> (\<forall>n w. fst (heap_new E n w) \<noteq> None) \<and>
     (\<forall>bs dw w. fst (sock_Send E bs dw w) = int (length bs))"

lemma script_reliable: "reliable (script_env fbs)"
  by (simp add: reliable_def script_env_def script_circle_def)

lemma reliable_ack:
  assumes "reliable E" "circle_contract E" "ack_packet E t i w = Some (p, w')"
  shows "pkt_ok p" "\<not> sp_Error p" "sp_SendTries p = MQTT_SEND_TRIES" "sp_Type p = t"
proof -
  obtain p0 w0 where n: "new_packet E t 128 w = Some (p0, w0)"
    using assms(3) by (auto simp: ack_packet_def Option.bind_eq_Some_conv)
  obtain b w1 where h: "heap_new E 128 w = (b, w1)" by (cases "heap_new E 128 w")
  then have "b \<noteq> None" using assms(1) unfolding reliable_def by (metis fst_conv)
  have p0: "pkt_ok p0" "sp_Type p0 = t" "sp_BufPtr p0 = 5" "sp_SendTries p0 = MQTT_SEND_TRIES"
    "sp_MaxPacketSize p0 = 128"
    using new_packet_ok [OF assms(2), of 128 t w] n by auto
  have "\<not> sp_Error p0" using n h \<open>b \<noteq> None\<close> by (auto simp: new_packet_def CMQTTSendPacket_new_def)
  moreover have "p = sp_put p0 [hi8 i, lo8 i]"
    using assms(3) n append_ok(2) [OF p0(1)] by (simp add: ack_packet_def)
  ultimately show "pkt_ok p" "\<not> sp_Error p" "sp_SendTries p = MQTT_SEND_TRIES" "sp_Type p = t"
    using p0 pkt_ok_put(1) [OF p0(1), of "[hi8 i, lo8 i]"] by (simp_all add: sp_put_def sp_room_def)
qed

lemma reliable_send:
  assumes "reliable E" "pkt_ok p" "\<not> sp_Error p" "0 < sp_SendTries p" "sp_Type p \<in> app_types"
    "mc_inv E qel sel c" "mc_ConnectStatus c \<noteq> MQTTStatusDisconnected"
  shows "\<exists>p' c' w'. SendPacket E p c w = Some (True, p', c', w')"
proof -
  obtain r w1 where s: "sock_Send E (sp_frame p) True w = (r, w1)"
    by (cases "sock_Send E (sp_frame p) True w")
  have r: "r = int (length (sp_frame p))"
    using assms(1) s unfolding reliable_def by (metis fst_conv)
  obtain q where q: "Send E p w = Some (True, q, w1)" "sp_same p q"
    using Send_step [OF _ assms(3,4) _ s] assms(2) pkt_ok_small [OF assms(2,3)] r by (auto simp: pkt_ok_def)
  have "mc_Socket c" using assms(6,7) by (simp add: mc_inv_def)
  with SendPacket_app_eq [OF q(1) _ this assms(7)] assms(5) sp_sameD(1) [OF q(2)] show ?thesis
    by (cases "start_timer E (of_nat (mc_KeepAliveSeconds c * HZ E)) c w1") auto
qed

context mqtt_client_env
begin

text \<open>On a reliable environment handling a message does not cost the connection.\<close>

lemma branch_keeps_open:
  assumes rel: "reliable E" and inv: "mc_inv E qel sel c" and sock: "mc_Socket c"
    and k: "k \<le> MQTT_QOS_EXACTLY_ONCE"
    and r: "publish_branch E k i topic pl n rt c w = Some (c', w')"
  shows "mc_Socket c'"
proof -
  have live: "mc_ConnectStatus c \<noteq> MQTTStatusDisconnected" using inv sock by (simp add: mc_inv_def)
  have send: "\<exists>p' c1 w2. SendPacket E p c w1 = Some (True, p', c1, w2) \<and> mc_Socket c1"
    if "ack_packet E t i w = Some (p, w1)" "t \<in> {MQTTPubAck, MQTTPubRec}" for t p w1
  proof -
    note a = reliable_ack [OF rel circle_contract_axioms that(1)]
    have ty: "sp_Type p \<in> app_types" using a(4) that(2) by (auto simp: app_types_def)
    obtain p' c1 w2 where s: "SendPacket E p c w1 = Some (True, p', c1, w2)"
      using reliable_send [OF rel a(1,2) _ ty inv live, of w1] a(3) by (auto simp: MQTT_SEND_TRIES_def)
    then have "timer_only c c1" using SendPacket_app [OF a(1) ty inv, of w1] by auto
    with s timer_onlyD(6) sock show ?thesis by fastforce
  qed
  have cp: "complete_packet d = Some e \<Longrightarrow> mc_Socket e = mc_Socket d" for d e :: "('q, 's) mqtt_client"
    by (auto simp: complete_packet_def Option.bind_eq_Some_conv)
  from qos_cases [OF k] r sock show ?thesis
    by (auto simp: publish_branch_def deliver_def mqtt_qos_defs Let_def Option.bind_eq_Some_conv
        split: if_splits dest!: cp dest: send)
qed

end

context mqtt_client_env
begin

lemma branch_delivers:
  assumes inv: "mc_inv E qel sel c" and rdy: "rp_ready (mc_ReceivePacket c)"
    "2 \<le> rp_OutPtr (mc_ReceivePacket c)" and qos: "k \<le> MQTT_QOS_EXACTLY_ONCE"
  shows "\<exists>c' w'. publish_branch E k i topic pl n rt c w = Some (c', w') \<and>
     (mc_Socket c' \<longrightarrow> mc_Events c' = mc_Events c @
        (if k = MQTT_QOS_EXACTLY_ONCE \<and> i \<in> set (ptrs_of sel (mc_PacketIdentifierStore c)) then []
         else [OnMessage topic pl n rt]) \<and>
      rp_stream (mc_ReceivePacket c') = drop (rp_OutPtr (mc_ReceivePacket c)) (rp_stream (mc_ReceivePacket c)))"
    (is "\<exists>c' w'. _ = _ \<and> ?P c'")
proof -
  let ?e = "OnMessage topic pl n rt"
  have fin: "\<exists>rp. complete_packet d = Some (d\<lparr>mc_ReceivePacket := rp\<rparr>) \<and>
      rp_stream rp = drop (rp_OutPtr (mc_ReceivePacket c)) (rp_stream (mc_ReceivePacket c)) \<and>
      mc_inv E qel sel (d\<lparr>mc_ReceivePacket := rp\<rparr>)"
    if "mc_inv E qel sel d" "mc_ReceivePacket d = mc_ReceivePacket c" for d
    using complete_drop [OF that(1)] that(2) rdy by metis
  have closed: "\<exists>c' w'. (complete_packet d \<bind> (\<lambda>c. CloseConnection E r c w1)) = Some (c', w') \<and> \<not> mc_Socket c'"
    if "mc_inv E qel sel d" "mc_ReceivePacket d = mc_ReceivePacket c" for d r w1
    using fin [OF that] CloseConnection_inv by fastforce
  from qos_cases [OF qos] show ?thesis
  proof (elim disjE)
    assume "k = MQTT_QOS_AT_MOST_ONCE"
    with fin [of "callback ?e c"] inv show ?thesis
      by (auto simp: publish_branch_def deliver_def mc_inv_callback mqtt_qos_defs)
  next
    assume k: "k = MQTT_QOS_AT_LEAST_ONCE"
    obtain p w1 ok p' c1 w2 where a: "ack_packet E MQTTPubAck i w = Some (p, w1)"
      "SendPacket E p c w1 = Some (ok, p', c1, w2)" "mc_inv E qel sel c1" "timer_only c c1"
      by (rule send_ack [OF inv, of MQTTPubAck i w]) simp_all
    note t = timer_onlyD [OF a(4)]
    have eq: "publish_branch E k i topic pl n rt c w =
        (if ok then complete_packet (callback ?e c1) \<bind> (\<lambda>c. Some (c, w2))
         else complete_packet c1 \<bind> (\<lambda>c. CloseConnection E MQTTDisconnectSendFailed c w2))"
      using k a(1,2) by (simp add: publish_branch_def deliver_def mqtt_qos_defs)
    show ?thesis
    proof (cases ok)
      case True
      moreover have "k \<noteq> MQTT_QOS_EXACTLY_ONCE" using k by (simp add: mqtt_qos_defs)
      ultimately show ?thesis
        using fin [of "callback ?e c1"] a(3) t(2,4) unfolding eq by (auto simp: mc_inv_callback)
    next
      case False
      with closed [OF a(3) t(2)] show ?thesis by (fastforce simp: eq)
    qed
  next
    assume k: "k = MQTT_QOS_EXACTLY_ONCE"
    obtain p w1 ok p' c1 w2 where a: "ack_packet E MQTTPubRec i w = Some (p, w1)"
      "SendPacket E p c w1 = Some (ok, p', c1, w2)" "mc_inv E qel sel c1" "timer_only c c1"
      "ok \<longrightarrow> mc_ConnectStatus c \<noteq> MQTTStatusDisconnected"
      by (rule send_ack [OF inv, of MQTTPubRec i w]) simp_all
    note t = timer_onlyD [OF a(4)]
    let ?d = "if i \<in> set (ptrs_of sel (mc_PacketIdentifierStore c)) then c1
      else callback ?e (c1\<lparr>mc_PacketIdentifierStore := InsertPacketIdentifierIntoStore (env_S E)
        (mc_PacketIdentifierStore c1) i\<rparr>)"
    have eq: "publish_branch E k i topic pl n rt c w =
        (if ok then complete_packet ?d \<bind> (\<lambda>c. Some (c, w2))
         else complete_packet c1 \<bind> (\<lambda>c. CloseConnection E MQTTDisconnectSendFailed c w2))"
      using k a(1,2) t(5) store.store_member [of "mc_PacketIdentifierStore c" i]
      by (simp add: publish_branch_def deliver_def mqtt_qos_defs)
    show ?thesis
    proof (cases ok)
      case True
      then have "mc_inv E qel sel ?d" "mc_ReceivePacket ?d = mc_ReceivePacket c"
        using a(3,5) t(1,2) mc_inv_store [OF a(3)] by (simp_all add: mc_inv_callback)
      from fin [OF this] True k t(4) show ?thesis unfolding eq by (auto split: if_splits)
    next
      case False
      with closed [OF a(3) t(2)] show ?thesis by (fastforce simp: eq)
    qed
  qed
qed

end

text \<open>A packet published in the scripted environment, and a client that has received the bytes.\<close>

definition with_stream :: "u8 list \<Rightarrow> (mqtt_send_packet numbered, u16 numbered) mqtt_client" where
  "with_stream bs = script_open\<lparr>mc_ReceivePacket := script_rp\<lparr>rp_Buffer := Some (bs @ replicate (64 - length bs) 0),
     rp_InPtr := length bs\<rparr>\<rparr>"

lemma with_stream_inv:
  "length bs \<le> 64 \<Longrightarrow> mc_inv (script_env (Suc 15)) num_elems num_elems (with_stream bs)"
  using script_open_inv
  by (auto simp: mc_inv_def with_stream_def script_rp_def rp_wf_def script_env_def script_circle_def script_open_def)

lemma with_stream_stream: "rp_stream (mc_ReceivePacket (with_stream bs)) = bs"
  "rp_Buffer (mc_ReceivePacket (with_stream bs)) \<noteq> None" "mc_MaxTopicSize (with_stream bs) = 256"
  "mc_TopicBuffer (with_stream bs) \<noteq> None" "mc_Events (with_stream bs) = []" "mc_Socket (with_stream bs)" "ptrs_of num_elems (mc_PacketIdentifierStore (with_stream bs)) = []"
  by (simp_all add: with_stream_def rp_stream_def script_open_def script_new_def script_mem_def)

lemma script_publish:
  "\<exists>p w'. publish_packet (script_env (Suc 15)) 128 [97, 98] [5, 6] k False 7 (script_world []) = Some (p, w') \<and>
     \<not> sp_Error p" if "k \<in> {0, 1, 2}"
  using that
  by (auto simp: publish_packet_def new_packet_def CMQTTSendPacket_new_def script_env_def script_circle_def
      SetFlags_def AppendString_def AppendWord_def AppendData_def store_byte_def store_block_def
      MAX_LENGTH_FIXED_HEADER_def zero_packet_def publish_flags_def mqtt_flag_defs put_at_def put_block_def Let_def)

lemma script_publish_frame:
  assumes "publish_packet (script_env (Suc 15)) 128 [97, 98] [5, 6] k False 7 w = Some (p, w')" "\<not> sp_Error p"
    "k \<in> {0, 1, 2}"
  shows "sp_frame p = [0x30 OR push_bit 1 k, 8, 0, 2, 97, 98, 0, 7, 5, 6]"
proof -
  have k: "k \<le> MQTT_QOS_EXACTLY_ONCE" using assms(3) by (auto simp: mqtt_qos_defs)
  have f: "fits_memory [97, 98 :: u8]" "fits_memory [5, 6 :: u8]" by (simp_all add: fits_memory_def)
  note pk = publish_packet_payload [OF script_contract, of 128 k "[97, 98]" "[5, 6]", OF _ _ k f assms(1,2)]
  have e: "enc_len (length [0, 2, 97, 98, 0, 7, 5, 6 :: u8]) = [8]" by (subst enc_len.simps) simp
  have b: "mqtt_string [97, 98] @ [hi8 7, lo8 7] @ [5, 6] = [0, 2, 97, 98, 0, 7, 5, 6]"
    by (simp add: mqtt_string_def hi8_def lo8_def)
  show ?thesis
    using assms(3) pk(2-4) b e
    by (auto simp: sp_frame_def publish_flags_def control_byte_def mqtt_flag_defs)
qed

text \<open>
  C6. What one client publishes another one delivers. Take the PUBLISH packet that
  \<open>CMQTTClient::Publish\<close> builds for a topic and payload with quality of service 1 or 2 and
  a non-zero identifier. When its frame arrives at a client with its two buffers (followed by
  anything) and the topic fits into the buffer for topics, the packet is announced as valid and handling it returns; if the connection survives, as it does in a reliable
  environment, the application gets the same topic, payload and retain flag, once (not at all if the identifier is held as a
  retransmission of quality 2), and the stream continues behind the frame.
\<close>

theorem publish_delivered:
  assumes sender: "circle_contract E1" "128 \<le> n" "n \<le> 2 ^ 21" "k \<in> {MQTT_QOS_AT_LEAST_ONCE, MQTT_QOS_EXACTLY_ONCE}"
      "fits_memory topic" "fits_memory payload" "i \<noteq> 0"
      "publish_packet E1 n topic payload k retain i w = Some (p, w')" "\<not> sp_Error p"
    and topic: "topic \<noteq> []" "ascii topic" "length topic < wrap32 (mc_MaxTopicSize c + 1)" "length topic < 2 ^ 16"
    and receiver: "mqtt_client_env E qel sel" "mc_inv E qel sel c" "rp_Buffer (mc_ReceivePacket c) \<noteq> None"
      "rp_stream (mc_ReceivePacket c) = sp_frame p @ rest" "mc_TopicBuffer c \<noteq> None"
  shows "\<exists>q c' w''. parse_buffer (mc_ReceivePacket c) = Some (MQTTReceivePacketOK, q) \<and>
     handle_packet E (c\<lparr>mc_ReceivePacket := q\<rparr>) v = Some (c', w'') \<and>
     (mc_Socket c' \<longrightarrow> mc_Events c' = mc_Events c @
        (if k = MQTT_QOS_EXACTLY_ONCE \<and> i \<in> set (ptrs_of sel (mc_PacketIdentifierStore c)) then []
         else [OnMessage topic (Some payload) (length payload) retain]) \<and>
      rp_stream (mc_ReceivePacket c') = rest) \<and>
     (reliable E \<and> mc_Socket c \<longrightarrow> mc_Socket c')"
proof -
  have k: "k \<le> MQTT_QOS_EXACTLY_ONCE" "k \<noteq> MQTT_QOS_AT_MOST_ONCE"
    using sender(4) by (auto simp: mqtt_qos_defs)
  note pk = publish_packet_payload [OF sender(1-3) k(1) sender(5,6,8,9)]
  have body: "sp_payload p = publish_body topic i payload" using pk(4) by (simp add: publish_body_def)
  have small: "length (publish_body topic i payload) < 2 ^ 28"
    using pkt_ok_small [OF pk(1) sender(9)] body by simp
  have fr: "rp_stream (mc_ReceivePacket c) =
      mqtt_frame MQTTPublish (publish_flags k retain) (publish_body topic i payload) @ rest"
    using receiver(4) pk(2,3) body by (simp add: sp_frame_mqtt)
  obtain buf where buf: "rp_Buffer (mc_ReceivePacket c) = Some buf" using receiver(3) by auto
  obtain q where q: "parse_buffer (mc_ReceivePacket c) = Some (MQTTReceivePacketOK, q)" "rp_wf E q"
    "rp_ready (rp_adv q (length (publish_body topic i payload)))"
    "drop (rp_OutPtr q + length (publish_body topic i payload)) (rp_stream q) = rest"
    "handle_packet E (c\<lparr>mc_ReceivePacket := q\<rparr>) v = publish_branch E k i topic (Some payload)
       (length payload) retain (c\<lparr>mc_ReceivePacket := rp_adv q (length (publish_body topic i payload))\<rparr>) v"
    using publish_arrives [OF mc_inv_wf [OF receiver(2)] buf k(1) sender(7) mc_inv_topic_size [OF receiver(2,5)] topic small fr] k(2)
    by auto
  let ?c = "c\<lparr>mc_ReceivePacket := rp_adv q (length (publish_body topic i payload))\<rparr>"
  have inv: "mc_inv E qel sel ?c" using mc_inv_rp [OF receiver(2)] q(2) by simp
  moreover have "rp_ready (mc_ReceivePacket ?c)" using q(3) by simp
  moreover have "2 \<le> rp_OutPtr (mc_ReceivePacket ?c)" by (simp add: publish_body_def)
  ultimately obtain c' w'' where r: "publish_branch E k i topic (Some payload) (length payload) retain ?c v =
      Some (c', w'')"
    and
    "mc_Socket c' \<longrightarrow> mc_Events c' = mc_Events ?c @
        (if k = MQTT_QOS_EXACTLY_ONCE \<and> i \<in> set (ptrs_of sel (mc_PacketIdentifierStore ?c)) then []
         else [OnMessage topic (Some payload) (length payload) retain]) \<and>
      rp_stream (mc_ReceivePacket c') = drop (rp_OutPtr (mc_ReceivePacket ?c)) (rp_stream (mc_ReceivePacket ?c))"
    using mqtt_client_env.branch_delivers [OF receiver(1), of ?c k i topic "Some payload" "length payload" retain v]
      k(1) by blast
  moreover have "reliable E \<and> mc_Socket c \<longrightarrow> mc_Socket c'"
    using mqtt_client_env.branch_keeps_open [OF receiver(1) _ inv _ k(1) r] by simp
  ultimately show ?thesis using q by simp
qed

theorem publish_delivered_witness:
  "\<exists>q c' w''. parse_buffer (mc_ReceivePacket (with_stream [0x32, 8, 0, 2, 97, 98, 0, 7, 5, 6])) =
       Some (MQTTReceivePacketOK, q) \<and>
     handle_packet (script_env (Suc 15)) (with_stream [0x32, 8, 0, 2, 97, 98, 0, 7, 5, 6]\<lparr>mc_ReceivePacket := q\<rparr>)
       (script_world []) = Some (c', w'') \<and>
     mc_Events c' = [OnMessage [97, 98] (Some [5, 6]) (length [5, 6 :: u8]) False]"
proof -
  obtain p w' where p: "publish_packet (script_env (Suc 15)) 128 [97, 98] [5, 6] 1 False 7 (script_world []) =
      Some (p, w')" "\<not> sp_Error p"
    using script_publish [of 1] by auto
  let ?c = "with_stream [0x32, 8, 0, 2, 97, 98, 0, 7, 5, 6]"
  have s: "rp_stream (mc_ReceivePacket ?c) = sp_frame p @ []"
    using script_publish_frame [OF p] with_stream_stream by simp
  have t: "fits_memory [97, 98 :: u8]" "fits_memory [5, 6 :: u8]" "ascii [97, 98]" "(1 :: u8) \<in>
      {MQTT_QOS_AT_LEAST_ONCE, MQTT_QOS_EXACTLY_ONCE}"
    by (simp_all add: fits_memory_def ascii_def mqtt_qos_defs)
  show ?thesis
    using publish_delivered [OF script_contract _ _ t(4) t(1,2) _ p _ t(3) _ _ script_client_env
        with_stream_inv with_stream_stream(2) s, of "script_world []"] script_reliable [of 16]
    by (auto simp: with_stream_stream)
qed

text \<open>
  With quality of service 0 the delivery is not faithful: \<open>Publish\<close> appends the packet
  identifier to every PUBLISH, while a receiver expects it only above quality 0. The application
  on the other side gets a payload with two extra bytes in front.
\<close>

theorem publish_qos0_payload_prefixed:
  assumes sender: "circle_contract E1" "128 \<le> n" "n \<le> 2 ^ 21"
      "fits_memory topic" "fits_memory payload" "i \<noteq> 0"
      "publish_packet E1 n topic payload MQTT_QOS_AT_MOST_ONCE retain i w = Some (p, w')" "\<not> sp_Error p"
    and topic: "topic \<noteq> []" "ascii topic" "length topic < wrap32 (mc_MaxTopicSize c + 1)" "length topic < 2 ^ 16"
    and receiver: "mqtt_client_env E qel sel" "mc_inv E qel sel c" "rp_Buffer (mc_ReceivePacket c) \<noteq> None"
      "rp_stream (mc_ReceivePacket c) = sp_frame p @ rest" "mc_TopicBuffer c \<noteq> None"
  shows "\<exists>q c' w''. parse_buffer (mc_ReceivePacket c) = Some (MQTTReceivePacketOK, q) \<and>
     handle_packet E (c\<lparr>mc_ReceivePacket := q\<rparr>) v = Some (c', w'') \<and>
     (mc_Socket c' \<longrightarrow> mc_Events c' = mc_Events c @
        [OnMessage topic (Some (hi8 i # lo8 i # payload)) (length payload + 2) retain])"
proof -
  let ?k = MQTT_QOS_AT_MOST_ONCE and ?b = "publish_body topic i payload"
  have k: "?k \<le> MQTT_QOS_EXACTLY_ONCE" "?k \<noteq> MQTT_QOS_EXACTLY_ONCE" by (simp_all add: mqtt_qos_defs)
  note pk = publish_packet_payload [OF sender(1-3) k(1) sender(4,5,7,8)]
  have body: "sp_payload p = ?b" using pk(4) by (simp add: publish_body_def)
  have small: "length ?b < 2 ^ 28" using pkt_ok_small [OF pk(1) sender(8)] body by simp
  have fr: "rp_stream (mc_ReceivePacket c) = mqtt_frame MQTTPublish (publish_flags ?k retain) ?b @ rest"
    using receiver(4) pk(2,3) body by (simp add: sp_frame_mqtt)
  obtain buf where buf: "rp_Buffer (mc_ReceivePacket c) = Some buf" using receiver(3) by auto
  obtain q where q: "parse_buffer (mc_ReceivePacket c) = Some (MQTTReceivePacketOK, q)" "rp_wf E q"
    "rp_ready (rp_adv q (length ?b))"
    "handle_packet E (c\<lparr>mc_ReceivePacket := q\<rparr>) v = publish_branch E ?k 0 topic (Some (hi8 i # lo8 i # payload))
       (length payload + 2) retain (c\<lparr>mc_ReceivePacket := rp_adv q (length ?b)\<rparr>) v"
    using publish_arrives [OF mc_inv_wf [OF receiver(2)] buf k(1) sender(6) mc_inv_topic_size [OF receiver(2,5)] topic small fr] by auto
  have "mc_inv E qel sel (c\<lparr>mc_ReceivePacket := rp_adv q (length ?b)\<rparr>)"
    using mc_inv_rp [OF receiver(2)] q(2) by simp
  from mqtt_client_env.branch_delivers [OF receiver(1) this, of ?k 0 topic "Some (hi8 i # lo8 i # payload)"
      "length payload + 2" retain v] q k show ?thesis
    by (fastforce simp: publish_body_def)
qed

theorem publish_qos0_payload_prefixed_witness:
  "\<exists>q c' w''. parse_buffer (mc_ReceivePacket (with_stream [0x30, 8, 0, 2, 97, 98, 0, 7, 5, 6])) =
       Some (MQTTReceivePacketOK, q) \<and>
     handle_packet (script_env (Suc 15)) (with_stream [0x30, 8, 0, 2, 97, 98, 0, 7, 5, 6]\<lparr>mc_ReceivePacket := q\<rparr>)
       (script_world []) = Some (c', w'') \<and>
     (mc_Socket c' \<longrightarrow> mc_Events c' = [OnMessage [97, 98] (Some [0, 7, 5, 6]) (length [0, 7, 5, 6 :: u8]) False])"
proof -
  obtain p w' where p: "publish_packet (script_env (Suc 15)) 128 [97, 98] [5, 6] MQTT_QOS_AT_MOST_ONCE False 7
      (script_world []) = Some (p, w')" "\<not> sp_Error p"
    using script_publish [of 0] by (auto simp: mqtt_qos_defs)
  let ?c = "with_stream [0x30, 8, 0, 2, 97, 98, 0, 7, 5, 6]"
  have s: "rp_stream (mc_ReceivePacket ?c) = sp_frame p @ []"
    using script_publish_frame [OF p] with_stream_stream by (simp add: mqtt_qos_defs)
  have t: "fits_memory [97, 98 :: u8]" "fits_memory [5, 6 :: u8]" "ascii [97, 98]"
    by (simp_all add: fits_memory_def ascii_def)
  have "hi8 7 = 0" "lo8 7 = 7" by (simp_all add: hi8_def lo8_def)
  then show ?thesis
    using publish_qos0_payload_prefixed [OF script_contract _ _ t(1,2) _ p _ t(3) _ _ script_client_env
        with_stream_inv with_stream_stream(2) s, of "script_world []"]
    by (auto simp: with_stream_stream)
qed

subsection \<open>Exactly once\<close>

text \<open>
  C7. The exactly-once receiver refines its abstract machine: over any sequence of valid PUBLISH
  packets of quality 2 and PUBREL packets that the receiver handles with the connection open, the
  identifier store and the calls of \<open>OnMessage\<close> evolve as the machine says.
\<close>

theorem exactly_once_refinement:
  assumes "mqtt_client_env E qel sel" "rx2_run E qel sel c ops c'"
  shows "rx2_abs sel c' = fold rx2_step ops (rx2_abs sel c)"
  using mqtt_client_env.rx2_run_refines [OF assms] .

text \<open>
  C1. Retransmissions are delivered once: if the receiver starts with an empty identifier store and
  handles messages of quality 2 with identifiers in any order and any number of repetitions, and
  none is released in between, the application gets the first message of each identifier,
  once, in the order of arrival.
\<close>

theorem exactly_once_delivery:
  assumes "mqtt_client_env E qel sel" "ptrs_of sel (mc_PacketIdentifierStore c) = []"
    and "rx2_run E qel sel c (map (\<lambda>(i, m). Arrive i m) xs) c'"
  shows "mc_Events c' = mc_Events c @ map snd (AList.clearjunk xs)"
proof -
  have "mc_Events c' = snd (rx2_abs sel c')" by (simp add: rx2_abs_def)
  also have "\<dots> = snd (fold rx2_step (map (\<lambda>(i, m). Arrive i m) xs) ({#}, mc_Events c))"
    using mqtt_client_env.rx2_run_refines [OF assms(1,3)] assms(2) by (simp add: rx2_abs_def)
  finally show ?thesis by (simp add: rx2_arrivals)
qed

text \<open>The maximum topic size never changes, so a run can be continued with the same packets.\<close>

interpretation topic_frame: client_frame E "\<lambda>c w. mc_MaxTopicSize c = n"
  for E :: "('w, 'q, 'e, 's, 'f) mqtt_env" and n
  by unfold_locales
    (auto simp: callback_def CloseConnection_def enqueue_def start_timer_def SendPacket_def Let_def
      res_simps split: if_splits prod.splits)

context mqtt_client_env
begin

lemma rx2_message_step:
  assumes rel: "reliable E" and inv: "mc_inv E qel sel c" and sock: "mc_Socket c"
    and rp: "rp_wf E rp" "rp_ready rp" "rp_BytesConsumed rp = 0" "2 \<le> rp_OutPtr rp"
      "basic_checks MQTTPublish (rp_Flags rp) (rp_RemainingLength rp) = MQTTReceivePacketOK"
    and t: "rp_Type rp = MQTTPublish" "publish_qos rp = MQTT_QOS_EXACTLY_ONCE"
      "publish_fields rp (mc_MaxTopicSize c) = Some (i, m)"
  obtains c' where "mc_inv E qel sel c'" "mc_Socket c'" "mc_MaxTopicSize c' = mc_MaxTopicSize c"
    "\<And>ops c''. rx2_run E qel sel c' ops c'' \<Longrightarrow> rx2_run E qel sel c (Arrive i m # ops) c''"
proof -
  fix w
  let ?c = "c\<lparr>mc_ReceivePacket := rp\<rparr>"
  have pkt: "at_packet E qel sel ?c"
    using mc_inv_rp [OF inv rp(1)] sock rp t by (simp add: at_packet_def Let_def)
  have t': "rp_Type (mc_ReceivePacket ?c) = MQTTPublish" "publish_qos (mc_ReceivePacket ?c) = MQTT_QOS_EXACTLY_ONCE"
    "publish_fields (mc_ReceivePacket ?c) (mc_MaxTopicSize ?c) = Some (i, m)"
    using t by simp_all
  obtain topic pl n rt j where "m = OnMessage topic pl n rt"
    and br: "\<And>w. handle_packet E ?c w = publish_branch E MQTT_QOS_EXACTLY_ONCE i topic pl n rt
       (?c\<lparr>mc_ReceivePacket := rp_adv (mc_ReceivePacket ?c) j\<rparr>) w"
    "mc_inv E qel sel (?c\<lparr>mc_ReceivePacket := rp_adv (mc_ReceivePacket ?c) j\<rparr>)"
    "rp_ready (rp_adv (mc_ReceivePacket ?c) j)"
    by (rule publish_fields_branch [OF pkt t']) (rule that)
  let ?d = "?c\<lparr>mc_ReceivePacket := rp_adv (mc_ReceivePacket ?c) j\<rparr>"
  have q: "MQTT_QOS_EXACTLY_ONCE \<le> MQTT_QOS_EXACTLY_ONCE" by simp
  obtain c' w' where r: "handle_packet E ?c w = Some (c', w')"
    using branch_delivers [OF br(2) _ _ q, of i topic pl n rt w] br(1,3) rp(4) by auto
  have open': "mc_Socket c'"
    using branch_keeps_open [OF rel br(2) _ q, of i topic pl n rt w c' w'] r br(1) sock by simp
  have "mc_inv E qel sel c'"
    using handle_packet_cases [OF pkt, of w] r by (auto simp: handled_def split: if_splits)
  moreover have "mc_MaxTopicSize c' = mc_MaxTopicSize c"
    using topic_frame.frame_packet [of ?c "mc_MaxTopicSize c" E w c' w'] r by simp
  ultimately show thesis
    using that [of c'] open' message [OF pkt t(1,2,3) r open'] by blast
qed

end

lemma script_message:
  fixes c :: "(mqtt_send_packet numbered, u16 numbered) mqtt_client"
  assumes "mc_inv (script_env (Suc 15)) num_elems num_elems c" "mc_Socket c" "mc_MaxTopicSize c = 256"
  obtains c' where "mc_inv (script_env (Suc 15)) num_elems num_elems c'" "mc_Socket c'" "mc_MaxTopicSize c' = 256"
    "\<And>ops c''. rx2_run (script_env (Suc 15)) num_elems num_elems c' ops c'' \<Longrightarrow>
       rx2_run (script_env (Suc 15)) num_elems num_elems c (Arrive 7 (OnMessage [97] (Some [5]) 1 False) # ops) c''"
proof -
  let ?rp = "mc_ReceivePacket (announced MQTTPublish 4 [0, 1, 97, 0, 7, 5])"
  have f: "publish_fields ?rp 256 = Some (7, OnMessage [97] (Some [5]) 1 False)"
    by (simp add: publish_fields_def announced_rest be16_def ascii_def publish_retain_def mqtt_flag_defs)
  have "basic_checks MQTTPublish 4 (length [0, 1, 97, 0, 7, 5 :: u8]) = MQTTReceivePacketOK"
    by (simp add: basic_checks_def mqtt_flag_defs mqtt_qos_defs Let_def)
  then have a: "at_packet (script_env (Suc 15)) num_elems num_elems (announced MQTTPublish 4 [0, 1, 97, 0, 7, 5])"
    by (intro announced_at_packet) simp_all
  have r: "rp_wf (script_env (Suc 15)) ?rp" "rp_ready ?rp" "rp_BytesConsumed ?rp = 0" "2 \<le> rp_OutPtr ?rp"
    "basic_checks MQTTPublish (rp_Flags ?rp) (rp_RemainingLength ?rp) = MQTTReceivePacketOK"
    "rp_Type ?rp = MQTTPublish" "publish_qos ?rp = MQTT_QOS_EXACTLY_ONCE"
    using a by (auto simp: at_packet_def Let_def announced_def publish_qos_def mqtt_flag_defs mqtt_qos_defs
        dest: mc_inv_wf)
  from script_client.rx2_message_step [OF script_reliable assms(1,2) r f [folded assms(3)]] assms(3) that
  show thesis by metis
qed

lemma script_run_twice:
  "\<exists>c'. rx2_run (script_env (Suc 15)) num_elems num_elems script_open
     (map (\<lambda>(i, m). Arrive i m) [(7, OnMessage [97] (Some [5]) 1 False), (7, OnMessage [97] (Some [5]) 1 False)]) c'"
proof -
  have o: "mc_Socket script_open" "mc_MaxTopicSize script_open = 256"
    by (simp_all add: script_open_def script_new_def)
  let ?a = "Arrive 7 (OnMessage [97] (Some [5]) 1 False)"
  obtain c1 where c1: "mc_inv (script_env (Suc 15)) num_elems num_elems c1" "mc_Socket c1" "mc_MaxTopicSize c1 = 256"
    "\<And>ops c''. rx2_run (script_env (Suc 15)) num_elems num_elems c1 ops c'' \<Longrightarrow>
       rx2_run (script_env (Suc 15)) num_elems num_elems script_open (?a # ops) c''"
    by (rule script_message [OF script_open_inv o]) (rule that)
  obtain c2 where c2: "\<And>ops c''. rx2_run (script_env (Suc 15)) num_elems num_elems c2 ops c'' \<Longrightarrow>
       rx2_run (script_env (Suc 15)) num_elems num_elems c1 (?a # ops) c''"
    by (rule script_message [OF c1(1-3)]) (rule that)
  have "rx2_run (script_env (Suc 15)) num_elems num_elems script_open [?a, ?a] c2"
    by (intro c1(4) c2 finished)
  then show ?thesis by auto
qed

theorem exactly_once_refinement_witness:
  "\<exists>c'. snd (rx2_abs num_elems c') = [OnMessage [97] (Some [5]) 1 False] \<and>
     rx2_run (script_env (Suc 15)) num_elems num_elems script_open
       [Arrive 7 (OnMessage [97] (Some [5]) 1 False), Arrive 7 (OnMessage [97] (Some [5]) 1 False)] c'"
proof -
  obtain c' where c': "rx2_run (script_env (Suc 15)) num_elems num_elems script_open
       [Arrive 7 (OnMessage [97] (Some [5]) 1 False), Arrive 7 (OnMessage [97] (Some [5]) 1 False)] c'"
    using script_run_twice by auto
  have "rx2_abs num_elems script_open = ({#}, [])"
    by (simp add: rx2_abs_def script_open_def script_new_def script_mem_def)
  with exactly_once_refinement [OF script_client_env c']
  have "snd (rx2_abs num_elems c') = [OnMessage [97] (Some [5]) 1 False]" by simp
  with c' show ?thesis by blast
qed

theorem exactly_once_delivery_witness:
  "\<exists>c'. mc_Events c' = [OnMessage [97] (Some [5]) 1 False] \<and>
     rx2_run (script_env (Suc 15)) num_elems num_elems script_open (map (\<lambda>(i, m). Arrive i m)
       [(7, OnMessage [97] (Some [5]) 1 False), (7, OnMessage [97] (Some [5]) 1 False)]) c'"
proof -
  obtain c' where c': "rx2_run (script_env (Suc 15)) num_elems num_elems script_open (map (\<lambda>(i, m). Arrive i m)
       [(7, OnMessage [97] (Some [5]) 1 False), (7, OnMessage [97] (Some [5]) 1 False)]) c'"
    using script_run_twice by blast
  have "ptrs_of num_elems (mc_PacketIdentifierStore script_open) = []" "mc_Events script_open = []"
    by (simp_all add: script_open_def script_new_def script_mem_def)
  with exactly_once_delivery [OF script_client_env _ c']
  have "mc_Events c' = [OnMessage [97] (Some [5]) 1 False]" by simp
  with c' show ?thesis by blast
qed

end
