(* ===== verification/Mqtt_Session_Props.thy ===== *)
theory Mqtt_Session_Props
  imports Mqtt_Client_Props
begin

text \<open>
  Properties of single parts of the client: the CONNECT packet, packet identifiers, the
  retransmission queue, resending, keep-alive, and two acknowledgements that are handled
  differently from what the protocol asks for.
\<close>

subsection \<open>Connecting\<close>

definition opt_bytes :: "cstring option \<Rightarrow> u8 list" where
  "opt_bytes s = (case s of None \<Rightarrow> [] | Some s \<Rightarrow> mqtt_string s)"

definition will_bytes :: "connect_args \<Rightarrow> u8 list" where
  "will_bytes a = (case ca_WillTopic a of None \<Rightarrow> []
     | Some t \<Rightarrow> mqtt_string t @ mqtt_string (ca_WillPayload a))"

lemma sp_put_append:
  assumes "sp_wf p" "\<not> sp_Error (sp_put (sp_put p xs) ys)"
  shows "sp_payload (sp_put (sp_put p xs) ys) = sp_payload p @ xs @ ys" "\<not> sp_Error (sp_put p xs)"
    "\<not> sp_Error p"
  using sp_put_payload [OF sp_put_wf [OF assms(1)] assms(2)] sp_put_payload [OF assms(1), of xs] by simp_all

lemma put_will:
  assumes "pkt_ok p" "connect_args_ok a"
    and r: "append_will a p = Some q"
    and e: "\<not> sp_Error q"
  shows "pkt_ok q" "\<not> sp_Error p" "sp_payload q = sp_payload p @ will_bytes a"
proof -
  have wf: "sp_wf p" using assms(1) by (simp add: pkt_ok_def)
  have "pkt_ok q \<and> \<not> sp_Error p \<and> sp_payload q = sp_payload p @ will_bytes a"
  proof (cases "ca_WillTopic a")
    case None
    with r e assms(1) show ?thesis by (simp add: will_bytes_def append_will_def)
  next
    case (Some t)
    let ?n = "of_nat (length (ca_WillPayload a)) :: u16" and ?pl = "ca_WillPayload a"
    have f: "fits_memory t" "fits_memory ?pl" "length ?pl < 0x10000"
      using assms(2) Some by (simp_all add: connect_args_ok_def fits_memory_def)
    let ?p1 = "sp_put p (mqtt_string t)" and ?p2 = "sp_put (sp_put p (mqtt_string t)) [hi8 ?n, lo8 ?n]"
    have p: "pkt_ok ?p1" "pkt_ok ?p2" "sp_wf ?p1" "sp_wf ?p2"
      using assms(1) by (simp_all add: pkt_ok_def sp_put_wf)
    have q: "q = (if ?pl = [] then ?p2 else sp_put ?p2 ?pl)"
      using r Some f p append_ok assms(1) by (auto simp: append_will_def split: if_splits)
    then have e2: "\<not> sp_Error ?p2" "sp_payload q = sp_payload ?p2 @ ?pl"
      using e sp_put_payload [OF p(4), of ?pl] by (auto split: if_splits)
    have "mqtt_string ?pl = hi8 ?n # lo8 ?n # ?pl" by (rule mqtt_string_fields)
    then show ?thesis
      using q p(2) e2 sp_put_append [OF wf e2(1)] sp_put_payload(1) [OF wf] Some
      by (auto simp: will_bytes_def)
  qed
  then show "pkt_ok q" "\<not> sp_Error p" "sp_payload q = sp_payload p @ will_bytes a" by auto
qed

lemma put_user:
  assumes "pkt_ok p" "connect_args_ok a"
    and r: "append_user a p = Some q"
    and e: "\<not> sp_Error q"
  shows "\<not> sp_Error p" "sp_payload q = sp_payload p @ opt_bytes (ca_Username a) @
     (if ca_Username a = None then [] else opt_bytes (ca_Password a))" "sp_Type q = sp_Type p"
proof -
  have wf: "sp_wf p" using assms(1) by (simp add: pkt_ok_def)
  have "\<not> sp_Error p \<and> sp_payload q = sp_payload p @ opt_bytes (ca_Username a) @
     (if ca_Username a = None then [] else opt_bytes (ca_Password a)) \<and> sp_Type q = sp_Type p"
    using r e assms(1,2) sp_put_payload [OF wf] sp_put_append [OF wf]
    by (auto simp: append_user_def opt_bytes_def connect_args_ok_def append_ok split: option.splits)
  then show "\<not> sp_Error p" "sp_payload q = sp_payload p @ opt_bytes (ca_Username a) @
     (if ca_Username a = None then [] else opt_bytes (ca_Password a))" "sp_Type q = sp_Type p" by auto
qed

lemmas connect_flag_defs = MQTT_CONNECT_FLAG_CLEAN_SESSION_def MQTT_CONNECT_FLAG_WILL_def
  MQTT_CONNECT_FLAG_WILL_QOS_SHIFT_def MQTT_CONNECT_FLAG_WILL_RETAIN_def MQTT_CONNECT_FLAG_PASSWORD_def
  MQTT_CONNECT_FLAG_USER_NAME_def mqtt_qos_defs

text \<open>The bits of the connect flags (the two bits of the last-will quality apart).\<close>

lemma connect_flags_bits:
  assumes "connect_flags a = Some f"
  shows "bit f 1 = ca_CleanSession a" "bit f 2 = (ca_WillTopic a \<noteq> None)"
    "bit f 5 = (ca_WillTopic a \<noteq> None \<and> ca_WillRetain a)"
    "bit f 6 = (ca_Username a \<noteq> None \<and> ca_Password a \<noteq> None)" "bit f 7 = (ca_Username a \<noteq> None)"
    "\<not> bit f 0"
proof -
  have q: "ca_WillTopic a = None \<or> ca_WillQoS a = 0 \<or> ca_WillQoS a = 1 \<or> ca_WillQoS a = 2"
    using assms qos_cases [of "ca_WillQoS a"]
    by (auto simp: connect_flags_def Let_def res_simps mqtt_qos_defs split: option.splits)
  have "bit f 1 = ca_CleanSession a \<and> bit f 2 = (ca_WillTopic a \<noteq> None) \<and>
    bit f 5 = (ca_WillTopic a \<noteq> None \<and> ca_WillRetain a) \<and>
    bit f 6 = (ca_Username a \<noteq> None \<and> ca_Password a \<noteq> None) \<and> bit f 7 = (ca_Username a \<noteq> None) \<and> \<not> bit f 0"
    using assms q
    by (auto simp: connect_flags_def Let_def res_simps connect_flag_defs
        split: option.splits if_splits)
  then show "bit f 1 = ca_CleanSession a" "bit f 2 = (ca_WillTopic a \<noteq> None)"
    "bit f 5 = (ca_WillTopic a \<noteq> None \<and> ca_WillRetain a)"
    "bit f 6 = (ca_Username a \<noteq> None \<and> ca_Password a \<noteq> None)" "bit f 7 = (ca_Username a \<noteq> None)"
    "\<not> bit f 0" by auto
qed

text \<open>
  The CONNECT packet has the layout of the protocol: protocol name and level 4, the connect
  flags, the keep-alive period, then client identifier, last-will topic and message, user name and
  password, each present exactly if it was given (the password only with a user name), and
  the flag bits say which ones are present.
\<close>

theorem connect_packet_layout:
  assumes "circle_contract E" "128 \<le> n" "n \<le> 2 ^ 21" "connect_args_ok a" "fits_memory cid"
    and p: "connect_packet E a n cid w = Some (p, w')" and e: "\<not> sp_Error p"
  shows "\<exists>f. sp_Type p = MQTTConnect \<and>
     sp_payload p = mqtt_string (cstr ''MQTT'') @ [4, f] @
       [hi8 (ca_KeepAliveSeconds a), lo8 (ca_KeepAliveSeconds a)] @ mqtt_string cid @ will_bytes a @
       opt_bytes (ca_Username a) @ (if ca_Username a = None then [] else opt_bytes (ca_Password a)) \<and>
     bit f 1 = ca_CleanSession a \<and> bit f 2 = (ca_WillTopic a \<noteq> None) \<and>
     bit f 5 = (ca_WillTopic a \<noteq> None \<and> ca_WillRetain a) \<and>
     bit f 6 = (ca_Username a \<noteq> None \<and> ca_Password a \<noteq> None) \<and>
     bit f 7 = (ca_Username a \<noteq> None) \<and> \<not> bit f 0"
proof -
  obtain f p0 w0 where f: "connect_flags a = Some f" and n: "new_packet E MQTTConnect n w = Some (p0, w0)"
    using p by (auto simp: connect_packet_def Option.bind_eq_Some_conv)
  note p0 = new_packet_payload [OF assms(1-3) n]
  have m: "fits_memory (cstr ''MQTT'')" by (simp add: fits_memory_def)
  let ?k = "ca_KeepAliveSeconds a"
  let ?p1 = "sp_put p0 (mqtt_string (cstr ''MQTT''))"
  let ?p2 = "sp_put ?p1 [MQTT_PROTOCOL_LEVEL]"
  let ?p3 = "sp_put ?p2 [f]"
  let ?p4 = "sp_put ?p3 [hi8 ?k, lo8 ?k]"
  let ?p5 = "sp_put ?p4 (mqtt_string cid)"
  have ok: "pkt_ok ?p1" "pkt_ok ?p2" "pkt_ok ?p3" "pkt_ok ?p4" "pkt_ok ?p5" using p0(1) by simp_all
  have wf: "sp_wf p0" "sp_wf ?p1" "sp_wf ?p2" "sp_wf ?p3" "sp_wf ?p4" "sp_wf ?p5"
    using ok p0(1) by (simp_all add: pkt_ok_def)
  obtain p6 where p6: "append_will a ?p5 = Some p6" "append_user a p6 = Some p"
    using p f n m assms(5) p0(1) ok
    by (auto simp: connect_packet_def Option.bind_eq_Some_conv append_ok)
  have "pkt_ok p6 \<and> sp_Type p6 = MQTTConnect"
    using p6(1) ok(5) p0(1,2) assms(4)
    by (auto simp: append_will_def append_ok connect_args_ok_def fits_memory_def
        split: option.splits if_splits)
  then have ok6: "pkt_ok p6" and t6: "sp_Type p6 = MQTTConnect" by auto
  note u = put_user [OF ok6 assms(4) p6(2) e]
  note v = put_will [OF ok(5) assms(4) p6(1) u(1)]
  note e5 = sp_put_payload [OF wf(5) v(2)]
  note e4 = sp_put_payload [OF wf(4) e5(1)]
  note e3 = sp_put_payload [OF wf(3) e4(1)]
  note e2 = sp_put_payload [OF wf(2) e3(1)]
  note e1 = sp_put_payload [OF wf(1) e2(1)]
  have "sp_payload ?p5 = mqtt_string (cstr ''MQTT'') @ [4, f] @ [hi8 ?k, lo8 ?k] @ mqtt_string cid"
    using e5(2) e4(2) e3(2) e2(2) e1(2) p0(3) by (simp add: MQTT_PROTOCOL_LEVEL_def)
  then show ?thesis
    using u(2,3) v(3) t6 connect_flags_bits [OF f] by (intro exI [of _ f]) simp
qed

lemma script_connect:
  "\<exists>p w'. connect_packet (script_env (Suc 15)) plain_args 128 (cstr ''rpi'') (script_world []) = Some (p, w') \<and>
     \<not> sp_Error p"
  by (simp add: connect_packet_def connect_flags_def plain_args_def append_will_def append_user_def new_packet_def
      CMQTTSendPacket_new_def script_env_def script_circle_def AppendString_def AppendByte_def AppendWord_def
      store_byte_def store_block_def MAX_LENGTH_FIXED_HEADER_def zero_packet_def put_at_def put_block_def Let_def)

theorem connect_packet_layout_witness:
  "\<exists>p w' f. connect_packet (script_env (Suc 15)) plain_args 128 (cstr ''rpi'') (script_world []) = Some (p, w') \<and>
     sp_payload p = [0, 4, 77, 81, 84, 84, 4, f, 0, 60, 0, 3, 114, 112, 105] \<and> bit f 1 \<and> \<not> bit f 7"
proof -
  obtain p w' where p: "connect_packet (script_env (Suc 15)) plain_args 128 (cstr ''rpi'') (script_world []) =
      Some (p, w')" "\<not> sp_Error p"
    using script_connect by blast
  have b: "mqtt_string [77, 81, 84, 84] = [0, 4, 77, 81, 84, 84]"
    "mqtt_string [114, 112, 105] = [0, 3, 114, 112, 105]"
    by (simp_all add: mqtt_string_def)
  have k: "hi8 60 = 0" "lo8 60 = 60" by (simp_all add: hi8_def lo8_def)
  have a: "ca_KeepAliveSeconds plain_args = 60" "will_bytes plain_args = []" "ca_Username plain_args = None"
    "ca_CleanSession plain_args"
    by (simp_all add: plain_args_def will_bytes_def)
  have "fits_memory (cstr ''rpi'')" by (simp add: fits_memory_def)
  from connect_packet_layout [OF script_contract _ _ plain_args_ok this p] p(1) show ?thesis
    by (auto simp: b k a opt_bytes_def)
qed

subsection \<open>Packet identifiers\<close>

text \<open>The identifiers that successive calls take.\<close>

fun take_identifiers :: "nat \<Rightarrow> ('q, 's) mqtt_client \<Rightarrow> u16 list" where
  "take_identifiers 0 c = []"
| "take_identifiers (Suc n) c = (let (i, c') = take_identifier c in i # take_identifiers n c')"

lemma take_identifiers_from:
  "mc_NextPacketIdentifier c = of_nat (k mod 65535 + 1) \<Longrightarrow>
     take_identifiers n c = map (\<lambda>j. of_nat ((k + j) mod 65535 + 1)) [0..<n]"
proof (induction n arbitrary: c k)
  case (Suc n)
  obtain i c' where t: "take_identifier c = (i, c')" by (cases "take_identifier c")
  have i: "i = of_nat (k mod 65535 + 1)" using t Suc.prems by (auto simp: take_identifier_def Let_def)
  have "mc_NextPacketIdentifier c' = of_nat (Suc k mod 65535 + 1)"
  proof (cases "k mod 65535 = 65534")
    case True
    then have "Suc k mod 65535 = 0" by (simp add: mod_Suc)
    with True t Suc.prems show ?thesis by (auto simp: take_identifier_def Let_def)
  next
    case False
    then have m: "Suc k mod 65535 = Suc (k mod 65535)" by (simp add: mod_Suc)
    have "k mod 65535 < 65535" by simp
    with False have "(of_nat (k mod 65535 + 2) :: u16) \<noteq> 0"
      by (simp add: word_unat_eq_iff unat_of_nat del: of_nat_add of_nat_Suc)
    then show ?thesis using m t Suc.prems by (auto simp: take_identifier_def Let_def add.commute)
  qed
  from Suc.IH [OF this] show ?case
    using t i by (simp add: upt_conv_Cons map_Suc_upt [symmetric] del: upt_Suc)
qed simp

text \<open>
  Packet identifiers: from the value that \<open>Connect\<close> sets, the calls of
  \<open>Subscribe\<close>, \<open>Unsubscribe\<close> and \<open>Publish\<close> take 1, 2, ..., 65535 and then start over
  at 1. So 0 is never used, and among any 65535 successive identifiers none occurs twice.
\<close>

theorem identifiers_cycle:
  assumes "mc_NextPacketIdentifier c = 1"
  shows "take_identifiers n c = map (\<lambda>j. of_nat (j mod 65535 + 1)) [0..<n] \<and>
     0 \<notin> set (take_identifiers n c) \<and> (n \<le> 65535 \<longrightarrow> distinct (take_identifiers n c))"
proof -
  have eq: "take_identifiers n c = map (\<lambda>j. of_nat (j mod 65535 + 1)) [0..<n]"
    using take_identifiers_from [of c 0 n] assms by simp
  have u: "unat (of_nat (j mod 65535 + 1) :: u16) = j mod 65535 + 1" for j
  proof -
    have "j mod 65535 + 1 < 2 ^ 16" using mod_less_divisor [of 65535 j] by simp
    then show ?thesis by (simp only: unat_of_nat len_num1 len_bit0 len_bit1) simp
  qed
  then have nz: "(of_nat (j mod 65535 + 1) :: u16) \<noteq> 0" for j
    by (metis add_is_0 one_neq_zero unat_0)
  have "inj_on (\<lambda>j. of_nat (j mod 65535 + 1) :: u16) {0..<n}" if "n \<le> 65535"
    using that by (intro inj_onI) (metis u add_right_cancel atLeastLessThan_iff less_le_trans mod_less)
  then show ?thesis using eq nz by (auto simp: distinct_map simp del: of_nat_add of_nat_Suc)
qed

theorem identifiers_cycle_witness:
  "take_identifiers 3 (script_open\<lparr>mc_NextPacketIdentifier := 1\<rparr>) = [1, 2, 3]"
  using identifiers_cycle [of "script_open\<lparr>mc_NextPacketIdentifier := 1\<rparr>" 3]
  by (simp add: upt_conv_Cons numeral_3_eq_3)

subsection \<open>The retransmission queue\<close>

lemma queue_insert_mset: "mset (queue_insert p ps) = add_mset p (mset ps)"
  by (induction ps) auto

text \<open>
  C4. Insertion into the retransmission queue: for every list with the semantics of
  \<open>CPtrList\<close> the function returns, adds the packet with its scheduled time and keeps all
  others; and as long as all scheduled times lie within \<open>2 ^ 31\<close> ticks of some base time, a
  queue in the order of time stays so, even where the tick counter wraps around.
\<close>

theorem queue_insert_ordered:
  assumes "send_queue L elems"
  shows "\<exists>q'. InsertPacketIntoQueue L q p t = Some q' \<and>
     mset (ptrs_of elems q') = add_mset (SetScheduledTime p t) (mset (ptrs_of elems q)) \<and>
     (\<forall>base. queue_sorted (ptrs_of elems q) \<and> in_window base t \<and>
        (\<forall>r \<in> set (ptrs_of elems q). in_window base (sp_ScheduledTime r)) \<longrightarrow>
      queue_sorted (ptrs_of elems q'))"
proof -
  obtain q' where q': "InsertPacketIntoQueue L q p t = Some q'"
    "ptrs_of elems q' = queue_insert (SetScheduledTime p t) (ptrs_of elems q)"
    using send_queue.insert_correct [OF assms] by blast
  from q' queue_insert_mset queue_sorted_insert [of "ptrs_of elems q" "SetScheduledTime p t"] show ?thesis
    by (fastforce simp: SetScheduledTime_def)
qed

theorem queue_insert_ordered_witness:
  "\<exists>q'. InsertPacketIntoQueue num_list_ops [(1, zero_packet\<lparr>sp_ScheduledTime := 0xFFFFFFF0\<rparr>)] zero_packet 16 =
       Some q' \<and> queue_sorted (ptrs_of num_elems q')"
proof -
  let ?q = "[(1, zero_packet\<lparr>sp_ScheduledTime := 0xFFFFFFF0\<rparr>)]"
  have "queue_sorted (ptrs_of num_elems ?q)" "in_window 0xFFFFFFF0 16"
    "\<forall>r \<in> set (ptrs_of num_elems ?q). in_window 0xFFFFFFF0 (sp_ScheduledTime r)"
    by (simp_all add: queue_sorted_def ptrs_of_def num_elems_def in_window_def)
  then show ?thesis
    using queue_insert_ordered [OF num_queue.send_queue_axioms, of ?q zero_packet 16] by blast
qed

text \<open>
  An acknowledgement takes the first packet with its identifier out of the queue and leaves the
  others in order; without such a packet the queue is unchanged.
\<close>

theorem queue_remove_first:
  assumes "send_queue L elems"
  shows "\<exists>r q'. RemovePacketFromQueue L q i = Some (r, q') \<and>
     (case r of None \<Rightarrow> (\<forall>p \<in> set (ptrs_of elems q). sp_PacketIdentifier p \<noteq> i) \<and> ptrs_of elems q' = ptrs_of elems q
      | Some p \<Rightarrow> sp_PacketIdentifier p = i \<and> (\<exists>xs ys. ptrs_of elems q = xs @ p # ys \<and>
          ptrs_of elems q' = xs @ ys \<and> (\<forall>x \<in> set xs. sp_PacketIdentifier x \<noteq> i)))"
proof -
  have spec: "case fst (queue_remove i ps) of
        None \<Rightarrow> (\<forall>p \<in> set ps. sp_PacketIdentifier p \<noteq> i) \<and> snd (queue_remove i ps) = ps
      | Some p \<Rightarrow> sp_PacketIdentifier p = i \<and> (\<exists>xs ys. ps = xs @ p # ys \<and>
          snd (queue_remove i ps) = xs @ ys \<and> (\<forall>x \<in> set xs. sp_PacketIdentifier x \<noteq> i))" for ps
  proof (induction ps)
    case (Cons p ps)
    show ?case
    proof (cases "sp_PacketIdentifier p = i")
      case True
      then show ?thesis by simp (rule exI [of _ "[]"], simp)
    next
      case False
      obtain r rs where r: "queue_remove i ps = (r, rs)" by (cases "queue_remove i ps")
      show ?thesis
      proof (cases r)
        case None
        with Cons False r show ?thesis by simp
      next
        case (Some x)
        then obtain xs ys where "sp_PacketIdentifier x = i" "ps = xs @ x # ys" "rs = xs @ ys"
          "\<forall>x \<in> set xs. sp_PacketIdentifier x \<noteq> i"
          using Cons r by auto
        with False r Some show ?thesis by simp (rule exI [of _ "p # xs"], auto)
      qed
    qed
  qed simp
  obtain q' where "RemovePacketFromQueue L q i = Some (fst (queue_remove i (ptrs_of elems q)), q')"
    "ptrs_of elems q' = snd (queue_remove i (ptrs_of elems q))"
    using send_queue.remove_correct [OF assms] by blast
  with spec [of "ptrs_of elems q"] show ?thesis by (auto split: option.splits)
qed

theorem queue_remove_first_witness:
  "\<exists>p q'. RemovePacketFromQueue num_list_ops [(1, zero_packet\<lparr>sp_PacketIdentifier := 3\<rparr>), (2, zero_packet)] 3 =
       Some (Some p, q') \<and> sp_PacketIdentifier p = 3"
proof -
  let ?q = "[(1, zero_packet\<lparr>sp_PacketIdentifier := 3\<rparr>), (2, zero_packet)]"
  have "\<exists>p \<in> set (ptrs_of num_elems ?q). sp_PacketIdentifier p = 3"
    by (simp add: ptrs_of_def num_elems_def)
  with queue_remove_first [OF num_queue.send_queue_axioms, of ?q 3] show ?thesis
    by (auto split: option.splits)
qed

subsection \<open>Resending\<close>

lemma SendPacket_result:
  assumes "Send E p w = Some (ok, q, w1)" "sp_Type q \<in> app_types" "mc_Socket c"
    "mc_ConnectStatus c \<noteq> MQTTStatusDisconnected"
  shows "\<exists>c' w'. SendPacket E p c w = Some (ok, q, c', w')"
  unfolding SendPacket_app_eq [OF assms] by (metis prod.collapse)

context mqtt_client_env
begin

lemma resend_packet:
  assumes "queueable p"
  obtains p1 where "(if sp_Type p = MQTTPublish then SetFlags p (sp_Flags p OR MQTT_FLAG_DUP) else Some p) = Some p1"
    "queueable p1" "sp_frame p1 = mqtt_frame (sp_Type p)
       (if sp_Type p = MQTTPublish then sp_Flags p OR MQTT_FLAG_DUP else sp_Flags p) (sp_payload p)"
    "sp_payload p1 = sp_payload p" "sp_SendTries p1 = sp_SendTries p" "sp_Error p1 = sp_Error p"
    "sp_PacketIdentifier p1 = sp_PacketIdentifier p" "sp_QoS p1 = sp_QoS p" "sp_Type p1 = sp_Type p"
proof -
  have f: "sp_Flags p OR MQTT_FLAG_DUP \<le> 0x0F"
    using assms flags_or_dup by (simp add: queueable_def pkt_ok_def sp_wf_def)
  have pl: "sp_payload (p\<lparr>sp_Flags := g\<rparr>) = sp_payload p" for g by (simp add: sp_payload_def split: option.splits)
  show thesis
  proof (cases "sp_Type p = MQTTPublish")
    case True
    then show thesis
      using that [of "p\<lparr>sp_Flags := sp_Flags p OR MQTT_FLAG_DUP\<rparr>"] f queueable_flags [OF assms f] pl
      by (simp add: SetFlags_def sp_frame_mqtt)
  next
    case False
    then show thesis using that [of p] assms by (simp add: sp_frame_mqtt)
  qed
qed

lemma Sender_step_resends:
  assumes inv: "mc_inv E qel sel c"
    and live: "mc_ConnectStatus c \<noteq> MQTTStatusDisconnected"
    and e: "qel (mc_RetransmissionQueue c) = xs @ (e, p) # ys" and ok: "\<not> sp_Error p"
    and send: "sock_Send E (mqtt_frame (sp_Type p)
        (if sp_Type p = MQTTPublish then sp_Flags p OR MQTT_FLAG_DUP else sp_Flags p) (sp_payload p)) True w = (r, w1)"
  shows "if time_after (sp_ScheduledTime p) nTicks then Sender_step E nTicks e c w = Some (None, c, w)
     else if sp_SendTries p = 0 \<or> r \<noteq> int (length (sp_frame p))
     then \<exists>c' w'. Sender_step E nTicks e c w = Some (None, c', w') \<and>
       mc_ConnectStatus c' = MQTTStatusDisconnected \<and>
       mc_Events c' = mc_Events c @ [OnDisconnect MQTTDisconnectSendFailed]
     else \<exists>c' w' p'. Sender_step E nTicks e c w = Some (first_handle ys, c', w') \<and>
       mset (ptrs_of qel (mc_RetransmissionQueue c')) = add_mset p' (mset (map snd (xs @ ys))) \<and>
       sp_payload p' = sp_payload p \<and> sp_SendTries p' = sp_SendTries p - 1 \<and>
       sp_PacketIdentifier p' = sp_PacketIdentifier p \<and> sp_QoS p' = sp_QoS p"
proof -
  let ?q = "mc_RetransmissionQueue c"
  have get: "pl_GetPtr (env_Q E) ?q e = p" "pl_GetNext (env_Q E) ?q e = first_handle ys"
    using e queue.GetPtr [of ?q xs e p ys] queue.GetNext [of ?q xs e p ys] by simp_all
  let ?c = "c\<lparr>mc_RetransmissionQueue := pl_Remove (env_Q E) ?q e\<rparr>"
  have q1: "qel (mc_RetransmissionQueue ?c) = xs @ ys" using queue.Remove [OF e] by simp
  have ps: "queueable p" "\<forall>r \<in> set (map snd (xs @ ys)). queueable r"
    using inv e by (auto simp: mc_inv_def ptrs_of_def)
  have inv1: "mc_inv E qel sel ?c" using inv live ps(2) q1 by (simp add: mc_inv_def ptrs_of_def)
  obtain p1 where p1: "(if sp_Type p = MQTTPublish then SetFlags p (sp_Flags p OR MQTT_FLAG_DUP) else Some p) = Some p1"
    "queueable p1" "sock_Send E (sp_frame p1) True w = (r, w1)"
    "sp_payload p1 = sp_payload p" "sp_SendTries p1 = sp_SendTries p" "\<not> sp_Error p1"
    "sp_PacketIdentifier p1 = sp_PacketIdentifier p" "sp_QoS p1 = sp_QoS p" "sp_Type p1 = sp_Type p"
    by (rule resend_packet [OF ps(1)]) (use send ok that in auto)
  have len: "length (sp_frame p1) = length (sp_frame p)" by (simp add: sp_frame_def p1(4))
  have ty: "pkt_ok p1" "sp_Type p1 \<in> app_types" using p1(2) by (auto simp: queueable_def app_types_def)
  obtain p2 w2 where snd: "Send E p1 w = Some (sp_SendTries p \<noteq> 0 \<and> r = int (length (sp_frame p)), p2, w2)"
    "sp_same p1 p2"
  proof (cases "sp_SendTries p = 0")
    case True
    then show thesis using that [of p1 w] p1(5,6) by (simp add: Send_def)
  next
    case False
    with Send_step [OF _ p1(6) _ _ p1(3)] pkt_ok_small [OF ty(1) p1(6)] ty(1) p1(5) len that show thesis
      by (auto simp: pkt_ok_def)
  qed
  obtain c2 w3 where s: "SendPacket E p1 ?c w = Some (sp_SendTries p \<noteq> 0 \<and> r = int (length (sp_frame p)), p2, c2, w3)"
    using SendPacket_result [OF snd(1), of ?c] sp_sameD(1) [OF snd(2)] ty(2) live inv1
    by (auto simp: mc_inv_def)
  have c2: "timer_only ?c c2" "mc_inv E qel sel c2" "pkt_ok p2"
    "sp_SendTries p \<noteq> 0 \<and> r = int (length (sp_frame p)) \<longrightarrow> sp_SendTries p1 = Suc (sp_SendTries p2)"
    using SendPacket_app [OF ty inv1, of w] s by auto
  note t = timer_onlyD [OF c2(1)]
  have step: "Sender_step E nTicks e c w =
      (if time_after (sp_ScheduledTime p) nTicks then Some (None, c, w)
       else if sp_SendTries p \<noteq> 0 \<and> r = int (length (sp_frame p))
       then map_option (Pair (first_handle ys)) (enqueue E p2 c2 w3)
       else map_option (Pair None) (CloseConnection E MQTTDisconnectSendFailed c2 w3))"
    using get p1(1) s by (auto simp: Sender_step_def Let_def)
  show ?thesis
  proof (cases "sp_SendTries p = 0 \<or> r \<noteq> int (length (sp_frame p))")
    case True
    then show ?thesis
      using step CloseConnection_inv [of c2 MQTTDisconnectSendFailed w3] c2(2) t(1,4) live by auto
  next
    case False
    have "queueable p2" using c2(3) p1(2) sp_sameD(1) [OF snd(2)] by (simp add: queueable_def)
    then obtain c3 w4 u where c3: "enqueue E p2 c2 w3 = Some (c3, w4)"
      "ptrs_of qel (mc_RetransmissionQueue c3) =
         queue_insert (SetScheduledTime p2 u) (ptrs_of qel (mc_RetransmissionQueue c2))"
      using enqueue_inv [OF c2(2), of p2 w3] t(1) live by auto
    have "mset (ptrs_of qel (mc_RetransmissionQueue c3)) =
        add_mset (SetScheduledTime p2 u) (mset (map snd (xs @ ys)))"
      unfolding c3(2) queue_insert_mset using t(3) q1 by (simp add: ptrs_of_def)
    moreover have "sp_payload (SetScheduledTime p2 u) = sp_payload p2"
      by (simp add: SetScheduledTime_def sp_payload_def split: option.splits)
    moreover have "sp_SendTries p2 = sp_SendTries p - 1" using c2(4) p1(5) False by simp
    ultimately show ?thesis
      using step False c3(1) sp_sameD [OF snd(2)] p1(4,7,8)
      by (auto simp: SetScheduledTime_def intro!: exI [of _ "SetScheduledTime p2 u"])
  qed
qed

end

text \<open>
  C8. A due packet of the queue is sent again: \<open>Sender\<close> transmits the frame of the packet,
  with the DUP flag set if it is a PUBLISH, and puts it back into the queue with one try less
  and a new time; if no try is left or the network does not take the frame, it closes the
  connection with the reason \<open>MQTTDisconnectSendFailed\<close>. A packet that is not due is left alone.
\<close>

theorem sender_resends:
  assumes env: "mqtt_client_env E qel sel" and inv: "mc_inv E qel sel c"
    and live: "mc_ConnectStatus c \<noteq> MQTTStatusDisconnected"
    and e: "qel (mc_RetransmissionQueue c) = xs @ (e, p) # ys" and ok: "\<not> sp_Error p"
    and send: "sock_Send E (mqtt_frame (sp_Type p)
        (if sp_Type p = MQTTPublish then sp_Flags p OR MQTT_FLAG_DUP else sp_Flags p) (sp_payload p)) True w = (r, w1)"
  shows "if time_after (sp_ScheduledTime p) nTicks then Sender_step E nTicks e c w = Some (None, c, w)
     else if sp_SendTries p = 0 \<or> r \<noteq> int (length (sp_frame p))
     then \<exists>c' w'. Sender_step E nTicks e c w = Some (None, c', w') \<and>
       mc_ConnectStatus c' = MQTTStatusDisconnected \<and>
       mc_Events c' = mc_Events c @ [OnDisconnect MQTTDisconnectSendFailed]
     else \<exists>c' w' p'. Sender_step E nTicks e c w = Some (first_handle ys, c', w') \<and>
       mset (ptrs_of qel (mc_RetransmissionQueue c')) = add_mset p' (mset (map snd (xs @ ys))) \<and>
       sp_payload p' = sp_payload p \<and> sp_SendTries p' = sp_SendTries p - 1 \<and>
       sp_PacketIdentifier p' = sp_PacketIdentifier p \<and> sp_QoS p' = sp_QoS p"
  using mqtt_client_env.Sender_step_resends [OF env inv live e ok send] .

definition script_queued :: mqtt_send_packet where
  "script_queued = zero_packet\<lparr>sp_Type := MQTTPublish, sp_MaxPacketSize := 128,
     sp_Buffer := Some (replicate 128 0), sp_BufPtr := 7, sp_SendTries := 1\<rparr>"

definition script_backlog :: "(mqtt_send_packet numbered, u16 numbered) mqtt_client" where
  "script_backlog = script_open\<lparr>mc_RetransmissionQueue := [(1, script_queued)]\<rparr>"

lemma script_backlog_inv: "mc_inv (script_env (Suc 15)) num_elems num_elems script_backlog"
proof -
  have "queueable script_queued"
    by (simp add: queueable_def pkt_ok_def sp_wf_def script_queued_def zero_packet_def
        MAX_LENGTH_FIXED_HEADER_def MQTT_SEND_TRIES_def)
  then show ?thesis
    using script_open_inv by (simp add: mc_inv_def script_backlog_def script_open_def ptrs_of_def num_elems_def)
qed

theorem sender_resends_witness:
  "\<exists>c' w' p'. Sender_step (script_env (Suc 15)) 5 1 script_backlog (script_world []) = Some (None, c', w') \<and>
     ptrs_of num_elems (mc_RetransmissionQueue c') = [p'] \<and> sp_SendTries p' = 0"
proof -
  let ?f = "mqtt_frame (sp_Type script_queued)
        (if sp_Type script_queued = MQTTPublish then sp_Flags script_queued OR MQTT_FLAG_DUP
         else sp_Flags script_queued) (sp_payload script_queued)"
  let ?w = "script_world []"
  have "mqtt_frame (sp_Type script_queued) (sp_Flags script_queued) (sp_payload script_queued) = sp_frame script_queued"
    by (simp add: sp_frame_mqtt)
  then have len: "length ?f = length (sp_frame script_queued)"
    by (simp add: mqtt_frame_def sp_frame_def)
  obtain r w1 where s: "sock_Send (script_env (Suc 15)) ?f True ?w = (r, w1)"
    by (cases "sock_Send (script_env (Suc 15)) ?f True ?w")
  have "r = int (length (sp_frame script_queued))"
    using s script_reliable [of "Suc 15"] len unfolding reliable_def by (metis fst_conv)
  moreover have "\<not> time_after (sp_ScheduledTime script_queued) 5"
    by (simp add: script_queued_def zero_packet_def time_after_def)
  moreover have q: "num_elems (mc_RetransmissionQueue script_backlog) = [] @ (1, script_queued) # []"
    by (simp add: script_backlog_def num_elems_def)
  moreover have "sp_SendTries script_queued = 1" "\<not> sp_Error script_queued"
    by (simp_all add: script_queued_def zero_packet_def)
  ultimately show ?thesis
    using sender_resends [OF script_client_env script_backlog_inv _ q _ s, of 5]
    by (auto simp: script_backlog_def script_open_def)
qed

subsection \<open>Keep-alive\<close>

context mqtt_client_env
begin

lemma ping_frame:
  assumes "new_packet E MQTTPingReq 128 w = Some (p, w2)"
  shows "sp_Error p = (fst (heap_new E 128 w) = None)" "w2 = snd (heap_new E 128 w)" "\<not> sp_Error p \<Longrightarrow> sp_frame p = [0xC0, 0x00]"
    "sp_SendTries p \<noteq> 0"
proof -
  obtain b w' where b: "heap_new E 128 w = (b, w')" by (metis surj_pair)
  then show "sp_Error p = (fst (heap_new E 128 w) = None)" "w2 = snd (heap_new E 128 w)" "sp_SendTries p \<noteq> 0"
    using assms by (auto simp: new_packet_def CMQTTSendPacket_new_def MQTT_SEND_TRIES_def Let_def split: option.splits)
  show "sp_frame p = [0xC0, 0x00]" if "\<not> sp_Error p"
  proof -
    have "sp_Flags p = 0"
      using assms b that by (auto simp: new_packet_def CMQTTSendPacket_new_def Let_def split: option.splits)
    then show ?thesis
      using new_packet_payload [OF circle_contract_axioms _ _ assms]
      by (simp add: sp_frame_def control_byte_def enc_len.simps)
  qed
qed

lemma KeepAliveHandler_behaves:
  assumes inv: "mc_inv E qel sel c" and live: "mc_ConnectStatus c \<noteq> MQTTStatusDisconnected"
    and t: "GetTicks E w = (t, w1)" and buf: "heap_new E 128 w1 = (buf, w2)"
    and send: "sock_Send E [0xC0, 0x00] True w2 = (r, w3)" and t': "GetTicks E w3 = (t', w4)"
  shows "if \<not> mc_TimerRunning c then KeepAliveHandler E c w = Some (c, w)
    else if time_after (mc_TimerElapsesAt c) t then KeepAliveHandler E c w = Some (c, w1)
    else if mc_ConnectStatus c = MQTTStatusConnected \<and> buf \<noteq> None \<and> r = 2
    then KeepAliveHandler E c w = Some (c\<lparr>mc_ConnectStatus := MQTTStatusWaitForPingResp,
      mc_TimerElapsesAt := t' + MQTT_PING_TIMEOUT E, mc_TimerRunning := True\<rparr>, w4)
    else if mc_ConnectStatus c = MQTTStatusConnected
    then \<exists>c'. KeepAliveHandler E c w = Some (c', sock_delete E (if buf = None then w2 else w3)) \<and>
      mc_ConnectStatus c' = MQTTStatusDisconnected \<and> mc_Events c' = mc_Events c @ [OnDisconnect MQTTDisconnectSendFailed]
    else \<exists>c'. KeepAliveHandler E c w = Some (c', sock_delete E w1) \<and>
      mc_ConnectStatus c' = MQTTStatusDisconnected \<and> mc_Events c' = mc_Events c @ [OnDisconnect MQTTDisconnectPingFailed]"
proof -
  let ?c = "c\<lparr>mc_TimerRunning := False\<rparr>"
  have sock: "mc_Socket c" using inv live by (auto simp: mc_inv_def)
  have close: "\<exists>c'. CloseConnection E why ?c v = Some (c', sock_delete E v) \<and>
      mc_ConnectStatus c' = MQTTStatusDisconnected \<and> mc_Events c' = mc_Events c @ [OnDisconnect why]" for why v
  proof -
    have "mc_Socket ?c \<and> mc_ConnectStatus ?c \<noteq> MQTTStatusDisconnected \<and>
        128 \<le> mc_MaxPacketSize ?c \<and> mc_MaxPacketSize ?c \<le> 2 ^ 21 \<and> rp_wf E (mc_ReceivePacket ?c) \<and>
        (\<forall>n. mc_TopicBuffer ?c = Some n \<longrightarrow> n = wrap32 (mc_MaxTopicSize ?c + 1))"
      using inv live by (auto simp: mc_inv_def)
    from CloseConnection_inv [of ?c why v] this obtain c' v' where c': "CloseConnection E why ?c v = Some (c', v')"
        "mc_ConnectStatus c' = MQTTStatusDisconnected" "mc_Events c' = mc_Events c @ [OnDisconnect why]"
      using live by auto
    moreover have "v' = sock_delete E v" using c'(1) live by (auto simp: CloseConnection_def res_simps)
    ultimately show ?thesis by blast
  qed
  consider (idle) "\<not> mc_TimerRunning c \<or> time_after (mc_TimerElapsesAt c) t"
    | (ping) "mc_TimerRunning c" "\<not> time_after (mc_TimerElapsesAt c) t"
        "mc_ConnectStatus c = MQTTStatusConnected" "0 < mc_KeepAliveSeconds c"
    | (lost) "mc_TimerRunning c" "\<not> time_after (mc_TimerElapsesAt c) t"
        "mc_ConnectStatus c = MQTTStatusWaitForPingResp"
    using inv live by (auto simp: mc_inv_def)
  then show ?thesis
  proof cases
    case idle
    then show ?thesis using t by (cases "mc_TimerRunning c") (auto simp: KeepAliveHandler_def)
  next
    case ping
    obtain p where p: "new_packet E MQTTPingReq 128 w1 = Some (p, w2)" "pkt_ok p" "sp_Type p = MQTTPingReq"
      using pkt_ok_128 [of MQTTPingReq w1] ping_frame(2) buf by (metis snd_conv)
    note f = ping_frame [OF p(1), unfolded buf fst_conv]
    show ?thesis
    proof (cases "buf = None")
      case True
      then have "Send E p w2 = Some (False, p, w2)" using f(1) by (simp add: Send_def)
      then show ?thesis
        using ping t p(1) sock close [of MQTTDisconnectSendFailed w2] True
        by (auto simp: KeepAliveHandler_def SendPacket_def)
    next
      case False
      then obtain q where q: "Send E p w2 = Some (r = 2, q, w3)" "sp_same p q"
        using Send_step [of p E w2 r w3] f p(2) send pkt_ok_small [OF p(2)] by (auto simp: pkt_ok_def)
      show ?thesis
        using ping t p(1,3) q(1) t' sock sp_sameD(1) [OF q(2)] close [of MQTTDisconnectSendFailed w3] False
        by (cases "r = 2") (auto simp: KeepAliveHandler_def SendPacket_def start_timer_def)
    qed
  next
    case lost
    then show ?thesis using t close [of MQTTDisconnectPingFailed w1] by (auto simp: KeepAliveHandler_def)
  qed
qed

end

text \<open>
  C12. The keep-alive handler of a live connection, exactly. While the timer is off or has not elapsed it
  does nothing. When it elapses on a connected client the two bytes of a PINGREQ (\<open>C0 00\<close>) are handed to
  the socket without waiting; if both are taken the client waits for the answer with the timer set to
  the ping time-out from then on, otherwise (or without memory for the packet) the connection is closed
  with \<open>MQTTDisconnectSendFailed\<close>. When the timer elapses while waiting for the answer the connection is
  closed with \<open>MQTTDisconnectPingFailed\<close> and nothing is sent. The world is threaded through the
  calls, so that exactly these calls are made, in this order.
\<close>

theorem keep_alive_handler:
  assumes env: "mqtt_client_env E qel sel" and inv: "mc_inv E qel sel c"
    and live: "mc_ConnectStatus c \<noteq> MQTTStatusDisconnected" and t: "GetTicks E w = (t, w1)"
    and buf: "heap_new E 128 w1 = (buf, w2)" and send: "sock_Send E [0xC0, 0x00] True w2 = (r, w3)"
    and t': "GetTicks E w3 = (t', w4)"
  shows "if \<not> mc_TimerRunning c then KeepAliveHandler E c w = Some (c, w)
    else if time_after (mc_TimerElapsesAt c) t then KeepAliveHandler E c w = Some (c, w1)
    else if mc_ConnectStatus c = MQTTStatusConnected \<and> buf \<noteq> None \<and> r = 2
    then KeepAliveHandler E c w = Some (c\<lparr>mc_ConnectStatus := MQTTStatusWaitForPingResp,
      mc_TimerElapsesAt := t' + MQTT_PING_TIMEOUT E, mc_TimerRunning := True\<rparr>, w4)
    else if mc_ConnectStatus c = MQTTStatusConnected
    then \<exists>c'. KeepAliveHandler E c w = Some (c', sock_delete E (if buf = None then w2 else w3)) \<and>
      mc_ConnectStatus c' = MQTTStatusDisconnected \<and> mc_Events c' = mc_Events c @ [OnDisconnect MQTTDisconnectSendFailed]
    else \<exists>c'. KeepAliveHandler E c w = Some (c', sock_delete E w1) \<and>
      mc_ConnectStatus c' = MQTTStatusDisconnected \<and> mc_Events c' = mc_Events c @ [OnDisconnect MQTTDisconnectPingFailed]"
  using mqtt_client_env.KeepAliveHandler_behaves [OF env inv live t buf send t'] .

definition script_due :: "(mqtt_send_packet numbered, u16 numbered) mqtt_client" where
  "script_due = script_open\<lparr>mc_ConnectStatus := MQTTStatusConnected, mc_TimerRunning := True,
     mc_TimerElapsesAt := 0, mc_KeepAliveSeconds := 60\<rparr>"

theorem keep_alive_handler_witness:
  "\<exists>c'. KeepAliveHandler (script_env (Suc 15)) script_due (script_world []) =
       Some (c', (script_world [])\<lparr>tx_frames := [[0xC0, 0x00]]\<rparr>) \<and> mc_ConnectStatus c' = MQTTStatusWaitForPingResp"
proof -
  let ?E = "script_env (Suc 15)" and ?w = "script_world []"
  have inv: "mc_inv ?E num_elems num_elems script_due"
    using script_open_inv by (simp add: mc_inv_def script_due_def script_open_def)
  have live: "mc_ConnectStatus script_due \<noteq> MQTTStatusDisconnected" by (simp add: script_due_def)
  have "GetTicks ?E ?w = (0, ?w)" "heap_new ?E 128 ?w = (Some (replicate 128 0), ?w)"
    "sock_Send ?E [0xC0, 0x00] True ?w = (2, ?w\<lparr>tx_frames := [[0xC0, 0x00]]\<rparr>)"
    "GetTicks ?E (?w\<lparr>tx_frames := [[0xC0, 0x00]]\<rparr>) = (0, ?w\<lparr>tx_frames := [[0xC0, 0x00]]\<rparr>)"
    by (simp_all add: script_env_def script_circle_def script_world_def)
  from keep_alive_handler [OF script_client_env inv live this] show ?thesis
    by (simp add: script_due_def time_after_def)
qed

end
