(* ===== verification/Mqtt_Sample.thy ===== *)
theory Mqtt_Sample
  imports Mqtt_Client_Props
begin

text \<open>
  The MQTT clients of \<open>samples/mbedtls/07-mqttclient\<close>: a publisher, which sends a message every 30
  seconds and disconnects after two minutes, and a subscriber. Both are derived from the class
  \<open>CMQTTClient\<close> and act in its callbacks. Uptime is read once per callback; \<open>Payload\<close> is the
  formatted temperature.
\<close>

definition PUB_TOPIC :: cstring where "PUB_TOPIC = cstr ''circle/status/json''"
definition SUB_TOPIC :: cstring where "SUB_TOPIC = cstr ''circle/status/json''"

subsection \<open>The publisher\<close>

record publisher =
  pb_TimerRunning :: bool
  pb_ConnectTime :: u32
  pb_LastPublishTime :: u32

definition CMQTTPublisher_OnConnect :: "u32 \<Rightarrow> publisher \<Rightarrow> publisher" where
  "CMQTTPublisher_OnConnect nUptime p =
     p\<lparr>pb_ConnectTime := nUptime, pb_LastPublishTime := nUptime, pb_TimerRunning := True\<rparr>"

definition CMQTTPublisher_OnDisconnect :: "publisher \<Rightarrow> publisher" where
  "CMQTTPublisher_OnDisconnect p = p\<lparr>pb_TimerRunning := False\<rparr>"

text \<open>The callbacks the client has entered since the state \<open>c0\<close>.\<close>

definition publisher_event :: "u32 \<Rightarrow> client_event \<Rightarrow> publisher \<Rightarrow> publisher" where
  "publisher_event nUptime ev p =
     (case ev of OnConnect _ \<Rightarrow> CMQTTPublisher_OnConnect nUptime p
      | OnDisconnect _ \<Rightarrow> CMQTTPublisher_OnDisconnect p
      | OnMessage _ _ _ _ \<Rightarrow> p)"

definition publisher_callbacks ::
  "u32 \<Rightarrow> ('q, 's) mqtt_client \<Rightarrow> ('q, 's) mqtt_client \<Rightarrow> publisher \<Rightarrow> publisher" where
  "publisher_callbacks nUptime c0 c p = fold (publisher_event nUptime) (drop (length (mc_Events c0)) (mc_Events c)) p"

datatype loop_action = LoopNothing | LoopDisconnect | LoopPublish

definition publisher_action :: "u32 \<Rightarrow> publisher \<Rightarrow> loop_action \<times> publisher" where
  "publisher_action nUptime p =
     (let nRunTime = nUptime - pb_ConnectTime p in
      if nRunTime \<ge> 120 then (LoopDisconnect, p)
      else if nRunTime mod 30 = 5 \<and> nRunTime \<noteq> pb_LastPublishTime p
      then (LoopPublish, p\<lparr>pb_LastPublishTime := nRunTime\<rparr>)
      else (LoopNothing, p))"

definition CMQTTPublisher_OnLoop ::
  "('w, 'q, 'e, 's, 'f) mqtt_env \<Rightarrow> u32 \<Rightarrow> cstring \<Rightarrow> publisher \<Rightarrow> ('q, 's) mqtt_client \<Rightarrow> 'w \<Rightarrow>
     (publisher \<times> ('q, 's) mqtt_client \<times> 'w) option" where
  "CMQTTPublisher_OnLoop E nUptime Payload p c w =
     (if \<not> IsConnected c \<or> \<not> pb_TimerRunning p then Some (p, c, w)
      else case publisher_action nUptime p of
             (LoopNothing, p) \<Rightarrow> Some (p, c, w)
           | (LoopDisconnect, p) \<Rightarrow> do {
               (c', w) \<leftarrow> Disconnect E False c w;
               Some (publisher_callbacks nUptime c c' p, c', w)
             }
           | (LoopPublish, p) \<Rightarrow> do {
               (c', w) \<leftarrow> Publish E PUB_TOPIC Payload MQTT_QOS_AT_LEAST_ONCE False c w;
               Some (publisher_callbacks nUptime c c' p, c', w)
             })"

subsection \<open>The subscriber\<close>

record subscriber =
  sb_TimerRunning :: bool
  sb_ConnectTime :: u32

definition CMQTTSubscriber_OnDisconnect :: "subscriber \<Rightarrow> subscriber" where
  "CMQTTSubscriber_OnDisconnect s = s\<lparr>sb_TimerRunning := False\<rparr>"

text \<open>\<open>Subscribe\<close> and \<open>Disconnect\<close> enter no other callback than \<open>OnDisconnect\<close>.\<close>

definition subscriber_callbacks ::
  "('q, 's) mqtt_client \<Rightarrow> ('q, 's) mqtt_client \<Rightarrow> subscriber \<Rightarrow> subscriber" where
  "subscriber_callbacks c0 c s =
     (if drop (length (mc_Events c0)) (mc_Events c) = [] then s else CMQTTSubscriber_OnDisconnect s)"

definition CMQTTSubscriber_OnConnect ::
  "('w, 'q, 'e, 's, 'f) mqtt_env \<Rightarrow> u32 \<Rightarrow> subscriber \<Rightarrow> ('q, 's) mqtt_client \<Rightarrow> 'w \<Rightarrow>
     (subscriber \<times> ('q, 's) mqtt_client \<times> 'w) option" where
  "CMQTTSubscriber_OnConnect E nUptime s c w = do {
     let s = s\<lparr>sb_ConnectTime := nUptime, sb_TimerRunning := True\<rparr>;
     (c', w) \<leftarrow> Subscribe E SUB_TOPIC MQTT_QOS_EXACTLY_ONCE c w;
     Some (subscriber_callbacks c c' s, c', w)
   }"

text \<open>\<open>OnMessage\<close>: the buffer \<open>PayloadString\<close> after the copy.\<close>

definition PayloadString_size :: nat where "PayloadString_size = 256"

definition CMQTTSubscriber_OnMessage :: "u8 list option \<Rightarrow> nat \<Rightarrow> u8 list option" where
  "CMQTTSubscriber_OnMessage pPayload nPayloadLength =
     (let PayloadString = replicate PayloadString_size 0 in
      if nPayloadLength > 0
      then do {
        let nPayloadLength = (if nPayloadLength > PayloadString_size - 1 then PayloadString_size - 1 else nPayloadLength);
        Payload \<leftarrow> pPayload;
        assert (nPayloadLength \<le> length Payload);
        put_at (take nPayloadLength Payload @ drop nPayloadLength PayloadString) nPayloadLength 0
      }
      else Some PayloadString)"

definition CMQTTSubscriber_OnLoop ::
  "('w, 'q, 'e, 's, 'f) mqtt_env \<Rightarrow> u32 \<Rightarrow> subscriber \<Rightarrow> ('q, 's) mqtt_client \<Rightarrow> 'w \<Rightarrow>
     (subscriber \<times> ('q, 's) mqtt_client \<times> 'w) option" where
  "CMQTTSubscriber_OnLoop E nUptime s c w =
     (if \<not> IsConnected c \<or> \<not> sb_TimerRunning s then Some (s, c, w)
      else if nUptime - sb_ConnectTime s \<ge> 120
      then do {
        (c', w) \<leftarrow> Disconnect E False c w;
        Some (subscriber_callbacks c c' s, c', w)
      }
      else Some (s, c, w))"

subsection \<open>The loop and the client\<close>

context mqtt_client_env
begin

lemma Disconnect_events:
  assumes inv: "mc_inv E qel sel c" and "mc_ConnectStatus c \<noteq> MQTTStatusDisconnected"
  shows "\<exists>c' w'. Disconnect E False c w = Some (c', w') \<and> mc_ConnectStatus c' = MQTTStatusDisconnected \<and>
     mc_Events c' = mc_Events c @ [OnDisconnect MQTTDisconnectFromApplication]"
proof -
  obtain p w1 where p: "new_packet E MQTTDisconnect 128 w = Some (p, w1)" "pkt_ok p" "sp_Type p = MQTTDisconnect"
    using pkt_ok_128 by blast
  obtain ok p' w2 where "SendPacket E p c w1 = Some (ok, p', c, w2)"
    using SendPacket_Disconnect [OF p(2,3) inv] by blast
  then show ?thesis
    using assms p CloseConnection_inv [of c MQTTDisconnectFromApplication w2] by (auto simp: Disconnect_def)
qed

end

lemma PUB_TOPIC_fits: "fits_memory PUB_TOPIC"
  by (simp add: PUB_TOPIC_def fits_memory_def)

lemma qos_at_least_once: "MQTT_QOS_AT_LEAST_ONCE \<le> MQTT_QOS_EXACTLY_ONCE"
  by (simp add: MQTT_QOS_AT_LEAST_ONCE_def MQTT_QOS_EXACTLY_ONCE_def)

text \<open>
  The publisher and the client work together: in every state of the client that its operations
  and the main loop can reach, \<open>OnLoop\<close> returns without a failed assertion and leaves the client in
  such a state again, so everything shown of the client holds while the publisher uses it; and once
  the connection is two minutes old it is closed and the timer of the publisher is stopped.
\<close>

theorem publisher_loop_safe:
  assumes env: "mqtt_client_quiet E qel sel pending" and "ptrs_of qel q0 = []" "ptrs_of sel s0 = []"
    and reach: "client_reach E q0 s0 c" and "fits_memory Payload"
  shows "\<exists>p' c' w'. CMQTTPublisher_OnLoop E nUptime Payload p c w = Some (p', c', w') \<and> client_reach E q0 s0 c' \<and>
     (IsConnected c \<and> pb_TimerRunning p \<and> nUptime - pb_ConnectTime p \<ge> 120 \<longrightarrow>
        mc_ConnectStatus c' = MQTTStatusDisconnected \<and> \<not> pb_TimerRunning p')"
proof -
  have e: "mqtt_client_env E qel sel" using env by (rule mqtt_client_quiet.axioms(1))
  have inv: "mc_inv E qel sel c" using mqtt_client_quiet.client_reach_inv [OF env reach assms(2,3)] .
  obtain c1 w1 where P: "Publish E PUB_TOPIC Payload MQTT_QOS_AT_LEAST_ONCE False c w = Some (c1, w1)"
    using mqtt_client_env.Publish_inv [OF e inv qos_at_least_once PUB_TOPIC_fits assms(5), of False w] by blast
  note P1 = client_reach.published [OF reach qos_at_least_once PUB_TOPIC_fits assms(5) P]
  show ?thesis
  proof (cases "IsConnected c \<and> pb_TimerRunning p")
    case True
    then have "mc_ConnectStatus c \<noteq> MQTTStatusDisconnected" by (auto simp: IsConnected_def)
    then obtain c2 w2 where D: "Disconnect E False c w = Some (c2, w2)" "mc_ConnectStatus c2 = MQTTStatusDisconnected"
        "mc_Events c2 = mc_Events c @ [OnDisconnect MQTTDisconnectFromApplication]"
      using mqtt_client_env.Disconnect_events [OF e inv, of w] by blast
    note D1 = client_reach.disconnected [OF reach D(1)]
    show ?thesis
      using True P P1 D D1 reach
      by (auto simp: CMQTTPublisher_OnLoop_def publisher_action_def Let_def publisher_callbacks_def publisher_event_def
          CMQTTPublisher_OnDisconnect_def)
  qed (use reach in \<open>auto simp: CMQTTPublisher_OnLoop_def\<close>)
qed

theorem publisher_loop_safe_witness:
  "\<exists>p' c' w'. CMQTTPublisher_OnLoop (script_env (Suc 15)) 125 [123, 125]
     \<lparr>pb_TimerRunning = True, pb_ConnectTime = 5, pb_LastPublishTime = 95\<rparr> script_new (script_world []) =
     Some (p', c', w') \<and> client_reach (script_env (Suc 15)) [] [] c'"
proof -
  have "fits_memory [123, 125 :: u8]" by (simp add: fits_memory_def)
  from publisher_loop_safe [OF script_quiet num_ptrs_Nil num_ptrs_Nil script_new_reached this] show ?thesis by blast
qed

text \<open>The same holds for the callbacks of the subscriber.\<close>

lemma SUB_TOPIC_fits: "fits_memory SUB_TOPIC"
  by (simp add: SUB_TOPIC_def fits_memory_def)

lemma subscriber_safe:
  assumes env: "mqtt_client_quiet E qel sel pending" and "ptrs_of qel q0 = []" "ptrs_of sel s0 = []"
    and reach: "client_reach E q0 s0 c"
  shows "\<exists>s' c' w'. CMQTTSubscriber_OnConnect E nUptime s c w = Some (s', c', w') \<and> client_reach E q0 s0 c'"
    and "\<exists>s' c' w'. CMQTTSubscriber_OnLoop E nUptime s c w = Some (s', c', w') \<and> client_reach E q0 s0 c' \<and>
     (IsConnected c \<and> sb_TimerRunning s \<and> nUptime - sb_ConnectTime s \<ge> 120 \<longrightarrow>
        mc_ConnectStatus c' = MQTTStatusDisconnected \<and> \<not> sb_TimerRunning s')"
proof -
  have e: "mqtt_client_env E qel sel" using env by (rule mqtt_client_quiet.axioms(1))
  have inv: "mc_inv E qel sel c" using mqtt_client_quiet.client_reach_inv [OF env reach assms(2,3)] .
  obtain c1 w1 where S: "Subscribe E SUB_TOPIC MQTT_QOS_EXACTLY_ONCE c w = Some (c1, w1)"
    using mqtt_client_env.Subscribe_inv [OF e inv order_refl SUB_TOPIC_fits, of w] by blast
  from client_reach.subscribed [OF reach order_refl SUB_TOPIC_fits S]
  show "\<exists>s' c' w'. CMQTTSubscriber_OnConnect E nUptime s c w = Some (s', c', w') \<and> client_reach E q0 s0 c'"
    using S by (simp add: CMQTTSubscriber_OnConnect_def)
  show "\<exists>s' c' w'. CMQTTSubscriber_OnLoop E nUptime s c w = Some (s', c', w') \<and> client_reach E q0 s0 c' \<and>
     (IsConnected c \<and> sb_TimerRunning s \<and> nUptime - sb_ConnectTime s \<ge> 120 \<longrightarrow>
        mc_ConnectStatus c' = MQTTStatusDisconnected \<and> \<not> sb_TimerRunning s')"
  proof (cases "IsConnected c \<and> sb_TimerRunning s")
    case True
    then have "mc_ConnectStatus c \<noteq> MQTTStatusDisconnected" by (auto simp: IsConnected_def)
    then obtain c2 w2 where D: "Disconnect E False c w = Some (c2, w2)" "mc_ConnectStatus c2 = MQTTStatusDisconnected"
        "mc_Events c2 = mc_Events c @ [OnDisconnect MQTTDisconnectFromApplication]"
      using mqtt_client_env.Disconnect_events [OF e inv, of w] by blast
    show ?thesis
      using True D client_reach.disconnected [OF reach D(1)] reach
      by (auto simp: CMQTTSubscriber_OnLoop_def subscriber_callbacks_def CMQTTSubscriber_OnDisconnect_def)
  qed (use reach in \<open>auto simp: CMQTTSubscriber_OnLoop_def\<close>)
qed

subsection \<open>The schedule of the publisher\<close>

text \<open>The run times at which a message is published, when \<open>OnLoop\<close> is called at the given uptimes.\<close>

fun publisher_sends :: "publisher \<Rightarrow> u32 list \<Rightarrow> u32 list" where
  "publisher_sends p [] = []"
| "publisher_sends p (u # us) =
     (case publisher_action u p of
        (LoopPublish, p') \<Rightarrow> (u - pb_ConnectTime p) # publisher_sends p' us
      | (_, p') \<Rightarrow> publisher_sends p' us)"

definition due :: "u32 \<Rightarrow> bool" where
  "due r \<longleftrightarrow> r < 120 \<and> r mod 30 = 5"

lemma remdups_adj_hd: "remdups_adj (x # xs) = x # tl (remdups_adj (x # xs))"
  by (metis list.exhaust_sel list.sel(1) remdups_adj_Nil_iff list.distinct(1) hd_remdups_adj)

lemma publisher_sends_after:
  "publisher_sends p us = tl (remdups_adj (pb_LastPublishTime p # filter due (map (\<lambda>u. u - pb_ConnectTime p) us)))"
proof (induction us arbitrary: p)
  case (Cons u us)
  let ?r = "u - pb_ConnectTime p" and ?F = "filter due (map (\<lambda>u. u - pb_ConnectTime p) us)"
  consider "\<not> due ?r" | "due ?r" "?r = pb_LastPublishTime p" | "due ?r" "?r \<noteq> pb_LastPublishTime p" by blast
  then show ?case
  proof cases
    case 1
    then show ?thesis using Cons.IH [of p] by (auto simp: publisher_action_def Let_def due_def not_le)
  next
    case 2
    then show ?thesis using Cons.IH [of p] by (auto simp: publisher_action_def Let_def due_def not_le)
  next
    case 3
    then have "?r mod 30 = 5" "\<not> 120 \<le> ?r" by (simp_all add: due_def not_le)
    then have "publisher_sends p (u # us) = ?r # tl (remdups_adj (?r # ?F))"
      using Cons.IH [of "p\<lparr>pb_LastPublishTime := ?r\<rparr>"] 3(2) by (simp add: publisher_action_def Let_def)
    also have "\<dots> = remdups_adj (?r # ?F)" by (rule remdups_adj_hd [symmetric])
    finally show ?thesis using 3 by simp
  qed
qed simp

text \<open>
  The schedule of the publisher: however often \<open>OnLoop\<close> is called, a message is published once in
  each of the seconds 5, 35, 65 and 95 of the connection in which it is called, and at no other time,
  unless the uptime at the moment of the connection is itself one of these numbers.
\<close>

theorem publisher_schedule:
  assumes "\<not> due nUptime"
  shows "publisher_sends (CMQTTPublisher_OnConnect nUptime p) us = remdups_adj (filter due (map (\<lambda>u. u - nUptime) us))"
proof -
  let ?F = "filter due (map (\<lambda>u. u - nUptime) us)"
  have "remdups_adj (nUptime # ?F) = nUptime # remdups_adj ?F"
    using assms by (cases ?F) (auto simp: filter_eq_Cons_iff)
  then show ?thesis by (simp add: publisher_sends_after CMQTTPublisher_OnConnect_def)
qed

theorem publisher_schedule_witness:
  "publisher_sends (CMQTTPublisher_OnConnect 20 \<lparr>pb_TimerRunning = False, pb_ConnectTime = 0, pb_LastPublishTime = 0\<rparr>)
     [20, 25, 25, 26, 55, 140] = [5, 35]"
  using publisher_schedule [of 20 _ "[20, 25, 25, 26, 55, 140]"] by (simp add: due_def)

text \<open>A connection made at uptime 5 loses its first message: a run time is compared with an uptime.\<close>

lemma publisher_first_message_lost:
  "publisher_sends (CMQTTPublisher_OnConnect 5 p) [10, 10] = []"
  by (simp add: publisher_action_def CMQTTPublisher_OnConnect_def)

subsection \<open>The buffer of the subscriber\<close>

text \<open>\<open>OnMessage\<close> prints the payload, cut to 255 bytes, and stays within its buffer.\<close>

lemma OnMessage_payload:
  assumes "n = length Payload"
  shows "\<exists>b. CMQTTSubscriber_OnMessage (Some Payload) n = Some b \<and> length b = 256 \<and>
    take (min n 255) b = take 255 Payload \<and> b ! min n 255 = 0"
proof -
  let ?k = "min n 255"
  have "CMQTTSubscriber_OnMessage (Some Payload) n =
      Some (if n > 0 then (take ?k Payload @ drop ?k (replicate 256 0))[?k := 0] else replicate 256 0)"
    using assms by (simp add: CMQTTSubscriber_OnMessage_def PayloadString_size_def assert_def put_at_def min_def Let_def)
  then show ?thesis
    using assms by (auto simp: nth_append min_def)
qed

end
