(* ===== verification/C_Strings.thy ===== *)
theory C_Strings
  imports Prelude
begin

text \<open>
  The string functions of the C library that the HTTP client uses, on character arrays:
  \<open>strtok_r\<close> (which writes into the array), \<open>strtoul\<close> with its end pointer,
  \<open>strcasecmp\<close>, and the formats \<open>%u\<close> and \<open>%x\<close> of \<open>CString::Format\<close>.
  Pointers into an array are indices; reading a string that is not terminated within the array
  yields \<open>None\<close>. The type \<open>unsigned long\<close> has 32 bits.
\<close>

definition c_str_at :: "u8 list \<Rightarrow> nat \<Rightarrow> cstring option" where
  "c_str_at buf i =
     (if 0 \<in> set (drop i buf) then Some (takeWhile (\<lambda>c. c \<noteq> 0) (drop i buf)) else None)"

definition strtok_r ::
  "u8 list \<Rightarrow> nat option \<Rightarrow> cstring \<Rightarrow> (nat option \<times> u8 list \<times> nat option) option" where
  "strtok_r buf start delims =
     (case start of
        None \<Rightarrow> Some (None, buf, None)
      | Some i \<Rightarrow> do {
          s \<leftarrow> c_str_at buf i;
          let n = length (takeWhile (\<lambda>c. c \<in> set delims) s);
          let t = drop n s;
          let m = length (takeWhile (\<lambda>c. c \<notin> set delims) t);
          Some (if t = [] then (None, buf, None)
                else if m = length t then (Some (i + n), buf, None)
                else (Some (i + n), buf[i + n + m := 0], Some (i + n + m + 1)))
        })"

definition isspace :: "u8 \<Rightarrow> bool" where
  "isspace c \<longleftrightarrow> c = 32 \<or> (9 \<le> c \<and> c \<le> 13)"

definition digit_value :: "u8 \<Rightarrow> nat" where
  "digit_value c =
     (if 48 \<le> c \<and> c \<le> 57 then unat c - 48
      else if 97 \<le> c \<and> c \<le> 122 then unat c - 87
      else if 65 \<le> c \<and> c \<le> 90 then unat c - 55
      else 99)"

definition digits_value :: "nat \<Rightarrow> u8 list \<Rightarrow> nat" where
  "digits_value base ds = foldl (\<lambda>a c. a * base + digit_value c) 0 ds"

definition sign_of :: "cstring \<Rightarrow> bool \<times> nat" where
  "sign_of s = (case s of [] \<Rightarrow> (False, 0)
     | c # _ \<Rightarrow> if c = 45 then (True, 1) else if c = 43 then (False, 1) else (False, 0))"

fun hex_prefix :: "cstring \<Rightarrow> bool" where
  "hex_prefix (z # x # d # _) \<longleftrightarrow> z = 48 \<and> (x = 120 \<or> x = 88) \<and> digit_value d < 16"
| "hex_prefix _ \<longleftrightarrow> False"

text \<open>The value, and the offset of the end pointer.\<close>

definition strtoul :: "nat \<Rightarrow> cstring \<Rightarrow> nat \<times> nat" where
  "strtoul base s =
     (let n1 = length (takeWhile isspace s);
          (neg, k) = sign_of (drop n1 s);
          n2 = n1 + k;
          n3 = (if base = 16 \<and> hex_prefix (drop n2 s) then n2 + 2 else n2);
          ds = takeWhile (\<lambda>c. digit_value c < base) (drop n3 s);
          v = digits_value base ds
      in if ds = [] then (0, 0)
         else (if v \<ge> 2 ^ 32 then 2 ^ 32 - 1 else if neg then wrap32 (2 ^ 32 - v) else v,
               n3 + length ds))"

definition tolower :: "u8 \<Rightarrow> u8" where
  "tolower c = (if 65 \<le> c \<and> c \<le> 90 then c + 32 else c)"

definition strcaseeq :: "cstring \<Rightarrow> cstring \<Rightarrow> bool" where
  "strcaseeq s t \<longleftrightarrow> map tolower s = map tolower t"

definition digit_char :: "nat \<Rightarrow> u8" where
  "digit_char n = of_nat (if n < 10 then 48 + n else 87 + n)"

function fmt_num :: "nat \<Rightarrow> nat \<Rightarrow> cstring" where
  "fmt_num base n =
     (if n < base \<or> base < 2 then [digit_char n]
      else fmt_num base (n div base) @ [digit_char (n mod base)])"
  by pat_completeness auto
termination by (relation "measure snd") auto

declare fmt_num.simps [simp del]

subsection \<open>Laws\<close>

lemma c_str_at_terminated:
  assumes "i + length s < length buf" "take (length s) (drop i buf) = s" "buf ! (i + length s) = 0"
    "c_string s"
  shows "c_str_at buf i = Some s"
proof -
  have d: "drop i buf = s @ 0 # drop (Suc (i + length s)) buf"
    using assms by (metis (no_types) Cons_nth_drop_Suc add.commute append_take_drop_id drop_drop)
  moreover have "takeWhile (\<lambda>c. c \<noteq> 0) (s @ 0 # r) = s" for r
    using assms(4) by (subst takeWhile_append2) (auto simp: c_string_def)
  ultimately show ?thesis by (simp add: c_str_at_def)
qed

lemma c_str_at_some:
  assumes "c_str_at buf i = Some s"
  shows "c_string s" "i + length s < length buf" "buf ! (i + length s) = 0" "take (length s) (drop i buf) = s"
proof -
  let ?d = "drop i buf"
  have z: "0 \<in> set ?d" and s: "s = takeWhile (\<lambda>c. c \<noteq> 0) ?d"
    using assms by (auto simp: c_str_at_def split: if_splits)
  show "c_string s" unfolding s c_string_def by (auto dest: set_takeWhileD)
  have l: "length s < length ?d"
    unfolding s using z by (metis (mono_tags, lifting) length_takeWhile_le nat_less_le set_takeWhileD takeWhile_eq_take take_all_iff)
  then show "i + length s < length buf" by simp
  have "?d ! length s = 0" using nth_length_takeWhile [of "\<lambda>c. c \<noteq> 0" ?d] l unfolding s by auto
  then show "buf ! (i + length s) = 0" using l by simp
  show "take (length s) ?d = s" unfolding s by (simp flip: takeWhile_eq_take)
qed

lemma strtok_r_length: "strtok_r buf st ds = Some (t, buf', sv) \<Longrightarrow> length buf' = length buf"
  by (auto simp: strtok_r_def Let_def res_simps split: option.splits if_splits)

lemma c_str_at_update:
  assumes "c_str_at buf i = Some s" "j < i + length s" "i \<le> j" "c_string (take (j - i) s)"
  shows "c_str_at (buf[j := 0]) i = Some (take (j - i) s)"
proof -
  note b = c_str_at_some [OF assms(1)]
  have "take (j - i) (drop i buf) = take (j - i) s"
    using assms(2,3) b(4) by (metis (no_types) min.absorb1 nat_less_le add.commute less_diff_conv2 take_take)
  moreover have "take (j - i) (drop i (buf[j := 0])) = take (j - i) (drop i buf)"
    using assms(2,3) b(2) by (simp add: drop_update_swap)
  ultimately show ?thesis
    using assms b(2) by (intro c_str_at_terminated) auto
qed

lemma c_str_at_suffix:
  assumes "c_str_at buf i = Some s" "n \<le> length s"
  shows "c_str_at buf (i + n) = Some (drop n s)"
proof (rule c_str_at_terminated)
  note b = c_str_at_some [OF assms(1)]
  show "take (length (drop n s)) (drop (i + n) buf) = drop n s"
    using arg_cong [OF b(4), of "drop n"] by (simp add: drop_take add.commute)
  show "c_string (drop n s)" using b(1) by (auto simp: c_string_def dest: in_set_dropD)
qed (use assms c_str_at_some [OF assms(1)] in auto)

text \<open>The token and the rest of the string, as a function on strings.\<close>

definition tokenize :: "cstring \<Rightarrow> cstring \<Rightarrow> (cstring \<times> cstring option) option" where
  "tokenize delims s =
     (let t = dropWhile (\<lambda>c. c \<in> set delims) s
      in if t = [] then None
         else Some (takeWhile (\<lambda>c. c \<notin> set delims) t,
                    case dropWhile (\<lambda>c. c \<notin> set delims) t of [] \<Rightarrow> None | _ # r \<Rightarrow> Some r))"

definition points_to :: "u8 list \<Rightarrow> nat option \<Rightarrow> cstring option \<Rightarrow> bool" where
  "points_to buf p s \<longleftrightarrow> (case p of None \<Rightarrow> s = None | Some i \<Rightarrow> s \<noteq> None \<and> c_str_at buf i = s)"

lemma points_to_simps [simp]:
  "points_to buf None s = (s = None)"
  "points_to buf p None = (p = None)"
  "points_to buf (Some i) (Some t) = (c_str_at buf i = Some t)"
  by (auto simp: points_to_def split: option.splits)

lemma zero_remains: "0 \<in> set buf \<Longrightarrow> 0 \<in> set (buf[j := (0::u8)])"
  by (cases "j < length buf") (auto simp: set_update_memI list_update_beyond)

lemma strtok_r_run:
  assumes "c_str_at buf i = Some s" "n = length (takeWhile (\<lambda>c. c \<in> set ds) s)"
    "m = length (takeWhile (\<lambda>c. c \<notin> set ds) (drop n s))"
  shows "strtok_r buf (Some i) ds = Some (if drop n s = [] then (None, buf, None)
      else if m = length (drop n s) then (Some (i + n), buf, None)
      else (Some (i + n), buf[i + n + m := 0], Some (i + n + m + 1)))"
  unfolding strtok_r_def option.case assms(1) Option.bind_lunit Let_def assms(2) [symmetric] assms(3) [symmetric] ..

lemma tokenize_run:
  assumes "n = length (takeWhile (\<lambda>c. c \<in> set ds) s)"
    "m = length (takeWhile (\<lambda>c. c \<notin> set ds) (drop n s))"
  shows "tokenize ds s = (if drop n s = [] then None
     else Some (take m (drop n s), if m = length (drop n s) then None else Some (drop (Suc m) (drop n s))))"
proof -
  have t: "dropWhile (\<lambda>c. c \<in> set ds) s = drop n s" by (simp only: dropWhile_eq_drop assms)
  have tk: "takeWhile (\<lambda>c. c \<notin> set ds) (drop n s) = take m (drop n s)"
    unfolding assms(2) by (rule takeWhile_eq_take)
  have dr: "dropWhile (\<lambda>c. c \<notin> set ds) (drop n s) = drop m (drop n s)"
    unfolding assms(2) by (rule dropWhile_eq_drop)
  have "m \<le> length (drop n s)" unfolding assms(2) by (rule length_takeWhile_le)
  then have "(case drop m (drop n s) of [] \<Rightarrow> None | _ # r \<Rightarrow> Some r) =
      (if m = length (drop n s) then None else Some (drop (Suc m) (drop n s)))"
    by (cases "drop m (drop n s)") (auto dest: drop_nth_Cons)
  then show ?thesis unfolding tokenize_def Let_def t tk dr by simp
qed

lemma strtok_r_spec:
  assumes "c_str_at buf i = Some s"
  obtains t buf' sv where "strtok_r buf (Some i) ds = Some (t, buf', sv)"
    "length buf' = length buf" "0 \<in> set buf'"
    "points_to buf' t (map_option fst (tokenize ds s))"
    "points_to buf' sv (Option.bind (tokenize ds s) snd)"
proof -
  note b = c_str_at_some [OF assms]
  obtain n where n: "n = length (takeWhile (\<lambda>c. c \<in> set ds) s)" by blast
  obtain m where m: "m = length (takeWhile (\<lambda>c. c \<notin> set ds) (drop n s))" by blast
  obtain t where t: "t = drop n s" by blast
  note run = strtok_r_run [OF assms n m, folded t] and tok = tokenize_run [OF n m, folded t]
  have "n \<le> length s" unfolding n by (rule length_takeWhile_le)
  then have at: "c_str_at buf (i + n) = Some t" using c_str_at_suffix [OF assms] t by simp
  have z: "0 \<in> set buf" using b(2,3) by (metis nth_mem)
  have ml: "m \<le> length t" unfolding m t by (rule length_takeWhile_le)
  show thesis
  proof (cases "t = [] \<or> m = length t")
    case True
    then show thesis using that run tok z at by (cases "t = []") auto
  next
    case False
    let ?b = "buf[i + n + m := 0]"
    have lt: "m < length t" using False ml by simp
    have "c_string (take m t)" using c_str_at_some(1) [OF at] by (auto simp: c_string_def dest: in_set_takeD)
    then have "c_str_at ?b (i + n) = Some (take m t)"
      using c_str_at_update [OF at, of "i + n + m"] lt by simp
    moreover have "c_str_at ?b (i + n + m + 1) = Some (drop (Suc m) t)"
      using c_str_at_suffix [OF at, of "Suc m"] lt by (simp add: c_str_at_def add.assoc split: if_splits)
    ultimately show thesis
      using that [of "Some (i + n)" ?b "Some (i + n + m + 1)"] run tok False zero_remains [OF z] by simp
  qed
qed

subsection \<open>Numbers\<close>

lemma digit_char_value: "d < 16 \<Longrightarrow> digit_value (digit_char d) = d"
proof -
  assume "d < 16"
  then have u: "unat (digit_char d) = (if d < 10 then 48 + d else 87 + d)"
    by (simp add: digit_char_def unat_of_nat)
  then show ?thesis
    using \<open>d < 16\<close> by (simp add: digit_value_def word_le_nat_alt)
qed

lemma digit_char_range:
  assumes "d < 16"
  shows "digit_char d \<noteq> 0" "\<not> isspace (digit_char d)" "digit_char d \<noteq> 43" "digit_char d \<noteq> 45"
    "digit_char d \<noteq> 120" "digit_char d \<noteq> 88" "digit_char d \<noteq> 10" "digit_char d \<noteq> 13"
proof -
  have u: "unat (digit_char d) = (if d < 10 then 48 + d else 87 + d)"
    using assms by (simp add: digit_char_def unat_of_nat)
  then show "digit_char d \<noteq> 0" "\<not> isspace (digit_char d)" "digit_char d \<noteq> 43" "digit_char d \<noteq> 45"
    "digit_char d \<noteq> 120" "digit_char d \<noteq> 88" "digit_char d \<noteq> 10" "digit_char d \<noteq> 13"
    using assms by (auto simp: isspace_def word_le_nat_alt word_unat_eq_iff)
qed

lemma digits_value_snoc: "digits_value b (ds @ [d]) = digits_value b ds * b + digit_value d"
  by (simp add: digits_value_def)

lemma fmt_num_digits:
  assumes "2 \<le> b" "b \<le> 16"
  shows "fmt_num b n \<noteq> [] \<and> set (fmt_num b n) \<subseteq> digit_char ` {..<b} \<and> digits_value b (fmt_num b n) = n"
  using assms
proof (induction b n rule: fmt_num.induct)
  case (1 b n)
  show ?case
  proof (cases "n < b")
    case True
    then show ?thesis using 1(3) by (subst fmt_num.simps) (simp add: digits_value_def digit_char_value fmt_num.simps)
  next
    case False
    have "n mod b < b" using 1(2) by simp
    then have r: "n mod b < 16" "n mod b < b" using 1(3) by simp_all
    have "fmt_num b n = fmt_num b (n div b) @ [digit_char (n mod b)]"
      using False 1(2) by (subst fmt_num.simps) simp
    with r show ?thesis
      using 1 False digit_char_value [OF r(1)] by (auto simp: digits_value_snoc)
  qed
qed

lemma strtoul_digits:
  assumes ds: "ds \<noteq> []" "set ds \<subseteq> digit_char ` {..<b}" "2 \<le> b" "b \<le> 16" and v: "digits_value b ds < 2 ^ 32"
  shows "strtoul b ds = (digits_value b ds, length ds)"
proof -
  have d: "\<exists>k < 16. c = digit_char k \<and> k < b" if "c \<in> set ds" for c using that ds(2,4) by force
  then have c: "c \<in> set ds \<Longrightarrow> \<not> isspace c \<and> c \<noteq> 43 \<and> c \<noteq> 45 \<and> c \<noteq> 120 \<and> c \<noteq> 88 \<and> digit_value c < b" for c
    using digit_char_range digit_char_value by metis
  obtain x xs where x: "ds = x # xs" using ds(1) by (cases ds) auto
  then have "takeWhile isspace ds = []" "sign_of ds = (False, 0)" using c [of x] by (simp_all add: sign_of_def)
  moreover have "\<not> hex_prefix ds" using c by (cases ds rule: hex_prefix.cases) auto
  moreover have "takeWhile (\<lambda>c. digit_value c < b) ds = ds" using c by (simp add: takeWhile_eq_all_conv)
  ultimately show ?thesis using ds(1) v by (simp add: strtoul_def Let_def del: takeWhile_eq_all_conv)
qed

lemma strtoul_fmt_num:
  assumes "2 \<le> b" "b \<le> 16" "n < 2 ^ 32"
  shows "strtoul b (fmt_num b n) = (n, length (fmt_num b n))"
  using strtoul_digits [of "fmt_num b n" b] fmt_num_digits [OF assms(1,2), of n] assms by simp

lemma fmt_num_length: "n < b ^ Suc k \<Longrightarrow> 2 \<le> b \<Longrightarrow> length (fmt_num b n) \<le> Suc k"
proof (induction k arbitrary: n)
  case 0
  then show ?case by (subst fmt_num.simps) simp
next
  case (Suc k)
  show ?case
  proof (cases "n < b")
    case True
    then show ?thesis by (subst fmt_num.simps) simp
  next
    case False
    have "n div b < b ^ Suc k" using Suc.prems by (simp add: less_mult_imp_div_less mult.commute)
    with Suc False show ?thesis by (subst fmt_num.simps) simp
  qed
qed

end
