(* ===== verification/Http_Client.thy ===== *)
theory Http_Client
  imports C_Strings Circle_Interface
begin

text \<open>
  The class \<open>CHTTPClient\<close> (\<open>include/circle-mbedtls/httpclient.h\<close>,
  \<open>http.h\<close>, \<open>src/circle-mbedtls/httpclient.cpp\<close>): the text of the request, the
  parser of the response, a state machine that takes one character at a time, and \<open>Request\<close>
  with all its returns. The array \<open>Line\<close> of the parser keeps what it held, also the zeros
  that \<open>strtok_r\<close> wrote into it, since the code reads it again without clearing it.
  The constructor takes a null server name as the empty string. A null pointer passed to \<open>strtoul\<close>, an access outside an array and a failed assertion are
  \<open>None\<close>; a \<open>return\<close> in the parser is \<open>Inl\<close> of the statements before it and the status.
\<close>

definition HTTP_MAX_REQUEST_LINE :: nat where "HTTP_MAX_REQUEST_LINE = 2048"

datatype http_method =
  HTTPRequestMethodGet | HTTPRequestMethodHead | HTTPRequestMethodPost | HTTPRequestMethodUnknown

text \<open>The enumeration \<open>THTTPStatus\<close> also takes status codes it has no name for.\<close>

type_synonym http_status = nat

definition HTTPOK :: http_status where "HTTPOK = 200"
definition HTTPRequestTimeout :: http_status where "HTTPRequestTimeout = 408"
definition HTTPConnectionReset :: http_status where "HTTPConnectionReset = 550"
definition HTTPInvalidResponseCode :: http_status where "HTTPInvalidResponseCode = 551"
definition HTTPInvalidChunkHeader :: http_status where "HTTPInvalidChunkHeader = 552"
definition HTTPContentBufferTooSmall :: http_status where "HTTPContentBufferTooSmall = 553"
definition HTTPInternalClientError :: http_status where "HTTPInternalClientError = 554"

lemmas http_status_defs = HTTPOK_def HTTPRequestTimeout_def HTTPConnectionReset_def
  HTTPInvalidResponseCode_def HTTPInvalidChunkHeader_def HTTPContentBufferTooSmall_def
  HTTPInternalClientError_def

record http_client =
  hc_ServerIP :: "u8 list"
  hc_ServerPort :: u16
  hc_ServerName :: cstring
  hc_UseSSL :: bool
  hc_Socket :: bool

definition CHTTPClient_new :: "u8 list \<Rightarrow> u16 \<Rightarrow> cstring option \<Rightarrow> bool \<Rightarrow> http_client" where
  "CHTTPClient_new rServerIP nServerPort pServerName bUseSSL =
     \<lparr>hc_ServerIP = rServerIP, hc_ServerPort = nServerPort,
      hc_ServerName = (case pServerName of None \<Rightarrow> [] | Some s \<Rightarrow> s),
      hc_UseSSL = bUseSSL, hc_Socket = False\<rparr>"

text \<open>The destructor; \<open>delete\<close> of a null pointer does nothing.\<close>

definition CHTTPClient_delete ::
  "('w, 'x) net_env_scheme \<Rightarrow> http_client \<Rightarrow> 'w \<Rightarrow> http_client \<times> 'w" where
  "CHTTPClient_delete E h w =
     (h\<lparr>hc_Socket := False\<rparr>, if hc_Socket h then sock_delete E w else w)"

text \<open>
  The statements \<open>delete m_pSocket\<close> and \<open>m_pSocket = 0\<close>, which every return of \<open>Request\<close> has to execute;
  \<open>hc_Socket\<close> says whether the pointer \<open>m_pSocket\<close> is set. A return is the list of the statements before it
  with the status.
\<close>

datatype exit_stmt = Delete_Socket | Clear_Socket

type_synonym http_exit = "exit_stmt list \<times> http_status"

fun exit_run :: "('w, 'x) net_env_scheme \<Rightarrow> exit_stmt list \<Rightarrow> http_client \<times> 'w \<Rightarrow> http_client \<times> 'w" where
  "exit_run E [] (h, w) = (h, w)"
| "exit_run E (Delete_Socket # ss) (h, w) = exit_run E ss (h, if hc_Socket h then sock_delete E w else w)"
| "exit_run E (Clear_Socket # ss) (h, w) = exit_run E ss (h\<lparr>hc_Socket := False\<rparr>, w)"

subsection \<open>The request\<close>

abbreviation crlf :: cstring where "crlf \<equiv> [13, 10]"

definition method_name :: "http_method \<Rightarrow> cstring option" where
  "method_name m = (case m of
      HTTPRequestMethodGet \<Rightarrow> Some (cstr ''GET'')
    | HTTPRequestMethodPost \<Rightarrow> Some (cstr ''POST'')
    | _ \<Rightarrow> None)"

definition request_text :: "http_client \<Rightarrow> http_method \<Rightarrow> cstring \<Rightarrow> cstring option \<Rightarrow> cstring option" where
  "request_text h Method pPath pFormData = do {
     pMethod \<leftarrow> method_name Method;
     Some (pMethod @ [32] @ pPath @ cstr '' HTTP/1.1'' @ crlf @
       (if length (hc_ServerName h) > 0 then cstr ''Host: '' @ hc_ServerName h @ crlf else []) @
       cstr ''User-Agent: CHTTPClient/0.10 (Circle)'' @ crlf @
       cstr ''Connection: close'' @ crlf @
       (case pFormData of None \<Rightarrow> []
        | Some d \<Rightarrow> cstr ''Content-Type: application/x-www-form-urlencoded'' @ crlf @
            cstr ''Content-Length: '' @ fmt_num 10 (wrap32 (length d)) @ crlf) @
       crlf @
       (case pFormData of None \<Rightarrow> [] | Some d \<Rightarrow> d))
   }"

subsection \<open>The response\<close>

record http_parser =
  hp_State :: nat
  hp_nLine :: nat
  hp_nChar :: nat
  hp_nLength :: nat
  hp_Chunked :: bool
  hp_Bytes :: nat
  hp_Line :: "u8 list"
  hp_Buffer :: "u8 list"

definition http_start :: "u8 list \<Rightarrow> u8 list \<Rightarrow> http_parser" where
  "http_start Line pBuffer = \<lparr>hp_State = 0, hp_nLine = 0, hp_nChar = 0, hp_nLength = 0,
     hp_Chunked = False, hp_Bytes = 0, hp_Line = Line, hp_Buffer = pBuffer\<rparr>"

text \<open>
  The first line, "HTTP/1.x 200 OK" expected. The pointer of the last \<open>strtok_r\<close> is passed to
  \<open>strtoul\<close> where one of the tests fails; it is null where a token is missing.
\<close>

definition status_line :: "u8 list \<Rightarrow> (http_status + u8 list) option" where
  "status_line Line = do {
     (pToken, Line, pSavePtr) \<leftarrow> strtok_r Line (Some 0) (cstr ''/'');
     (pToken, Line, rejected) \<leftarrow>
       (case pToken of
          None \<Rightarrow> Some (None, Line, True)
        | Some i \<Rightarrow> do {
            s \<leftarrow> c_str_at Line i;
            if s \<noteq> cstr ''HTTP'' then Some (Some i, Line, True)
            else do {
              (pToken, Line, pSavePtr) \<leftarrow> strtok_r Line pSavePtr (cstr '' '');
              case pToken of
                None \<Rightarrow> Some (None, Line, True)
              | Some _ \<Rightarrow> do {
                  (pToken, Line, pSavePtr) \<leftarrow> strtok_r Line pSavePtr (cstr '' '');
                  case pToken of
                    None \<Rightarrow> Some (None, Line, True)
                  | Some k \<Rightarrow> do {
                      s \<leftarrow> c_str_at Line k;
                      Some (Some k, Line, s \<noteq> cstr ''200'')
                    }
                }
            }
          });
     if \<not> rejected then Some (Inr Line)
     else do {
       k \<leftarrow> pToken;
       s \<leftarrow> c_str_at Line k;
       let (ulStatus, pEnd) = strtoul 10 s;
       Some (Inl (if pEnd < length s then HTTPInvalidResponseCode else ulStatus))
     }
   }"

text \<open>A header line: whether it announces the chunked transfer encoding, and the array left.\<close>

definition option_line :: "u8 list \<Rightarrow> (bool \<times> u8 list) option" where
  "option_line Line = do {
     (pToken, Line, pSavePtr) \<leftarrow> strtok_r Line (Some 0) (cstr '': '');
     case pToken of
       None \<Rightarrow> Some (False, Line)
     | Some i \<Rightarrow> do {
         s \<leftarrow> c_str_at Line i;
         if strcaseeq s (cstr ''Transfer-Encoding'')
         then do {
           (pToken, Line, pSavePtr) \<leftarrow> strtok_r Line pSavePtr (cstr '' '');
           case pToken of
             None \<Rightarrow> Some (False, Line)
           | Some k \<Rightarrow> do { s \<leftarrow> c_str_at Line k; Some (strcaseeq s (cstr ''chunked''), Line) }
         }
         else Some (False, Line)
       }
   }"

text \<open>\<open>Line[nChar++] = chChar; Line[nChar] = 0\<close> while there is room.\<close>

definition accumulate :: "u8 \<Rightarrow> http_parser \<Rightarrow> http_parser option" where
  "accumulate c p =
     (if hp_nChar p < HTTP_MAX_REQUEST_LINE - 1
      then do {
        l \<leftarrow> put_at (hp_Line p) (hp_nChar p) c;
        l \<leftarrow> put_at l (hp_nChar p + 1) 0;
        Some (p\<lparr>hp_Line := l, hp_nChar := hp_nChar p + 1\<rparr>)
      }
      else Some p)"

text \<open>
  Storing a byte of the content, \<open>None\<close> inside if the buffer is full; \<open>pLength\<close> is null or points to the
  size of the buffer.
\<close>

definition store_content :: "nat option \<Rightarrow> u8 \<Rightarrow> http_parser \<Rightarrow> http_parser option option" where
  "store_content pLength c p = do {
     n \<leftarrow> pLength;
     if hp_nLength p \<ge> n then Some None
     else do {
       b \<leftarrow> put_at (hp_Buffer p) (hp_nLength p) c;
       Some (Some (p\<lparr>hp_Buffer := b, hp_nLength := hp_nLength p + 1\<rparr>))
     }
   }"

definition header_char :: "u8 \<Rightarrow> http_parser \<Rightarrow> (http_exit + http_parser) option" where
  "header_char c p =
     (if c = 13 then Some (Inr p)
      else if c = 10 then
        (if hp_nChar p = 0
         then Some (Inr (p\<lparr>hp_State := (if hp_Chunked p then 2 else 1), hp_nChar := 0\<rparr>))
         else if hp_nLine p = 0
         then do {
           r \<leftarrow> status_line (hp_Line p);
           case r of Inl ulStatus \<Rightarrow> Some (Inl ([Delete_Socket, Clear_Socket], ulStatus))
           | Inr l \<Rightarrow> Some (Inr (p\<lparr>hp_nLine := wrap32 (hp_nLine p + 1), hp_Line := l, hp_nChar := 0\<rparr>))
         }
         else do {
           (chunked, l) \<leftarrow> option_line (hp_Line p);
           Some (Inr (p\<lparr>hp_nLine := wrap32 (hp_nLine p + 1), hp_Line := l, hp_nChar := 0,
                        hp_Chunked := hp_Chunked p \<or> chunked\<rparr>))
         })
      else map_option Inr (accumulate c p))"

definition content_char :: "nat option \<Rightarrow> u8 \<Rightarrow> http_parser \<Rightarrow> (http_exit + http_parser) option" where
  "content_char pLength c p = do {
     r \<leftarrow> store_content pLength c p;
     Some (case r of None \<Rightarrow> Inl ([Delete_Socket, Clear_Socket], HTTPContentBufferTooSmall) | Some p \<Rightarrow> Inr p)
   }"

definition chunk_header_char :: "u8 \<Rightarrow> http_parser \<Rightarrow> (http_exit + http_parser) option" where
  "chunk_header_char c p =
     (if c = 13 then Some (Inr p)
      else if c = 10 then do {
        s \<leftarrow> c_str_at (hp_Line p) 0;
        let (ulBytes, pEnd) = strtoul 16 s;
        Some (if pEnd < length s then Inl ([Delete_Socket, Clear_Socket], HTTPInvalidChunkHeader)
              else Inr (p\<lparr>hp_Bytes := ulBytes, hp_State := (if ulBytes \<noteq> 0 then 3 else 5)\<rparr>))
      }
      else map_option Inr (accumulate c p))"

definition chunk_data_char :: "nat option \<Rightarrow> u8 \<Rightarrow> http_parser \<Rightarrow> (http_exit + http_parser) option" where
  "chunk_data_char pLength c p = do {
     r \<leftarrow> store_content pLength c p;
     case r of None \<Rightarrow> Some (Inl ([Delete_Socket, Clear_Socket], HTTPContentBufferTooSmall))
     | Some p \<Rightarrow>
         let b = wrap32 (hp_Bytes p + 2 ^ 32 - 1)
         in Some (Inr (p\<lparr>hp_Bytes := b, hp_State := (if b = 0 then 4 else hp_State p)\<rparr>))
   }"

definition chunk_trailer_char :: "u8 \<Rightarrow> http_parser \<Rightarrow> (http_exit + http_parser) option" where
  "chunk_trailer_char c p =
     Some (if c = 13 then Inr p
           else if c \<noteq> 10 then Inl ([Delete_Socket, Clear_Socket], HTTPInvalidChunkHeader)
           else Inr (p\<lparr>hp_nChar := 0, hp_State := 2\<rparr>))"

definition http_char :: "nat option \<Rightarrow> u8 \<Rightarrow> http_parser \<Rightarrow> (http_exit + http_parser) option" where
  "http_char pLength c p =
     (if hp_State p = 0 then header_char c p
      else if hp_State p = 1 then content_char pLength c p
      else if hp_State p = 2 then chunk_header_char c p
      else if hp_State p = 3 then chunk_data_char pLength c p
      else if hp_State p = 4 then chunk_trailer_char c p
      else Some (Inr p))"

text \<open>The loop over the characters of one frame; a return comes with the content stored so far.\<close>

fun http_bytes ::
  "nat option \<Rightarrow> u8 list \<Rightarrow> http_parser \<Rightarrow> ((http_exit \<times> u8 list) + http_parser) option" where
  "http_bytes pLength [] p = Some (Inr p)"
| "http_bytes pLength (c # cs) p =
     (case http_char pLength c p of
        None \<Rightarrow> None
      | Some (Inl st) \<Rightarrow> Some (Inl (st, hp_Buffer p))
      | Some (Inr p') \<Rightarrow> http_bytes pLength cs p')"

text \<open>The loop over the frames; the outer \<open>None\<close> stands for a loop that does not end.\<close>

partial_function (option) http_receive ::
  "('w, 'x) net_env_scheme \<Rightarrow> nat option \<Rightarrow> http_parser \<Rightarrow> 'w \<Rightarrow>
     (((http_exit \<times> u8 list) + http_parser) \<times> 'w) option option" where
  "http_receive E pLength p w =
     (if hp_State p < 5
      then (case sock_Receive E (FRAME_BUFFER_SIZE E) False w of
              ((nResult, Buffer), w') \<Rightarrow>
                if nResult > 0
                then (case http_bytes pLength Buffer p of
                        None \<Rightarrow> Some None
                      | Some (Inl r) \<Rightarrow> Some (Some (Inl r, w'))
                      | Some (Inr p') \<Rightarrow> http_receive E pLength p' w')
                else Some (Some (Inr p, w')))
      else Some (Some (Inr p, w)))"

text \<open>Opening the connection: the return on failure, the client and the world.\<close>

definition http_connect ::
  "('w, 'x) net_env_scheme \<Rightarrow> http_client \<Rightarrow> 'w \<Rightarrow> (http_exit option \<times> http_client \<times> 'w) option" where
  "http_connect E h w = do {
     let w = sock_new E (hc_UseSSL h) w;
     let h = h\<lparr>hc_Socket := True\<rparr>;
     (failed, w) \<leftarrow>
       (if \<not> hc_UseSSL h then Some (None, w)
        else do {
          let (r, w) = ssl_AddCertificatePath E (cstr ''/'') w;
          if r < 0 then Some (Some ([Delete_Socket, Clear_Socket], HTTPInternalClientError), w)
          else do {
            assert (length (hc_ServerName h) > 0);
            (r, w) \<leftarrow> simple_Setup E (hc_ServerName h) None w;
            Some (if r \<noteq> 0 then Some ([Delete_Socket, Clear_Socket], HTTPInternalClientError) else None, w)
          }
        });
     Some (case failed of
         Some ex \<Rightarrow> (Some ex, h, w)
       | None \<Rightarrow>
           let (r, w) = sock_Connect E (hc_ServerIP h) (hc_ServerPort h) w
           in (if r < 0 then Some ([Delete_Socket, Clear_Socket], HTTPRequestTimeout) else None, h, w))
   }"

text \<open>
  \<open>Request\<close>: the status, the content buffer and what \<open>*pLength\<close> holds afterwards. The
  argument \<open>Line\<close> is what the uninitialised array holds.
\<close>

record http_result =
  hr_Status :: http_status
  hr_Buffer :: "u8 list"
  hr_Length :: "nat option"

definition http_finish :: "nat option \<Rightarrow> http_parser \<Rightarrow> (exit_stmt list \<times> http_result) option" where
  "http_finish pLength p =
     (if hp_State p < 5 \<and> hp_State p \<noteq> 1
      then Some ([Delete_Socket, Clear_Socket],
             \<lparr>hr_Status = HTTPConnectionReset, hr_Buffer = hp_Buffer p, hr_Length = pLength\<rparr>)
      else do {
        n \<leftarrow> pLength;
        assert (hp_nLength p \<le> n);
        Some ([Delete_Socket, Clear_Socket],
          \<lparr>hr_Status = HTTPOK, hr_Buffer = hp_Buffer p, hr_Length = Some (hp_nLength p)\<rparr>)
      })"

definition Request ::
  "('w, 'x) net_env_scheme \<Rightarrow> u8 list \<Rightarrow> http_method \<Rightarrow> cstring \<Rightarrow> u8 list \<Rightarrow> nat option \<Rightarrow>
     cstring option \<Rightarrow> http_client \<Rightarrow> 'w \<Rightarrow> (http_result \<times> http_client \<times> 'w) option option" where
  "Request E Line Method pPath pBuffer pLength pFormData h w =
     (let failure = (\<lambda>(ss, st) b hw. Some (Some (\<lparr>hr_Status = st, hr_Buffer = b, hr_Length = pLength\<rparr>, exit_run E ss hw)))
      in if hc_Socket h then Some None
         else case http_connect E h w of
           None \<Rightarrow> Some None
         | Some (Some ex, h, w) \<Rightarrow> failure ex pBuffer (h, w)
         | Some (None, h, w) \<Rightarrow>
             (case request_text h Method pPath pFormData of
                None \<Rightarrow> Some None
              | Some text \<Rightarrow>
                  let (r, w) = sock_Send E text False w
                  in if r < 0 then failure ([Delete_Socket, Clear_Socket], HTTPConnectionReset) pBuffer (h, w)
                     else do {
                       result \<leftarrow> http_receive E pLength (http_start Line pBuffer) w;
                       case result of
                         None \<Rightarrow> Some None
                       | Some (Inl (ex, b), w) \<Rightarrow> failure ex b (h, w)
                       | Some (Inr p, w) \<Rightarrow>
                           Some (map_option (\<lambda>(ss, res). (res, exit_run E ss (h, w))) (http_finish pLength p))
                     }))"

definition Get ::
  "('w, 'x) net_env_scheme \<Rightarrow> u8 list \<Rightarrow> cstring \<Rightarrow> u8 list \<Rightarrow> nat option \<Rightarrow> http_client \<Rightarrow> 'w \<Rightarrow>
     (http_result \<times> http_client \<times> 'w) option option" where
  "Get E Line pPath pBuffer pLength h w =
     Request E Line HTTPRequestMethodGet pPath pBuffer pLength None h w"

definition Post ::
  "('w, 'x) net_env_scheme \<Rightarrow> u8 list \<Rightarrow> cstring \<Rightarrow> u8 list \<Rightarrow> nat option \<Rightarrow> cstring \<Rightarrow> http_client \<Rightarrow>
     'w \<Rightarrow> (http_result \<times> http_client \<times> 'w) option option" where
  "Post E Line pPath pBuffer pLength pFormData h w =
     Request E Line HTTPRequestMethodPost pPath pBuffer pLength (Some pFormData) h w"

end
