(* ===== verification/Http_Response.thy ===== *)
theory Http_Response
  imports Http_Client
begin

text \<open>
  The response parser of the HTTP client: its invariant, the lines as functions on strings instead
  of character arrays, and the content it extracts from a well-formed response, plain or chunked.
\<close>

subsection \<open>Lines as strings\<close>

text \<open>The number that a rejected status token stands for.\<close>

definition status_code :: "cstring \<Rightarrow> http_status" where
  "status_code s = (let (v, e) = strtoul 10 s in if e < length s then HTTPInvalidResponseCode else v)"

text \<open>The outcome of the first line: \<open>None\<close> if a token is missing, \<open>Some None\<close> if accepted.\<close>

definition status_spec :: "cstring \<Rightarrow> http_status option option" where
  "status_spec s =
     (case tokenize (cstr ''/'') s of
        None \<Rightarrow> None
      | Some (t, r) \<Rightarrow>
          if t \<noteq> cstr ''HTTP'' then Some (Some (status_code t))
          else (case Option.bind r (tokenize (cstr '' '')) of
             None \<Rightarrow> None
           | Some (_, r) \<Rightarrow>
               (case Option.bind r (tokenize (cstr '' '')) of
                  None \<Rightarrow> None
                | Some (t, _) \<Rightarrow> Some (if t = cstr ''200'' then None else Some (status_code t)))))"

definition chunked_spec :: "cstring \<Rightarrow> bool" where
  "chunked_spec s =
     (case tokenize (cstr '': '') s of
        None \<Rightarrow> False
      | Some (t, r) \<Rightarrow> strcaseeq t (cstr ''Transfer-Encoding'') \<and>
          (case Option.bind r (tokenize (cstr '' '')) of
             None \<Rightarrow> False | Some (t, _) \<Rightarrow> strcaseeq t (cstr ''chunked'')))"

text \<open>\<open>strtok_r\<close> at a saved pointer that may be null.\<close>

lemma strtok_r_saved:
  assumes "points_to buf sv r" "0 \<in> set buf"
  obtains t buf' sv' where "strtok_r buf sv ds = Some (t, buf', sv')"
    "length buf' = length buf" "0 \<in> set buf'"
    "points_to buf' t (map_option fst (Option.bind r (tokenize ds)))"
    "points_to buf' sv' (Option.bind (Option.bind r (tokenize ds)) snd)"
proof (cases sv)
  case None
  then show thesis using assms that [of None buf None] by (simp add: strtok_r_def)
next
  case (Some i)
  then obtain s where s: "r = Some s" "c_str_at buf i = Some s" using assms(1) by (cases r) auto
  show thesis by (rule strtok_r_spec [OF s(2), of ds]) (use that s Some in auto)
qed

lemma points_to_cases:
  assumes "points_to buf t (map_option f x)"
  obtains (none) "t = None" "x = None" | (some) i y where "t = Some i" "x = Some y" "c_str_at buf i = Some (f y)"
  using assms by (cases t; cases x) auto

lemma status_line_spec:
  assumes "c_str_at l 0 = Some s"
  shows "case status_spec s of
      None \<Rightarrow> status_line l = None
    | Some (Some st) \<Rightarrow> status_line l = Some (Inl st)
    | Some None \<Rightarrow> \<exists>l'. status_line l = Some (Inr l') \<and> length l' = length l \<and> 0 \<in> set l'"
proof -
  obtain t1 l1 sv1 where 1: "strtok_r l (Some 0) (cstr ''/'') = Some (t1, l1, sv1)" "length l1 = length l" "0 \<in> set l1"
    "points_to l1 t1 (map_option fst (tokenize (cstr ''/'') s))"
    "points_to l1 sv1 (Option.bind (tokenize (cstr ''/'') s) snd)"
    by (rule strtok_r_spec [OF assms])
  from 1(4) show ?thesis
  proof (cases rule: points_to_cases)
    case none
    with 1 show ?thesis by (simp add: status_line_def status_spec_def)
  next
    case (some i y)
    note 2 = some
    obtain t r where y: "y = (t, r)" by (cases y)
    show ?thesis
    proof (cases "t = cstr ''HTTP''")
      case False
      with 1 2 y show ?thesis by (simp add: status_line_def status_spec_def status_code_def Let_def split: prod.splits)
    next
      case True
      have sv1: "points_to l1 sv1 r" using 1(5) 2 y by simp
      obtain t2 l2 sv2 where 3: "strtok_r l1 sv1 (cstr '' '') = Some (t2, l2, sv2)" "length l2 = length l1" "0 \<in> set l2"
        "points_to l2 t2 (map_option fst (Option.bind r (tokenize (cstr '' ''))))"
        "points_to l2 sv2 (Option.bind (Option.bind r (tokenize (cstr '' ''))) snd)"
        by (rule strtok_r_saved [OF sv1 1(3)])
      from 3(4) show ?thesis
      proof (cases rule: points_to_cases)
        case none
        with 1 2 3 y True show ?thesis by (simp add: status_line_def status_spec_def)
      next
        case (some i2 y2)
        note 4 = some
        obtain u r2 where y2: "y2 = (u, r2)" by (cases y2)
        have sv2: "points_to l2 sv2 r2" using 3(5) unfolding 4(2) y2 by simp
        obtain t3 l3 sv3 where 5: "strtok_r l2 sv2 (cstr '' '') = Some (t3, l3, sv3)" "length l3 = length l2" "0 \<in> set l3"
          "points_to l3 t3 (map_option fst (Option.bind r2 (tokenize (cstr '' ''))))"
          by (rule strtok_r_saved [OF sv2 3(3)])
        from 5(4) show ?thesis
          by (cases rule: points_to_cases)
            (use 1 2 3 4 5 y y2 True in \<open>auto simp: status_line_def status_spec_def status_code_def Let_def split: prod.splits\<close>)
      qed
    qed
  qed
qed

lemma option_line_spec:
  assumes "c_str_at l 0 = Some s"
  shows "\<exists>l'. option_line l = Some (chunked_spec s, l') \<and> length l' = length l \<and> 0 \<in> set l'"
proof -
  obtain t1 l1 sv1 where 1: "strtok_r l (Some 0) (cstr '': '') = Some (t1, l1, sv1)" "length l1 = length l" "0 \<in> set l1"
    "points_to l1 t1 (map_option fst (tokenize (cstr '': '') s))"
    "points_to l1 sv1 (Option.bind (tokenize (cstr '': '') s) snd)"
    by (rule strtok_r_spec [OF assms])
  from 1(4) show ?thesis
  proof (cases rule: points_to_cases)
    case none
    with 1 show ?thesis by (simp add: option_line_def chunked_spec_def)
  next
    case (some i y)
    note 2 = some
    obtain t r where y: "y = (t, r)" by (cases y)
    have sv1: "points_to l1 sv1 r" using 1(5) 2 y by simp
    obtain t2 l2 sv2 where 3: "strtok_r l1 sv1 (cstr '' '') = Some (t2, l2, sv2)" "length l2 = length l1" "0 \<in> set l2"
      "points_to l2 t2 (map_option fst (Option.bind r (tokenize (cstr '' ''))))"
      by (rule strtok_r_saved [OF sv1 1(3)])
    from 3(4) show ?thesis
      by (cases rule: points_to_cases)
        (use 1 2 3 y in \<open>auto simp: option_line_def chunked_spec_def\<close>)
  qed
qed

subsection \<open>Reading a line\<close>

lemma http_bytes_append:
  "http_bytes pl (xs @ ys) p =
     (case http_bytes pl xs p of None \<Rightarrow> None | Some (Inl r) \<Rightarrow> Some (Inl r) | Some (Inr q) \<Rightarrow> http_bytes pl ys q)"
  by (induction xs arbitrary: p) (auto split: option.splits sum.splits)

lemma bytes_seq: "http_bytes pl xs p = Some (Inr q) \<Longrightarrow> http_bytes pl (xs @ ys) p = http_bytes pl ys q"
  by (simp add: http_bytes_append)

text \<open>The line read so far.\<close>

definition line_at :: "http_parser \<Rightarrow> cstring \<Rightarrow> bool" where
  "line_at p s \<longleftrightarrow> length (hp_Line p) = HTTP_MAX_REQUEST_LINE \<and> length s < HTTP_MAX_REQUEST_LINE \<and>
     hp_nChar p = length s \<and> take (length s) (hp_Line p) = s \<and> (s \<noteq> [] \<longrightarrow> hp_Line p ! length s = 0)"

text \<open>The two parsers agree except for the line.\<close>

definition same_but_line :: "http_parser \<Rightarrow> http_parser \<Rightarrow> bool" where
  "same_but_line p q \<longleftrightarrow> q = p\<lparr>hp_Line := hp_Line q, hp_nChar := hp_nChar q\<rparr>"

lemma same_but_lineD:
  assumes "same_but_line p q"
  shows "hp_State q = hp_State p" "hp_nLine q = hp_nLine p" "hp_nLength q = hp_nLength p"
    "hp_Chunked q = hp_Chunked p" "hp_Bytes q = hp_Bytes p" "hp_Buffer q = hp_Buffer p"
proof -
  obtain l n where q: "q = p\<lparr>hp_Line := l, hp_nChar := n\<rparr>" using assms unfolding same_but_line_def by blast
  show "hp_State q = hp_State p" "hp_nLine q = hp_nLine p" "hp_nLength q = hp_nLength p"
    "hp_Chunked q = hp_Chunked p" "hp_Bytes q = hp_Bytes p" "hp_Buffer q = hp_Buffer p"
    by (simp_all add: q)
qed

lemma same_but_line_refl [simp]: "same_but_line p p"
  by (simp add: same_but_line_def)

lemma same_but_line_upd: "same_but_line p (p\<lparr>hp_Line := l, hp_nChar := n\<rparr>)"
  by (simp add: same_but_line_def)

lemma same_but_line_trans: "same_but_line p q \<Longrightarrow> same_but_line q r \<Longrightarrow> same_but_line p r"
  using same_but_lineD [of p q] same_but_lineD [of q r] by (simp add: same_but_line_def)

lemma line_at_take: "line_at p s \<Longrightarrow> take (HTTP_MAX_REQUEST_LINE - 1) s = s"
  by (intro take_all) (auto simp: line_at_def)

lemma accumulate_line:
  assumes "line_at p s"
  shows "\<exists>q. accumulate c p = Some q \<and> line_at q (take (HTTP_MAX_REQUEST_LINE - 1) (s @ [c])) \<and> same_but_line p q"
proof (cases "length s < HTTP_MAX_REQUEST_LINE - 1")
  case True
  let ?n = "length s" let ?l = "(hp_Line p)[?n := c, Suc ?n := 0]"
  have l: "Suc ?n < length (hp_Line p)" using assms True by (simp add: line_at_def)
  have "take (Suc ?n) ?l = s @ [c]"
    using l assms by (simp add: take_list_update_end line_at_def)
  then have "line_at (p\<lparr>hp_Line := ?l, hp_nChar := Suc ?n\<rparr>) (s @ [c])"
    using l assms True by (simp add: line_at_def)
  moreover have "accumulate c p = Some (p\<lparr>hp_Line := ?l, hp_nChar := Suc ?n\<rparr>)"
    using assms True l by (simp add: accumulate_def line_at_def put_at_def)
  ultimately show ?thesis using True by (simp add: same_but_line_upd)
next
  case False
  then have "take (HTTP_MAX_REQUEST_LINE - 1) (s @ [c]) = s" using assms line_at_take [OF assms] by (auto simp: line_at_def)
  with False assms show ?thesis by (simp add: accumulate_def line_at_def)
qed

lemma line_run:
  assumes "line_at p s" "hp_State p = 0 \<or> hp_State p = 2" "10 \<notin> set cs"
  shows "\<exists>q. http_bytes pl cs p = Some (Inr q) \<and> same_but_line p q \<and>
     line_at q (take (HTTP_MAX_REQUEST_LINE - 1) (s @ filter (\<lambda>c. c \<noteq> 13) cs))"
  using assms
proof (induction cs arbitrary: p s)
  case Nil
  then show ?case using line_at_take [of p s] by simp
next
  case (Cons c cs)
  show ?case
  proof (cases "c = 13")
    case True
    then have "http_char pl c p = Some (Inr p)"
      using Cons.prems(2) by (auto simp: http_char_def header_char_def chunk_header_char_def)
    with Cons.IH [OF Cons.prems(1,2)] Cons.prems(3) True show ?thesis by simp
  next
    case False
    let ?M = "HTTP_MAX_REQUEST_LINE - 1"
    obtain q where q: "accumulate c p = Some q" "line_at q (take ?M (s @ [c]))" "same_but_line p q"
      using accumulate_line [OF Cons.prems(1)] by blast
    have "http_char pl c p = Some (Inr q)"
      using Cons.prems(2,3) False q(1) by (auto simp: http_char_def header_char_def chunk_header_char_def)
    moreover have "take ?M (take ?M (s @ [c]) @ filter (\<lambda>c. c \<noteq> 13) cs) = take ?M (s @ filter (\<lambda>c. c \<noteq> 13) (c # cs))"
      using False by (cases "length s < ?M") (simp_all add: take_Cons')
    moreover have "hp_State q = 0 \<or> hp_State q = 2" using same_but_lineD(1) [OF q(3)] Cons.prems(2) by simp
    ultimately show ?thesis
      using Cons.IH [OF q(2)] Cons.prems(3) same_but_line_trans [OF q(3)] by fastforce
  qed
qed

lemma line_at_string:
  assumes "line_at p s" "s \<noteq> []"
  shows "c_str_at (hp_Line p) 0 = Some (takeWhile (\<lambda>c. c \<noteq> 0) s)"
proof -
  have d: "hp_Line p = s @ 0 # drop (Suc (length s)) (hp_Line p)"
    using assms unfolding line_at_def by (metis append_take_drop_id Cons_nth_drop_Suc)
  have "takeWhile (\<lambda>c. c \<noteq> 0) (s @ 0 # r) = takeWhile (\<lambda>c. c \<noteq> 0) s" for r
    by (induction s) auto
  moreover have "0 \<in> set (hp_Line p)" by (subst d) simp
  ultimately show ?thesis unfolding c_str_at_def using d by (metis drop0)
qed

subsection \<open>Safety\<close>

definition hp_ok :: "nat \<Rightarrow> http_parser \<Rightarrow> bool" where
  "hp_ok n p \<longleftrightarrow> length (hp_Line p) = HTTP_MAX_REQUEST_LINE \<and> hp_nChar p < HTTP_MAX_REQUEST_LINE \<and>
     (hp_nChar p > 0 \<or> hp_Chunked p \<longrightarrow> 0 \<in> set (hp_Line p)) \<and> (hp_State p \<in> {2, 3, 4} \<longrightarrow> hp_Chunked p) \<and>
     length (hp_Buffer p) = n \<and> hp_nLength p \<le> n \<and> (hp_State p = 3 \<longrightarrow> 0 < hp_Bytes p) \<and> hp_State p \<le> 5"

lemma http_start_ok: "length Line = HTTP_MAX_REQUEST_LINE \<Longrightarrow> length b = n \<Longrightarrow> hp_ok n (http_start Line b)"
  by (simp add: hp_ok_def http_start_def HTTP_MAX_REQUEST_LINE_def)

lemma hp_ok_line:
  assumes "hp_ok n p" "same_but_line p q" "length (hp_Line q) = HTTP_MAX_REQUEST_LINE"
    "hp_nChar q < HTTP_MAX_REQUEST_LINE" "0 \<in> set (hp_Line q)"
  shows "hp_ok n q"
  using assms same_but_lineD [OF assms(2)] by (simp add: hp_ok_def)

lemma accumulate_ok:
  assumes "hp_ok n p"
  shows "\<exists>q. accumulate c p = Some q \<and> hp_ok n q \<and> same_but_line p q"
proof (cases "hp_nChar p < HTTP_MAX_REQUEST_LINE - 1")
  case True
  let ?l = "(hp_Line p)[hp_nChar p := c, Suc (hp_nChar p) := 0]"
  let ?q = "p\<lparr>hp_Line := ?l, hp_nChar := Suc (hp_nChar p)\<rparr>"
  have l: "Suc (hp_nChar p) < length (hp_Line p)" using assms True by (simp add: hp_ok_def)
  then have "accumulate c p = Some ?q" using True by (simp add: accumulate_def put_at_def)
  moreover have "hp_ok n ?q"
    using l assms by (intro hp_ok_line [OF assms same_but_line_upd]) (auto simp: hp_ok_def set_update_memI)
  ultimately show ?thesis by (simp add: same_but_line_upd)
next
  case False
  then show ?thesis using assms by (simp add: accumulate_def)
qed

lemma hp_ok_string:
  assumes "hp_ok n p" "0 < hp_nChar p \<or> hp_Chunked p"
  shows "c_str_at (hp_Line p) 0 = Some (takeWhile (\<lambda>c. c \<noteq> 0) (hp_Line p))"
  using assms by (simp add: hp_ok_def c_str_at_def)

lemma store_content_ok:
  assumes "hp_ok n p"
  shows "\<exists>r. store_content (Some n) c p = Some r \<and> (\<forall>q. r = Some q \<longrightarrow> hp_ok n q \<and>
     hp_State q = hp_State p \<and> hp_nLine q = hp_nLine p \<and> hp_Bytes q = hp_Bytes p)"
  using assms by (auto simp: store_content_def put_at_def hp_ok_def)

text \<open>Past the header, or after its first line, no character makes the parser fail.\<close>

lemma http_char_safe:
  assumes ok: "hp_ok n p" and later: "0 < hp_State p \<or> 0 < hp_nLine p \<and> hp_nLine p + 1 < 2 ^ 32"
  shows "\<exists>r. http_char (Some n) c p = Some r \<and> (\<forall>q. r = Inr q \<longrightarrow> hp_ok n q \<and>
     (0 < hp_State q \<or> 0 < hp_nLine q) \<and> hp_nLine q \<le> hp_nLine p + 1)"
proof -
  obtain a where a: "accumulate c p = Some a" "hp_ok n a" "same_but_line p a"
    using accumulate_ok [OF ok] by blast
  obtain r where r: "store_content (Some n) c p = Some r" "\<forall>q. r = Some q \<longrightarrow> hp_ok n q \<and>
     hp_State q = hp_State p \<and> hp_nLine q = hp_nLine p \<and> hp_Bytes q = hp_Bytes p"
    using store_content_ok [OF ok] by blast
  have acc: "0 < hp_State a \<or> 0 < hp_nLine a" "hp_nLine a \<le> hp_nLine p + 1"
    using later same_but_lineD [OF a(3)] by auto
  consider "hp_State p = 0" | "hp_State p = 1" | "hp_State p = 2" | "hp_State p = 3" | "hp_State p = 4" | "hp_State p = 5"
    using ok unfolding hp_ok_def by linarith
  then show ?thesis
  proof cases
    assume 0: "hp_State p = 0"
    show ?thesis
    proof (cases "c = 10 \<and> hp_nChar p \<noteq> 0")
      case True
      then obtain l where l: "option_line (hp_Line p) = Some (chunked_spec (takeWhile (\<lambda>c. c \<noteq> 0) (hp_Line p)), l)"
        "length l = length (hp_Line p)" "0 \<in> set l"
        using option_line_spec [OF hp_ok_string [OF ok]] by blast
      let ?q = "p\<lparr>hp_nLine := hp_nLine p + 1, hp_Line := l, hp_nChar := 0,
        hp_Chunked := hp_Chunked p \<or> chunked_spec (takeWhile (\<lambda>c. c \<noteq> 0) (hp_Line p))\<rparr>"
      have "wrap32 (hp_nLine p + 1) = hp_nLine p + 1" using 0 later by (intro mod_less) simp
      with True 0 later l(1) have "http_char (Some n) c p = Some (Inr ?q)"
        by (simp add: http_char_def header_char_def del: add_2_eq_Suc' One_nat_def)
      moreover have "hp_ok n ?q" using l(2,3) ok by (simp add: hp_ok_def)
      ultimately show ?thesis by simp
    next
      case False
      with 0 a(1,2) acc ok later show ?thesis by (auto simp: http_char_def header_char_def hp_ok_def)
    qed
  next
    assume "hp_State p = 1"
    with r show ?thesis by (cases r) (auto simp: http_char_def content_char_def)
  next
    assume 2: "hp_State p = 2"
    then have "c_str_at (hp_Line p) 0 = Some (takeWhile (\<lambda>c. c \<noteq> 0) (hp_Line p))"
      using hp_ok_string [OF ok] ok by (simp add: hp_ok_def)
    with 2 a(1,2) acc ok show ?thesis
      by (auto simp: http_char_def chunk_header_char_def hp_ok_def split: prod.splits)
  next
    assume 3: "hp_State p = 3"
    show ?thesis
    proof (cases r)
      case None
      with 3 r(1) show ?thesis by (simp add: http_char_def chunk_data_char_def)
    next
      case (Some q)
      then have q: "hp_ok n q" "hp_State q = hp_State p" "hp_nLine q = hp_nLine p" using r(2) by blast+
      obtain b where b: "b = wrap32 (hp_Bytes q + 2 ^ 32 - 1)" by blast
      have "http_char (Some n) c p = Some (Inr (q\<lparr>hp_Bytes := b, hp_State := (if b = 0 then 4 else hp_State q)\<rparr>))"
        unfolding b using 3 r(1) Some by (simp add: http_char_def chunk_data_char_def Let_def)
      with 3 q show ?thesis by (auto simp: hp_ok_def)
    qed
  next
    assume "hp_State p = 4"
    with ok later show ?thesis by (auto simp: http_char_def chunk_trailer_char_def hp_ok_def)
  next
    assume "hp_State p = 5"
    with ok show ?thesis by (auto simp: http_char_def)
  qed
qed

lemma http_bytes_safe:
  assumes "hp_ok n p" "0 < hp_State p \<or> 0 < hp_nLine p" "hp_nLine p + length cs < 2 ^ 32"
  shows "\<exists>r. http_bytes (Some n) cs p = Some r \<and> (\<forall>q. r = Inr q \<longrightarrow> hp_ok n q)"
  using assms
proof (induction cs arbitrary: p)
  case (Cons c cs)
  obtain r where r: "http_char (Some n) c p = Some r" "\<forall>q. r = Inr q \<longrightarrow> hp_ok n q \<and>
     (0 < hp_State q \<or> 0 < hp_nLine q) \<and> hp_nLine q \<le> hp_nLine p + 1"
    using http_char_safe [OF Cons.prems(1), of c] Cons.prems(2,3) by auto
  show ?case
  proof (cases r)
    case (Inl st)
    then show ?thesis using r(1) by simp
  next
    case (Inr q)
    then have "\<exists>r. http_bytes (Some n) cs q = Some r \<and> (\<forall>q. r = Inr q \<longrightarrow> hp_ok n q)"
      using r(2) Cons.prems(3) by (intro Cons.IH) auto
    then show ?thesis using r(1) Inr by simp
  qed
qed simp

text \<open>The bounds of the arrays hold at every moment of a run that returns.\<close>

lemma http_char_keeps:
  assumes "hp_ok n p" "http_char (Some n) c p = Some (Inr q)"
  shows "hp_ok n q"
proof (cases "hp_State p = 0")
  case True
  obtain a where a: "accumulate c p = Some a" "hp_ok n a" using accumulate_ok [OF assms(1)] by blast
  show ?thesis
  proof (cases "c = 10 \<and> hp_nChar p \<noteq> 0")
    case nl: True
    then obtain s where s: "c_str_at (hp_Line p) 0 = Some s" using hp_ok_string [OF assms(1)] by blast
    obtain l :: "u8 list" and k ch where q: "q = p\<lparr>hp_nLine := k, hp_Line := l, hp_nChar := 0, hp_Chunked := ch\<rparr>"
      "length l = length (hp_Line p)" "0 \<in> set l"
    proof (cases "hp_nLine p = 0")
      case True
      obtain y where y: "status_line (hp_Line p) = Some y"
        using assms(2) nl True \<open>hp_State p = 0\<close>
        by (cases "status_line (hp_Line p)") (auto simp: http_char_def header_char_def)
      then obtain l where l: "status_line (hp_Line p) = Some (Inr l)" "q = p\<lparr>hp_nLine := wrap32 (hp_nLine p + 1), hp_Line := l, hp_nChar := 0\<rparr>"
        using assms(2) nl True \<open>hp_State p = 0\<close> by (cases y) (auto simp: http_char_def header_char_def)
      then have "length l = length (hp_Line p)" "0 \<in> set l"
        using status_line_spec [OF s] by (auto split: option.splits)
      with l(2) show thesis using that [of "hp_Chunked p" l "wrap32 (hp_nLine p + 1)"] by simp
    next
      case False
      obtain l where l: "option_line (hp_Line p) = Some (chunked_spec s, l)" "length l = length (hp_Line p)" "0 \<in> set l"
        using option_line_spec [OF s] by blast
      then have "q = p\<lparr>hp_nLine := wrap32 (hp_nLine p + 1), hp_Line := l, hp_nChar := 0, hp_Chunked := hp_Chunked p \<or> chunked_spec s\<rparr>"
        using assms(2) nl False \<open>hp_State p = 0\<close> by (simp add: http_char_def header_char_def)
      with l(2,3) show thesis using that by blast
    qed
    with assms(1) True show ?thesis by (simp add: hp_ok_def)
  next
    case False
    then consider "c = 13" | "c = 10" "hp_nChar p = 0" | "c \<noteq> 13" "c \<noteq> 10" by blast
    then show ?thesis
    proof cases
      case 1
      with assms True show ?thesis by (simp add: http_char_def header_char_def)
    next
      case 2
      with assms(2) True have "q = p\<lparr>hp_State := (if hp_Chunked p then 2 else 1), hp_nChar := 0\<rparr>"
        by (simp add: http_char_def header_char_def)
      with assms(1) True show ?thesis by (simp add: hp_ok_def)
    next
      case 3
      with a assms(2) True have "q = a" by (simp add: http_char_def header_char_def)
      with a(2) show ?thesis by simp
    qed
  qed
next
  case False
  then obtain r where "http_char (Some n) c p = Some r" "\<forall>q. r = Inr q \<longrightarrow> hp_ok n q"
    using http_char_safe [OF assms(1), of c] by blast
  then show ?thesis using assms(2) by simp
qed

lemma http_bytes_keeps:
  "hp_ok n p \<Longrightarrow> http_bytes (Some n) cs p = Some (Inr q) \<Longrightarrow> hp_ok n q"
  by (induction cs arbitrary: p) (auto split: option.splits sum.splits dest: http_char_keeps)

text \<open>The first line of a response as the parser sees it.\<close>

definition first_line :: "u8 list \<Rightarrow> cstring" where
  "first_line bs = take (HTTP_MAX_REQUEST_LINE - 1) (filter (\<lambda>c. c \<noteq> 13) (takeWhile (\<lambda>c. c \<noteq> 10) bs))"

lemma http_bytes_fails:
  assumes Line: "length Line = HTTP_MAX_REQUEST_LINE" and b: "length b = n" and small: "length bs < 2 ^ 32"
  shows "http_bytes (Some n) bs (http_start Line b) = None \<longleftrightarrow>
     10 \<in> set bs \<and> first_line bs \<noteq> [] \<and> status_spec (takeWhile (\<lambda>c. c \<noteq> 0) (first_line bs)) = None"
proof -
  let ?p = "http_start Line b" and ?pre = "takeWhile (\<lambda>c. c \<noteq> 10) bs"
  have pre: "10 \<notin> set ?pre" by (auto dest: set_takeWhileD)
  have "line_at ?p []" "hp_State ?p = 0 \<or> hp_State ?p = 2"
    using Line by (simp_all add: line_at_def http_start_def HTTP_MAX_REQUEST_LINE_def)
  then obtain q where q: "http_bytes (Some n) ?pre ?p = Some (Inr q)" "same_but_line ?p q" "line_at q (first_line bs)"
    using line_run [OF _ _ pre, of ?p "[]" "Some n"] by (auto simp: first_line_def)
  show ?thesis
  proof (cases "10 \<in> set bs")
    case False
    then have "?pre = bs" by (metis (mono_tags, lifting) takeWhile_eq_all_conv)
    then show ?thesis using False q(1) by (simp del: takeWhile_eq_all_conv)
  next
    case True
    then have "dropWhile (\<lambda>c. c \<noteq> 10) bs \<noteq> []" by (simp add: dropWhile_eq_Nil_conv)
    then obtain x post where d: "dropWhile (\<lambda>c. c \<noteq> 10) bs = x # post" by (meson neq_Nil_conv)
    then have "x = 10" using hd_dropWhile [of "\<lambda>c. c \<noteq> 10" bs] by simp
    then have bs: "bs = ?pre @ 10 # post" using takeWhile_dropWhile_id [of "\<lambda>c. c \<noteq> 10" bs] d by simp
    have run: "http_bytes (Some n) bs ?p = http_bytes (Some n) (10 # post) q"
      using q(1) by (subst bs) (simp add: http_bytes_append)
    have st: "hp_State q = 0" "hp_nLine q = 0" "\<not> hp_Chunked q" "hp_nLength q = 0" "hp_Buffer q = b"
      using same_but_lineD [OF q(2)] by (simp_all add: http_start_def)
    have len: "length post < 2 ^ 32 - 1" using small bs by (metis length_append length_Cons less_diff_conv add.commute add_lessD1 plus_1_eq_Suc)
    show ?thesis
    proof (cases "first_line bs = []")
      case True
      let ?q = "q\<lparr>hp_State := 1, hp_nChar := 0\<rparr>"
      have "hp_ok n ?q" using q(3) st b True by (simp add: hp_ok_def line_at_def)
      then have "\<exists>r. http_bytes (Some n) post ?q = Some r"
        using http_bytes_safe [of n ?q post] len st by auto
      moreover have "http_char (Some n) 10 q = Some (Inr ?q)"
        using q(3) st True by (simp add: http_char_def header_char_def line_at_def)
      ultimately show ?thesis using run True by auto
    next
      case False
      let ?s = "takeWhile (\<lambda>c. c \<noteq> 0) (first_line bs)"
      have s: "c_str_at (hp_Line q) 0 = Some ?s" using line_at_string [OF q(3) False] .
      have nc: "hp_nChar q \<noteq> 0" "length (hp_Line q) = HTTP_MAX_REQUEST_LINE" using q(3) False by (auto simp: line_at_def)
      consider (missing) "status_spec ?s = None" | (other) x where "status_spec ?s = Some (Some x)"
        | (ok) "status_spec ?s = Some None" by (metis not_Some_eq)
      then show ?thesis
      proof cases
        case missing
        then show ?thesis
          using run status_line_spec [OF s] st nc True False by (simp add: http_char_def header_char_def)
      next
        case other
        then show ?thesis
          using run status_line_spec [OF s] st nc True False by (simp add: http_char_def header_char_def)
      next
        case ok
        then obtain l where l: "status_line (hp_Line q) = Some (Inr l)" "length l = length (hp_Line q)" "0 \<in> set l"
          using status_line_spec [OF s] by auto
        let ?q = "q\<lparr>hp_nLine := 1, hp_Line := l, hp_nChar := 0\<rparr>"
        have "hp_ok n ?q" using l nc st b by (simp add: hp_ok_def HTTP_MAX_REQUEST_LINE_def)
        then have "\<exists>r. http_bytes (Some n) post ?q = Some r"
          using http_bytes_safe [of n ?q post] len by auto
        moreover have "http_char (Some n) 10 q = Some (Inr ?q)"
          using l st nc by (simp add: http_char_def header_char_def)
        ultimately show ?thesis using run ok by auto
      qed
    qed
  qed
qed

subsection \<open>Well-formed responses\<close>

definition proper_line :: "cstring \<Rightarrow> bool" where
  "proper_line s \<longleftrightarrow> s \<noteq> [] \<and> length s < HTTP_MAX_REQUEST_LINE \<and> 0 \<notin> set s \<and> 10 \<notin> set s \<and> 13 \<notin> set s"

lemma proper_line_read:
  assumes "proper_line s" "line_at p []" "hp_State p = 0 \<or> hp_State p = 2"
  obtains q where "http_bytes pl (s @ [13]) p = Some (Inr q)" "same_but_line p q" "line_at q s"
    "c_str_at (hp_Line q) 0 = Some s"
proof -
  have f: "filter (\<lambda>c. c \<noteq> 13) s = s" using assms(1) by (auto simp: filter_id_conv proper_line_def)
  have "10 \<notin> set (s @ [13])" using assms(1) by (simp add: proper_line_def)
  then obtain q where q: "http_bytes pl (s @ [13]) p = Some (Inr q)" "same_but_line p q"
    "line_at q (take (HTTP_MAX_REQUEST_LINE - 1) s)"
    using line_run [OF assms(2,3), of "s @ [13]" pl] f by auto
  have t: "take (HTTP_MAX_REQUEST_LINE - 1) s = s" using assms(1) by (intro take_all) (auto simp: proper_line_def)
  moreover have "takeWhile (\<lambda>c. c \<noteq> 0) s = s" using assms(1) by (simp add: proper_line_def) blast
  ultimately have "c_str_at (hp_Line q) 0 = Some s"
    using line_at_string [of q s] q(3) assms(1) by (simp add: proper_line_def del: takeWhile_eq_all_conv)
  with that q t show thesis by simp
qed

text \<open>The parser at the beginning of a line of the header.\<close>

definition at_header :: "nat \<Rightarrow> bool \<Rightarrow> http_parser \<Rightarrow> bool" where
  "at_header k chunked p \<longleftrightarrow> line_at p [] \<and> hp_State p = 0 \<and> hp_nLine p = k \<and> hp_Chunked p = chunked"

definition same_content :: "http_parser \<Rightarrow> http_parser \<Rightarrow> bool" where
  "same_content p q \<longleftrightarrow> hp_Buffer q = hp_Buffer p \<and> hp_nLength q = hp_nLength p"

lemma crlf_run:
  assumes "http_bytes pl (s @ [13]) p = Some (Inr q)" "http_char pl 10 q = Some (Inr r)"
  shows "http_bytes pl (s @ crlf) p = Some (Inr r)"
  using bytes_seq [OF assms(1), of "[10]"] assms(2) by simp

lemma status_line_run:
  assumes "proper_line s" "at_header 0 b p" "status_spec s = Some None"
  shows "\<exists>q. http_bytes pl (s @ crlf) p = Some (Inr q) \<and> at_header 1 b q \<and> same_content p q"
proof -
  have p: "line_at p []" "hp_State p = 0 \<or> hp_State p = 2" using assms(2) by (auto simp: at_header_def)
  obtain q where q: "http_bytes pl (s @ [13]) p = Some (Inr q)" "same_but_line p q" "line_at q s"
    "c_str_at (hp_Line q) 0 = Some s"
    by (rule proper_line_read [OF assms(1) p])
  obtain l where l: "status_line (hp_Line q) = Some (Inr l)" "length l = length (hp_Line q)"
    using status_line_spec [OF q(4)] assms(3) by auto
  let ?q = "q\<lparr>hp_nLine := 1, hp_Line := l, hp_nChar := 0\<rparr>"
  have "http_char pl 10 q = Some (Inr ?q)"
    using l(1) same_but_lineD [OF q(2)] assms(1,2) q(3)
    by (simp add: http_char_def header_char_def at_header_def line_at_def proper_line_def)
  then have "http_bytes pl (s @ crlf) p = Some (Inr ?q)"
    by (rule crlf_run [OF q(1)])
  moreover have "at_header 1 b ?q" "same_content p ?q"
    using l(2) same_but_lineD [OF q(2)] assms(2) q(3) by (auto simp: at_header_def line_at_def same_content_def)
  ultimately show ?thesis by blast
qed

lemma option_line_run:
  assumes "proper_line s" "at_header k b p" "0 < k" "k + 1 < 2 ^ 32"
  shows "\<exists>q. http_bytes pl (s @ crlf) p = Some (Inr q) \<and> at_header (k + 1) (b \<or> chunked_spec s) q \<and> same_content p q"
proof -
  have p: "line_at p []" "hp_State p = 0 \<or> hp_State p = 2" using assms(2) by (auto simp: at_header_def)
  obtain q where q: "http_bytes pl (s @ [13]) p = Some (Inr q)" "same_but_line p q" "line_at q s"
    "c_str_at (hp_Line q) 0 = Some s"
    by (rule proper_line_read [OF assms(1) p])
  obtain l where l: "option_line (hp_Line q) = Some (chunked_spec s, l)" "length l = length (hp_Line q)"
    using option_line_spec [OF q(4)] by auto
  let ?q = "q\<lparr>hp_nLine := k + 1, hp_Line := l, hp_nChar := 0, hp_Chunked := b \<or> chunked_spec s\<rparr>"
  have k: "wrap32 (k + 1) = k + 1" using assms(4) by (rule mod_less)
  have "hp_State q = 0" "hp_nChar q \<noteq> 0" "hp_nLine q = k" "hp_Chunked q = b"
    using same_but_lineD [OF q(2)] assms(1,2) q(3) by (auto simp: at_header_def line_at_def proper_line_def)
  with l(1) k assms(3) have "http_char pl 10 q = Some (Inr ?q)"
    by (simp add: http_char_def header_char_def)
  then have "http_bytes pl (s @ crlf) p = Some (Inr ?q)"
    by (rule crlf_run [OF q(1)])
  moreover have "at_header (k + 1) (b \<or> chunked_spec s) ?q" "same_content p ?q"
    using l(2) same_but_lineD [OF q(2)] assms(2) q(3) by (auto simp: at_header_def line_at_def same_content_def)
  ultimately show ?thesis by blast
qed

lemma header_run:
  assumes "\<forall>s \<in> set hs. proper_line s" "at_header k b p" "0 < k" "k + length hs < 2 ^ 32"
  shows "\<exists>q. http_bytes pl (concat (map (\<lambda>s. s @ crlf) hs)) p = Some (Inr q) \<and>
     at_header (k + length hs) (b \<or> (\<exists>s \<in> set hs. chunked_spec s)) q \<and> same_content p q"
  using assms
proof (induction hs arbitrary: k b p)
  case Nil
  then show ?case by (simp add: same_content_def)
next
  case (Cons s hs)
  obtain q where q: "http_bytes pl (s @ crlf) p = Some (Inr q)" "at_header (k + 1) (b \<or> chunked_spec s) q" "same_content p q"
    using option_line_run [of s k b p pl] Cons.prems by auto
  obtain r where r: "http_bytes pl (concat (map (\<lambda>s. s @ crlf) hs)) q = Some (Inr r)"
    "at_header (k + 1 + length hs) ((b \<or> chunked_spec s) \<or> (\<exists>s \<in> set hs. chunked_spec s)) r" "same_content q r"
    using Cons.IH [OF _ q(2)] Cons.prems by auto
  have "http_bytes pl (concat (map (\<lambda>s. s @ crlf) (s # hs))) p = Some (Inr r)"
    using r(1) unfolding list.map concat.simps bytes_seq [OF q(1)] .
  with r q(3) show ?case by (auto simp: same_content_def)
qed

lemma header_end:
  assumes "at_header k b p"
  shows "http_bytes pl crlf p = Some (Inr (p\<lparr>hp_State := (if b then 2 else 1), hp_nChar := 0\<rparr>))"
  using assms by (simp add: at_header_def line_at_def http_char_def header_char_def)

subsection \<open>Content\<close>

text \<open>The content so far, and how it grows.\<close>

definition holds :: "nat \<Rightarrow> http_parser \<Rightarrow> u8 list \<Rightarrow> bool" where
  "holds n p xs \<longleftrightarrow> length (hp_Buffer p) = n \<and> hp_nLength p = length xs \<and> length xs \<le> n \<and>
     take (length xs) (hp_Buffer p) = xs"

lemma holds_cong: "holds n p xs \<Longrightarrow> hp_Buffer q = hp_Buffer p \<Longrightarrow> hp_nLength q = hp_nLength p \<Longrightarrow> holds n q xs"
  by (simp add: holds_def)

definition put_content :: "u8 \<Rightarrow> http_parser \<Rightarrow> http_parser" where
  "put_content c p = p\<lparr>hp_Buffer := (hp_Buffer p)[hp_nLength p := c], hp_nLength := hp_nLength p + 1\<rparr>"

lemma store_content_holds:
  assumes "holds n p xs"
  shows "if length xs < n then store_content (Some n) c p = Some (Some (put_content c p)) \<and> holds n (put_content c p) (xs @ [c])
     else store_content (Some n) c p = Some None"
proof (cases "length xs < n")
  case True
  have "take (Suc (length xs)) ((hp_Buffer p)[length xs := c]) = xs @ [c]"
    using True assms by (simp add: take_list_update_end holds_def)
  with True assms show ?thesis
    by (simp add: store_content_def holds_def put_at_def put_content_def)
next
  case False
  then show ?thesis using assms by (simp add: store_content_def holds_def)
qed

text \<open>What a run that stores \<open>ys\<close> after \<open>xs\<close> results in.\<close>

definition stored ::
  "nat \<Rightarrow> u8 list \<Rightarrow> (http_parser \<Rightarrow> bool) \<Rightarrow> ((http_exit \<times> u8 list) + http_parser) option \<Rightarrow> bool" where
  "stored n xs Q r \<longleftrightarrow>
     (if length xs \<le> n then \<exists>q. r = Some (Inr q) \<and> holds n q xs \<and> Q q
      else \<exists>b. r = Some (Inl (([Delete_Socket, Clear_Socket], HTTPContentBufferTooSmall), b)))"

lemma plain_run:
  assumes "hp_State p = 1" "holds n p xs"
  shows "stored n (xs @ ys) (\<lambda>q. hp_State q = 1) (http_bytes (Some n) ys p)"
  using assms
proof (induction ys arbitrary: p xs)
  case Nil
  then show ?case by (simp add: stored_def holds_def)
next
  case (Cons y ys)
  show ?case
  proof (cases "length xs < n")
    case True
    then have "http_bytes (Some n) (y # ys) p = http_bytes (Some n) ys (put_content y p)" "holds n (put_content y p) (xs @ [y])"
      using store_content_holds [OF Cons.prems(2), of y] Cons.prems(1) by (simp_all add: http_char_def content_char_def)
    with Cons.IH [of "put_content y p" "xs @ [y]"] Cons.prems(1) show ?thesis by (simp add: put_content_def)
  next
    case False
    then show ?thesis
      using store_content_holds [OF Cons.prems(2), of y] Cons.prems(1) by (simp add: stored_def http_char_def content_char_def)
  qed
qed

text \<open>Between chunks, at the beginning of a chunk header.\<close>

definition at_chunk :: "http_parser \<Rightarrow> bool" where
  "at_chunk p \<longleftrightarrow> hp_State p = 2 \<and> line_at p []"

lemma chunk_data_run:
  assumes "hp_State p = 3" "holds n p xs" "hp_Bytes p = length ys" "ys \<noteq> []" "length ys < 2 ^ 32"
    "hp_Line p = l"
  shows "stored n (xs @ ys) (\<lambda>q. hp_State q = 4 \<and> hp_Line q = l) (http_bytes (Some n) ys p)"
  using assms
proof (induction ys arbitrary: p xs)
  case (Cons y ys)
  show ?case
  proof (cases "length xs < n")
    case True
    let ?q = "(put_content y p)\<lparr>hp_Bytes := length ys, hp_State := (if length ys = 0 then 4 else 3)\<rparr>"
    have w: "wrap32 (hp_Bytes p + 2 ^ 32 - 1) = length ys"
      using Cons.prems(3,5) wrap32_sub [of 1 "hp_Bytes p"] by simp
    have "hp_Bytes (put_content y p) = hp_Bytes p" "hp_State (put_content y p) = 3"
      using Cons.prems(1) by (simp_all add: put_content_def)
    then have "http_char (Some n) y p = Some (Inr ?q)"
      using store_content_holds [OF Cons.prems(2), of y] Cons.prems(1) True w
      by (simp add: http_char_def chunk_data_char_def Let_def del: add_diff_assoc2)
    then have run: "http_bytes (Some n) (y # ys) p = http_bytes (Some n) ys ?q" by simp
    have h: "holds n ?q (xs @ [y])" "hp_Line ?q = l"
      using store_content_holds [OF Cons.prems(2), of y] True Cons.prems(6)
      by (auto simp: holds_def put_content_def)
    show ?thesis
    proof (cases "ys = []")
      case True
      then show ?thesis using run h \<open>length xs < n\<close> by (simp add: stored_def)
    next
      case False
      then have "stored n ((xs @ [y]) @ ys) (\<lambda>q. hp_State q = 4 \<and> hp_Line q = l)
          (http_bytes (Some n) ys ?q)"
        using Cons.prems(5) by (intro Cons.IH h) simp_all
      then show ?thesis unfolding run by simp
    qed
  next
    case False
    then show ?thesis
      using store_content_holds [OF Cons.prems(2), of y] Cons.prems(1)
      by (simp add: stored_def http_char_def chunk_data_char_def)
  qed
qed simp

lemma chunk_header_run:
  assumes "at_chunk p" "k < 2 ^ 32"
  shows "\<exists>q. http_bytes pl (fmt_num 16 k @ crlf) p = Some (Inr q) \<and> hp_Bytes q = k \<and>
     hp_State q = (if k \<noteq> 0 then 3 else 5) \<and> length (hp_Line q) = HTTP_MAX_REQUEST_LINE \<and>
     c_str_at (hp_Line q) 0 = Some (fmt_num 16 k) \<and> same_content p q"
proof -
  let ?s = "fmt_num 16 k"
  note d = fmt_num_digits [of 16 k]
  have "c \<noteq> 0 \<and> c \<noteq> 10 \<and> c \<noteq> 13" if c: "c \<in> set ?s" for c
  proof -
    obtain i where "i < 16" "c = digit_char i" using c d by auto
    then show ?thesis using digit_char_range [of i] by simp
  qed
  moreover have "length ?s < HTTP_MAX_REQUEST_LINE"
    using fmt_num_length [of k 16 8] assms(2) by (simp add: HTTP_MAX_REQUEST_LINE_def)
  ultimately have pl: "proper_line ?s" using d by (auto simp: proper_line_def)
  have p: "line_at p []" "hp_State p = 0 \<or> hp_State p = 2" using assms(1) by (auto simp: at_chunk_def)
  obtain q where q: "http_bytes pl (?s @ [13]) p = Some (Inr q)" "same_but_line p q" "line_at q ?s"
    "c_str_at (hp_Line q) 0 = Some ?s"
    by (rule proper_line_read [OF pl p])
  let ?q = "q\<lparr>hp_Bytes := k, hp_State := (if k \<noteq> 0 then 3 else 5)\<rparr>"
  have "http_char pl 10 q = Some (Inr ?q)"
    using assms q(4) same_but_lineD(1) [OF q(2)] strtoul_fmt_num [of 16 k]
    by (simp add: http_char_def chunk_header_char_def at_chunk_def)
  then have "http_bytes pl (?s @ crlf) p = Some (Inr ?q)" by (rule crlf_run [OF q(1)])
  then show ?thesis
    using q(3,4) same_but_lineD [OF q(2)] by (auto simp: line_at_def same_content_def)
qed

lemma chunk_trailer_run:
  assumes "hp_State p = 4" "length (hp_Line p) = HTTP_MAX_REQUEST_LINE"
  shows "http_bytes pl crlf p = Some (Inr (p\<lparr>hp_nChar := 0, hp_State := 2\<rparr>))"
    "at_chunk (p\<lparr>hp_nChar := 0, hp_State := 2\<rparr>)"
  using assms by (simp_all add: http_char_def chunk_trailer_char_def at_chunk_def line_at_def HTTP_MAX_REQUEST_LINE_def)

definition chunk_encode :: "u8 list list \<Rightarrow> u8 list" where
  "chunk_encode cs = concat (map (\<lambda>c. fmt_num 16 (length c) @ crlf @ c @ crlf) cs)"

lemma stored_then:
  assumes "stored n xs Q (http_bytes pl as p)"
    "\<And>q. holds n q xs \<Longrightarrow> Q q \<Longrightarrow> stored n (xs @ ys) R (http_bytes pl bs q)"
  shows "stored n (xs @ ys) R (http_bytes pl (as @ bs) p)"
  using assms by (auto simp: stored_def http_bytes_append split: if_splits)

text \<open>A chunk; its header line stays in the line buffer.\<close>

lemma chunk_body_run:
  assumes "hp_State p = 3" "hp_Bytes p = length c" "holds n p xs" "c \<noteq> []" "length c < 2 ^ 32"
    "hp_Line p = l" "length l = HTTP_MAX_REQUEST_LINE"
  shows "stored n (xs @ c) (\<lambda>q. at_chunk q \<and> hp_Line q = l) (http_bytes (Some n) (c @ crlf) p)"
proof -
  have "stored n ((xs @ c) @ []) (\<lambda>q. at_chunk q \<and> hp_Line q = l) (http_bytes (Some n) (c @ crlf) p)"
    by (rule stored_then [OF chunk_data_run [OF assms(1,3,2,4,5,6)]])
      (auto simp: stored_def holds_def chunk_trailer_run assms(7) simp del: http_bytes.simps)
  then show ?thesis by simp
qed

lemma chunk_run:
  assumes "at_chunk p" "holds n p xs" "c \<noteq> []" "length c < 2 ^ 32"
  shows "stored n (xs @ c) (\<lambda>q. at_chunk q \<and> c_str_at (hp_Line q) 0 = Some (fmt_num 16 (length c)))
     (http_bytes (Some n) (fmt_num 16 (length c) @ crlf @ c @ crlf) p)"
proof -
  obtain q where q: "http_bytes (Some n) (fmt_num 16 (length c) @ crlf) p = Some (Inr q)" "hp_Bytes q = length c"
    "hp_State q = 3" "length (hp_Line q) = HTTP_MAX_REQUEST_LINE" "same_content p q"
    "c_str_at (hp_Line q) 0 = Some (fmt_num 16 (length c))"
    using chunk_header_run [OF assms(1,4), of "Some n"] assms(3) by auto
  have h: "holds n q xs" using assms(2) q(5) by (auto simp: same_content_def intro: holds_cong)
  have "stored n (xs @ c) (\<lambda>r. at_chunk r \<and> hp_Line r = hp_Line q) (http_bytes (Some n) (c @ crlf) q)"
    by (rule chunk_body_run [OF q(3,2) h assms(3,4) refl q(4)])
  then show ?thesis
    using bytes_seq [OF q(1), of "c @ crlf"] q(6) by (auto simp: stored_def)
qed

lemma chunks_run:
  assumes "at_chunk p" "holds n p xs" "\<forall>c \<in> set cs. c \<noteq> [] \<and> length c < 2 ^ 32"
  shows "stored n (xs @ concat cs) at_chunk (http_bytes (Some n) (chunk_encode cs) p)"
  using assms
proof (induction cs arbitrary: p xs)
  case Nil
  then show ?case by (simp add: chunk_encode_def stored_def holds_def)
next
  case (Cons c cs)
  have "stored n ((xs @ c) @ concat cs) at_chunk
      (http_bytes (Some n) ((fmt_num 16 (length c) @ crlf @ c @ crlf) @ chunk_encode cs) p)"
  proof (rule stored_then [OF chunk_run [OF Cons.prems(1,2)]])
    fix q assume "holds n q (xs @ c)" "at_chunk q \<and> c_str_at (hp_Line q) 0 = Some (fmt_num 16 (length c))"
    then show "stored n ((xs @ c) @ concat cs) at_chunk (http_bytes (Some n) (chunk_encode cs) q)"
      using Cons.prems(3) by (intro Cons.IH) auto
  qed (use Cons.prems(3) in auto)
  then show ?case by (simp add: chunk_encode_def)
qed

text \<open>A response: status line, header lines, and a body that is plain or chunked.\<close>

definition http_text :: "cstring \<Rightarrow> cstring list \<Rightarrow> u8 list \<Rightarrow> u8 list" where
  "http_text st hs body = (st @ crlf) @ concat (map (\<lambda>s. s @ crlf) hs) @ crlf @ body"

definition http_body :: "cstring list \<Rightarrow> u8 list list \<Rightarrow> u8 list" where
  "http_body hs cs =
     (if \<exists>s \<in> set hs. chunked_spec s then chunk_encode cs @ (fmt_num 16 0 @ crlf) @ crlf else concat cs)"

definition proper_response :: "cstring \<Rightarrow> cstring list \<Rightarrow> u8 list list \<Rightarrow> bool" where
  "proper_response st hs cs \<longleftrightarrow> proper_line st \<and> status_spec st = Some None \<and>
     (\<forall>s \<in> set hs. proper_line s) \<and> length hs < 2 ^ 31 \<and> (\<forall>c \<in> set cs. c \<noteq> [] \<and> length c < 2 ^ 32)"

lemma http_bytes_done: "5 \<le> hp_State p \<Longrightarrow> http_bytes pl bs p = Some (Inr p)"
  by (induction bs) (simp_all add: http_char_def)

lemma response_run:
  assumes Line: "length Line = HTTP_MAX_REQUEST_LINE" and b: "length b = n" and r: "proper_response st hs cs"
  shows "stored n (concat cs) (\<lambda>q. hp_State q = 1 \<or> hp_State q = 5)
     (http_bytes (Some n) (http_text st hs (http_body hs cs)) (http_start Line b))"
proof -
  let ?p = "http_start Line b" and ?ch = "\<exists>s \<in> set hs. chunked_spec s"
  have p: "at_header 0 False ?p" "holds n ?p []"
    using Line b by (simp_all add: at_header_def line_at_def http_start_def HTTP_MAX_REQUEST_LINE_def holds_def)
  obtain q where q: "http_bytes (Some n) (st @ crlf) ?p = Some (Inr q)" "at_header 1 False q" "same_content ?p q"
    using status_line_run [OF _ p(1), of st "Some n"] r unfolding proper_response_def by blast
  obtain t where t: "http_bytes (Some n) (concat (map (\<lambda>s. s @ crlf) hs)) q = Some (Inr t)"
    "at_header (1 + length hs) ?ch t" "same_content q t"
    using header_run [OF _ q(2), of hs "Some n"] r by (auto simp: proper_response_def)
  let ?t = "t\<lparr>hp_State := (if ?ch then 2 else 1), hp_nChar := 0\<rparr>"
  have ht: "holds n ?t []" using p(2) q(3) t(3) by (auto simp: same_content_def intro: holds_cong)
  have run: "http_bytes (Some n) (http_text st hs (http_body hs cs)) ?p = http_bytes (Some n) (http_body hs cs) ?t"
    unfolding http_text_def bytes_seq [OF q(1)] bytes_seq [OF t(1)] by (rule bytes_seq [OF header_end [OF t(2)]])
  show ?thesis
  proof (cases ?ch)
    case False
    then have "stored n ([] @ concat cs) (\<lambda>q. hp_State q = 1) (http_bytes (Some n) (concat cs) ?t)"
      by (intro plain_run ht) simp
    with False show ?thesis unfolding run by (auto simp: http_body_def stored_def)
  next
    case True
    then have "at_chunk ?t" using t(2) by (simp add: at_header_def at_chunk_def line_at_def)
    then have c: "stored n ([] @ concat cs) at_chunk (http_bytes (Some n) (chunk_encode cs) ?t)"
      using r by (intro chunks_run ht) (auto simp: proper_response_def)
    have e: "stored n ([] @ concat cs) (\<lambda>q. hp_State q = 5) (http_bytes (Some n) ((fmt_num 16 0 @ crlf) @ crlf) q)"
      if q: "holds n q ([] @ concat cs)" "at_chunk q" for q
    proof -
      obtain u where u: "http_bytes (Some n) (fmt_num 16 0 @ crlf) q = Some (Inr u)" "hp_State u = 5" "same_content q u"
        using chunk_header_run [OF q(2), of 0 "Some n"] by auto
      then have "http_bytes (Some n) ((fmt_num 16 0 @ crlf) @ crlf) q = Some (Inr u)"
        unfolding bytes_seq [OF u(1)] by (intro http_bytes_done) simp
      moreover have "holds n u ([] @ concat cs)" using q(1) u(3) by (auto simp: same_content_def intro: holds_cong)
      ultimately show ?thesis using u(2) q(1) by (auto simp: stored_def holds_def)
    qed
    have "stored n (([] @ concat cs) @ []) (\<lambda>q. hp_State q = 5)
        (http_bytes (Some n) (chunk_encode cs @ ((fmt_num 16 0 @ crlf) @ crlf)) ?t)"
      by (rule stored_then [OF c]) (use e in auto)
    with True show ?thesis unfolding run by (auto simp: http_body_def stored_def)
  qed
qed

subsection \<open>Receiving\<close>

text \<open>The peer delivers the given non-empty frames and then closes the connection.\<close>

fun peer_sends :: "('w, 'x) net_env_scheme \<Rightarrow> 'w \<Rightarrow> u8 list list \<Rightarrow> bool" where
  "peer_sends E w [] \<longleftrightarrow> fst (fst (sock_Receive E (FRAME_BUFFER_SIZE E) False w)) \<le> 0"
| "peer_sends E w (f # fs) \<longleftrightarrow> f \<noteq> [] \<and>
     fst (sock_Receive E (FRAME_BUFFER_SIZE E) False w) = (int (length f), f) \<and>
     peer_sends E (snd (sock_Receive E (FRAME_BUFFER_SIZE E) False w)) fs"

lemma http_receive_frames:
  assumes "peer_sends E w fs"
  shows "\<exists>w'. http_receive E pl p w = Some (map_option (\<lambda>r. (r, w')) (http_bytes pl (concat fs) p))"
  using assms
proof (induction fs arbitrary: p w)
  case Nil
  obtain r bs w' where s: "sock_Receive E (FRAME_BUFFER_SIZE E) False w = ((r, bs), w')" by (metis surj_pair)
  with Nil have "\<not> 0 < r" by simp
  with s show ?case by (subst http_receive.simps) auto
next
  case (Cons f fs)
  obtain w' where s: "sock_Receive E (FRAME_BUFFER_SIZE E) False w = ((int (length f), f), w')" "peer_sends E w' fs" "f \<noteq> []"
    using Cons.prems by (metis peer_sends.simps(2) prod.collapse)
  show ?case
  proof (cases "hp_State p < 5")
    case False
    then show ?thesis using http_bytes_done [of p pl "concat (f # fs)"]
      by (subst http_receive.simps) simp
  next
    case True
    then have run: "http_receive E pl p w = (case http_bytes pl f p of None \<Rightarrow> Some None
        | Some (Inl st) \<Rightarrow> Some (Some (Inl st, w')) | Some (Inr p') \<Rightarrow> http_receive E pl p' w')"
      using s by (subst http_receive.simps) simp
    show ?thesis
    proof (cases "http_bytes pl f p")
      case None
      then show ?thesis using run by (simp add: http_bytes_append)
    next
      case (Some r)
      then show ?thesis
        using run Cons.IH [OF s(2)] by (cases r) (simp_all add: http_bytes_append)
    qed
  qed
qed

text \<open>The worlds of \<open>http_connect\<close>: after the set-up of the socket, and after \<open>Connect\<close> if it comes to that.\<close>

lemma http_connect_worlds:
  assumes "http_connect E h w = Some (ex, h1, w1)"
  obtains v where "h1 = h\<lparr>hc_Socket := True\<rparr>"
    "v = sock_new E False w \<or> v = snd (ssl_AddCertificatePath E (cstr ''/'') (sock_new E True w)) \<or>
       (\<exists>t. v = snd (ssl_Setup E (hc_ServerName h) t (snd (ssl_AddCertificatePath E (cstr ''/'') (sock_new E True w)))))"
    "w1 = v \<and> ex = Some ([Delete_Socket, Clear_Socket], HTTPInternalClientError) \<or>
       w1 = snd (sock_Connect E (hc_ServerIP h) (hc_ServerPort h) v) \<and>
       (ex = None \<or> ex = Some ([Delete_Socket, Clear_Socket], HTTPRequestTimeout))"
proof (cases "hc_UseSSL h")
  case False
  then show thesis
    using assms that [of "sock_new E False w"] by (auto simp: http_connect_def split: prod.splits if_splits)
next
  case ssl: True
  obtain r1 v1 where 1: "ssl_AddCertificatePath E (cstr ''/'') (sock_new E True w) = (r1, v1)" by (metis surj_pair)
  show thesis
  proof (cases "r1 < 0")
    case True
    then show thesis using assms ssl 1 that [of v1] by (simp add: http_connect_def)
  next
    case False
    then obtain str where str: "null_string E = Some str" "hc_ServerName h \<noteq> []"
      using assms ssl 1
      by (cases "null_string E"; cases "hc_ServerName h = []") (simp_all add: http_connect_def simple_Setup_def Let_def)
    obtain r2 v2 where "ssl_Setup E (hc_ServerName h) str v1 = (r2, v2)" by (metis surj_pair)
    moreover have "\<exists>t. v2 = snd (ssl_Setup E (hc_ServerName h) t v1)" using calculation by (metis snd_conv)
    ultimately show thesis
      using assms ssl 1 False str that [of v2]
      by (auto simp: http_connect_def simple_Setup_def split: prod.splits if_splits)
  qed
qed

text \<open>
  A network that delivers only finitely many bytes: \<open>left w\<close> bounds those still to come, whatever is
  called.
\<close>

locale closing_net =
  fixes E :: "('w, 'x) net_env_scheme" and left :: "'w \<Rightarrow> nat"
  assumes recv_left: "sock_Receive E n False w = ((r, bs), w') \<Longrightarrow> 0 < r \<Longrightarrow>
      int (length bs) = r \<and> left w' + length bs \<le> left w"
    and left_new: "left (sock_new E b w) \<le> left w"
    and left_path: "left (snd (ssl_AddCertificatePath E s w)) \<le> left w"
    and left_setup: "left (snd (ssl_Setup E s t w)) \<le> left w"
    and left_connect: "left (snd (sock_Connect E a pt w)) \<le> left w"
    and left_send: "left (snd (sock_Send E bs dw w)) \<le> left w"
begin

lemma peer_ends: "\<exists>fs. peer_sends E w fs \<and> length (concat fs) \<le> left w"
proof (induction "left w" arbitrary: w rule: less_induct)
  case less
  obtain r bs w' where s: "sock_Receive E (FRAME_BUFFER_SIZE E) False w = ((r, bs), w')" by (metis surj_pair)
  show ?case
  proof (cases "0 < r")
    case True
    then have l: "int (length bs) = r" "left w' + length bs \<le> left w" "bs \<noteq> []" using recv_left [OF s] by auto
    then have "left w' < left w" by (cases bs) auto
    then obtain fs where "peer_sends E w' fs" "length (concat fs) \<le> left w'" using less.hyps by blast
    then have "peer_sends E w (bs # fs) \<and> length (concat (bs # fs)) \<le> left w" using s l by auto
    then show ?thesis by blast
  next
    case False
    then have "peer_sends E w [] \<and> length (concat []) \<le> left w" using s by simp
    then show ?thesis by blast
  qed
qed

lemma connect_left:
  assumes "http_connect E h w = Some (ex, h1, w1)"
  shows "left w1 \<le> left w"
proof (rule http_connect_worlds [OF assms])
  fix v
  let ?v = "snd (ssl_AddCertificatePath E (cstr ''/'') (sock_new E True w))"
  assume v: "v = sock_new E False w \<or> v = ?v \<or> (\<exists>t. v = snd (ssl_Setup E (hc_ServerName h) t ?v))"
    "w1 = v \<and> ex = Some ([Delete_Socket, Clear_Socket], HTTPInternalClientError) \<or>
       w1 = snd (sock_Connect E (hc_ServerIP h) (hc_ServerPort h) v) \<and>
       (ex = None \<or> ex = Some ([Delete_Socket, Clear_Socket], HTTPRequestTimeout))"
  have "left ?v \<le> left w" using left_path left_new le_trans by blast
  then have "left v \<le> left w" using v(1) left_new left_setup le_trans by blast
  then show ?thesis using v(2) left_connect le_trans by blast
qed

end

definition script_left :: "script \<Rightarrow> nat" where
  "script_left w = sum_list (map length (rx_frames w))"

interpretation script_closing: closing_net "script_net_env fbs" script_left
  by unfold_locales
    (auto simp: script_net_env_def script_circle_def script_left_def split: list.splits if_splits)

end
