(* ===== verification/Http_Props.thy ===== *)
theory Http_Props
  imports Http_Response
begin

text \<open>
  The properties of the HTTP client: the content of a response reaches the caller, which responses
  the parser does not survive, termination, release of the socket, and two answers that are taken
  for good although they are not.
\<close>

subsection \<open>An exchange\<close>

text \<open>The connection is established, the request goes out and the peer answers with the frames.\<close>

definition http_exchange ::
  "('w, 'x) net_env_scheme \<Rightarrow> http_client \<Rightarrow> http_method \<Rightarrow> cstring \<Rightarrow> cstring option \<Rightarrow> 'w \<Rightarrow>
     u8 list list \<Rightarrow> bool" where
  "http_exchange E h m path form w fs \<longleftrightarrow> \<not> hc_Socket h \<and>
     (case http_connect E h w of
        Some (None, h1, w1) \<Rightarrow>
          (case request_text h1 m path form of
             None \<Rightarrow> False
           | Some req \<Rightarrow> (case sock_Send E req False w1 of (r, w2) \<Rightarrow> 0 \<le> r \<and> peer_sends E w2 fs))
      | _ \<Rightarrow> False)"

text \<open>Every return of the parser and of the end of \<open>Request\<close> has deleted and cleared the socket.\<close>

lemma exit_run_done:
  "\<not> hc_Socket h \<Longrightarrow> exit_run E [Delete_Socket, Clear_Socket] (h\<lparr>hc_Socket := True\<rparr>, w) = (h, sock_delete E w)"
  by simp

lemma http_char_exit: "http_char pl c p = Some (Inl ex) \<Longrightarrow> fst ex = [Delete_Socket, Clear_Socket]"
  by (auto simp: http_char_def header_char_def content_char_def chunk_header_char_def chunk_data_char_def
      chunk_trailer_char_def Let_def split: if_splits option.splits sum.splits prod.splits Option.bind_splits)

lemma http_bytes_exit: "http_bytes pl bs p = Some (Inl (ex, b)) \<Longrightarrow> fst ex = [Delete_Socket, Clear_Socket]"
  by (induction bs arbitrary: p) (auto split: option.splits sum.splits dest: http_char_exit)

lemma http_finish_exit: "http_finish pl p = Some (ss, res) \<Longrightarrow> ss = [Delete_Socket, Clear_Socket]"
  by (auto simp: http_finish_def res_simps split: if_splits)

lemma Request_run:
  assumes "http_exchange E h m path form w fs"
  shows "\<exists>w'. Request E Line m path b pl form h w = Some
     (case http_bytes pl (concat fs) (http_start Line b) of
        None \<Rightarrow> None
      | Some (Inl ((ss, st), b')) \<Rightarrow> Some (\<lparr>hr_Status = st, hr_Buffer = b', hr_Length = pl\<rparr>, h, w')
      | Some (Inr p) \<Rightarrow> map_option (\<lambda>(ss, res). (res, h, w')) (http_finish pl p))"
proof -
  obtain h1 w1 req r w2 where x: "\<not> hc_Socket h" "http_connect E h w = Some (None, h1, w1)"
    "request_text h1 m path form = Some req" "sock_Send E req False w1 = (r, w2)" "0 \<le> r" "peer_sends E w2 fs"
  proof -
    obtain ex h1 w1 where c0: "http_connect E h w = Some (ex, h1, w1)"
      using assms by (cases "http_connect E h w") (auto simp: http_exchange_def)
    then have c: "http_connect E h w = Some (None, h1, w1)"
      using assms by (cases ex) (auto simp: http_exchange_def)
    moreover obtain req where "request_text h1 m path form = Some req"
      using assms c by (cases "request_text h1 m path form") (auto simp: http_exchange_def)
    moreover obtain r w2 where "sock_Send E req False w1 = (r, w2)" by (metis surj_pair)
    ultimately show thesis using that assms by (simp add: http_exchange_def)
  qed
  have h1: "h1 = h\<lparr>hc_Socket := True\<rparr>" using http_connect_worlds [OF x(2)] by metis
  obtain w' where w': "http_receive E pl (http_start Line b) w2 =
      Some (map_option (\<lambda>r. (r, w')) (http_bytes pl (concat fs) (http_start Line b)))"
    using http_receive_frames [OF x(6)] by blast
  note closed = exit_run_done [OF x(1), of E w']
  have ret: "\<exists>w'. Request E Line m path b pl form h w = Some (Some (\<lparr>hr_Status = snd ex, hr_Buffer = b', hr_Length = pl\<rparr>, h, w'))"
    if r: "http_bytes pl (concat fs) (http_start Line b) = Some (Inl (ex, b'))" for ex b'
    using http_bytes_exit [OF r] r x w' closed h1 by (cases ex) (simp add: Request_def Let_def)
  have fin: "\<exists>w'. Request E Line m path b pl form h w = Some (map_option (\<lambda>(ss, res). (res, h, w')) (http_finish pl p))"
    if r: "http_bytes pl (concat fs) (http_start Line b) = Some (Inr p)" for p
    using http_finish_exit [of pl p] r x w' closed h1 by (cases "http_finish pl p") (auto simp: Request_def Let_def)
  have "Request E Line m path b pl form h w = Some None"
    if "http_bytes pl (concat fs) (http_start Line b) = None"
    using that x w' by (simp add: Request_def Let_def)
  then show ?thesis
  proof (cases "http_bytes pl (concat fs) (http_start Line b)")
    case (Some a)
    then show ?thesis
    proof (cases a)
      case (Inl eb)
      then obtain ss st b' where "a = Inl ((ss, st), b')" by (metis prod.collapse)
      then show ?thesis using Some ret by simp
    qed (use Some fin in simp)
  qed simp
qed

lemma Request_content:
  assumes "http_exchange E h m path form w fs" "length Line = HTTP_MAX_REQUEST_LINE"
    "proper_response st hs cs" "concat fs = http_text st hs (http_body hs cs)"
  shows "\<exists>res w'. Request E Line m path b (Some (length b)) form h w = Some (Some (res, h, w')) \<and>
     (if length (concat cs) \<le> length b
      then hr_Status res = HTTPOK \<and> hr_Length res = Some (length (concat cs)) \<and>
        take (length (concat cs)) (hr_Buffer res) = concat cs \<and> length (hr_Buffer res) = length b
      else hr_Status res = HTTPContentBufferTooSmall)"
proof -
  have "stored (length b) (concat cs) (\<lambda>q. hp_State q = 1 \<or> hp_State q = 5)
      (http_bytes (Some (length b)) (concat fs) (http_start Line b))"
    unfolding assms(4) by (rule response_run [OF assms(2) refl assms(3)])
  then show ?thesis
    using Request_run [OF assms(1), of Line b "Some (length b)"]
    by (auto simp: stored_def http_finish_def holds_def split: if_splits)
qed

text \<open>
  C15. The content of a response reaches the caller: for every response with a good status line,
  header lines of at most 2047 characters and a body that is sent as it is or, if a header line says
  so, in chunks, and however the network cuts it into frames, \<open>Request\<close> returns
  \<open>HTTPOK\<close> with the content in the buffer and its length in \<open>*pLength\<close>, or
  \<open>HTTPContentBufferTooSmall\<close> if it is longer than the buffer.
\<close>

theorem http_content_returned:
  assumes "http_exchange E h m path form w fs" "length Line = HTTP_MAX_REQUEST_LINE"
    "proper_response st hs cs" "concat fs = http_text st hs (http_body hs cs)"
  shows "\<exists>res w'. Request E Line m path b (Some (length b)) form h w = Some (Some (res, h, w')) \<and>
     (if length (concat cs) \<le> length b
      then hr_Status res = HTTPOK \<and> hr_Length res = Some (length (concat cs)) \<and>
        take (length (concat cs)) (hr_Buffer res) = concat cs
      else hr_Status res = HTTPContentBufferTooSmall)"
  using Request_content [OF assms, of b] by (auto split: if_splits)

text \<open>What \<open>Request\<close> does before there is an exchange: it returns, or the exchange takes place.\<close>

lemma http_connect_returns:
  assumes "hc_UseSSL h \<longrightarrow> hc_ServerName h \<noteq> [] \<and> null_string E \<noteq> None"
  shows "\<exists>ex h1 w1. http_connect E h w = Some (ex, h1, w1)"
proof (cases "hc_UseSSL h")
  case True
  then obtain str where str: "null_string E = Some str" "hc_ServerName h \<noteq> []" using assms by auto
  obtain r1 v1 where 1: "ssl_AddCertificatePath E (cstr ''/'') (sock_new E True w) = (r1, v1)" by (metis surj_pair)
  obtain r2 v2 where 2: "ssl_Setup E (hc_ServerName h) str v1 = (r2, v2)" by (metis surj_pair)
  show ?thesis
    using True str 1 2 by (cases "r1 < 0"; cases "r2 = 0") (simp_all add: http_connect_def simple_Setup_def split: prod.splits)
qed (simp add: http_connect_def split: prod.splits)

lemma Request_before:
  assumes "closing_net E left" "\<not> hc_Socket h" "method_name m \<noteq> None"
    "hc_UseSSL h \<longrightarrow> hc_ServerName h \<noteq> [] \<and> null_string E \<noteq> None"
  shows "(\<exists>res w'. Request E Line m path b pl form h w = Some (Some (res, h, w')) \<and> (\<nexists>fs. http_exchange E h m path form w fs)) \<or>
    (\<exists>fs. http_exchange E h m path form w fs \<and> length (concat fs) \<le> left w)"
proof -
  obtain ex h1 w1 where c: "http_connect E h w = Some (ex, h1, w1)"
    using http_connect_returns [OF assms(4), of w] by auto
  have h1: "h1 = h\<lparr>hc_Socket := True\<rparr>" using http_connect_worlds [OF c] by metis
  show ?thesis
  proof (cases ex)
    case (Some e)
    then have "fst e = [Delete_Socket, Clear_Socket]" using http_connect_worlds [OF c] by (metis fst_conv option.distinct(1) option.inject)
    then show ?thesis
      using c Some assms(2) h1 by (cases e) (simp add: Request_def Let_def http_exchange_def)
  next
    case None
    obtain req where t: "request_text h1 m path form = Some req" using assms(3) by (auto simp: request_text_def)
    obtain r w2 where s: "sock_Send E req False w1 = (r, w2)" by (metis surj_pair)
    show ?thesis
    proof (cases "r < 0")
      case True
      then show ?thesis using c None t s assms(2) h1 by (simp add: Request_def Let_def http_exchange_def)
    next
      case False
      obtain fs where fs: "peer_sends E w2 fs" "length (concat fs) \<le> left w2"
        using closing_net.peer_ends [OF assms(1)] by blast
      have "left w2 \<le> left w"
        using closing_net.left_send [OF assms(1), of req False w1] closing_net.connect_left [OF assms(1) c] s by simp
      then show ?thesis using c None t s False fs assms(2) by (auto simp: http_exchange_def)
    qed
  qed
qed

lemma peer_sends_unique: "peer_sends E w fs \<Longrightarrow> peer_sends E w gs \<Longrightarrow> gs = fs"
proof (induction fs arbitrary: w gs)
  case Nil
  then show ?case by (cases gs) auto
next
  case (Cons f fs)
  then show ?case by (cases gs) auto
qed

lemma http_exchange_unique: "http_exchange E h m path form w fs \<Longrightarrow> http_exchange E h m path form w gs \<Longrightarrow> gs = fs"
  by (auto simp: http_exchange_def split: option.splits prod.splits dest: peer_sends_unique)

text \<open>The answers of C16.\<close>

lemma Request_fails:
  assumes "http_exchange E h m path form w fs" "length Line = HTTP_MAX_REQUEST_LINE"
    "length (concat fs) < 2 ^ 32"
  shows "if 10 \<in> set (concat fs) \<and> first_line (concat fs) \<noteq> [] \<and>
      status_spec (takeWhile (\<lambda>c. c \<noteq> 0) (first_line (concat fs))) = None
    then Request E Line m path b (Some (length b)) form h w = Some None
    else \<exists>res w'. Request E Line m path b (Some (length b)) form h w = Some (Some (res, h, w'))"
proof -
  let ?r = "http_bytes (Some (length b)) (concat fs) (http_start Line b)"
  note none = http_bytes_fails [OF assms(2) refl assms(3)]
  have ok: "hp_nLength q \<le> length b" if "?r = Some (Inr q)" for q
    using http_bytes_keeps [OF http_start_ok [OF assms(2) refl], of b "concat fs" q] that by (simp add: hp_ok_def)
  show ?thesis
  proof (cases ?r)
    case None
    then show ?thesis using Request_run [OF assms(1), of Line b "Some (length b)"] none [of b] by auto
  next
    case (Some a)
    have "\<exists>res w'. Request E Line m path b (Some (length b)) form h w = Some (Some (res, h, w'))"
      using Request_run [OF assms(1), of Line b "Some (length b)"] ok Some
      by (cases a) (auto simp: http_finish_def split: if_splits)
    then show ?thesis using Some none [of b] by auto
  qed
qed

text \<open>
  C16. The responses the client does not survive, exactly: \<open>Request\<close> fails (\<open>strtoul\<close> is called
  with a null pointer) if and only if the first line is complete, not empty and lacks a token, that
  is it consists of slashes, or starts with \<open>HTTP/\<close> and has no status code. Every other answer
  of less than 4 GB, however broken, is handled without access outside an array.
\<close>

theorem http_fails_exactly:
  assumes "http_exchange E h m path form w fs" "length Line = HTTP_MAX_REQUEST_LINE"
    "length (concat fs) < 2 ^ 32"
  shows "Request E Line m path b (Some (length b)) form h w = Some None \<longleftrightarrow>
     10 \<in> set (concat fs) \<and> first_line (concat fs) \<noteq> [] \<and>
     status_spec (takeWhile (\<lambda>c. c \<noteq> 0) (first_line (concat fs))) = None"
  using Request_fails [OF assms, of b] by (auto split: if_splits)

text \<open>
  C17. A request ends: on every network that delivers only finitely many bytes (less than 4 GB),
  \<open>Request\<close> returns a result to its caller, with the client as it was, whatever the bytes are and
  whichever step fails, if and only if the answer is not one of those of C16; for those it ends in
  the null pointer. (With SSL the server needs a name, which is asserted, and address 0 must be
  readable, since \<open>Setup\<close> is called without the personalization string.)
\<close>

theorem http_request_ends:
  assumes "closing_net E left" "left w < 2 ^ 32" "length Line = HTTP_MAX_REQUEST_LINE" "\<not> hc_Socket h"
    "m = HTTPRequestMethodGet \<or> m = HTTPRequestMethodPost"
    "hc_UseSSL h \<longrightarrow> hc_ServerName h \<noteq> [] \<and> null_string E \<noteq> None"
  shows "Request E Line m path b (Some (length b)) form h w \<noteq> None \<and>
    ((\<exists>res w'. Request E Line m path b (Some (length b)) form h w = Some (Some (res, h, w'))) \<longleftrightarrow>
     \<not> (\<exists>fs. http_exchange E h m path form w fs \<and> 10 \<in> set (concat fs) \<and> first_line (concat fs) \<noteq> [] \<and>
          status_spec (takeWhile (\<lambda>c. c \<noteq> 0) (first_line (concat fs))) = None))"
proof -
  have "method_name m \<noteq> None" using assms(5) by (auto simp: method_name_def)
  from Request_before [OF assms(1,4) this assms(6), of Line path b "Some (length b)" form w]
  show ?thesis
  proof (elim disjE exE conjE)
    fix fs assume fs: "http_exchange E h m path form w fs" "length (concat fs) \<le> left w"
    let ?bad = "\<lambda>fs. 10 \<in> set (concat fs) \<and> first_line (concat fs) \<noteq> [] \<and>
      status_spec (takeWhile (\<lambda>c. c \<noteq> 0) (first_line (concat fs))) = None"
    have bad: "(\<exists>gs. http_exchange E h m path form w gs \<and> ?bad gs) \<longleftrightarrow> ?bad fs"
      using fs(1) http_exchange_unique [OF fs(1)] by blast
    have "length (concat fs) < 2 ^ 32" using fs(2) assms(2) by simp
    from Request_fails [OF fs(1) assms(3) this, of b] show ?thesis unfolding bad by (cases "?bad fs") auto
  next
    fix res w'
    assume "Request E Line m path b (Some (length b)) form h w = Some (Some (res, h, w'))"
      "\<nexists>fs. http_exchange E h m path form w fs"
    then show ?thesis by blast
  qed
qed

subsection \<open>Answers that are taken for good\<close>

text \<open>
  \<open>HTTPOK\<close> without content: if the status token is not \<open>200\<close> but a numeral
  of that value, such as \<open>0200\<close>, \<open>Request\<close> returns 200, that is \<open>HTTPOK\<close>, at the
  first line: nothing has been stored in the buffer and \<open>*pLength\<close> still is the buffer size,
  which the caller takes for the length of the content.
\<close>

theorem http_ok_without_content:
  assumes "http_exchange E h m path form w fs" "length Line = HTTP_MAX_REQUEST_LINE"
    "proper_line st" "status_spec st = Some (Some HTTPOK)" "concat fs = st @ crlf @ rest"
  shows "\<exists>w'. Request E Line m path b (Some (length b)) form h w =
     Some (Some (\<lparr>hr_Status = HTTPOK, hr_Buffer = b, hr_Length = Some (length b)\<rparr>, h, w'))"
proof -
  let ?p = "http_start Line b"
  have p: "line_at ?p []" "hp_State ?p = 0 \<or> hp_State ?p = 2"
    using assms(2) by (simp_all add: line_at_def http_start_def HTTP_MAX_REQUEST_LINE_def)
  obtain q where q: "http_bytes (Some (length b)) (st @ [13]) ?p = Some (Inr q)" "same_but_line ?p q" "line_at q st"
    "c_str_at (hp_Line q) 0 = Some st"
    by (rule proper_line_read [OF assms(3) p])
  have "status_line (hp_Line q) = Some (Inl HTTPOK)" using status_line_spec [OF q(4)] assms(4) by simp
  moreover have "hp_State q = 0" "hp_nLine q = 0" "hp_Buffer q = b" "hp_nChar q \<noteq> 0"
    using same_but_lineD [OF q(2)] q(3) assms(3) by (auto simp: http_start_def line_at_def proper_line_def)
  ultimately have "http_bytes (Some (length b)) (10 # rest) q = Some (Inl (([Delete_Socket, Clear_Socket], HTTPOK), b))"
    by (simp add: http_char_def header_char_def)
  then have "http_bytes (Some (length b)) (concat fs) ?p = Some (Inl (([Delete_Socket, Clear_Socket], HTTPOK), b))"
    using bytes_seq [OF q(1), of "10 # rest"] assms(5) by simp
  then show ?thesis using Request_run [OF assms(1), of Line b "Some (length b)"] by auto
qed

text \<open>
  A missing chunk header is made up: the line buffer is not cleared between chunks, so where an
  empty line stands in place of the chunk header the parser takes the length of the chunk before it
  and stores that many bytes as content, instead of returning \<open>HTTPInvalidChunkHeader\<close>.
\<close>

theorem chunk_header_reused:
  assumes "at_chunk p" "holds n p xs" "length c = length d" "c \<noteq> []" "length c < 2 ^ 32"
  shows "stored n (xs @ c @ d) at_chunk
     (http_bytes (Some n) ((fmt_num 16 (length c) @ crlf @ c @ crlf) @ crlf @ d @ crlf) p)"
proof -
  let ?f = "fmt_num 16 (length c)"
  have "stored n ((xs @ c) @ d) at_chunk (http_bytes (Some n) ((?f @ crlf @ c @ crlf) @ crlf @ d @ crlf) p)"
  proof (rule stored_then [OF chunk_run [OF assms(1,2,4,5)]])
    fix q assume h: "holds n q (xs @ c)" and q: "at_chunk q \<and> c_str_at (hp_Line q) 0 = Some ?f"
    let ?q = "q\<lparr>hp_Bytes := length c, hp_State := 3\<rparr>"
    have "http_bytes (Some n) crlf q = Some (Inr ?q)"
      using q assms(4) strtoul_fmt_num [of 16 "length c"] assms(5)
      by (simp add: http_char_def chunk_header_char_def at_chunk_def)
    then have "http_bytes (Some n) (crlf @ d @ crlf) q = http_bytes (Some n) (d @ crlf) ?q"
      by (rule bytes_seq)
    moreover have "stored n ((xs @ c) @ d) (\<lambda>r. at_chunk r \<and> hp_Line r = hp_Line ?q) (http_bytes (Some n) (d @ crlf) ?q)"
      using assms h q by (intro chunk_body_run) (auto simp: holds_def at_chunk_def line_at_def)
    ultimately show "stored n ((xs @ c) @ d) at_chunk (http_bytes (Some n) (crlf @ d @ crlf) q)"
      by (auto simp: stored_def)
  qed
  then show ?thesis by simp
qed

subsection \<open>Sockets\<close>

lemma http_receive_exit:
  assumes "http_receive E pl p w = Some (Some (Inl (ex, b), w'))"
  shows "fst ex = [Delete_Socket, Clear_Socket]"
proof -
  have "\<forall>ex b w'. x = Some (Inl (ex, b), w') \<longrightarrow> fst ex = [Delete_Socket, Clear_Socket]"
    if "http_receive F pl p w = Some x" for F :: "('w, 'x) net_env_scheme" and pl p w x
    by (rule http_receive.raw_induct [where P = "\<lambda>F pl p w x. \<forall>ex b w'. x = Some (Inl (ex, b), w') \<longrightarrow>
          fst ex = [Delete_Socket, Clear_Socket]", OF _ that])
      (auto split: if_splits option.splits sum.splits prod.splits dest: http_bytes_exit)
  from this [OF assms] show ?thesis by blast
qed

text \<open>A count of open sockets that creation and deletion change and no other service does.\<close>

locale socket_count =
  fixes E :: "('w, 'x) net_env_scheme" and opened :: "'w \<Rightarrow> int"
  assumes count_new: "opened (sock_new E b w) = opened w + 1"
    and count_delete: "opened (sock_delete E w) = opened w - 1"
    and count_path: "opened (snd (ssl_AddCertificatePath E s w)) = opened w"
    and count_setup: "opened (snd (ssl_Setup E s t w)) = opened w"
    and count_connect: "opened (snd (sock_Connect E a pt w)) = opened w"
    and count_send: "opened (snd (sock_Send E bs dw w)) = opened w"
    and count_recv: "opened (snd (sock_Receive E n dw w)) = opened w"
begin

lemma http_connect_count:
  assumes "http_connect E h w = Some (ex, h1, w1)"
  shows "opened w1 = opened w + 1"
proof (rule http_connect_worlds [OF assms])
  fix v
  let ?v = "snd (ssl_AddCertificatePath E (cstr ''/'') (sock_new E True w))"
  assume v: "v = sock_new E False w \<or> v = ?v \<or> (\<exists>t. v = snd (ssl_Setup E (hc_ServerName h) t ?v))"
    "w1 = v \<and> ex = Some ([Delete_Socket, Clear_Socket], HTTPInternalClientError) \<or>
       w1 = snd (sock_Connect E (hc_ServerIP h) (hc_ServerPort h) v) \<and>
       (ex = None \<or> ex = Some ([Delete_Socket, Clear_Socket], HTTPRequestTimeout))"
  have "opened v = opened w + 1" using v(1) count_new count_path count_setup by metis
  then show ?thesis using v(2) count_connect by metis
qed

lemma http_receive_count:
  assumes "http_receive E pl p w = Some (Some (r, w'))"
  shows "opened w' = opened w"
proof -
  have "F = E \<longrightarrow> (\<forall>r w'. x = Some (r, w') \<longrightarrow> opened w' = opened w)"
    if "http_receive F pl p w = Some x" for F pl p w x
  proof (rule http_receive.raw_induct [OF _ that])
    fix f F pl p w x
    assume 1: "\<And>F pl p w x. f F pl p w = Some x \<Longrightarrow>
        F = E \<longrightarrow> (\<forall>r w'. x = Some (r, w') \<longrightarrow> opened w' = opened w)"
      "(if hp_State p < 5
        then case sock_Receive F (FRAME_BUFFER_SIZE F) False w of ((nResult, Buffer), w') \<Rightarrow>
           if 0 < nResult
           then case http_bytes pl Buffer p of None \<Rightarrow> Some None
                | Some (Inl r) \<Rightarrow> Some (Some (Inl r, w')) | Some (Inr p') \<Rightarrow> f F pl p' w'
           else Some (Some (Inr p, w'))
        else Some (Some (Inr p, w))) = Some x"
    show "F = E \<longrightarrow> (\<forall>r w'. x = Some (r, w') \<longrightarrow> opened w' = opened w)"
    proof
      assume F: "F = E"
      obtain k bs w1 where s: "sock_Receive E (FRAME_BUFFER_SIZE E) False w = ((k, bs), w1)" by (metis surj_pair)
      have c: "opened w1 = opened w" using count_recv [of "FRAME_BUFFER_SIZE E" False w] s by simp
      show "\<forall>r w'. x = Some (r, w') \<longrightarrow> opened w' = opened w"
      proof (cases "\<exists>q. hp_State p < 5 \<and> 0 < k \<and> http_bytes pl bs p = Some (Inr q)")
        case True
        then obtain q where "f F pl q w1 = Some x" using 1(2) s F by auto
        from 1(1) [OF this] F c show ?thesis by auto
      next
        case False
        with 1(2) s F c show ?thesis by (auto split: if_splits option.splits sum.splits)
      qed
    qed
  qed
  with assms show ?thesis by blast
qed

lemma Request_count:
  assumes "Request E Line m path b pl form h w = Some (Some (res, h', w'))"
  shows "opened w' = opened w \<and> h' = h"
proof -
  obtain ex h1 w1 where c: "\<not> hc_Socket h" "http_connect E h w = Some (ex, h1, w1)"
    using assms by (auto simp: Request_def Let_def split: if_splits option.splits)
  have o1: "opened w1 = opened w + 1" by (rule http_connect_count [OF c(2)])
  have h1: "h1 = h\<lparr>hc_Socket := True\<rparr>" using http_connect_worlds [OF c(2)] by metis
  note closed = exit_run_done [OF c(1), of E, folded h1]
  show ?thesis
  proof (cases ex)
    case (Some a)
    then have "fst a = [Delete_Socket, Clear_Socket]" using http_connect_worlds [OF c(2)] by (metis fst_conv option.distinct(1) option.inject)
    then show ?thesis using assms c o1 Some closed by (cases a) (auto simp: Request_def Let_def count_delete)
  next
    case None
    then obtain req where t: "request_text h1 m path form = Some req"
      using assms c by (cases "request_text h1 m path form") (auto simp: Request_def Let_def)
    obtain r w2 where s: "sock_Send E req False w1 = (r, w2)" by (metis surj_pair)
    have o2: "opened w2 = opened w + 1" using count_send [of req False w1] s o1 by simp
    show ?thesis
    proof (cases "r < 0")
      case True
      then show ?thesis using assms c None t s o2 closed by (auto simp: Request_def Let_def count_delete)
    next
      case False
      then obtain x w3 where x: "http_receive E pl (http_start Line b) w2 = Some (Some (x, w3))"
        using assms c None t s by (auto simp: Request_def Let_def Option.bind_eq_Some_conv split: option.splits)
      then have o3: "opened w3 = opened w + 1" using http_receive_count o2 by simp
      show ?thesis
      proof (cases x)
        case (Inl eb)
        then have "fst (fst eb) = [Delete_Socket, Clear_Socket]" using http_receive_exit x by (metis prod.collapse)
        then show ?thesis
          using assms c None t s False x Inl o3 closed
          by (cases eb; cases "fst eb") (auto simp: Request_def Let_def count_delete)
      next
        case (Inr p)
        then show ?thesis
          using assms c None t s False x o3 closed http_finish_exit [of pl p]
          by (cases "http_finish pl p") (auto simp: Request_def Let_def count_delete)
      qed
    qed
  qed
qed

end

text \<open>A client of the scripted network, and a peer that answers with the given frames and closes.\<close>

definition script_http :: http_client where
  "script_http = CHTTPClient_new [10, 0, 0, 1] 80 (Some (cstr ''pi'')) False"

definition answer :: "u8 list list \<Rightarrow> script" where
  "answer fs = \<lparr>rx_frames = fs, tx_frames = [], clock = 0, peer_open = True\<rparr>"

text \<open>Any environment with a counter beside it.\<close>

definition counted :: "('w, 'x) net_env_scheme \<Rightarrow> ('w \<times> int) net_env" where
  "counted E =
     \<lparr>FRAME_BUFFER_SIZE = FRAME_BUFFER_SIZE E, HZ = HZ E,
          heap_new = (\<lambda>n (w, k). let (x, w') = heap_new E n w in (x, (w', k))),
          sock_Send = (\<lambda>bs dw (w, k). let (x, w') = sock_Send E bs dw w in (x, (w', k))),
          sock_Receive = (\<lambda>n dw (w, k). let (x, w') = sock_Receive E n dw w in (x, (w', k))),
          GetTicks = (\<lambda>(w, k). let (x, w') = GetTicks E w in (x, (w', k))),
          sock_new = (\<lambda>b (w, k). (sock_new E b w, k + 1)),
          ssl_AddCertificatePath = (\<lambda>s (w, k). let (x, w') = ssl_AddCertificatePath E s w in (x, (w', k))),
          ssl_Setup = (\<lambda>s t (w, k). let (x, w') = ssl_Setup E s t w in (x, (w', k))),
          sock_Connect = (\<lambda>a p (w, k). let (x, w') = sock_Connect E a p w in (x, (w', k))),
          sock_delete = (\<lambda>(w, k). (sock_delete E w, k - 1)), null_string = null_string E\<rparr>"

interpretation counted: socket_count "counted E" snd for E :: "('w, 'x) net_env_scheme"
  by unfold_locales (auto simp: counted_def Let_def split: prod.splits)

text \<open>
  C18. \<open>Request\<close> does not leak sockets: on every return path, successful or not, exactly the socket
  that it created has been deleted again and the client is as before, ready for the next request.
\<close>

theorem http_socket_released:
  assumes "socket_count E opened" "Request E Line m path b pl form h w = Some (Some (res, h', w'))"
  shows "opened w' = opened w \<and> h' = h"
  by (rule socket_count.Request_count [OF assms])

theorem http_socket_released_witness:
  "\<exists>res h' w'. Request (counted (script_net_env 16)) [] HTTPRequestMethodGet [47] [] (Some 0) None
       script_http (answer [], 0) = Some (Some (res, h', w')) \<and> snd w' = 0"
proof -
  have "\<exists>res h' w'. Request (counted (script_net_env 16)) [] HTTPRequestMethodGet [47] [] (Some 0) None
       script_http (answer [], 0) = Some (Some (res, h', w'))"
    by (simp add: Request_def script_http_def CHTTPClient_new_def http_connect_def counted_def script_net_env_def
        script_circle_def answer_def request_text_def method_name_def http_receive.simps http_start_def http_finish_def)
  then obtain res h' w' where "Request (counted (script_net_env 16)) [] HTTPRequestMethodGet [47] [] (Some 0) None
       script_http (answer [], 0) = Some (Some (res, h', w'))" by blast
  with http_socket_released [OF counted.socket_count_axioms this] show ?thesis by simp
qed

subsection \<open>Concrete exchanges\<close>

definition line0 :: "u8 list" where
  "line0 = replicate HTTP_MAX_REQUEST_LINE 0"

lemma line0_length: "length line0 = HTTP_MAX_REQUEST_LINE"
  by (simp add: line0_def)

lemma script_net_simps:
  "sock_new (script_net_env fbs) b w = w" "ssl_AddCertificatePath (script_net_env fbs) s w = (1, w)"
  "ssl_Setup (script_net_env fbs) s t w = (0, w)" "null_string (script_net_env fbs) = Some []"
  "sock_Connect (script_net_env fbs) a pt w = (if peer_open w then 0 else -1, w)"
  "sock_Send (script_net_env fbs) bs dw w = (int (length bs), w\<lparr>tx_frames := tx_frames w @ [bs]\<rparr>)"
  by (simp_all add: script_net_env_def script_circle_def)

lemma script_exchange:
  assumes "\<forall>f \<in> set fs. f \<noteq> [] \<and> length f \<le> fbs" "\<not> hc_Socket h" "hc_ServerName h \<noteq> []"
  shows "http_exchange (script_net_env fbs) h HTTPRequestMethodGet path None (answer fs) fs"
proof -
  have "peer_sends (script_net_env fbs) ((answer fs)\<lparr>tx_frames := x\<rparr>) fs" for x
    using assms(1)
    by (induction fs) (simp_all add: answer_def script_net_env_def script_circle_def)
  moreover have "http_connect (script_net_env fbs) h (answer fs) = Some (None, h\<lparr>hc_Socket := True\<rparr>, answer fs)"
    using assms(3) by (cases "hc_UseSSL h") (simp_all add: http_connect_def simple_Setup_def script_net_simps answer_def)
  moreover obtain req where "request_text (h\<lparr>hc_Socket := True\<rparr>) HTTPRequestMethodGet path None = Some req"
    by (simp add: request_text_def method_name_def)
  ultimately show ?thesis
    using assms(2) by (simp add: http_exchange_def script_net_simps)
qed

lemma script_http_simps [simp]: "\<not> hc_Socket script_http" "hc_ServerName script_http \<noteq> []"
  by (simp_all add: script_http_def CHTTPClient_new_def)

text \<open>A client that uses SSL, and a peer that does not have the page.\<close>

definition script_https :: http_client where
  "script_https = CHTTPClient_new [10, 0, 0, 1] 443 (Some (cstr ''pi'')) True"

theorem http_request_ends_witness:
  "\<exists>res w'. Request (script_net_env 1536) line0 HTTPRequestMethodGet [47] [0, 0] (Some (length [0, 0 :: u8])) None
     script_https (answer [cstr ''HTTP/1.1 404 Not Found'', [13, 10]]) = Some (Some (res, script_https, w'))"
proof -
  let ?fs = "[cstr ''HTTP/1.1 404 Not Found'', [13, 10]]"
  have h: "\<not> hc_Socket script_https" "hc_ServerName script_https \<noteq> []"
    by (simp_all add: script_https_def CHTTPClient_new_def)
  have "http_exchange (script_net_env 1536) script_https HTTPRequestMethodGet [47] None (answer ?fs) ?fs"
    by (intro script_exchange h) simp
  note unique = http_exchange_unique [OF this]
  have good: "status_spec (takeWhile (\<lambda>c. c \<noteq> 0) (first_line (concat ?fs))) \<noteq> None"
    by (simp add: status_spec_def tokenize_def first_line_def HTTP_MAX_REQUEST_LINE_def)
  have "script_left (answer ?fs) < 2 ^ 32" by (simp add: script_left_def answer_def)
  then have eq: "(\<exists>res w'. Request (script_net_env 1536) line0 HTTPRequestMethodGet [47] [0, 0] (Some (length [0, 0 :: u8])) None
      script_https (answer ?fs) = Some (Some (res, script_https, w'))) \<longleftrightarrow>
    \<not> (\<exists>fs. http_exchange (script_net_env 1536) script_https HTTPRequestMethodGet [47] None (answer ?fs) fs \<and>
      10 \<in> set (concat fs) \<and> first_line (concat fs) \<noteq> [] \<and>
      status_spec (takeWhile (\<lambda>c. c \<noteq> 0) (first_line (concat fs))) = None)"
    by (rule http_request_ends [OF script_closing.closing_net_axioms _ line0_length h(1), THEN conjunct2])
      (simp_all add: h(2) script_net_simps)
  show ?thesis
  proof (rule iffD2 [OF eq], rule notI, elim exE conjE)
    fix fs
    assume "http_exchange (script_net_env 1536) script_https HTTPRequestMethodGet [47] None (answer ?fs) fs"
      "status_spec (takeWhile (\<lambda>c. c \<noteq> 0) (first_line (concat fs))) = None"
    then show False using good unique by metis
  qed
qed

definition chunked_answer :: "cstring list" where
  "chunked_answer = [cstr ''Transfer-Encoding: chunked'']"

lemma proper_answer: "proper_response (cstr ''HTTP/1.1 200 OK'') chunked_answer [[97, 98], [99]]"
proof -
  have "status_spec (cstr ''HTTP/1.1 200 OK'') = Some None" by code_simp
  then show ?thesis by (simp add: proper_response_def proper_line_def chunked_answer_def HTTP_MAX_REQUEST_LINE_def)
qed

theorem http_content_returned_witness:
  "\<exists>res w'. Request (script_net_env 1536) line0 HTTPRequestMethodGet [47] [0, 0, 0, 0] (Some (length [0, 0, 0, 0 :: u8]))
       None script_http
       (answer [http_text (cstr ''HTTP/1.1 200 OK'') chunked_answer (http_body chunked_answer [[97, 98], [99]])]) =
     Some (Some (res, script_http, w')) \<and> hr_Status res = HTTPOK \<and> hr_Length res = Some 3 \<and>
     take 3 (hr_Buffer res) = [97, 98, 99]"
proof -
  let ?f = "http_text (cstr ''HTTP/1.1 200 OK'') chunked_answer (http_body chunked_answer [[97, 98], [99]])"
  have "?f \<noteq> []" "length ?f \<le> 1536" by code_simp+
  then have "http_exchange (script_net_env 1536) script_http HTTPRequestMethodGet [47] None (answer [?f]) [?f]"
    by (intro script_exchange) simp_all
  from http_content_returned [OF this line0_length proper_answer, of "[0, 0, 0, 0]"] show ?thesis
    by (simp add: numeral_3_eq_3)
qed

theorem http_fails_exactly_witness:
  "Request (script_net_env 1536) line0 HTTPRequestMethodGet [47] [0] (Some (length [0 :: u8])) None script_http
     (answer [cstr ''HTTP/1.1'', [13, 10]]) = Some None"
proof -
  let ?fs = "[cstr ''HTTP/1.1'', [13, 10]]"
  have "http_exchange (script_net_env 1536) script_http HTTPRequestMethodGet [47] None (answer ?fs) ?fs"
    by (intro script_exchange) simp_all
  moreover have "status_spec (takeWhile (\<lambda>c. c \<noteq> 0) (first_line (concat ?fs))) = None"
    "first_line (concat ?fs) \<noteq> []"
    by code_simp+
  ultimately show ?thesis
    using http_fails_exactly [OF _ line0_length, of "script_net_env 1536" script_http HTTPRequestMethodGet "[47]" None "answer ?fs" ?fs "[0]"]
    by simp
qed

theorem http_ok_without_content_witness:
  "\<exists>w'. Request (script_net_env 1536) line0 HTTPRequestMethodGet [47] [5, 6] (Some (length [5, 6 :: u8])) None script_http
       (answer [cstr ''HTTP/1.1 0200 OK'', [13, 10]]) =
     Some (Some (\<lparr>hr_Status = HTTPOK, hr_Buffer = [5, 6], hr_Length = Some (length [5, 6 :: u8])\<rparr>, script_http, w'))"
proof -
  let ?s = "cstr ''HTTP/1.1 0200 OK''"
  have "http_exchange (script_net_env 1536) script_http HTTPRequestMethodGet [47] None (answer [?s, [13, 10]]) [?s, [13, 10]]"
    by (intro script_exchange) simp_all
  moreover have "proper_line ?s" by (simp add: proper_line_def HTTP_MAX_REQUEST_LINE_def)
  moreover have "status_code (cstr ''0200'') = HTTPOK"
    by (simp add: status_code_def strtoul_def sign_of_def isspace_def digit_value_def digits_value_def HTTPOK_def)
  then have "status_spec ?s = Some (Some HTTPOK)"
    by (simp add: status_spec_def tokenize_def)
  ultimately show ?thesis
    using http_ok_without_content [OF _ line0_length, of "script_net_env 1536" script_http HTTPRequestMethodGet "[47]" None
        "answer [?s, [13, 10]]" "[?s, [13, 10]]" ?s "[]" "[5, 6]"]
    by simp
qed

theorem chunk_header_reused_witness:
  "stored 4 ([] @ [97, 98] @ [99, 100]) at_chunk
     (http_bytes (Some 4) ((fmt_num 16 (length [97, 98 :: u8]) @ crlf @ [97, 98] @ crlf) @ crlf @ [99, 100] @ crlf)
       ((http_start line0 [0, 0, 0, 0])\<lparr>hp_State := 2\<rparr>))"
  by (rule chunk_header_reused)
    (simp_all add: at_chunk_def line_at_def http_start_def line0_length holds_def, simp add: HTTP_MAX_REQUEST_LINE_def)

end
