(* ===== verification/Html_Scanner.thy ===== *)
theory Html_Scanner
  imports C_Strings
begin

text \<open>
  The HTML scanner of the web client (\<open>samples/mbedtls/06-webclient/htmlscanner.cpp\<close>). The document
  is an array with a terminating zero. The part of \<open>m_Buffer\<close> before \<open>p\<close> is the list of its
  bytes; every byte stored there is not zero, so a comparison with \<open>strncmp\<close> is one of prefixes.
  \<open>sg\<close> says whether the type \<open>char\<close> is signed.
\<close>

definition HTMLSCAN_MAXIMUM_ITEM :: nat where "HTMLSCAN_MAXIMUM_ITEM = 0x2000"

datatype html_item = HtmlItemTag | HtmlItemText | HtmlItemCData | HtmlItemComment | HtmlItemEOF | HtmlItemError | HtmlItemUnknown

record html_scanner =
  hs_Content :: "u8 list"
  hs_Index :: nat
  hs_WhiteSpace :: bool
  hs_Tag :: bool

definition CHtmlScanner_new :: "u8 list \<Rightarrow> html_scanner" where
  "CHtmlScanner_new pContent = \<lparr>hs_Content = pContent, hs_Index = 0, hs_WhiteSpace = True, hs_Tag = False\<rparr>"

definition c_char :: "bool \<Rightarrow> u8 \<Rightarrow> int" where
  "c_char sg b = (if sg then sint b else uint b)"

function GetChar :: "bool \<Rightarrow> html_scanner \<Rightarrow> (int \<times> html_scanner) option" where
  "GetChar sg h =
     (case get_at (hs_Content h) (hs_Index h) of
        None \<Rightarrow> None
      | Some b \<Rightarrow>
          if b = 0 then Some (-1, h)
          else if b = 13 then GetChar sg (h\<lparr>hs_Index := Suc (hs_Index h)\<rparr>)
          else if b = 10 \<or> b = 9 \<or> b = 32
          then if hs_WhiteSpace h then GetChar sg (h\<lparr>hs_Index := Suc (hs_Index h)\<rparr>)
               else Some (32, h\<lparr>hs_Index := Suc (hs_Index h), hs_WhiteSpace := True\<rparr>)
          else if b = 26 then Some (-1, h\<lparr>hs_Index := Suc (hs_Index h)\<rparr>)
          else Some (c_char sg b, h\<lparr>hs_Index := Suc (hs_Index h), hs_WhiteSpace := False\<rparr>))"
  by pat_completeness auto
termination
  by (relation "measure (\<lambda>(sg, h). length (hs_Content h) - hs_Index h)") (auto simp: get_at_Some)

declare GetChar.simps [simp del]

lemma GetChar_step:
  "get_at (hs_Content h) (hs_Index h) = Some b \<Longrightarrow> GetChar sg h =
     (if b = 0 then Some (-1, h)
      else if b = 13 then GetChar sg (h\<lparr>hs_Index := Suc (hs_Index h)\<rparr>)
      else if b = 10 \<or> b = 9 \<or> b = 32
      then if hs_WhiteSpace h then GetChar sg (h\<lparr>hs_Index := Suc (hs_Index h)\<rparr>)
           else Some (32, h\<lparr>hs_Index := Suc (hs_Index h), hs_WhiteSpace := True\<rparr>)
      else if b = 26 then Some (-1, h\<lparr>hs_Index := Suc (hs_Index h)\<rparr>)
      else Some (c_char sg b, h\<lparr>hs_Index := Suc (hs_Index h), hs_WhiteSpace := False\<rparr>))"
  by (subst GetChar.simps) simp

lemma GetChar_advances:
  "GetChar sg h = Some (c, h') \<Longrightarrow> hs_Content h' = hs_Content h \<and> hs_Tag h' = hs_Tag h \<and>
     (c \<noteq> -1 \<longrightarrow> hs_Index h < hs_Index h' \<and> hs_Index h' \<le> length (hs_Content h))"
proof (induction sg h rule: GetChar.induct)
  case (1 sg h)
  show ?case
  proof (cases "get_at (hs_Content h) (hs_Index h)")
    case (Some b)
    then have "hs_Index h < length (hs_Content h)" by (simp add: get_at_Some)
    then show ?thesis
      using "1.prems" "1.IH" [OF Some] unfolding GetChar_step [OF Some] by (auto split: if_splits)
  qed (use "1.prems" in \<open>simp add: GetChar.simps\<close>)
qed

subsection \<open>Items\<close>

definition CDATA_START :: cstring where "CDATA_START = cstr ''<![CDATA[''"
definition COMMENT_START :: cstring where "COMMENT_START = cstr ''<!--''"

text \<open>What the loop does with the buffer after a character: the item that is complete, if any.\<close>

definition item_complete :: "cstring \<Rightarrow> (html_item \<times> cstring) option" where
  "item_complete buf =
     (let c = last buf in
      if hd buf \<noteq> 60 \<and> c = 60
      then let t = butlast buf
           in Some (HtmlItemText, if length t > 0 \<and> last t = 32 then butlast t else t)
      else if take 9 buf = CDATA_START \<and> length buf \<ge> 12 \<and> drop (length buf - 3) buf = cstr '']]>''
      then Some (HtmlItemCData, drop 9 (take (length buf - 3) buf))
      else if hd buf = 60 \<and> take 9 buf \<noteq> CDATA_START \<and> take 4 buf \<noteq> COMMENT_START \<and> c = 62
      then Some (HtmlItemTag, buf)
      else if take 4 buf = COMMENT_START \<and> length buf \<ge> 8 \<and> drop (length buf - 3) buf = cstr ''-->''
      then Some (HtmlItemComment, buf)
      else None)"

function scan_loop :: "bool \<Rightarrow> cstring \<Rightarrow> html_scanner \<Rightarrow> (html_item \<times> cstring option \<times> html_scanner) option" where
  "scan_loop sg buf h =
     (case GetChar sg h of
        None \<Rightarrow> None
      | Some (c, h') \<Rightarrow>
          if c = -1 then Some (HtmlItemEOF, None, h')
          else if buf = [] \<and> c = 32 then scan_loop sg buf h'
          else if length buf \<ge> HTMLSCAN_MAXIMUM_ITEM - 1 then Some (HtmlItemError, None, h')
          else if c = 0 \<or> Suc (length buf) \<ge> HTMLSCAN_MAXIMUM_ITEM then None
          else let buf' = buf @ [of_int (if -128 \<le> c \<and> c \<le> 127 then c else 63)]
               in (case item_complete buf' of
                     Some (it, t) \<Rightarrow> Some (it, Some t, if it = HtmlItemText then h'\<lparr>hs_Tag := True\<rparr> else h')
                   | None \<Rightarrow> scan_loop sg buf' h'))"
  by pat_completeness auto
termination
  by (relation "measure (\<lambda>(sg, buf, h). length (hs_Content h) - hs_Index h)") (auto dest!: GetChar_advances)

declare scan_loop.simps [simp del]

definition GetNextItem :: "bool \<Rightarrow> html_scanner \<Rightarrow> (html_item \<times> cstring option \<times> html_scanner) option" where
  "GetNextItem sg h =
     (if hs_Tag h then scan_loop sg [60] (h\<lparr>hs_Tag := False\<rparr>) else scan_loop sg [] h)"

definition GetFirstItem :: "bool \<Rightarrow> html_scanner \<Rightarrow> (html_item \<times> cstring option \<times> html_scanner) option" where
  "GetFirstItem sg h = GetNextItem sg (h\<lparr>hs_Index := 0\<rparr>)"

text \<open>\<open>rItem\<close> keeps its value when no item is found.\<close>

definition assign :: "cstring option \<Rightarrow> cstring \<Rightarrow> cstring" where
  "assign t rItem = (case t of None \<Rightarrow> rItem | Some s \<Rightarrow> s)"

fun item_loop :: "bool \<Rightarrow> nat \<Rightarrow> html_item \<times> cstring \<times> html_scanner \<Rightarrow> (html_item \<times> cstring \<times> html_scanner) option" where
  "item_loop sg 0 (it, rItem, h) = Some (it, rItem, h)"
| "item_loop sg (Suc n) (it, rItem, h) = do {
     (it, t, h) \<leftarrow> GetNextItem sg h;
     if it = HtmlItemEOF then Some (it, assign t rItem, h) else item_loop sg n (it, assign t rItem, h)
   }"

definition GetItem :: "bool \<Rightarrow> int \<Rightarrow> cstring \<Rightarrow> html_scanner \<Rightarrow> (html_item \<times> cstring \<times> html_scanner) option" where
  "GetItem sg nItem rItem h = do {
     assert (nItem \<ge> 0);
     (it, t, h) \<leftarrow> GetFirstItem sg h;
     if it = HtmlItemEOF then Some (it, assign t rItem, h) else item_loop sg (nat nItem) (it, assign t rItem, h)
   }"

end
