(* ===== verification/Html_Props.thy ===== *)
theory Html_Props
  imports Html_Scanner
begin

text \<open>
  Properties of the HTML scanner: every document is scanned to its end within the buffer, and what its
  text items look like.
\<close>

subsection \<open>Characters\<close>

definition terminated :: "html_scanner \<Rightarrow> bool" where
  "terminated h \<longleftrightarrow> 0 \<in> set (drop (hs_Index h) (hs_Content h))"

lemma terminated_get_at:
  assumes "terminated h"
  shows "\<exists>b. get_at (hs_Content h) (hs_Index h) = Some b \<and>
    (b \<noteq> 0 \<longrightarrow> terminated (h\<lparr>hs_Index := Suc (hs_Index h), hs_WhiteSpace := ws\<rparr>))"
proof -
  have "hs_Index h < length (hs_Content h)"
    using assms by (metis terminated_def drop_eq_Nil empty_iff empty_set linorder_not_le)
  then show ?thesis
    using assms by (auto simp: terminated_def get_at_def Cons_nth_drop_Suc [symmetric])
qed

lemma c_char_eq: "c_char sg b = 0 \<longleftrightarrow> b = 0" "c_char sg b = 32 \<longleftrightarrow> b = 32"
proof -
  have "sint b = 32 \<Longrightarrow> b = 32" "uint b = 32 \<Longrightarrow> b = 32" "sint b = 0 \<Longrightarrow> b = 0" "uint b = 0 \<Longrightarrow> b = 0"
    using signed_word_eqI [of b 32] unsigned_word_eqI [of b 32] signed_word_eqI [of b 0] unsigned_word_eqI [of b 0]
    by simp_all
  then show "c_char sg b = 0 \<longleftrightarrow> b = 0" "c_char sg b = 32 \<longleftrightarrow> b = 32"
    by (auto simp: c_char_def)
qed

text \<open>A byte in the buffer is a blank or a bracket exactly if the character was.\<close>

definition stored_char :: "int \<Rightarrow> u8" where
  "stored_char c = of_int (if -128 \<le> c \<and> c \<le> 127 then c else 63)"

lemma stored_char_eq:
  assumes "stored_char c = of_int k" "k \<in> {32, 60}"
  shows "c = k"
proof (cases "-128 \<le> c \<and> c \<le> 127")
  case True
  then have "sint (of_int c :: u8) = c" by (simp add: signed_of_int signed_take_bit_int_eq_self)
  moreover have "sint (of_int k :: u8) = k" using assms(2) by (auto simp: signed_of_int signed_take_bit_int_eq_self)
  moreover have "(of_int c :: u8) = of_int k" using assms(1) True by (simp only: stored_char_def simp_thms if_True)
  then have "sint (of_int c :: u8) = sint (of_int k :: u8)" by (rule arg_cong)
  ultimately show ?thesis by linarith
qed (use assms in \<open>auto simp: stored_char_def\<close>)

lemma stored_char_simps: "stored_char c = 32 \<longleftrightarrow> c = 32" "stored_char c = 60 \<longleftrightarrow> c = 60"
  using stored_char_eq [of c 32] stored_char_eq [of c 60] by (auto simp: stored_char_def)

definition char_ok :: "bool \<Rightarrow> int \<Rightarrow> html_scanner \<Rightarrow> bool" where
  "char_ok ws c h \<longleftrightarrow> terminated h \<and> c \<noteq> 0 \<and>
     (c = -1 \<or> (if c = 32 then \<not> ws \<and> hs_WhiteSpace h else \<not> hs_WhiteSpace h))"

lemma GetChar_ok: "terminated h \<Longrightarrow> \<exists>c h'. GetChar sg h = Some (c, h') \<and> char_ok (hs_WhiteSpace h) c h'"
proof (induction sg h rule: GetChar.induct)
  case (1 sg h)
  obtain b where b: "get_at (hs_Content h) (hs_Index h) = Some b"
      "\<And>ws. b \<noteq> 0 \<longrightarrow> terminated (h\<lparr>hs_Index := Suc (hs_Index h), hs_WhiteSpace := ws\<rparr>)"
    using terminated_get_at [OF "1.prems"] by (metis option.inject)
  have t: "b \<noteq> 0 \<Longrightarrow> terminated (h\<lparr>hs_Index := Suc (hs_Index h)\<rparr>)"
    using b(2) [of "hs_WhiteSpace h"] by (simp add: terminated_def)
  consider "b = 13 \<or> (b = 10 \<or> b = 9 \<or> b = 32) \<and> hs_WhiteSpace h"
    | "b \<noteq> 13" "\<not> ((b = 10 \<or> b = 9 \<or> b = 32) \<and> hs_WhiteSpace h)" by blast
  then show ?case
  proof cases
    case 1
    then have "\<exists>c h'. GetChar sg (h\<lparr>hs_Index := Suc (hs_Index h)\<rparr>) = Some (c, h') \<and> char_ok (hs_WhiteSpace h) c h'"
      using "1.IH" [OF b(1)] t by auto
    then show ?thesis using 1 by (auto simp: GetChar_step [OF b(1)])
  next
    case 2
    then show ?thesis
      using "1.prems" t b(2) c_char_eq [of sg b] by (auto simp: GetChar_step [OF b(1)] char_ok_def)
  qed
qed

subsection \<open>Items\<close>

text \<open>
  What a scanned text looks like, and what the buffer satisfies while one is collected: a blank at
  its end stands alone, and the scanner remembers it.
\<close>

definition plain_text :: "cstring \<Rightarrow> bool" where
  "plain_text t \<longleftrightarrow> t \<noteq> [] \<and> hd t \<noteq> 32 \<and> last t \<noteq> 32 \<and> 60 \<notin> set t"

definition buffer_ok :: "cstring \<Rightarrow> html_scanner \<Rightarrow> bool" where
  "buffer_ok buf h \<longleftrightarrow> buf = [] \<or>
     hd buf \<noteq> 32 \<and> (hd buf \<noteq> 60 \<longrightarrow> 60 \<notin> set buf) \<and>
     (last buf = 32 \<longrightarrow> hs_WhiteSpace h \<and> butlast buf \<noteq> [] \<and> last (butlast buf) \<noteq> 32)"

lemma buffer_ok_snoc:
  assumes "buffer_ok buf h" "char_ok (hs_WhiteSpace h) c h'" "c \<noteq> -1" "\<not> (buf = [] \<and> c = 32)"
    "item_complete (buf @ [stored_char c]) = None"
  shows "buffer_ok (buf @ [stored_char c]) h'"
proof -
  have "hd (buf @ [stored_char c]) \<noteq> 60 \<Longrightarrow> stored_char c \<noteq> 60"
    using assms(5) by (auto simp: item_complete_def Let_def split: if_splits)
  then show ?thesis
    using assms(1-4) by (cases buf) (auto simp: buffer_ok_def char_ok_def stored_char_simps)
qed

lemma item_text_plain:
  assumes "buffer_ok buf h" "item_complete (buf @ [x]) = Some (HtmlItemText, t)"
  shows "plain_text t"
proof -
  have x: "hd (buf @ [x]) \<noteq> 60" "x = 60" "t = (if length buf > 0 \<and> last buf = 32 then butlast buf else buf)"
    using assms(2) by (auto simp: item_complete_def Let_def split: if_splits)
  then have "buf \<noteq> []" by auto
  moreover have "butlast buf \<noteq> [] \<Longrightarrow> hd (butlast buf) = hd buf" by (cases buf rule: rev_cases) (auto simp: hd_append)
  ultimately show ?thesis
    using assms(1) x by (auto simp: buffer_ok_def plain_text_def dest: in_set_butlastD)
qed

lemma scan_loop_step:
  assumes "GetChar sg h = Some (c, h')"
  shows "scan_loop sg buf h =
     (if c = -1 then Some (HtmlItemEOF, None, h')
      else if buf = [] \<and> c = 32 then scan_loop sg buf h'
      else if length buf \<ge> HTMLSCAN_MAXIMUM_ITEM - 1 then Some (HtmlItemError, None, h')
      else if c = 0 \<or> Suc (length buf) \<ge> HTMLSCAN_MAXIMUM_ITEM then None
      else case item_complete (buf @ [stored_char c]) of
             Some (it, t) \<Rightarrow> Some (it, Some t, if it = HtmlItemText then h'\<lparr>hs_Tag := True\<rparr> else h')
           | None \<Rightarrow> scan_loop sg (buf @ [stored_char c]) h')"
  unfolding scan_loop.simps [of sg buf h] assms stored_char_def Let_def option.case prod.case by (rule refl)

text \<open>A result of the scanner: it goes forward, and a text is plain.\<close>

definition item_ok :: "html_scanner \<Rightarrow> html_item \<times> cstring option \<times> html_scanner \<Rightarrow> bool" where
  "item_ok h r \<longleftrightarrow> (case r of (it, t, h') \<Rightarrow>
     hs_Content h' = hs_Content h \<and> terminated h' \<and>
     (it \<noteq> HtmlItemEOF \<longrightarrow> hs_Index h < hs_Index h' \<and> hs_Index h' \<le> length (hs_Content h)) \<and>
     (it = HtmlItemText \<longrightarrow> hs_Tag h' \<and> (\<exists>s. t = Some s \<and> plain_text s)))"

lemma item_ok_later:
  "item_ok h' r \<Longrightarrow> hs_Content h' = hs_Content h \<Longrightarrow> hs_Index h < hs_Index h' \<Longrightarrow> item_ok h r"
  by (auto simp: item_ok_def)

lemma terminated_tag [simp]: "terminated (h\<lparr>hs_Tag := b\<rparr>) = terminated h"
  by (simp add: terminated_def)

lemma scan_loop_ok:
  "terminated h \<Longrightarrow> buffer_ok buf h \<Longrightarrow> length buf < HTMLSCAN_MAXIMUM_ITEM \<Longrightarrow>
     \<exists>r. scan_loop sg buf h = Some r \<and> item_ok h r"
proof (induction "length (hs_Content h) - hs_Index h" arbitrary: buf h rule: less_induct)
  case less
  obtain c h' where c: "GetChar sg h = Some (c, h')" "char_ok (hs_WhiteSpace h) c h'"
    using GetChar_ok [OF less.prems(1)] by blast
  note adv = GetChar_advances [OF c(1)]
  have t: "terminated h'" "c \<noteq> 0" using c(2) by (simp_all add: char_ok_def)
  consider "c = -1" | "c \<noteq> -1" "buf = []" "c = 32" | "c \<noteq> -1" "\<not> (buf = [] \<and> c = 32)" by blast
  then show ?case
  proof cases
    case 1
    then show ?thesis using c(1) t adv by (simp add: scan_loop_step item_ok_def)
  next
    case 2
    then have "\<exists>r. scan_loop sg [] h' = Some r \<and> item_ok h' r"
      using adv t by (intro less.hyps) (auto simp: buffer_ok_def HTMLSCAN_MAXIMUM_ITEM_def)
    then show ?thesis
      using 2 c(1) adv item_ok_later [of h' _ h] by (auto simp: scan_loop_step)
  next
    case 3
    show ?thesis
    proof (cases "item_complete (buf @ [stored_char c])")
      case None
      have "\<exists>r. scan_loop sg (buf @ [stored_char c]) h' = Some r \<and> item_ok h' r" if "Suc (length buf) < HTMLSCAN_MAXIMUM_ITEM"
        using 3 None adv t c(2) less.prems(2) that by (intro less.hyps) (auto intro: buffer_ok_snoc)
      then show ?thesis
        using 3 None c(1) adv t item_ok_later [of h' _ h]
        by (cases "Suc (length buf) < HTMLSCAN_MAXIMUM_ITEM") (auto simp: scan_loop_step item_ok_def)
    next
      case (Some p)
      obtain it s where p: "p = (it, s)" by (cases p)
      then have "it = HtmlItemText \<Longrightarrow> plain_text s" using item_text_plain [OF less.prems(2)] Some by blast
      then show ?thesis
        using 3 Some p c(1) adv t by (auto simp: scan_loop_step item_ok_def)
    qed
  qed
qed

lemma GetNextItem_ok:
  assumes "terminated h"
  shows "\<exists>r. GetNextItem sg h = Some r \<and> item_ok h r"
proof (cases "hs_Tag h")
  case True
  have "\<exists>r. scan_loop sg [60] (h\<lparr>hs_Tag := False\<rparr>) = Some r \<and> item_ok (h\<lparr>hs_Tag := False\<rparr>) r"
    using assms by (intro scan_loop_ok) (auto simp: buffer_ok_def HTMLSCAN_MAXIMUM_ITEM_def)
  then show ?thesis using True by (auto simp: GetNextItem_def item_ok_def)
next
  case False
  have "\<exists>r. scan_loop sg [] h = Some r \<and> item_ok h r"
    using assms by (intro scan_loop_ok) (auto simp: buffer_ok_def HTMLSCAN_MAXIMUM_ITEM_def)
  then show ?thesis using False by (simp add: GetNextItem_def)
qed

end
