(* ===== verification/Html_Items.thy ===== *)
theory Html_Items
  imports Html_Props
begin

text \<open>
  The HTML scanner inverts printing: a document that is written item by item, with single blanks and
  without line ends, is scanned into these items again. What is wrong with starting over and with
  empty comments is shown as well.
\<close>

subsection \<open>Documents\<close>

type_synonym item = "html_item \<times> cstring"

definition print_item :: "item \<Rightarrow> u8 list" where
  "print_item i = (case i of (HtmlItemCData, s) \<Rightarrow> CDATA_START @ s @ cstr '']]>'' | (_, s) \<Rightarrow> s)"

definition print_items :: "item list \<Rightarrow> u8 list" where
  "print_items is = concat (map print_item is) @ [0]"

text \<open>Printable ASCII characters, with no blank after a blank (\<open>ws\<close>: one stands before).\<close>

fun single_blanks :: "bool \<Rightarrow> u8 list \<Rightarrow> bool" where
  "single_blanks ws [] \<longleftrightarrow> True"
| "single_blanks ws (b # bs) \<longleftrightarrow> 32 \<le> b \<and> b < 127 \<and> \<not> (b = 32 \<and> ws) \<and> single_blanks (b = 32) bs"

definition item_form :: "item \<Rightarrow> bool" where
  "item_form i \<longleftrightarrow> (case i of (it, s) \<Rightarrow>
     single_blanks False (print_item i) \<and> Suc (length (print_item i)) < HTMLSCAN_MAXIMUM_ITEM \<and>
     (if it = HtmlItemText then plain_text s
      else if it = HtmlItemTag
      then length s \<ge> 2 \<and> hd s = 60 \<and> last s = 62 \<and> 62 \<notin> set (butlast s) \<and> take 4 s \<noteq> COMMENT_START \<and> take 9 s \<noteq> CDATA_START
      else if it = HtmlItemComment
      then length s \<ge> 8 \<and> take 4 s = COMMENT_START \<and> drop (length s - 3) s = cstr ''-->'' \<and> 62 \<notin> set (butlast s)
      else it = HtmlItemCData \<and> 62 \<notin> set s))"

text \<open>A text stands before markup.\<close>

fun document :: "item list \<Rightarrow> bool" where
  "document [] \<longleftrightarrow> True"
| "document (i # is) \<longleftrightarrow> item_form i \<and> document is \<and>
     (fst i = HtmlItemText \<longrightarrow> is \<noteq> [] \<and> fst (hd is) \<noteq> HtmlItemText)"

subsection \<open>Characters\<close>

lemma GetChar_printable:
  assumes "drop (hs_Index h) (hs_Content h) = b # r" "32 \<le> b" "b < 127" "\<not> (b = 32 \<and> hs_WhiteSpace h)"
  shows "\<exists>c. GetChar sg h = Some (c, h\<lparr>hs_Index := Suc (hs_Index h), hs_WhiteSpace := b = 32\<rparr>) \<and>
     c \<noteq> -1 \<and> c \<noteq> 0 \<and> (c = 32 \<longleftrightarrow> b = 32) \<and> stored_char c = b"
proof -
  have "hs_Index h < length (hs_Content h)" using assms(1) by (metis drop_eq_Nil linorder_not_le list.distinct(1))
  then have g: "get_at (hs_Content h) (hs_Index h) = Some b"
    using assms(1) by (simp add: get_at_def) (metis Cons_nth_drop_Suc list.inject)
  have u: "32 \<le> uint b" "uint b < 127" using assms(2,3) by (simp_all add: word_le_def word_less_def)
  then have s: "sint b = uint b" by (simp add: sint_uint signed_take_bit_int_eq_self)
  have ne: "b \<noteq> 0" "b \<noteq> 13" "b \<noteq> 10" "b \<noteq> 9" "b \<noteq> 26" using u by auto
  show ?thesis
    using ne u s assms(4) c_char_eq [of sg b]
    by (cases "b = 32") (auto simp: GetChar_step [OF g] c_char_def stored_char_def)
qed

lemma scan_loop_run:
  assumes "drop (hs_Index h) (hs_Content h) = bs @ r" "bs \<noteq> []" "single_blanks (hs_WhiteSpace h) bs"
    "buf = [] \<longrightarrow> hd bs \<noteq> 32" "length (buf @ bs) < HTMLSCAN_MAXIMUM_ITEM"
    "\<And>p q. bs = p @ q \<Longrightarrow> p \<noteq> [] \<Longrightarrow> q \<noteq> [] \<Longrightarrow> item_complete (buf @ p) = None"
    "item_complete (buf @ bs) = Some (it, s)"
  shows "scan_loop sg buf h = Some (it, Some s, h\<lparr>hs_Index := hs_Index h + length bs,
    hs_WhiteSpace := last bs = 32, hs_Tag := hs_Tag h \<or> it = HtmlItemText\<rparr>)"
  using assms
proof (induction bs arbitrary: buf h)
  case (Cons b bs)
  have b: "32 \<le> b" "b < 127" "\<not> (b = 32 \<and> hs_WhiteSpace h)" "single_blanks (b = 32) bs"
    using Cons.prems(3) by simp_all
  obtain c where c: "GetChar sg h = Some (c, h\<lparr>hs_Index := Suc (hs_Index h), hs_WhiteSpace := b = 32\<rparr>)"
      "c \<noteq> -1" "c \<noteq> 0" "c = 32 \<longleftrightarrow> b = 32" "stored_char c = b"
    using GetChar_printable [of h b "bs @ r" sg] Cons.prems(1) b(1-3) by auto
  have n: "(buf = [] \<and> c = 32) = False" using Cons.prems(4) c(4) by auto
  have l: "(HTMLSCAN_MAXIMUM_ITEM - 1 \<le> length buf) = False" "(HTMLSCAN_MAXIMUM_ITEM \<le> Suc (length buf)) = False"
    using Cons.prems(5) by auto
  have step: "scan_loop sg buf h =
      (case item_complete (buf @ [b]) of
         Some (it, t) \<Rightarrow> Some (it, Some t, if it = HtmlItemText
           then h\<lparr>hs_Index := Suc (hs_Index h), hs_WhiteSpace := b = 32, hs_Tag := True\<rparr>
           else h\<lparr>hs_Index := Suc (hs_Index h), hs_WhiteSpace := b = 32\<rparr>)
       | None \<Rightarrow> scan_loop sg (buf @ [b]) (h\<lparr>hs_Index := Suc (hs_Index h), hs_WhiteSpace := b = 32\<rparr>))"
    unfolding scan_loop_step [OF c(1)] c(5) n l using c(2,3) by (simp add: Let_def)
  show ?case
  proof (cases "bs = []")
    case True
    then show ?thesis using Cons.prems(7) by (simp add: step)
  next
    case False
    have d: "drop (Suc (hs_Index h)) (hs_Content h) = bs @ r"
      using Cons.prems(1) by (metis append_Cons drop_Suc list.sel(3) tl_drop)
    have "item_complete (buf @ [b]) = None" using Cons.prems(6) [of "[b]" bs] False by simp
    moreover have "item_complete ((buf @ [b]) @ p) = None" if "bs = p @ q" "p \<noteq> []" "q \<noteq> []" for p q
      using Cons.prems(6) [of "b # p" q] that by simp
    ultimately show ?thesis
      using Cons.prems(5,7) b(4) d False
        Cons.IH [of "h\<lparr>hs_Index := Suc (hs_Index h), hs_WhiteSpace := b = 32\<rparr>" "buf @ [b]"]
      by (simp add: step)
  qed
qed simp

subsection \<open>Items\<close>

lemma start_hd: "take 9 p = CDATA_START \<Longrightarrow> hd p = 60" "take 4 p = COMMENT_START \<Longrightarrow> hd p = 60"
  by (cases p; simp add: CDATA_START_def COMMENT_START_def)+

lemma end_last: "drop (length p - 3) p = cstr [x, y, z] \<Longrightarrow> p \<noteq> [] \<and> last p = of_char z"
proof -
  assume a: "drop (length p - 3) p = cstr [x, y, z]"
  then have "p \<noteq> []" by auto
  moreover have "last (drop (length p - 3) p) = last p" using \<open>p \<noteq> []\<close> by (simp add: last_drop)
  ultimately show ?thesis using a by simp
qed

lemma item_complete_None:
  "last p \<noteq> 62 \<Longrightarrow> hd p = 60 \<or> last p \<noteq> 60 \<Longrightarrow> item_complete p = None"
  "hd p \<noteq> 60 \<Longrightarrow> last p \<noteq> 60 \<Longrightarrow> item_complete p = None"
  using end_last [of p "CHR '']''" "CHR '']''" "CHR ''>''"] end_last [of p "CHR ''-''" "CHR ''-''" "CHR ''>''"] start_hd [of p]
  by (auto simp: item_complete_def Let_def)

lemma markup_prefix:
  assumes "62 \<notin> set (butlast r)" "hd r = 60" "r = p @ q" "p \<noteq> []" "q \<noteq> []"
  shows "item_complete p = None"
proof -
  have "butlast r = p @ butlast q" using assms(3,5) by (simp add: butlast_append)
  then have "62 \<notin> set p" using assms(1) by simp
  then have "last p \<noteq> 62" using assms(4) last_in_set by metis
  then show ?thesis using assms by (intro item_complete_None) auto
qed

lemma single_blanks_last: "single_blanks ws r \<Longrightarrow> r \<noteq> [] \<Longrightarrow> hd r \<noteq> 32 \<Longrightarrow> single_blanks ws' r"
  by (cases r) auto

lemma single_blanks_snoc: "single_blanks ws r \<Longrightarrow> single_blanks ws (r @ [60])"
  by (induction r arbitrary: ws) auto

text \<open>The printed form of markup is complete at its end and nowhere before.\<close>

lemma markup_complete:
  assumes "item_form (it, s)" "it \<noteq> HtmlItemText"
  shows "item_complete (print_item (it, s)) = Some (it, s)" "hd (print_item (it, s)) = 60"
    "last (print_item (it, s)) = 62" "62 \<notin> set (butlast (print_item (it, s)))" "print_item (it, s) \<noteq> []"
proof -
  consider "it = HtmlItemTag" | "it = HtmlItemComment" | "it = HtmlItemCData"
    using assms by (auto simp: item_form_def split: if_splits)
  then have "item_complete (print_item (it, s)) = Some (it, s) \<and> hd (print_item (it, s)) = 60 \<and>
    last (print_item (it, s)) = 62 \<and> 62 \<notin> set (butlast (print_item (it, s))) \<and> print_item (it, s) \<noteq> []"
  proof cases
    case 1
    then have f: "length s \<ge> 2" "hd s = 60" "last s = 62" "62 \<notin> set (butlast s)" "take 4 s \<noteq> COMMENT_START" "take 9 s \<noteq> CDATA_START"
      using assms(1) by (simp_all add: item_form_def)
    then show ?thesis using 1 by (auto simp: print_item_def item_complete_def)
  next
    case 2
    then have f: "length s \<ge> 8" "take 4 s = COMMENT_START" "drop (length s - 3) s = cstr ''-->''" "62 \<notin> set (butlast s)"
      using assms(1) by (simp_all add: item_form_def)
    have "take 4 CDATA_START \<noteq> COMMENT_START" by (simp add: COMMENT_START_def CDATA_START_def)
    moreover have "take 4 (take 9 s) = COMMENT_START" using f(2) by (simp add: min_def)
    ultimately have "take 9 s \<noteq> CDATA_START" by metis
    then show ?thesis
      using 2 f end_last [OF f(3)] start_hd(2) [OF f(2)] by (auto simp: print_item_def item_complete_def)
  next
    case 3
    define r where "r = CDATA_START @ s @ cstr '']]>''"
    have c: "length CDATA_START = 9" "62 \<notin> set CDATA_START" by (simp_all add: CDATA_START_def)
    have "62 \<notin> set s" using 3 assms(1) by (simp add: item_form_def)
    then have "62 \<notin> set (butlast r)" using c(2) by (simp add: r_def butlast_append)
    moreover have r: "take 9 r = CDATA_START" "length r \<ge> 12" "drop (length r - 3) r = cstr '']]>''" "last r = 62"
        "drop 9 (take (length r - 3) r) = s" "r \<noteq> []"
      using c(1) by (simp_all add: r_def)
    moreover have "item_complete r = Some (HtmlItemCData, s)"
      using r start_hd(1) [OF r(1)] by (simp add: item_complete_def Let_def)
    moreover have "print_item (it, s) = r" using 3 by (simp add: print_item_def r_def)
    ultimately show ?thesis using 3 start_hd(1) [OF r(1)] by simp
  qed
  then show "item_complete (print_item (it, s)) = Some (it, s)" "hd (print_item (it, s)) = 60"
    "last (print_item (it, s)) = 62" "62 \<notin> set (butlast (print_item (it, s)))" "print_item (it, s) \<noteq> []"
    by blast+
qed

lemma text_complete:
  assumes "plain_text s"
  shows "item_complete (s @ [60]) = Some (HtmlItemText, s)"
    "s @ [60] = p @ q \<Longrightarrow> p \<noteq> [] \<Longrightarrow> q \<noteq> [] \<Longrightarrow> item_complete p = None"
proof -
  have s: "s \<noteq> []" "hd s \<noteq> 60" using assms hd_in_set [of s] unfolding plain_text_def by metis+
  then show "item_complete (s @ [60]) = Some (HtmlItemText, s)"
    using assms by (auto simp: item_complete_def plain_text_def)
  assume a: "s @ [60] = p @ q" "p \<noteq> []" "q \<noteq> []"
  then have "s = p @ butlast q" by (metis butlast_append butlast_snoc)
  moreover have "hd p \<in> set p" "last p \<in> set p" using a(2) by auto
  ultimately show "item_complete p = None"
    using assms by (intro item_complete_None) (auto simp: plain_text_def)
qed

text \<open>What the scanner still has to read; a bracket it has read ahead counts.\<close>

definition ahead :: "html_scanner \<Rightarrow> u8 list" where
  "ahead h = (if hs_Tag h then [60] else []) @ drop (hs_Index h) (hs_Content h)"

definition between_items :: "html_scanner \<Rightarrow> bool" where
  "between_items h \<longleftrightarrow> (hs_Tag h \<longrightarrow> \<not> hs_WhiteSpace h)"

lemma GetNextItem_text:
  assumes "ahead h = s @ 60 # r" "item_form (HtmlItemText, s)"
  shows "\<exists>h'. GetNextItem sg h = Some (HtmlItemText, Some s, h') \<and> ahead h' = 60 # r \<and> between_items h'"
proof -
  have s: "plain_text s" "single_blanks False s" "length (s @ [60]) < HTMLSCAN_MAXIMUM_ITEM"
    using assms(2) by (simp_all add: item_form_def print_item_def)
  then have hd: "s \<noteq> []" "hd s \<noteq> 32" "hd s \<noteq> 60" using hd_in_set [of s] unfolding plain_text_def by metis+
  then have tag: "\<not> hs_Tag h" using assms(1) by (auto simp: ahead_def neq_Nil_conv split: if_splits)
  then have d: "drop (hs_Index h) (hs_Content h) = (s @ [60]) @ r" using assms(1) by (simp add: ahead_def)
  have "single_blanks (hs_WhiteSpace h) (s @ [60])"
    by (rule single_blanks_last [OF single_blanks_snoc [OF s(2)]]) (use hd in simp_all)
  then have "scan_loop sg [] h = Some (HtmlItemText, Some s, h\<lparr>hs_Index := hs_Index h + length (s @ [60]),
    hs_WhiteSpace := last (s @ [60]) = 32, hs_Tag := hs_Tag h \<or> HtmlItemText = HtmlItemText\<rparr>)"
  proof (intro scan_loop_run [OF d])
    show "item_complete ([] @ p) = None" if "s @ [60] = p @ q" "p \<noteq> []" "q \<noteq> []" for p q
      using text_complete(2) [OF s(1) that] by simp
  qed (use s hd text_complete(1) [OF s(1)] in simp_all)
  moreover have "drop (hs_Index h + length (s @ [60])) (hs_Content h) = r"
    using d by (metis add.commute append_eq_conv_conj drop_drop)
  ultimately show ?thesis using tag by (simp add: GetNextItem_def ahead_def between_items_def)
qed

lemma GetNextItem_markup:
  assumes "ahead h = print_item (it, s) @ r" "item_form (it, s)" "it \<noteq> HtmlItemText" "between_items h"
  shows "\<exists>h'. GetNextItem sg h = Some (it, Some s, h') \<and> ahead h' = r \<and> between_items h'"
proof -
  note m = markup_complete [OF assms(2,3)]
  obtain p where p: "print_item (it, s) = 60 # p" using m(2,5) by (cases "print_item (it, s)") auto
  have "p \<noteq> []" using m(3) p by auto
  have b: "single_blanks ws (60 # p)" "Suc (length (60 # p)) < HTMLSCAN_MAXIMUM_ITEM" for ws
    using assms(2) p by (simp_all add: item_form_def)
  have l: "last (60 # p) \<noteq> 32" using m(3) p by simp
  have None: "item_complete u = None" if "60 # p = u @ v" "u \<noteq> []" "v \<noteq> []" for u v
    using markup_prefix [OF m(4,2), of u v] that p by simp
  show ?thesis
  proof (cases "hs_Tag h")
    case True
    then have d: "drop (hs_Index h) (hs_Content h) = p @ r" using assms(1) p by (simp add: ahead_def)
    have "scan_loop sg [60] (h\<lparr>hs_Tag := False\<rparr>) = Some (it, Some s, h\<lparr>hs_Tag := False\<rparr>\<lparr>hs_Index :=
        hs_Index (h\<lparr>hs_Tag := False\<rparr>) + length p, hs_WhiteSpace := last p = 32, hs_Tag := hs_Tag (h\<lparr>hs_Tag := False\<rparr>) \<or> it = HtmlItemText\<rparr>)"
    proof (intro scan_loop_run [where r = r])
      show "item_complete ([60] @ u) = None" if "p = u @ v" "u \<noteq> []" "v \<noteq> []" for u v
        using None [of "60 # u" v] that by simp
    qed (use d \<open>p \<noteq> []\<close> b m(1) p True assms(4) in \<open>auto simp: between_items_def\<close>)
    moreover have "drop (hs_Index h + length p) (hs_Content h) = r"
      using d by (metis add.commute append_eq_conv_conj drop_drop)
    ultimately show ?thesis using True assms(3) by (simp add: GetNextItem_def ahead_def between_items_def)
  next
    case False
    then have d: "drop (hs_Index h) (hs_Content h) = (60 # p) @ r" using assms(1) p by (simp add: ahead_def)
    have "scan_loop sg [] h = Some (it, Some s, h\<lparr>hs_Index := hs_Index h + length (60 # p),
        hs_WhiteSpace := last (60 # p) = 32, hs_Tag := hs_Tag h \<or> it = HtmlItemText\<rparr>)"
    proof (intro scan_loop_run [OF d])
      show "item_complete ([] @ u) = None" if "60 # p = u @ v" "u \<noteq> []" "v \<noteq> []" for u v
        using None [OF that] by simp
    qed (use b m(1) p in simp_all)
    moreover have "drop (hs_Index h + length (60 # p)) (hs_Content h) = r"
      using d by (metis add.commute append_eq_conv_conj drop_drop)
    ultimately show ?thesis using False assms(3) by (simp add: GetNextItem_def ahead_def between_items_def)
  qed
qed

lemma GetNextItem_end:
  assumes "ahead h = 0 # r"
  shows "GetNextItem sg h = Some (HtmlItemEOF, None, h)"
proof -
  have d: "\<not> hs_Tag h" "drop (hs_Index h) (hs_Content h) = 0 # r"
    using assms by (auto simp: ahead_def split: if_splits)
  then have "hs_Index h < length (hs_Content h)" by (metis drop_eq_Nil linorder_not_le list.distinct(1))
  then have "get_at (hs_Content h) (hs_Index h) = Some 0"
    using d(2) by (simp add: get_at_def) (metis Cons_nth_drop_Suc list.inject)
  then have "GetChar sg h = Some (-1, h)" by (simp add: GetChar_step)
  then show ?thesis using d(1) by (simp add: GetNextItem_def scan_loop_step)
qed

lemma GetNextItem_document:
  assumes "ahead h = print_items (i # is) @ r" "document (i # is)" "between_items h"
  shows "\<exists>h'. GetNextItem sg h = Some (fst i, Some (snd i), h') \<and> ahead h' = print_items is @ r \<and> between_items h'"
proof (cases "fst i = HtmlItemText")
  case True
  then obtain j js where j: "is = j # js" "fst j \<noteq> HtmlItemText" using assms(2) by (cases "is") auto
  then have "hd (print_item j) = 60" "print_item j \<noteq> []"
    using markup_complete(2,5) [of "fst j" "snd j"] assms(2) by simp_all
  then obtain p where p: "print_items is = 60 # p" using j(1) by (cases "print_item j") (auto simp: print_items_def)
  then have "ahead h = snd i @ 60 # p @ r" using assms(1) True by (cases i) (simp add: print_items_def print_item_def)
  then show ?thesis
    using GetNextItem_text [of h "snd i" "p @ r" sg] assms(2) True p by (cases i) auto
next
  case False
  then show ?thesis
    using GetNextItem_markup [of h "fst i" "snd i" "print_items is @ r" sg] assms by (cases i) (simp add: print_items_def)
qed

lemma item_loop_document:
  assumes "ahead h = print_items is @ r" "document is" "between_items h"
  shows "\<exists>t h'. item_loop sg (Suc n) (it, rItem, h) = Some (if n < length is then fst (is ! n) else HtmlItemEOF, t, h') \<and>
    (n < length is \<longrightarrow> t = snd (is ! n))"
  using assms
proof (induction "is" arbitrary: n it rItem h)
  case Nil
  then show ?case using GetNextItem_end [of h r sg] by (simp add: print_items_def)
next
  case (Cons i js)
  obtain h' where h': "GetNextItem sg h = Some (fst i, Some (snd i), h')" "ahead h' = print_items js @ r" "between_items h'"
    using GetNextItem_document [OF Cons.prems, of sg] by auto
  have js: "document js" "fst i \<noteq> HtmlItemEOF"
    using Cons.prems(2) by (cases i; auto simp: item_form_def split: if_splits)+
  have step: "item_loop sg (Suc n) (it, rItem, h) = item_loop sg n (fst i, snd i, h')"
    using js(2) h'(1) by (simp add: assign_def)
  show ?case
  proof (cases n)
    case 0
    then show ?thesis unfolding step by simp
  next
    case (Suc m)
    then show ?thesis unfolding step using Cons.IH [OF h'(2) js(1) h'(3), of m "fst i" "snd i"] by (auto simp del: item_loop.simps)
  qed
qed

subsection \<open>The properties\<close>

text \<open>
  C36. Every item of a document is found: for texts, tags, comments and CDATA sections without a
  closing bracket inside, of printable ASCII characters with single blanks and shorter than the
  item buffer, written one after the other with no text behind a text, \<open>GetItem\<close> on a new scanner
  returns for each number the item as it was written, and the end of the document for every larger
  number, whatever stands behind the terminating zero.
\<close>

theorem html_items_read_back:
  assumes "document is"
  shows "\<exists>t h'. GetItem sg (int n) rItem (CHtmlScanner_new (print_items is @ r)) =
      Some (if n < length is then fst (is ! n) else HtmlItemEOF, t, h') \<and>
    (n < length is \<longrightarrow> t = snd (is ! n))"
proof -
  let ?h = "CHtmlScanner_new (print_items is @ r)"
  have "ahead ?h = print_items is @ r" "between_items ?h"
    by (simp_all add: ahead_def between_items_def CHtmlScanner_new_def)
  then have "\<exists>t h'. item_loop sg (Suc n) (HtmlItemTag, rItem, ?h) =
      Some (if n < length is then fst (is ! n) else HtmlItemEOF, t, h') \<and> (n < length is \<longrightarrow> t = snd (is ! n))"
    by (intro item_loop_document assms)
  moreover have "GetItem sg (int n) rItem ?h = item_loop sg (Suc n) (HtmlItemTag, rItem, ?h)"
    by (simp add: GetItem_def GetFirstItem_def assert_def CHtmlScanner_new_def cong: if_cong)
  ultimately show ?thesis by metis
qed

definition sample_items :: "item list" where
  "sample_items = [(HtmlItemTag, cstr ''<b>''), (HtmlItemText, cstr ''a > b''), (HtmlItemCData, cstr ''x<y''),
     (HtmlItemComment, cstr ''<!-- c -->''), (HtmlItemTag, cstr ''</b>'')]"

lemma sample_document: "document sample_items"
  by (simp add: sample_items_def item_form_def print_item_def plain_text_def CDATA_START_def COMMENT_START_def
      HTMLSCAN_MAXIMUM_ITEM_def)

theorem html_items_read_back_witness:
  "\<exists>h'. GetItem True 2 [] (CHtmlScanner_new (print_items sample_items)) = Some (HtmlItemCData, cstr ''x<y'', h')"
  using html_items_read_back [OF sample_document, of True 2 "[]" "[]"] by (simp add: sample_items_def)

text \<open>
  The scanner stays within the document and makes progress: as long as the terminating zero is
  ahead, \<open>GetNextItem\<close> returns, whatever the bytes are; the zero is still ahead then, an item or an
  error moves the scanner forward, and a text is not empty, neither starts nor ends with a blank and
  contains no opening bracket.
\<close>

theorem html_items_sound:
  assumes "terminated h"
  shows "\<exists>it t h'. GetNextItem sg h = Some (it, t, h') \<and> hs_Content h' = hs_Content h \<and> terminated h' \<and>
    (it \<noteq> HtmlItemEOF \<longrightarrow> hs_Index h < hs_Index h' \<and> hs_Index h' \<le> length (hs_Content h)) \<and>
    (it = HtmlItemText \<longrightarrow> (\<exists>s. t = Some s \<and> plain_text s))"
  using GetNextItem_ok [OF assms, of sg] by (auto simp: item_ok_def)

theorem html_items_sound_witness:
  "\<exists>it t h'. GetNextItem True (CHtmlScanner_new [60, 255, 0]) = Some (it, t, h') \<and>
     hs_Content h' = [60, 255, 0] \<and> terminated h'"
  using html_items_sound [of "CHtmlScanner_new [60, 255, 0]" True]
  by (auto simp: terminated_def CHtmlScanner_new_def)

subsection \<open>Findings\<close>

text \<open>
  \<open>GetFirstItem\<close> resets the index only. After a text the bracket read ahead is still pending, so the
  scan from the start does not find the text a document begins with.
\<close>

lemma scan_loop_markup:
  "scan_loop sg buf h = Some (it, t, h') \<Longrightarrow> buf \<noteq> [] \<Longrightarrow> hd buf = 60 \<Longrightarrow> it \<noteq> HtmlItemText"
proof (induction "length (hs_Content h) - hs_Index h" arbitrary: buf h rule: less_induct)
  case less
  obtain c h1 where c: "GetChar sg h = Some (c, h1)"
    using less.prems(1) by (cases "GetChar sg h") (auto simp: scan_loop.simps)
  have "item_complete (buf @ [x]) = Some (i, u) \<Longrightarrow> i \<noteq> HtmlItemText" for x i u
    using less.prems(2,3) by (auto simp: item_complete_def Let_def split: if_splits)
  moreover have "c \<noteq> -1 \<Longrightarrow> scan_loop sg (buf @ [stored_char c]) h1 = Some (it, t, h') \<Longrightarrow> it \<noteq> HtmlItemText"
    using GetChar_advances [OF c] less.prems(2,3) by (intro less.hyps [of h1 "buf @ [stored_char c]"]) auto
  ultimately show ?case
    using less.prems unfolding scan_loop_step [OF c] by (auto split: if_splits option.splits)
qed

lemma restart_after_text:
  assumes "GetNextItem sg h = Some (HtmlItemText, t, h')" "GetFirstItem sg h' = Some (it, t', h'')"
  shows "it \<noteq> HtmlItemText"
proof -
  have tag: "scan_loop sg buf k = Some (HtmlItemText, t, k') \<Longrightarrow> hs_Tag k'" for buf k k'
  proof (induction "length (hs_Content k) - hs_Index k" arbitrary: buf k rule: less_induct)
    case less
    obtain c h1 where c: "GetChar sg k = Some (c, h1)"
      using less.prems by (cases "GetChar sg k") (auto simp: scan_loop.simps)
    have "scan_loop sg b h1 = Some (HtmlItemText, t, k') \<Longrightarrow> c \<noteq> -1 \<Longrightarrow> hs_Tag k'" for b
      using GetChar_advances [OF c] by (intro less.hyps [of h1 b]) auto
    then show ?case
      using less.prems unfolding scan_loop_step [OF c] by (auto split: if_splits option.splits)
  qed
  have "hs_Tag h'" using assms(1) by (auto simp: GetNextItem_def split: if_splits intro: tag)
  then show ?thesis
    using assms(2) by (auto simp: GetFirstItem_def GetNextItem_def dest: scan_loop_markup)
qed

text \<open>An empty comment is not recognised, because a comment of seven characters is too short.\<close>

lemma empty_comment_swallows:
  "GetItem True 0 [] (CHtmlScanner_new (cstr ''<!----><p>text</p>'' @ [0])) =
     Some (HtmlItemEOF, [], \<lparr>hs_Content = cstr ''<!----><p>text</p>'' @ [0], hs_Index = 18, hs_WhiteSpace = False, hs_Tag = False\<rparr>)"
  by (simp add: GetItem_def assert_def GetFirstItem_def GetNextItem_def CHtmlScanner_new_def scan_loop.simps GetChar.simps
      get_at_def c_char_def item_complete_def CDATA_START_def COMMENT_START_def HTMLSCAN_MAXIMUM_ITEM_def assign_def)

end
