(* ===== verification/Web_Client.thy ===== *)
theory Web_Client
  imports Html_Items Http_Props
begin

text \<open>
  The web client (\<open>samples/mbedtls/06-webclient/kernel.cpp\<close>): it fetches a document with the HTTP
  client, terminates it and scans it for a table with the HTML scanner.

  \<open>Resolve\<close> is the DNS client, \<open>Replace\<close> the method of Circle's strings that replaces the entity of
  a non-breaking space. The screen is the list of bytes written.
\<close>

definition HTTP_PORT :: u16 where "HTTP_PORT = 80"
definition HTTPS_PORT :: u16 where "HTTPS_PORT = 443"
definition bUseSSL :: bool where "bUseSSL = True"
definition Server :: cstring where "Server = cstr ''elinux.org''"
definition Document :: cstring where "Document = cstr ''/RPi_HardwareHistory''"
definition nDocMaxSize :: nat where "nDocMaxSize = 2048 * 1024"

text \<open>
  \<open>GetDocument\<close>. The buffer has one byte more than the client is told about; the client gets the part
  before it.
\<close>

definition GetDocument ::
  "('w, 'x) net_env_scheme \<Rightarrow> (cstring \<Rightarrow> 'w \<Rightarrow> u8 list option \<times> 'w) \<Rightarrow> u8 list \<Rightarrow> u8 list \<Rightarrow> 'w \<Rightarrow>
     (bool \<times> u8 list \<times> 'w) option option" where
  "GetDocument E Resolve Line pBuffer w =
     (case Resolve Server w of
        (None, w) \<Rightarrow> Some (Some (False, pBuffer, w))
      | (Some ip, w) \<Rightarrow>
          let Client = CHTTPClient_new ip (if bUseSSL then HTTPS_PORT else HTTP_PORT) (Some Server) bUseSSL
          in map_option (\<lambda>r. do {
               (res, Client, w) \<leftarrow> r;
               let w = snd (CHTTPClient_delete E Client w);
               let pBuffer = hr_Buffer res @ drop nDocMaxSize pBuffer;
               if hr_Status res \<noteq> HTTPOK then Some (False, pBuffer, w)
               else do {
                 nLength \<leftarrow> hr_Length res;
                 assert (nLength \<le> nDocMaxSize);
                 pBuffer \<leftarrow> put_at pBuffer nLength 0;
                 Some (True, pBuffer, w)
               }
             }) (Get E Line Document (take nDocMaxSize pBuffer) (Some nDocMaxSize) Client w))"

subsection \<open>The table\<close>

text \<open>
  The columns of a row (states 4 and 5): \<open>None\<close> when the table is finished, otherwise the new state
  and the screen.
\<close>

definition column_item ::
  "(cstring \<Rightarrow> cstring) \<Rightarrow> nat \<Rightarrow> html_item \<Rightarrow> cstring \<Rightarrow> nat \<Rightarrow> u8 list \<Rightarrow> (nat \<times> u8 list) option" where
  "column_item Replace nBoardRevision Item ItemText nState screen =
     (if Item = HtmlItemTag
      then if ItemText = cstr ''</table>'' then None
           else if ItemText = cstr ''</tr>'' then Some (4, screen @ [27] @ cstr ''[0m'' @ [10])
           else Some (nState, screen)
      else if Item = HtmlItemText
      then let screen =
                 (if nState = 4
                  then let (ulRevision, pEnd) = strtoul 16 ItemText
                       in if pEnd = length ItemText \<and> ulRevision = nBoardRevision
                          then screen @ [27] @ cstr ''[1m'' else screen
                  else screen @ cstr '', '')
           in Some (5, screen @ Replace ItemText)
      else Some (nState, screen))"

definition table_item ::
  "(cstring \<Rightarrow> cstring) \<Rightarrow> nat \<Rightarrow> html_item \<Rightarrow> cstring \<Rightarrow> nat \<Rightarrow> u8 list \<Rightarrow> (nat \<times> u8 list) option" where
  "table_item Replace nBoardRevision Item ItemText nState screen =
     (if nState = 0 then
        Some (if Item = HtmlItemTag \<and> take 5 ItemText = cstr ''<body'' then 1 else 0, screen)
      else if nState = 1 then
        Some (if Item = HtmlItemText \<and> ItemText = cstr ''Board Revision History'' then 2 else 1, screen)
      else if nState = 2 then
        Some (if Item = HtmlItemTag \<and> take 6 ItemText = cstr ''<table'' then 3 else 2, screen)
      else if nState = 3 then
        (if Item = HtmlItemText
         then if ItemText = cstr ''Revision''
              then column_item Replace nBoardRevision Item ItemText 4 (screen @ [10])
              else Some (2, screen)
         else Some (3, screen))
      else column_item Replace nBoardRevision Item ItemText nState screen)"

text \<open>A loop over the items ends, because every item moves the scanner forward.\<close>

lemma scan_loop_forward:
  "scan_loop sg buf h = Some (it, t, h') \<Longrightarrow> it \<noteq> HtmlItemEOF \<Longrightarrow>
     hs_Content h' = hs_Content h \<and> hs_Index h < hs_Index h' \<and> hs_Index h' \<le> length (hs_Content h)"
proof (induction "length (hs_Content h) - hs_Index h" arbitrary: buf h rule: less_induct)
  case less
  obtain c h1 where c: "GetChar sg h = Some (c, h1)"
    using less.prems(1) by (cases "GetChar sg h") (auto simp: scan_loop.simps)
  have c1: "c \<noteq> -1" using less.prems c by (auto simp: scan_loop_step)
  note adv = GetChar_advances [OF c]
  have "(hs_Index h' = hs_Index h1 \<and> hs_Content h' = hs_Content h1) \<or> (\<exists>buf'. scan_loop sg buf' h1 = Some (it, t, h'))"
    using less.prems c1 unfolding scan_loop_step [OF c] by (auto split: if_splits option.splits)
  then show ?case
  proof
    assume "\<exists>buf'. scan_loop sg buf' h1 = Some (it, t, h')"
    then obtain buf' where "scan_loop sg buf' h1 = Some (it, t, h')" by blast
    moreover have "length (hs_Content h1) - hs_Index h1 < length (hs_Content h) - hs_Index h" using adv c1 by auto
    ultimately show ?thesis using less.hyps [of h1 buf'] less.prems(2) adv c1 by auto
  qed (use adv c1 in simp)
qed

lemma GetNextItem_forward:
  "GetNextItem sg h = Some (it, t, h') \<Longrightarrow> it \<noteq> HtmlItemEOF \<Longrightarrow>
     hs_Content h' = hs_Content h \<and> hs_Index h < hs_Index h' \<and> hs_Index h' \<le> length (hs_Content h)"
  by (auto simp: GetNextItem_def dest!: scan_loop_forward split: if_splits)

function parse_loop ::
  "bool \<Rightarrow> (cstring \<Rightarrow> cstring) \<Rightarrow> nat \<Rightarrow> html_item \<Rightarrow> cstring \<Rightarrow> html_scanner \<Rightarrow> nat \<Rightarrow> u8 list \<Rightarrow> (bool \<times> u8 list) option" where
  "parse_loop sg Replace nBoardRevision Item ItemText h nState screen =
     (if Item = HtmlItemEOF \<or> Item = HtmlItemError \<or> Item = HtmlItemUnknown then Some (False, screen)
      else case table_item Replace nBoardRevision Item ItemText nState screen of
             None \<Rightarrow> Some (True, screen)
           | Some (nState, screen) \<Rightarrow>
               (case GetNextItem sg h of
                  None \<Rightarrow> None
                | Some (Item, t, h') \<Rightarrow>
                    if Item = HtmlItemEOF then Some (False, screen)
                    else parse_loop sg Replace nBoardRevision Item (assign t ItemText) h' nState screen))"
  by pat_completeness auto
termination
  by (relation "measure (\<lambda>(sg, R, n, i, t, h, st, scr). length (hs_Content h) - hs_Index h)")
    (auto dest!: GetNextItem_forward)

declare parse_loop.simps [simp del]

definition ParseDocument :: "bool \<Rightarrow> (cstring \<Rightarrow> cstring) \<Rightarrow> nat \<Rightarrow> u8 list \<Rightarrow> u8 list \<Rightarrow> (bool \<times> u8 list) option" where
  "ParseDocument sg Replace nRevisionRaw pDocument screen = do {
     let nBoardRevision = nRevisionRaw mod 2 ^ 24;
     (Item, t, h) \<leftarrow> GetFirstItem sg (CHtmlScanner_new pDocument);
     parse_loop sg Replace nBoardRevision Item (assign t []) h 0 screen
   }"

lemma parse_loop_total:
  "terminated h \<Longrightarrow> parse_loop sg R n Item itx h st scr \<noteq> None"
proof (induction "length (hs_Content h) - hs_Index h" arbitrary: Item itx h st scr rule: less_induct)
  case less
  obtain it t h' where nx: "GetNextItem sg h = Some (it, t, h')" and ok: "item_ok h (it, t, h')"
    using GetNextItem_ok [OF less.prems, of sg] by (metis prod_cases3)
  have "parse_loop sg R n it (assign t itx) h' st1 scr1 \<noteq> None" if "it \<noteq> HtmlItemEOF" for st1 scr1
    using ok that by (intro less.hyps) (auto simp: item_ok_def)
  then show ?case by (subst parse_loop.simps) (auto simp: nx split: option.splits)
qed

lemma ParseDocument_total: "0 \<in> set pDocument \<Longrightarrow> ParseDocument sg R raw pDocument scr \<noteq> None"
proof -
  assume "0 \<in> set pDocument"
  then have "terminated (CHtmlScanner_new pDocument\<lparr>hs_Index := 0\<rparr>)"
    by (simp add: terminated_def CHtmlScanner_new_def)
  from GetNextItem_ok [OF this, of sg] obtain it t h' where
    "GetFirstItem sg (CHtmlScanner_new pDocument) = Some (it, t, h')" "terminated h'"
    by (auto simp: GetFirstItem_def item_ok_def)
  then show ?thesis
    using parse_loop_total [of h' sg R "raw mod 2 ^ 24" it "assign t []" 0 scr] by (simp add: ParseDocument_def)
qed

subsection \<open>Fetching and scanning\<close>







subsection \<open>The table on the screen\<close>



















text \<open>
  Without a string at address 0 the program does not get beyond the set-up of the connection, since it
  uses SSL and the client leaves out the personalization string.
\<close>

lemma webclient_needs_null_string:
  assumes "Resolve Server w = (Some ip, w1)" "null_string E = None"
    "ssl_AddCertificatePath E (cstr ''/'') (sock_new E True w1) = (r, w2)" "0 \<le> r"
  shows "GetDocument E Resolve Line pBuffer w = Some None"
  using assms
  by (simp add: GetDocument_def Get_def Request_def http_connect_def simple_Setup_def CHTTPClient_new_def bUseSSL_def Server_def)


subsection \<open>A concrete page\<close>








end
