(* ===== verification/Cxx_Sync.thy ===== *)
theory Cxx_Sync
  imports Prelude
begin

text \<open>
  The mutex and the condition variable of the C++ threading layer
  (\<open>libs/libcxx-threading/src/mutex_impl.h\<close>, \<open>mutex.cpp\<close>, \<open>condvar.cpp\<close>),
  built on the counting semaphore \<open>CSemaphore\<close> of Circle, which is a parameter.

  Circle schedules tasks cooperatively: a task runs until it blocks in \<open>Down\<close>. An operation is
  therefore a function on the objects up to the point where it may block, and a second function
  from there on. The step relation \<open>sync_step\<close> interleaves any number of tasks at these points.
  Which task owns which mutex is recorded in the state; the code has no such field. The counters
  \<open>m_waiters\<close> and \<open>waiters\<close> are integers without bound (they count tasks).
\<close>

subsection \<open>Semaphores\<close>

text \<open>\<open>sem_Down\<close> is \<open>None\<close> while the caller has to wait.\<close>

record 's sem_ops =
  sem_Up :: "'s \<Rightarrow> 's"
  sem_Down :: "'s \<Rightarrow> 's option"
  sem_TryDown :: "'s \<Rightarrow> bool \<times> 's"

locale counting_semaphore =
  fixes S :: "'s sem_ops" and count :: "'s \<Rightarrow> nat"
  assumes Up: "count (sem_Up S s) = Suc (count s)"
    and Down_blocks: "sem_Down S s = None \<longleftrightarrow> count s = 0"
    and Down_takes: "sem_Down S s = Some s' \<Longrightarrow> count s = Suc (count s')"
    and TryDown: "sem_TryDown S s = (b, s') \<Longrightarrow>
       b = (0 < count s) \<and> count s' = count s - 1"

definition nat_sem :: "nat sem_ops" where
  "nat_sem = \<lparr>sem_Up = Suc, sem_Down = (\<lambda>n. if n = 0 then None else Some (n - 1)),
     sem_TryDown = (\<lambda>n. (0 < n, n - 1))\<rparr>"

interpretation nat_sem: counting_semaphore nat_sem id
  by unfold_locales (auto simp: nat_sem_def split: if_splits)

subsection \<open>Mutex\<close>

record 's mutex =
  m_locked :: bool
  m_waiters :: int
  m_sem :: 's

text \<open>
  \<open>Acquire\<close> up to the call of \<open>Down\<close>: whether the mutex has been taken; the rest is
  \<open>Acquire_down\<close>.
\<close>

definition Acquire :: "'s mutex \<Rightarrow> bool \<times> 's mutex" where
  "Acquire m =
     (if \<not> m_locked m then (True, m\<lparr>m_locked := True\<rparr>)
      else (False, m\<lparr>m_waiters := m_waiters m + 1\<rparr>))"

definition Acquire_down :: "'s sem_ops \<Rightarrow> 's mutex \<Rightarrow> 's mutex option" where
  "Acquire_down S m = map_option (\<lambda>s. m\<lparr>m_sem := s\<rparr>) (sem_Down S (m_sem m))"

definition TryAcquire :: "'s mutex \<Rightarrow> bool \<times> 's mutex" where
  "TryAcquire m = (if \<not> m_locked m then (True, m\<lparr>m_locked := True\<rparr>) else (False, m))"

definition Release :: "'s sem_ops \<Rightarrow> 's mutex \<Rightarrow> 's mutex" where
  "Release S m =
     (if m_waiters m > 0 then m\<lparr>m_waiters := m_waiters m - 1, m_sem := sem_Up S (m_sem m)\<rparr>
      else m\<lparr>m_locked := False\<rparr>)"

subsection \<open>Condition variable\<close>

record 's condvar =
  cv_sem :: 's
  cv_waiters :: int

definition condvar_signal :: "'s sem_ops \<Rightarrow> 's condvar \<Rightarrow> 's condvar" where
  "condvar_signal S c =
     (if cv_waiters c > 0 then c\<lparr>cv_waiters := cv_waiters c - 1, cv_sem := sem_Up S (cv_sem c)\<rparr> else c)"

fun up_times :: "'s sem_ops \<Rightarrow> nat \<Rightarrow> 's \<Rightarrow> 's" where
  "up_times S 0 s = s"
| "up_times S (Suc n) s = up_times S n (sem_Up S s)"

definition condvar_broadcast :: "'s sem_ops \<Rightarrow> 's condvar \<Rightarrow> 's condvar" where
  "condvar_broadcast S c = c\<lparr>cv_waiters := 0, cv_sem := up_times S (nat (cv_waiters c)) (cv_sem c)\<rparr>"

text \<open>\<open>condvar_wait\<close> and \<open>condvar_timedwait\<close> up to the call of \<open>Down\<close>.\<close>

definition condvar_wait_begin :: "'s sem_ops \<Rightarrow> 's condvar \<Rightarrow> 's mutex \<Rightarrow> 's condvar \<times> 's mutex" where
  "condvar_wait_begin S c m = (c\<lparr>cv_waiters := cv_waiters c + 1\<rparr>, Release S m)"

text \<open>After \<open>Down\<close> has returned because of a signal.\<close>

definition condvar_wait_end ::
  "'s sem_ops \<Rightarrow> 's condvar \<Rightarrow> 's mutex \<Rightarrow> ('s condvar \<times> bool \<times> 's mutex) option" where
  "condvar_wait_end S c m =
     map_option (\<lambda>s. (c\<lparr>cv_sem := s\<rparr>, Acquire m)) (sem_Down S (cv_sem c))"

text \<open>
  After \<open>DownWithTimeout\<close> has returned because of the time-out: whether \<open>ETIMEDOUT\<close> will be
  returned, and the objects after the call of \<open>Acquire\<close>.
\<close>

definition condvar_timeout ::
  "'s sem_ops \<Rightarrow> 's condvar \<Rightarrow> 's mutex \<Rightarrow> bool \<times> 's condvar \<times> bool \<times> 's mutex" where
  "condvar_timeout S c m =
     (let (taken, s) = sem_TryDown S (cv_sem c)
      in if taken then (False, c\<lparr>cv_sem := s\<rparr>, Acquire m)
         else (True, c\<lparr>cv_sem := s, cv_waiters := cv_waiters c - 1\<rparr>, Acquire m))"

text \<open>
  The time-out in microseconds: the absolute time is given in seconds and nanoseconds, the clock
  in seconds and microseconds; \<open>/\<close> on \<open>long long\<close> truncates towards zero, and the cast
  in \<open>condvar_timedwait\<close> keeps the low 32 bits.
\<close>

definition timespec_diff_us :: "int \<Rightarrow> int \<Rightarrow> nat \<Rightarrow> nat \<Rightarrow> int" where
  "timespec_diff_us tv_sec tv_nsec now_sec now_us =
     (let abs_us = tv_sec * 1000000 + (if tv_nsec < 0 then - ((- tv_nsec) div 1000) else tv_nsec div 1000);
          now_total_us = int now_sec * 1000000 + int now_us;
          delta = abs_us - now_total_us
      in if delta > 0 then delta else 0)"

definition condvar_timeout_us :: "int \<Rightarrow> u32" where
  "condvar_timeout_us delta_us = of_int (if delta_us < 0 then 0 else delta_us)"

subsection \<open>Tasks\<close>

datatype task_pc =
    Running
  | InAcquire nat
  | InWait nat nat bool

record 's sync_state =
  mutexes :: "nat \<Rightarrow> 's mutex"
  condvars :: "nat \<Rightarrow> 's condvar"
  pcs :: "nat \<Rightarrow> task_pc"
  owned :: "(nat \<times> nat) set"

text \<open>Where a task goes on after a call of \<open>Acquire\<close>.\<close>

definition after_acquire :: "nat \<Rightarrow> nat \<Rightarrow> bool \<times> 's mutex \<Rightarrow> 's sync_state \<Rightarrow> 's sync_state" where
  "after_acquire t m r \<sigma> = \<sigma>\<lparr>mutexes := (mutexes \<sigma>)(m := snd r),
     pcs := (pcs \<sigma>)(t := (if fst r then Running else InAcquire m)),
     owned := (if fst r then insert (t, m) (owned \<sigma>) else owned \<sigma>)\<rparr>"

definition set_condvar :: "nat \<Rightarrow> 's condvar \<Rightarrow> 's sync_state \<Rightarrow> 's sync_state" where
  "set_condvar c v \<sigma> = \<sigma>\<lparr>condvars := (condvars \<sigma>)(c := v)\<rparr>"

text \<open>
  A task unlocks and waits only with a mutex it owns, as the standard requires of the callers; the
  time-out of a timed wait may come at any moment. A step is labelled with what the task does to a
  condition variable: \<open>Woken\<close> is the return of a wait with code 0, \<open>Timed_Out\<close> the one with
  \<open>ETIMEDOUT\<close>.
\<close>

datatype sync_event =
    On_Mutex
  | Signal nat
  | Broadcast nat
  | Wait nat nat
  | Woken nat nat
  | Timed_Out nat nat

inductive sync_step :: "'s sem_ops \<Rightarrow> 's sync_state \<Rightarrow> sync_event \<Rightarrow> 's sync_state \<Rightarrow> bool" for S where
  lock: "pcs \<sigma> t = Running \<Longrightarrow> sync_step S \<sigma> On_Mutex (after_acquire t m (Acquire (mutexes \<sigma> m)) \<sigma>)"
| lock_down: "pcs \<sigma> t = InAcquire m \<Longrightarrow> Acquire_down S (mutexes \<sigma> m) = Some x \<Longrightarrow>
    sync_step S \<sigma> On_Mutex (after_acquire t m (True, x) \<sigma>)"
| trylock: "pcs \<sigma> t = Running \<Longrightarrow> TryAcquire (mutexes \<sigma> m) = (b, x) \<Longrightarrow>
    sync_step S \<sigma> On_Mutex (\<sigma>\<lparr>mutexes := (mutexes \<sigma>)(m := x),
      owned := (if b then insert (t, m) (owned \<sigma>) else owned \<sigma>)\<rparr>)"
| unlock: "pcs \<sigma> t = Running \<Longrightarrow> (t, m) \<in> owned \<sigma> \<Longrightarrow>
    sync_step S \<sigma> On_Mutex (\<sigma>\<lparr>mutexes := (mutexes \<sigma>)(m := Release S (mutexes \<sigma> m)), owned := owned \<sigma> - {(t, m)}\<rparr>)"
| signal: "pcs \<sigma> t = Running \<Longrightarrow> sync_step S \<sigma> (Signal c) (set_condvar c (condvar_signal S (condvars \<sigma> c)) \<sigma>)"
| broadcast: "pcs \<sigma> t = Running \<Longrightarrow> sync_step S \<sigma> (Broadcast c) (set_condvar c (condvar_broadcast S (condvars \<sigma> c)) \<sigma>)"
| wait: "pcs \<sigma> t = Running \<Longrightarrow> (t, m) \<in> owned \<sigma> \<Longrightarrow>
    condvar_wait_begin S (condvars \<sigma> c) (mutexes \<sigma> m) = (v, x) \<Longrightarrow>
    sync_step S \<sigma> (Wait t c) ((set_condvar c v \<sigma>)\<lparr>mutexes := (mutexes \<sigma>)(m := x), pcs := (pcs \<sigma>)(t := InWait c m timed),
      owned := owned \<sigma> - {(t, m)}\<rparr>)"
| wait_down: "pcs \<sigma> t = InWait c m timed \<Longrightarrow>
    condvar_wait_end S (condvars \<sigma> c) (mutexes \<sigma> m) = Some (v, r) \<Longrightarrow>
    sync_step S \<sigma> (Woken t c) (after_acquire t m r (set_condvar c v \<sigma>))"
| timeout: "pcs \<sigma> t = InWait c m True \<Longrightarrow>
    condvar_timeout S (condvars \<sigma> c) (mutexes \<sigma> m) = (late, v, r) \<Longrightarrow>
    sync_step S \<sigma> (if late then Timed_Out t c else Woken t c) (after_acquire t m r (set_condvar c v \<sigma>))"

inductive sync_reach :: "'s sem_ops \<Rightarrow> 's sync_state \<Rightarrow> 's sync_state \<Rightarrow> bool" for S where
  start: "sync_reach S \<sigma> \<sigma>"
| more: "sync_reach S \<sigma> \<tau> \<Longrightarrow> sync_step S \<tau> ev \<rho> \<Longrightarrow> sync_reach S \<sigma> \<rho>"

text \<open>The same with the events of the run, in order.\<close>

inductive sync_history :: "'s sem_ops \<Rightarrow> 's sync_state \<Rightarrow> sync_event list \<Rightarrow> 's sync_state \<Rightarrow> bool" for S where
  start: "sync_history S \<sigma> [] \<sigma>"
| more: "sync_history S \<sigma> evs \<tau> \<Longrightarrow> sync_step S \<tau> ev \<rho> \<Longrightarrow> sync_history S \<sigma> (evs @ [ev]) \<rho>"

lemma sync_history_reach: "sync_history S \<sigma> evs \<tau> \<Longrightarrow> sync_reach S \<sigma> \<tau>"
  by (induction rule: sync_history.induct) (auto intro: sync_reach.intros)

text \<open>Zero-initialised objects, no task inside an operation.\<close>

definition sync_start :: "('s \<Rightarrow> nat) \<Rightarrow> 's sync_state \<Rightarrow> bool" where
  "sync_start count \<sigma> \<longleftrightarrow>
     (\<forall>m. \<not> m_locked (mutexes \<sigma> m) \<and> m_waiters (mutexes \<sigma> m) = 0 \<and> count (m_sem (mutexes \<sigma> m)) = 0) \<and>
     (\<forall>c. cv_waiters (condvars \<sigma> c) = 0 \<and> count (cv_sem (condvars \<sigma> c)) = 0) \<and>
     (\<forall>t. pcs \<sigma> t = Running) \<and> owned \<sigma> = {}"

subsection \<open>Invariant\<close>

definition blocked :: "'s sync_state \<Rightarrow> nat \<Rightarrow> nat set" where
  "blocked \<sigma> m = {t. pcs \<sigma> t = InAcquire m}"

definition waiting :: "'s sync_state \<Rightarrow> nat \<Rightarrow> nat set" where
  "waiting \<sigma> c = {t. \<exists>m b. pcs \<sigma> t = InWait c m b}"

definition owners :: "'s sync_state \<Rightarrow> nat \<Rightarrow> nat set" where
  "owners \<sigma> m = {t. (t, m) \<in> owned \<sigma>}"

definition mutex_ok :: "('s \<Rightarrow> nat) \<Rightarrow> 's mutex \<Rightarrow> nat set \<Rightarrow> nat set \<Rightarrow> bool" where
  "mutex_ok count x os bs \<longleftrightarrow> finite os \<and> finite bs \<and>
     card os + count (m_sem x) = (if m_locked x then 1 else 0) \<and>
     int (card bs) = m_waiters x + int (count (m_sem x)) \<and> 0 \<le> m_waiters x \<and>
     (\<not> m_locked x \<longrightarrow> m_waiters x = 0)"

definition condvar_ok :: "('s \<Rightarrow> nat) \<Rightarrow> 's condvar \<Rightarrow> nat set \<Rightarrow> bool" where
  "condvar_ok count v ws \<longleftrightarrow> finite ws \<and>
     int (card ws) = cv_waiters v + int (count (cv_sem v)) \<and> 0 \<le> cv_waiters v"

definition sync_inv :: "('s \<Rightarrow> nat) \<Rightarrow> 's sync_state \<Rightarrow> bool" where
  "sync_inv count \<sigma> \<longleftrightarrow>
     (\<forall>m. mutex_ok count (mutexes \<sigma> m) (owners \<sigma> m) (blocked \<sigma> m)) \<and>
     (\<forall>c. condvar_ok count (condvars \<sigma> c) (waiting \<sigma> c))"

text \<open>
  What a condition variable owes, from the events alone: the tasks that wait and the number of wake-ups
  granted to them and not yet used. A signal grants one if a waiting task has none; a broadcast
  grants one to every waiting task.
\<close>

fun cv_account :: "nat \<Rightarrow> sync_event \<Rightarrow> nat set \<times> nat \<Rightarrow> nat set \<times> nat" where
  "cv_account c On_Mutex (ws, n) = (ws, n)"
| "cv_account c (Signal d) (ws, n) = (ws, if c = d \<and> n < card ws then Suc n else n)"
| "cv_account c (Broadcast d) (ws, n) = (ws, if c = d then card ws else n)"
| "cv_account c (Wait t d) (ws, n) = (if c = d then insert t ws else ws, n)"
| "cv_account c (Woken t d) (ws, n) = (if c = d then (ws - {t}, n - 1) else (ws, n))"
| "cv_account c (Timed_Out t d) (ws, n) = (if c = d then ws - {t} else ws, n)"

lemma sync_start_inv: "sync_start count \<sigma> \<Longrightarrow> sync_inv count \<sigma>"
  by (simp add: sync_start_def sync_inv_def mutex_ok_def condvar_ok_def owners_def blocked_def waiting_def)

lemma int_card_remove: "finite A \<Longrightarrow> t \<in> A \<Longrightarrow> int (card (A - {t})) = int (card A) - 1"
  by (metis card_Suc_Diff1 of_nat_Suc add_diff_cancel_left')

context counting_semaphore
begin

lemma Acquire_ok:
  assumes "mutex_ok count x os bs" "t \<notin> bs" "Acquire x = (b, x')"
  shows "mutex_ok count x' (if b then insert t os else os) (bs \<union> (if b then {} else {t}))"
  using assms by (auto simp: mutex_ok_def Acquire_def split: if_splits)

lemma Acquire_down_ok:
  assumes "mutex_ok count x os bs" "t \<in> bs" "Acquire_down S x = Some x'"
  shows "mutex_ok count x' (insert t os) (bs - {t})"
proof -
  obtain s where s: "sem_Down S (m_sem x) = Some s" "x' = x\<lparr>m_sem := s\<rparr>"
    using assms(3) by (auto simp: Acquire_down_def)
  note d = Down_takes [OF s(1)]
  have "m_locked x" "os = {}" "count s = 0"
    using assms(1) d by (auto simp: mutex_ok_def split: if_splits)
  moreover have "int (card (bs - {t})) = int (card bs) - 1"
    using assms(1,2) int_card_remove [of bs t] unfolding mutex_ok_def by blast
  ultimately show ?thesis
    using assms(1) s(2) d by (simp add: mutex_ok_def)
qed

lemma TryAcquire_ok:
  assumes "mutex_ok count x os bs" "TryAcquire x = (b, x')"
  shows "mutex_ok count x' (if b then insert t os else os) bs"
  using assms by (auto simp: mutex_ok_def TryAcquire_def split: if_splits)

lemma Release_ok:
  assumes "mutex_ok count x os bs" "t \<in> os"
  shows "mutex_ok count (Release S x) (os - {t}) bs"
proof -
  have "0 < card os" using assms by (auto simp: mutex_ok_def card_gt_0_iff)
  then have "m_locked x" "card os = 1" "count (m_sem x) = 0"
    using assms(1) by (auto simp: mutex_ok_def split: if_splits)
  moreover have "card (os - {t}) = 0" using assms \<open>card os = 1\<close> by (simp add: mutex_ok_def)
  ultimately show ?thesis
    using assms(1) by (auto simp: mutex_ok_def Release_def Up)
qed

lemma count_up_times: "count (up_times S n s) = count s + n"
  by (induction n arbitrary: s) (simp_all add: Up)

lemma signal_ok: "condvar_ok count v ws \<Longrightarrow> condvar_ok count (condvar_signal S v) ws"
  by (simp add: condvar_ok_def condvar_signal_def Up)

lemma broadcast_ok: "condvar_ok count v ws \<Longrightarrow> condvar_ok count (condvar_broadcast S v) ws"
  by (simp add: condvar_ok_def condvar_broadcast_def count_up_times)

lemma wait_begin_ok:
  "condvar_ok count v ws \<Longrightarrow> t \<notin> ws \<Longrightarrow> condvar_ok count (v\<lparr>cv_waiters := cv_waiters v + 1\<rparr>) (insert t ws)"
  by (simp add: condvar_ok_def)

lemma wait_end_ok:
  assumes "condvar_ok count v ws" "t \<in> ws" "sem_Down S (cv_sem v) = Some s"
  shows "condvar_ok count (v\<lparr>cv_sem := s\<rparr>) (ws - {t})"
  using assms Down_takes [OF assms(3)] by (simp add: condvar_ok_def int_card_remove)

lemma timeout_ok:
  assumes "condvar_ok count v ws" "t \<in> ws" "condvar_timeout S v m = (late, v', r)"
  shows "condvar_ok count v' (ws - {t})" "r = Acquire m"
proof -
  obtain b s where s: "sem_TryDown S (cv_sem v) = (b, s)" by (metis surj_pair)
  note d = TryDown [OF s]
  have p: "0 < card ws" using assms by (auto simp: condvar_ok_def card_gt_0_iff)
  show "condvar_ok count v' (ws - {t})" "r = Acquire m"
    using assms s d p by (auto simp: condvar_timeout_def condvar_ok_def int_card_remove Let_def split: if_splits)
qed

lemma after_acquire_inv:
  assumes "\<And>k. k \<noteq> m \<Longrightarrow> mutex_ok count (mutexes \<sigma> k) (owners \<sigma> k) (blocked \<sigma> k - {t})"
    "mutex_ok count (snd r) (if fst r then insert t (owners \<sigma> m) else owners \<sigma> m)
       ((blocked \<sigma> m - {t}) \<union> (if fst r then {} else {t}))"
    "\<And>c. condvar_ok count (condvars \<sigma> c) (waiting \<sigma> c - {t})"
  shows "sync_inv count (after_acquire t m r \<sigma>)"
proof -
  let ?\<tau> = "after_acquire t m r \<sigma>"
  have o: "owners ?\<tau> k = (if k = m \<and> fst r then insert t (owners \<sigma> m) else owners \<sigma> k)" for k
    by (auto simp: after_acquire_def owners_def)
  have b: "blocked ?\<tau> k = (blocked \<sigma> k - {t}) \<union> (if k = m \<and> \<not> fst r then {t} else {})" for k
    by (auto simp: after_acquire_def blocked_def)
  have w: "waiting ?\<tau> c = waiting \<sigma> c - {t}" for c
    by (auto simp: after_acquire_def waiting_def split: if_splits)
  have "mutex_ok count (mutexes ?\<tau> k) (owners ?\<tau> k) (blocked ?\<tau> k)" for k
    using assms(1) [of k] assms(2) unfolding o b by (cases "k = m") (auto simp: after_acquire_def)
  moreover have "condvar_ok count (condvars ?\<tau> c) (waiting ?\<tau> c)" for c
    using assms(3) unfolding w by (simp add: after_acquire_def)
  ultimately show ?thesis by (simp add: sync_inv_def)
qed

lemma sync_invD:
  assumes "sync_inv count \<sigma>"
  shows "mutex_ok count (mutexes \<sigma> m) (owners \<sigma> m) (blocked \<sigma> m)" "condvar_ok count (condvars \<sigma> c) (waiting \<sigma> c)"
  using assms by (simp_all add: sync_inv_def)

lemma pcs_sets:
  "pcs \<sigma> t = Running \<Longrightarrow> blocked \<sigma> m - {t} = blocked \<sigma> m \<and> waiting \<sigma> c - {t} = waiting \<sigma> c \<and> t \<notin> blocked \<sigma> m \<and> t \<notin> waiting \<sigma> c"
  "pcs \<sigma> t = InAcquire k \<Longrightarrow> waiting \<sigma> c - {t} = waiting \<sigma> c \<and> (t \<in> blocked \<sigma> m) = (m = k) \<and> (m \<noteq> k \<longrightarrow> blocked \<sigma> m - {t} = blocked \<sigma> m)"
  "pcs \<sigma> t = InWait d k b \<Longrightarrow> blocked \<sigma> m - {t} = blocked \<sigma> m \<and> t \<notin> blocked \<sigma> m \<and> (t \<in> waiting \<sigma> c) = (c = d) \<and>
     (c \<noteq> d \<longrightarrow> waiting \<sigma> c - {t} = waiting \<sigma> c)"
  by (auto simp: blocked_def waiting_def)

lemma condvar_step_inv:
  assumes inv: "sync_inv count \<sigma>" and pc: "pcs \<sigma> t = InWait c m b"
    and v: "condvar_ok count v (waiting \<sigma> c - {t})" and r: "r = Acquire (mutexes \<sigma> m)"
  shows "sync_inv count (after_acquire t m r (set_condvar c v \<sigma>))"
proof (rule after_acquire_inv)
  have s: "owners (set_condvar c v \<sigma>) k = owners \<sigma> k" "blocked (set_condvar c v \<sigma>) k = blocked \<sigma> k"
    "waiting (set_condvar c v \<sigma>) d = waiting \<sigma> d" "mutexes (set_condvar c v \<sigma>) k = mutexes \<sigma> k" for k d
    by (simp_all add: set_condvar_def owners_def blocked_def waiting_def)
  note p = pcs_sets(3) [OF pc]
  show "mutex_ok count (mutexes (set_condvar c v \<sigma>) k) (owners (set_condvar c v \<sigma>) k) (blocked (set_condvar c v \<sigma>) k - {t})" for k
    using sync_invD(1) [OF inv] p unfolding s by simp
  show "mutex_ok count (snd r) (if fst r then insert t (owners (set_condvar c v \<sigma>) m) else owners (set_condvar c v \<sigma>) m)
       ((blocked (set_condvar c v \<sigma>) m - {t}) \<union> (if fst r then {} else {t}))"
    unfolding s using Acquire_ok [OF sync_invD(1) [OF inv], of t m "fst r" "snd r"] p r by simp
  show "condvar_ok count (condvars (set_condvar c v \<sigma>) d) (waiting (set_condvar c v \<sigma>) d - {t})" for d
    unfolding s using v sync_invD(2) [OF inv, of d] p [of m d] by (cases "d = c") (simp_all add: set_condvar_def)
qed

lemma sync_step_inv:
  assumes "sync_step S \<sigma> ev \<tau>" "sync_inv count \<sigma>"
  shows "sync_inv count \<tau>"
  using assms
proof (induction rule: sync_step.induct)
  case (lock \<sigma> t m)
  note inv = sync_invD [OF lock(2)] and p = pcs_sets(1) [OF lock(1)]
  show ?case
    using inv p Acquire_ok [OF inv(1), of t m "fst (Acquire (mutexes \<sigma> m))" "snd (Acquire (mutexes \<sigma> m))"]
    by (intro after_acquire_inv) simp_all
next
  case (lock_down \<sigma> t m x)
  note inv = sync_invD [OF lock_down(3)] and p = pcs_sets(2) [OF lock_down(1)]
  have "mutex_ok count x (insert t (owners \<sigma> m)) (blocked \<sigma> m - {t})"
    using Acquire_down_ok [OF inv(1) _ lock_down(2)] p by simp
  then show ?case using inv p by (intro after_acquire_inv) simp_all
next
  case (trylock \<sigma> t m b x)
  note inv = sync_invD [OF trylock(3)]
  have "mutex_ok count x (if b then insert t (owners \<sigma> m) else owners \<sigma> m) (blocked \<sigma> m)"
    by (rule TryAcquire_ok [OF inv(1) trylock(2)])
  moreover have "{s. s = t \<and> k = m \<or> (s, k) \<in> owned \<sigma>} = (if k = m then insert t (owners \<sigma> m) else owners \<sigma> k)" for k
    by (auto simp: owners_def)
  ultimately show ?case
    using inv by (auto simp: sync_inv_def owners_def blocked_def waiting_def)
next
  case (unlock \<sigma> t m)
  note inv = sync_invD [OF unlock(3)]
  have "mutex_ok count (Release S (mutexes \<sigma> m)) (owners \<sigma> m - {t}) (blocked \<sigma> m)"
    using Release_ok [OF inv(1)] unlock(2) by (simp add: owners_def)
  moreover have "{s. (s, k) \<in> owned \<sigma> \<and> (s = t \<longrightarrow> k \<noteq> m)} = (if k = m then owners \<sigma> m - {t} else owners \<sigma> k)" for k
    by (auto simp: owners_def)
  ultimately show ?case
    using inv by (auto simp: sync_inv_def owners_def blocked_def waiting_def)
next
  case (signal \<sigma> t c)
  with signal_ok sync_invD [OF signal(2)] show ?case
    by (auto simp: sync_inv_def set_condvar_def owners_def blocked_def waiting_def)
next
  case (broadcast \<sigma> t c)
  with broadcast_ok sync_invD [OF broadcast(2)] show ?case
    by (auto simp: sync_inv_def set_condvar_def owners_def blocked_def waiting_def)
next
  case (wait \<sigma> t m c v x timed)
  note inv = sync_invD [OF wait(4)] and p = pcs_sets(1) [OF wait(1)]
  let ?\<tau> = "(set_condvar c v \<sigma>)\<lparr>mutexes := (mutexes \<sigma>)(m := x), pcs := (pcs \<sigma>)(t := InWait c m timed), owned := owned \<sigma> - {(t, m)}\<rparr>"
  have vx: "v = (condvars \<sigma> c)\<lparr>cv_waiters := cv_waiters (condvars \<sigma> c) + 1\<rparr>" "x = Release S (mutexes \<sigma> m)"
    using wait(3) by (simp_all add: condvar_wait_begin_def)
  have o: "owners ?\<tau> k = (if k = m then owners \<sigma> m - {t} else owners \<sigma> k)" "blocked ?\<tau> k = blocked \<sigma> k"
    "waiting ?\<tau> d = (if d = c then insert t (waiting \<sigma> c) else waiting \<sigma> d)" for k d
    using wait(1) by (auto simp: owners_def blocked_def waiting_def set_condvar_def)
  have "mutex_ok count x (owners \<sigma> m - {t}) (blocked \<sigma> m)"
    unfolding vx using Release_ok [OF inv(1)] wait(2) by (simp add: owners_def)
  moreover have "condvar_ok count v (insert t (waiting \<sigma> c))"
    unfolding vx using wait_begin_ok [OF inv(2)] p by simp
  ultimately show ?case
    unfolding sync_inv_def o using inv by (simp add: set_condvar_def)
next
  case (wait_down \<sigma> t c m timed v r)
  then obtain s where s: "sem_Down S (cv_sem (condvars \<sigma> c)) = Some s" "v = (condvars \<sigma> c)\<lparr>cv_sem := s\<rparr>" "r = Acquire (mutexes \<sigma> m)"
    by (auto simp: condvar_wait_end_def)
  show ?case
    using wait_end_ok [OF sync_invD(2) [OF wait_down(3)] _ s(1)] pcs_sets(3) [OF wait_down(1)] s(2,3)
    by (intro condvar_step_inv [OF wait_down(3,1)]) simp_all
next
  case (timeout \<sigma> t c m late v r)
  have "t \<in> waiting \<sigma> c" using pcs_sets(3) [OF timeout(1)] by blast
  note t = timeout_ok [OF sync_invD(2) [OF timeout(3)] this timeout(2)]
  show ?case by (rule condvar_step_inv [OF timeout(3,1) t])
qed

lemma sync_reach_inv:
  assumes "sync_start count \<sigma>" "sync_reach S \<sigma> \<tau>"
  shows "sync_inv count \<tau>"
  using assms(2,1) by induction (auto intro: sync_start_inv sync_step_inv)

subsection \<open>Accounting of wake-ups\<close>

lemma waiting_set_condvar [simp]: "waiting (set_condvar c v \<sigma>) d = waiting \<sigma> d"
  by (simp add: waiting_def set_condvar_def)

lemma waiting_after_acquire [simp]: "waiting (after_acquire t m r \<sigma>) c = waiting \<sigma> c - {t}"
  by (auto simp: waiting_def after_acquire_def split: if_splits)

lemma condvars_simps [simp]:
  "condvars (after_acquire t m r \<sigma>) = condvars \<sigma>" "condvars (set_condvar c v \<sigma>) = (condvars \<sigma>)(c := v)"
  by (simp_all add: after_acquire_def set_condvar_def)

lemma signal_count:
  "condvar_ok count v ws \<Longrightarrow>
     count (cv_sem (condvar_signal S v)) = (if count (cv_sem v) < card ws then Suc (count (cv_sem v)) else count (cv_sem v))"
  by (auto simp: condvar_ok_def condvar_signal_def Up)

lemma broadcast_count: "condvar_ok count v ws \<Longrightarrow> count (cv_sem (condvar_broadcast S v)) = card ws"
  by (auto simp: condvar_ok_def condvar_broadcast_def count_up_times)

lemma timeout_count:
  "condvar_timeout S v m = (late, v', r) \<Longrightarrow>
     late = (count (cv_sem v) = 0) \<and> count (cv_sem v') = count (cv_sem v) - 1"
  using TryDown [of "cv_sem v"] by (auto simp: condvar_timeout_def split: prod.splits if_splits)

lemma sync_step_account:
  assumes "sync_step S \<sigma> ev \<tau>" "sync_inv count \<sigma>"
  shows "(waiting \<tau> c, count (cv_sem (condvars \<tau> c))) = cv_account c ev (waiting \<sigma> c, count (cv_sem (condvars \<sigma> c)))"
  using assms
proof (induction rule: sync_step.induct)
  case (lock \<sigma> t m)
  then show ?case using pcs_sets(1) [OF lock(1)] by simp
next
  case (lock_down \<sigma> t m x)
  then show ?case using pcs_sets(2) [OF lock_down(1)] by simp
next
  case (trylock \<sigma> t m b x)
  then show ?case by (simp add: waiting_def)
next
  case (unlock \<sigma> t m)
  then show ?case by (simp add: waiting_def)
next
  case (signal \<sigma> t d)
  then show ?case using signal_count [OF sync_invD(2) [OF signal(2)]] by simp
next
  case (broadcast \<sigma> t d)
  then show ?case using broadcast_count [OF sync_invD(2) [OF broadcast(2)]] by simp
next
  case (wait \<sigma> t m d v x timed)
  then show ?case by (auto simp: waiting_def condvar_wait_begin_def)
next
  case (wait_down \<sigma> t d m timed v r)
  then obtain s where "sem_Down S (cv_sem (condvars \<sigma> d)) = Some s" "v = (condvars \<sigma> d)\<lparr>cv_sem := s\<rparr>"
    by (auto simp: condvar_wait_end_def)
  then show ?case using Down_takes pcs_sets(3) [OF wait_down(1)] by fastforce
next
  case (timeout \<sigma> t d m late v r)
  then show ?case using timeout_count [OF timeout(2)] pcs_sets(3) [OF timeout(1)] by auto
qed

lemma sync_history_account:
  assumes "sync_start count \<sigma>" "sync_history S \<sigma> evs \<tau>"
  shows "(waiting \<tau> c, count (cv_sem (condvars \<tau> c))) = fold (cv_account c) evs ({}, 0)"
  using assms(2,1)
proof (induction rule: sync_history.induct)
  case (start \<sigma>)
  then show ?case by (simp add: sync_start_def waiting_def)
next
  case (more \<sigma> evs \<tau> ev \<rho>)
  then have "sync_inv count \<tau>" by (blast intro: sync_reach_inv sync_history_reach)
  from sync_step_account [OF more.hyps(2) this] more show ?case by simp
qed

lemma woken_step:
  assumes "sync_inv count \<tau>" "t \<in> waiting \<tau> c"
  shows "(\<exists>\<rho>. sync_step S \<tau> (Woken t c) \<rho>) \<longleftrightarrow> 0 < count (cv_sem (condvars \<tau> c))"
proof
  assume "0 < count (cv_sem (condvars \<tau> c))"
  then obtain s where s: "sem_Down S (cv_sem (condvars \<tau> c)) = Some s" using Down_blocks by fastforce
  obtain m b where pc: "pcs \<tau> t = InWait c m b" using assms(2) by (auto simp: waiting_def)
  have "condvar_wait_end S (condvars \<tau> c) (mutexes \<tau> m) = Some ((condvars \<tau> c)\<lparr>cv_sem := s\<rparr>, Acquire (mutexes \<tau> m))"
    using s by (simp add: condvar_wait_end_def)
  from sync_step.wait_down [OF pc this] show "\<exists>\<rho>. sync_step S \<tau> (Woken t c) \<rho>" by blast
next
  assume "\<exists>\<rho>. sync_step S \<tau> (Woken t c) \<rho>"
  then obtain \<rho> where "sync_step S \<tau> (Woken t c) \<rho>" ..
  then show "0 < count (cv_sem (condvars \<tau> c))"
  proof (cases rule: sync_step.cases)
    case (wait_down m timed v r)
    then have "sem_Down S (cv_sem (condvars \<tau> c)) \<noteq> None" by (auto simp: condvar_wait_end_def)
    then show ?thesis by (simp add: Down_blocks)
  next
    case (timeout u d m late v r)
    then show ?thesis using timeout_count [OF timeout(4)] by (auto split: if_splits)
  qed
qed

lemma timed_out_step:
  "sync_step S \<tau> (Timed_Out t c) \<rho> \<Longrightarrow> count (cv_sem (condvars \<tau> c)) = 0"
  by (cases rule: sync_step.cases, assumption) (use timeout_count in \<open>auto split: if_splits\<close>)

end

subsection \<open>Properties\<close>

lemma card_le_one_eq: "finite A \<Longrightarrow> card A \<le> 1 \<Longrightarrow> a \<in> A \<Longrightarrow> b \<in> A \<Longrightarrow> a = b"
  by (metis card_le_Suc0_iff_eq One_nat_def)

text \<open>
  C19. Mutual exclusion: whatever the tasks do with any number of mutexes and condition variables,
  in any interleaving, timed waits included, no two tasks own the same mutex, and a mutex has an
  owner or an ownership in transfer exactly while \<open>m_locked\<close> is set.
\<close>

theorem mutex_exclusion:
  assumes "counting_semaphore S count" "sync_start count \<sigma>" "sync_reach S \<sigma> \<tau>"
    "(t, m) \<in> owned \<tau>" "(u, m) \<in> owned \<tau>"
  shows "t = u \<and> m_locked (mutexes \<tau> m)"
proof -
  have ok: "mutex_ok count (mutexes \<tau> m) (owners \<tau> m) (blocked \<tau> m)"
    using counting_semaphore.sync_reach_inv [OF assms(1-3)] by (simp add: sync_inv_def)
  then have f: "finite (owners \<tau> m)" "card (owners \<tau> m) \<le> (if m_locked (mutexes \<tau> m) then 1 else 0)"
    unfolding mutex_ok_def by linarith+
  have tu: "t \<in> owners \<tau> m" "u \<in> owners \<tau> m" using assms(4,5) by (simp_all add: owners_def)
  then have "0 < card (owners \<tau> m)" using f(1) card_gt_0_iff by blast
  then have "m_locked (mutexes \<tau> m)" using f(2) by (cases "m_locked (mutexes \<tau> m)") simp_all
  moreover have "t = u" using card_le_one_eq [OF f(1) _ tu] f(2) \<open>m_locked (mutexes \<tau> m)\<close> by simp
  ultimately show ?thesis by blast
qed

text \<open>
  No lost hand-over: in every reachable state, if a task is blocked in \<open>Acquire\<close> of a mutex
  that nobody owns, then the semaphore of the mutex lets every such task pass; so some blocked task
  can always proceed once the owner has released the mutex.
\<close>

theorem mutex_hand_over:
  assumes "counting_semaphore S count" "sync_start count \<sigma>" "sync_reach S \<sigma> \<tau>"
    "pcs \<tau> t = InAcquire m" "\<forall>u. (u, m) \<notin> owned \<tau>"
  shows "\<exists>\<rho>. sync_step S \<tau> On_Mutex \<rho> \<and> pcs \<rho> t = Running \<and> (t, m) \<in> owned \<rho>"
proof -
  have ok: "mutex_ok count (mutexes \<tau> m) (owners \<tau> m) (blocked \<tau> m)"
    using counting_semaphore.sync_reach_inv [OF assms(1-3)] by (simp add: sync_inv_def)
  have "owners \<tau> m = {}" using assms(5) by (simp add: owners_def)
  moreover have "0 < card (blocked \<tau> m)"
    using assms(4) ok by (auto simp: card_gt_0_iff mutex_ok_def blocked_def)
  ultimately have "0 < count (m_sem (mutexes \<tau> m))"
    using ok by (cases "m_locked (mutexes \<tau> m)") (auto simp: mutex_ok_def)
  then obtain s where "sem_Down S (m_sem (mutexes \<tau> m)) = Some s"
    using counting_semaphore.Down_blocks [OF assms(1)] by fastforce
  then have "Acquire_down S (mutexes \<tau> m) = Some ((mutexes \<tau> m)\<lparr>m_sem := s\<rparr>)" by (simp add: Acquire_down_def)
  from sync_step.lock_down [OF assms(4) this] show ?thesis by (auto simp: after_acquire_def)
qed

text \<open>
  C20. Condition variables neither lose nor invent wake-ups. After any run of any tasks, with \<open>evs\<close> what
  they did, the tasks inside a wait are exactly those of the account of \<open>evs\<close>, and the
  semaphore holds exactly the wake-ups granted by signals and broadcasts and not yet used: each signal
  grants one more as long as a waiting task has none, also while others are pending, and none
  is kept for a later wait. A waiting task can return with code 0 exactly if one is pending, and
  with \<open>ETIMEDOUT\<close> only if none is.
\<close>

theorem condvar_wakeups:
  assumes "counting_semaphore S count" "sync_start count \<sigma>" "sync_history S \<sigma> evs \<tau>"
    "fold (cv_account c) evs ({}, 0) = (ws, n)"
  shows "waiting \<tau> c = ws \<and> count (cv_sem (condvars \<tau> c)) = n \<and> n \<le> card ws \<and>
     (t \<in> ws \<longrightarrow> (\<exists>\<rho>. sync_step S \<tau> (Woken t c) \<rho>) = (0 < n)) \<and>
     ((\<exists>\<rho>. sync_step S \<tau> (Timed_Out t c) \<rho>) \<longrightarrow> n = 0)"
proof -
  have eq: "waiting \<tau> c = ws" "count (cv_sem (condvars \<tau> c)) = n"
    using counting_semaphore.sync_history_account [OF assms(1-3), of c] assms(4) by simp_all
  have inv: "sync_inv count \<tau>"
    by (rule counting_semaphore.sync_reach_inv [OF assms(1,2) sync_history_reach [OF assms(3)]])
  then have "int (card ws) = cv_waiters (condvars \<tau> c) + int n" "0 \<le> cv_waiters (condvars \<tau> c)"
    using eq by (auto simp: sync_inv_def condvar_ok_def)
  then have "n \<le> card ws" by linarith
  then show ?thesis
    using eq counting_semaphore.woken_step [OF assms(1) inv, of t c] counting_semaphore.timed_out_step [OF assms(1), of \<tau> t c]
    by auto
qed

text \<open>A run of two tasks: the second blocks on the mutex, the first waits, signals wake it.\<close>

definition sync0 :: "nat sync_state" where
  "sync0 = \<lparr>mutexes = (\<lambda>_. \<lparr>m_locked = False, m_waiters = 0, m_sem = 0\<rparr>),
     condvars = (\<lambda>_. \<lparr>cv_sem = 0, cv_waiters = 0\<rparr>), pcs = (\<lambda>_. Running), owned = {}\<rparr>"

lemma sync0_start: "sync_start id sync0"
  by (simp add: sync_start_def sync0_def)

definition sync1 :: "nat sync_state" where
  "sync1 = after_acquire 1 0 (Acquire (mutexes sync0 0)) sync0"

definition sync2 :: "nat sync_state" where
  "sync2 = after_acquire 2 0 (Acquire (mutexes sync1 0)) sync1"

definition sync3 :: "nat sync_state" where
  "sync3 = sync2\<lparr>mutexes := (mutexes sync2)(0 := Release nat_sem (mutexes sync2 0)), owned := owned sync2 - {(1, 0)}\<rparr>"

lemma sync_run: "sync_reach nat_sem sync0 sync1" "sync_reach nat_sem sync0 sync2" "sync_reach nat_sem sync0 sync3"
proof -
  show 1: "sync_reach nat_sem sync0 sync1"
    unfolding sync1_def by (rule sync_reach.more [OF sync_reach.start sync_step.lock]) (simp add: sync0_def)
  show 2: "sync_reach nat_sem sync0 sync2"
    unfolding sync2_def
    by (rule sync_reach.more [OF 1 sync_step.lock]) (simp add: sync1_def after_acquire_def sync0_def Acquire_def)
  show "sync_reach nat_sem sync0 sync3"
    unfolding sync3_def
    by (rule sync_reach.more [OF 2 sync_step.unlock])
      (simp_all add: sync2_def sync1_def after_acquire_def sync0_def Acquire_def)
qed

theorem mutex_exclusion_witness: "(1, 0) \<in> owned sync2 \<and> m_locked (mutexes sync2 0)"
proof -
  have o: "(1, 0) \<in> owned sync2"
    by (simp add: sync2_def sync1_def after_acquire_def sync0_def Acquire_def)
  from mutex_exclusion [OF nat_sem.counting_semaphore_axioms sync0_start sync_run(2) o o] o show ?thesis by blast
qed

theorem mutex_hand_over_witness: "\<exists>\<rho>. sync_step nat_sem sync3 On_Mutex \<rho> \<and> pcs \<rho> 2 = Running \<and> (2, 0) \<in> owned \<rho>"
proof -
  have "pcs sync3 2 = InAcquire 0" "\<forall>u. (u, 0) \<notin> owned sync3"
    by (auto simp: sync3_def sync2_def sync1_def after_acquire_def sync0_def Acquire_def)
  then show ?thesis
    by (rule mutex_hand_over [OF nat_sem.counting_semaphore_axioms sync0_start sync_run(3)])
qed

text \<open>
  A run with a pending wake-up: two tasks wait, a third signals twice before either of them runs.
\<close>

definition sync_waits :: "nat sync_state" where
  "sync_waits = \<lparr>mutexes = (\<lambda>_. \<lparr>m_locked = False, m_waiters = 0, m_sem = 0\<rparr>),
     condvars = (\<lambda>_. \<lparr>cv_sem = 0, cv_waiters = 0\<rparr>)(0 := \<lparr>cv_sem = 0, cv_waiters = 2\<rparr>),
     pcs = (\<lambda>_. Running)(1 := InWait 0 0 False, 2 := InWait 0 0 True), owned = {}\<rparr>"

definition sync_signalled :: "nat sync_state" where
  "sync_signalled = set_condvar 0 \<lparr>cv_sem = 2, cv_waiters = 0\<rparr> sync_waits"

definition sync_log :: "sync_event list" where
  "sync_log = [On_Mutex, Wait 1 0, On_Mutex, Wait 2 0, Signal 0, Signal 0]"

lemma const_upd: "(\<lambda>_. a)(x := a) = (\<lambda>_. a)"
  by auto

lemma sync_log_run: "sync_history nat_sem sync0 sync_log sync_signalled"
proof -
  let ?w = "sync1\<lparr>mutexes := mutexes sync0, condvars := (condvars sync0)(0 := \<lparr>cv_sem = 0, cv_waiters = 1\<rparr>),
    pcs := (\<lambda>_. Running)(1 := InWait 0 0 False), owned := {}\<rparr>"
  let ?l = "after_acquire 2 0 (Acquire (mutexes ?w 0)) ?w"
  let ?s = "set_condvar 0 \<lparr>cv_sem = 1, cv_waiters = 1\<rparr> sync_waits"
  note defs = sync1_def sync0_def sync_waits_def sync_signalled_def after_acquire_def set_condvar_def Acquire_def
    Release_def condvar_wait_begin_def condvar_signal_def nat_sem_def const_upd
  have h: "sync_history nat_sem sync0 ([] @ [On_Mutex]) sync1"
    unfolding sync1_def by (intro sync_history.more [OF sync_history.start] sync_step.lock) (simp add: sync0_def)
  have s1: "sync_step nat_sem sync1 (Wait 1 0) ?w"
    using sync_step.wait [of sync1 1 0 nat_sem 0 _ _ False] by (simp add: defs)
  have s2: "sync_step nat_sem ?w On_Mutex ?l"
    by (rule sync_step.lock) simp
  have s3: "sync_step nat_sem ?l (Wait 2 0) sync_waits"
    using sync_step.wait [of ?l 2 0 nat_sem 0 _ _ True] by (simp add: defs)
  have s4: "sync_step nat_sem sync_waits (Signal 0) ?s"
    using sync_step.signal [of sync_waits 3 nat_sem 0] by (simp add: defs)
  have s5: "sync_step nat_sem ?s (Signal 0) sync_signalled"
    using sync_step.signal [of ?s 3 nat_sem 0] by (simp add: defs numeral_2_eq_2)
  from sync_history.more [OF sync_history.more [OF sync_history.more [OF sync_history.more [OF sync_history.more
    [OF h s1] s2] s3] s4] s5] show ?thesis by (simp add: sync_log_def)
qed

theorem condvar_wakeups_witness:
  "waiting sync_signalled 0 = {1, 2} \<and> id (cv_sem (condvars sync_signalled 0)) = 2 \<and>
     (\<exists>\<rho>. sync_step nat_sem sync_signalled (Woken 1 0) \<rho>)"
proof -
  have "fold (cv_account 0) sync_log ({}, 0) = ({2, 1}, 2)" by (simp add: sync_log_def)
  from condvar_wakeups [OF nat_sem.counting_semaphore_axioms sync0_start sync_log_run this, of 1]
  show ?thesis by auto
qed

end
