(* ===== verification/Cxx_Thread.thy ===== *)
theory Cxx_Thread
  imports Cxx_Sync
begin

text \<open>
  Threads, thread-local storage and one-time execution of the C++ threading layer
  (\<open>libs/libcxx-threading/src/thread.cpp\<close>).

  A \<open>JoinHandle\<close> is a heap cell, \<open>None\<close> once it is deleted; an operation on a deleted cell
  fails (\<open>None\<close>). The thread function, the destructors and the initialisation routine are
  arbitrary. Tasks of the scheduler are numbers.
\<close>

subsection \<open>Join handles\<close>

record join_handle =
  jh_task :: "nat option"
  jh_id :: nat
  jh_detached :: bool
  jh_joined :: bool

definition thread_create :: "nat \<Rightarrow> join_handle" where
  "thread_create task = \<lparr>jh_task = Some task, jh_id = task, jh_detached = False, jh_joined = False\<rparr>"

definition thread_get_id :: "join_handle option \<Rightarrow> nat option" where
  "thread_get_id h = map_option jh_id h"

text \<open>The destructor of the task, called by the scheduler after the task has ended.\<close>

definition CLibCXXTask_delete :: "join_handle option \<Rightarrow> join_handle option option" where
  "CLibCXXTask_delete h =
     map_option (\<lambda>h. let h = h\<lparr>jh_task := None\<rparr>
                     in if jh_detached h \<or> jh_joined h then None else Some h) h"

text \<open>Whether the caller has to wait for the termination of the task, and the cell.\<close>

definition thread_join :: "join_handle option \<Rightarrow> (bool \<times> join_handle option) option" where
  "thread_join h =
     map_option (\<lambda>h. if jh_task h = None then (False, None) else (True, Some (h\<lparr>jh_joined := True\<rparr>))) h"

definition thread_detach :: "join_handle option \<Rightarrow> join_handle option option" where
  "thread_detach h =
     map_option (\<lambda>h. let h = h\<lparr>jh_detached := True\<rparr>
                     in if jh_task h = None then None else Some h) h"

text \<open>
  The life of a thread: its creator joins or detaches it once, its task ends once, in any order;
  a join of a running task returns after the end of the task.
\<close>

datatype creator = Attached | Joining | Joined | Detached

record thread_life =
  tl_cell :: "join_handle option"
  tl_creator :: creator
  tl_alive :: bool

datatype thread_event = TaskEnds | Join | JoinReturns | Detach

fun thread_event_enabled :: "thread_event \<Rightarrow> thread_life \<Rightarrow> bool" where
  "thread_event_enabled TaskEnds l \<longleftrightarrow> tl_alive l"
| "thread_event_enabled Join l \<longleftrightarrow> tl_creator l = Attached"
| "thread_event_enabled JoinReturns l \<longleftrightarrow> tl_creator l = Joining \<and> \<not> tl_alive l"
| "thread_event_enabled Detach l \<longleftrightarrow> tl_creator l = Attached"

fun thread_event_step :: "thread_event \<Rightarrow> thread_life \<Rightarrow> thread_life option" where
  "thread_event_step TaskEnds l =
     map_option (\<lambda>c. l\<lparr>tl_cell := c, tl_alive := False\<rparr>) (CLibCXXTask_delete (tl_cell l))"
| "thread_event_step Join l =
     map_option (\<lambda>(wait, c). l\<lparr>tl_cell := c, tl_creator := (if wait then Joining else Joined)\<rparr>)
       (thread_join (tl_cell l))"
| "thread_event_step JoinReturns l = Some (l\<lparr>tl_creator := Joined\<rparr>)"
| "thread_event_step Detach l =
     map_option (\<lambda>c. l\<lparr>tl_cell := c, tl_creator := Detached\<rparr>) (thread_detach (tl_cell l))"

definition thread_born :: "nat \<Rightarrow> thread_life" where
  "thread_born task = \<lparr>tl_cell = Some (thread_create task), tl_creator = Attached, tl_alive = True\<rparr>"

inductive thread_reach :: "nat \<Rightarrow> thread_life \<Rightarrow> bool" for task where
  "thread_reach task (thread_born task)"
| "thread_reach task l \<Longrightarrow> thread_event_enabled e l \<Longrightarrow> thread_event_step e l = Some l' \<Longrightarrow> thread_reach task l'"

definition thread_life_ok :: "nat \<Rightarrow> thread_life \<Rightarrow> bool" where
  "thread_life_ok task l \<longleftrightarrow>
     (case tl_cell l of
        None \<Rightarrow> tl_creator l \<noteq> Attached \<and> \<not> tl_alive l
      | Some h \<Rightarrow> (tl_creator l = Attached \<or> tl_alive l) \<and> jh_id h = task \<and>
          jh_task h = (if tl_alive l then Some task else None) \<and>
          (jh_detached h \<or> jh_joined h) = (tl_creator l \<noteq> Attached) \<and> tl_creator l \<noteq> Joined)"

lemma thread_event_ok:
  assumes "thread_life_ok task l" "thread_event_enabled e l"
  shows "\<exists>l'. thread_event_step e l = Some l' \<and> thread_life_ok task l'"
  using assms
  by (cases e; cases "tl_cell l")
    (auto simp: thread_life_ok_def CLibCXXTask_delete_def thread_join_def thread_detach_def Let_def split: if_splits)

lemma thread_reach_ok: "thread_reach task l \<Longrightarrow> thread_life_ok task l"
proof (induction rule: thread_reach.induct)
  case 1
  show ?case by (simp add: thread_life_ok_def thread_born_def thread_create_def)
next
  case (2 l e l')
  then show ?case using thread_event_ok by fastforce
qed

subsection \<open>One-time execution\<close>

text \<open>
  A call runs up to the initialisation routine, which may yield, or spins; \<open>once_enter\<close> is the
  body of the outer loop. The flag is 0 (not started), 1 (in progress) or 2 (done).
\<close>

datatype once_pc = OnceOutside | OnceInit | OnceSpin | OnceReturned | OnceThrown

record once_state =
  once_flag :: int
  once_pcs :: "nat \<Rightarrow> once_pc"
  once_completed :: nat

definition once_enter :: "int \<Rightarrow> int \<times> once_pc" where
  "once_enter flag =
     (if flag = 2 then (flag, OnceReturned)
      else if flag = 0 then (1, OnceInit)
      else (flag, OnceSpin))"

definition once_move :: "nat \<Rightarrow> int \<times> once_pc \<Rightarrow> once_state \<Rightarrow> once_state" where
  "once_move t r \<sigma> = \<sigma>\<lparr>once_flag := fst r, once_pcs := (once_pcs \<sigma>)(t := snd r)\<rparr>"

inductive once_step :: "once_state \<Rightarrow> once_state \<Rightarrow> bool" where
  enter: "once_pcs \<sigma> t \<in> {OnceOutside, OnceReturned, OnceThrown} \<Longrightarrow>
    once_step \<sigma> (once_move t (once_enter (once_flag \<sigma>)) \<sigma>)"
| init_returns: "once_pcs \<sigma> t = OnceInit \<Longrightarrow>
    once_step \<sigma> ((once_move t (2, OnceReturned) \<sigma>)\<lparr>once_completed := Suc (once_completed \<sigma>)\<rparr>)"
| init_throws: "once_pcs \<sigma> t = OnceInit \<Longrightarrow> once_step \<sigma> (once_move t (0, OnceThrown) \<sigma>)"
| spin_ends: "once_pcs \<sigma> t = OnceSpin \<Longrightarrow> once_flag \<sigma> \<noteq> 1 \<Longrightarrow>
    once_step \<sigma> (once_move t (once_enter (once_flag \<sigma>)) \<sigma>)"

definition once_start :: once_state where
  "once_start = \<lparr>once_flag = 0, once_pcs = (\<lambda>_. OnceOutside), once_completed = 0\<rparr>"

inductive once_reach :: "once_state \<Rightarrow> bool" where
  "once_reach once_start"
| "once_reach \<sigma> \<Longrightarrow> once_step \<sigma> \<tau> \<Longrightarrow> once_reach \<tau>"

definition once_ok :: "once_state \<Rightarrow> bool" where
  "once_ok \<sigma> \<longleftrightarrow> once_flag \<sigma> \<in> {0, 1, 2} \<and>
     (\<forall>t u. once_pcs \<sigma> t = OnceInit \<and> once_pcs \<sigma> u = OnceInit \<longrightarrow> t = u) \<and>
     ((\<exists>t. once_pcs \<sigma> t = OnceInit) \<longleftrightarrow> once_flag \<sigma> = 1) \<and>
     once_completed \<sigma> = (if once_flag \<sigma> = 2 then 1 else 0) \<and>
     (\<forall>t. once_pcs \<sigma> t = OnceReturned \<longrightarrow> once_flag \<sigma> = 2)"

lemma once_step_ok: "once_step \<sigma> \<tau> \<Longrightarrow> once_ok \<sigma> \<Longrightarrow> once_ok \<tau>"
proof (induction rule: once_step.induct)
  case (enter \<sigma> t)
  then have "once_pcs \<sigma> u = OnceInit \<Longrightarrow> u \<noteq> t" for u by auto
  with enter show ?case by (auto simp: once_ok_def once_move_def once_enter_def)
next
  case (init_returns \<sigma> t)
  then show ?case by (auto simp: once_ok_def once_move_def)
next
  case (init_throws \<sigma> t)
  then show ?case by (auto simp: once_ok_def once_move_def)
next
  case (spin_ends \<sigma> t)
  then show ?case by (auto simp: once_ok_def once_move_def once_enter_def)
qed

lemma once_reach_ok: "once_reach \<sigma> \<Longrightarrow> once_ok \<sigma>"
  by (induction rule: once_reach.induct) (auto intro: once_step_ok, simp add: once_ok_def once_start_def)

subsection \<open>Thread-local storage\<close>

definition MAX_TLS_KEYS :: nat where "MAX_TLS_KEYS = 32"

text \<open>The block a thread pointer refers to: thread control block, \<open>.tdata\<close> image, zeros.\<close>

definition TLS_TCB_SIZE :: "bool \<Rightarrow> nat" where
  "TLS_TCB_SIZE aarch64 = (if aarch64 then 16 else 8)"

definition alloc_tls_block :: "bool \<Rightarrow> u8 list \<Rightarrow> nat \<Rightarrow> u8 list option" where
  "alloc_tls_block aarch64 tdata span =
     (let block = replicate (TLS_TCB_SIZE aarch64 + span) 0
      in if length tdata > 0 then put_block block (TLS_TCB_SIZE aarch64) tdata else Some block)"

record 'f tls_keys =
  s_destructors :: "'f option list"
  s_next_key :: nat

definition tls_keys_start :: "'f tls_keys" where
  "tls_keys_start = \<lparr>s_destructors = replicate MAX_TLS_KEYS None, s_next_key = 0\<rparr>"

definition tls_create :: "'f option \<Rightarrow> 'f tls_keys \<Rightarrow> (nat \<times> 'f tls_keys) option" where
  "tls_create at_exit K = do {
     let k = s_next_key K;
     let K = K\<lparr>s_next_key := wrap32 (k + 1)\<rparr>;
     d \<leftarrow> put_at (s_destructors K) k at_exit;
     Some (k, K\<lparr>s_destructors := d\<rparr>)
   }"

text \<open>
  The slots of the current task, \<open>None\<close> if it has no \<open>TaskTLSData\<close>; a null value is
  \<open>None\<close>.
\<close>

type_synonym 'v tls_data = "'v option list option"

definition new_tls_data :: "'v option list" where
  "new_tls_data = replicate MAX_TLS_KEYS None"

definition tls_get :: "nat \<Rightarrow> 'v tls_data \<Rightarrow> 'v option option" where
  "tls_get key tls = (case tls of None \<Rightarrow> Some None | Some kv \<Rightarrow> get_at kv key)"

definition tls_set :: "nat \<Rightarrow> 'v option \<Rightarrow> 'v tls_data \<Rightarrow> 'v tls_data option" where
  "tls_set key p tls = (case tls of None \<Rightarrow> Some None | Some kv \<Rightarrow> map_option Some (put_at kv key p))"

text \<open>
  The end of \<open>Run\<close>: up to four passes over the keys, each calling the destructors of the
  values that are set. The destructor \<open>f\<close> of a key is called with the value and may set slots
  again (\<open>call\<close>). The state of a pass: the slots, the calls made, and whether there was one.
\<close>

definition PTHREAD_DESTRUCTOR_ITERATIONS :: nat where "PTHREAD_DESTRUCTOR_ITERATIONS = 4"

definition destroy_slot ::
  "('f \<Rightarrow> 'v \<Rightarrow> 'v option list \<Rightarrow> 'v option list) \<Rightarrow> 'f option list \<Rightarrow> nat \<Rightarrow>
     'v option list \<times> ('f \<times> 'v) list \<times> bool \<Rightarrow> ('v option list \<times> ('f \<times> 'v) list \<times> bool) option" where
  "destroy_slot call ds k st = (case st of (kv, calls, called) \<Rightarrow> do {
     v \<leftarrow> get_at kv k;
     f \<leftarrow> get_at ds k;
     case (v, f) of
       (Some v, Some f) \<Rightarrow> do {
         kv \<leftarrow> put_at kv k None;
         Some (call f v kv, calls @ [(f, v)], True)
       }
     | _ \<Rightarrow> Some (kv, calls, called)
   })"

fun destroy_pass ::
  "('f \<Rightarrow> 'v \<Rightarrow> 'v option list \<Rightarrow> 'v option list) \<Rightarrow> 'f option list \<Rightarrow> nat list \<Rightarrow>
     'v option list \<times> ('f \<times> 'v) list \<times> bool \<Rightarrow> ('v option list \<times> ('f \<times> 'v) list \<times> bool) option" where
  "destroy_pass call ds [] st = Some st"
| "destroy_pass call ds (k # ks) st = do { st \<leftarrow> destroy_slot call ds k st; destroy_pass call ds ks st }"

fun destroy_passes ::
  "('f \<Rightarrow> 'v \<Rightarrow> 'v option list \<Rightarrow> 'v option list) \<Rightarrow> 'f option list \<Rightarrow> nat \<Rightarrow> nat \<Rightarrow>
     'v option list \<times> ('f \<times> 'v) list \<Rightarrow> ('v option list \<times> ('f \<times> 'v) list) option" where
  "destroy_passes call ds n 0 (kv, calls) = Some (kv, calls)"
| "destroy_passes call ds n (Suc i) (kv, calls) = do {
     (kv, calls, called) \<leftarrow> destroy_pass call ds [0..<n] (kv, calls, False);
     if called then destroy_passes call ds n i (kv, calls) else Some (kv, calls)
   }"

definition run_destructors ::
  "('f \<Rightarrow> 'v \<Rightarrow> 'v option list \<Rightarrow> 'v option list) \<Rightarrow> 'f tls_keys \<Rightarrow> 'v tls_data \<Rightarrow> ('f \<times> 'v) list option" where
  "run_destructors call K tls =
     (case tls of None \<Rightarrow> Some []
      | Some kv \<Rightarrow> map_option snd (destroy_passes call (s_destructors K) (s_next_key K)
          PTHREAD_DESTRUCTOR_ITERATIONS (kv, [])))"

subsection \<open>Destructors of thread-local variables\<close>

text \<open>
  \<open>__cxa_thread_atexit\<close> keeps a linked list of destructor and object under one key; the list
  stands for the pointer to its first node. \<open>ok\<close> says whether the node could be allocated.
\<close>

type_synonym ('d, 'o) atexit_list = "('d \<times> 'o) list"

definition cxa_thread_atexit ::
  "nat \<Rightarrow> bool \<Rightarrow> 'd \<Rightarrow> 'o \<Rightarrow> ('d, 'o) atexit_list tls_data \<Rightarrow> (int \<times> ('d, 'o) atexit_list tls_data) option" where
  "cxa_thread_atexit key ok dtor obj tls =
     (if \<not> ok then Some (-1, tls)
      else do {
        head \<leftarrow> tls_get key tls;
        tls \<leftarrow> tls_set key (Some ((dtor, obj) # (case head of None \<Rightarrow> [] | Some l \<Rightarrow> l))) tls;
        Some (0, tls)
      })"

text \<open>The calls of \<open>cxa_thread_atexit_dtor\<close>, from the first node to the last.\<close>

fun cxa_thread_atexit_dtor :: "('d, 'o) atexit_list \<Rightarrow> ('d \<times> 'o) list" where
  "cxa_thread_atexit_dtor [] = []"
| "cxa_thread_atexit_dtor ((dtor, obj) # next) = (dtor, obj) # cxa_thread_atexit_dtor next"

fun register_all ::
  "nat \<Rightarrow> ('d \<times> 'o) list \<Rightarrow> ('d, 'o) atexit_list tls_data \<Rightarrow> ('d, 'o) atexit_list tls_data option" where
  "register_all key [] tls = Some tls"
| "register_all key ((d, x) # xs) tls = do {
     (_, tls) \<leftarrow> cxa_thread_atexit key True d x tls;
     register_all key xs tls
   }"

subsection \<open>Creating and running a thread\<close>

text \<open>
  The \<open>TaskTLSData\<close> of each task and its hardware thread pointer, which the scheduler saves and
  restores for it. The block stands for the pointer to it. \<open>tdata\<close> is the image of the section
  \<open>.tdata\<close> and \<open>span\<close> the size of \<open>.tdata\<close> and \<open>.tbss\<close> together.
\<close>

record 'v task_tls =
  tls_block :: "u8 list"
  tls_kv :: "'v option list"

record 'v thread_system =
  s_initialized :: bool
  user_data :: "nat \<Rightarrow> 'v task_tls option"
  thread_pointer :: "nat \<Rightarrow> u8 list option"

definition new_task_tls :: "bool \<Rightarrow> u8 list \<Rightarrow> nat \<Rightarrow> 'v task_tls option" where
  "new_task_tls aarch64 tdata span =
     map_option (\<lambda>b. \<lparr>tls_block = b, tls_kv = new_tls_data\<rparr>) (alloc_tls_block aarch64 tdata span)"

definition CLibCXXTask_new :: "bool \<Rightarrow> u8 list \<Rightarrow> nat \<Rightarrow> nat \<Rightarrow> 'v thread_system \<Rightarrow> 'v thread_system option" where
  "CLibCXXTask_new aarch64 tdata span task sys = do {
     tls \<leftarrow> new_task_tls aarch64 tdata span;
     Some (sys\<lparr>user_data := (user_data sys)(task \<mapsto> tls)\<rparr>)
   }"

text \<open>\<open>current\<close> is the calling task, the main task at the first call.\<close>

definition libcpp_thread_create ::
  "bool \<Rightarrow> u8 list \<Rightarrow> nat \<Rightarrow> nat \<Rightarrow> nat \<Rightarrow> 'v thread_system \<Rightarrow> (join_handle \<times> 'v thread_system) option" where
  "libcpp_thread_create aarch64 tdata span current task sys = do {
     sys \<leftarrow> (if \<not> s_initialized sys
             then do {
               tls \<leftarrow> new_task_tls aarch64 tdata span;
               Some (sys\<lparr>s_initialized := True, user_data := (user_data sys)(current \<mapsto> tls),
                 thread_pointer := (thread_pointer sys)(current \<mapsto> tls_block tls)\<rparr>)
             }
             else Some sys);
     sys \<leftarrow> CLibCXXTask_new aarch64 tdata span task sys;
     Some (thread_create task, sys)
   }"

text \<open>\<open>Run\<close> up to the call of the thread function, and after it: the destructor calls.\<close>

definition Run_begin :: "nat \<Rightarrow> 'v thread_system \<Rightarrow> 'v thread_system" where
  "Run_begin task sys =
     (case user_data sys task of
        None \<Rightarrow> sys
      | Some tls \<Rightarrow> sys\<lparr>thread_pointer := (thread_pointer sys)(task \<mapsto> tls_block tls)\<rparr>)"

definition Run_end ::
  "('f \<Rightarrow> 'v \<Rightarrow> 'v option list \<Rightarrow> 'v option list) \<Rightarrow> 'f tls_keys \<Rightarrow> nat \<Rightarrow> 'v thread_system \<Rightarrow>
     (('f \<times> 'v) list \<times> 'v thread_system) option" where
  "Run_end call K task sys = do {
     calls \<leftarrow> run_destructors call K (map_option tls_kv (user_data sys task));
     Some (calls, sys\<lparr>user_data := (user_data sys)(task := None)\<rparr>)
   }"

lemma alloc_tls_block_layout:
  assumes "length tdata \<le> span"
  shows "alloc_tls_block aarch64 tdata span =
     Some (replicate (TLS_TCB_SIZE aarch64) 0 @ tdata @ replicate (span - length tdata) 0)"
  using assms by (auto simp: alloc_tls_block_def Let_def put_block_def replicate_add)

text \<open>A new thread, and the main task after the first one, have a block and empty slots of their own.\<close>

lemma libcpp_thread_create_data:
  assumes "length tdata \<le> span" "current \<noteq> task"
  shows "\<exists>sys'. libcpp_thread_create aarch64 tdata span current task sys = Some (thread_create task, sys') \<and>
     s_initialized sys' \<and>
     user_data sys' task = Some \<lparr>tls_block = replicate (TLS_TCB_SIZE aarch64) 0 @ tdata @ replicate (span - length tdata) 0,
       tls_kv = new_tls_data\<rparr> \<and>
     (\<not> s_initialized sys \<longrightarrow> user_data sys' current = user_data sys' task) \<and>
     (s_initialized sys \<longrightarrow> user_data sys' current = user_data sys current)"
  using assms
  by (simp add: libcpp_thread_create_def CLibCXXTask_new_def new_task_tls_def alloc_tls_block_layout)

subsection \<open>Sleeping\<close>

datatype sched_call = SchedYield | SchedUsSleep u32

text \<open>\<open>count () / 1000\<close> truncates towards zero; the cast to \<open>unsigned\<close> keeps 32 bits.\<close>

definition thread_sleep_for :: "int \<Rightarrow> sched_call" where
  "thread_sleep_for ns =
     (let us = (if ns < 0 then - ((- ns) div 1000) else ns div 1000)
      in if us > 0 then SchedUsSleep (of_int us) else SchedYield)"

end
