(* ===== verification/Cxx_Thread_Props.thy ===== *)
theory Cxx_Thread_Props
  imports Cxx_Thread
begin

text \<open>
  The properties of threads: the join handle is freed exactly once, one-time execution, the order of
  thread-local destructors, and the time-outs that are cut to 32 bits.
\<close>

subsection \<open>Join handles and one-time execution\<close>

text \<open>
  C21. The join handle of a thread is deleted exactly once and never used after that. In every
  interleaving of the end of the task with the join or detach by its creator, every operation finds
  the handle allocated, and the handle is freed exactly when the task has ended and the creator has
  joined or detached: it is neither leaked nor deleted twice.
\<close>

theorem join_handle_lifecycle:
  assumes "thread_reach task l"
  shows "(thread_event_enabled e l \<longrightarrow> thread_event_step e l \<noteq> None) \<and>
     (tl_cell l = None \<longleftrightarrow> tl_creator l \<noteq> Attached \<and> \<not> tl_alive l)"
  using thread_event_ok [OF thread_reach_ok [OF assms], of e] thread_reach_ok [OF assms]
  by (auto simp: thread_life_ok_def split: option.splits)

theorem join_handle_lifecycle_witness:
  "\<exists>l. thread_event_step Join (thread_born 7) = Some l \<and> thread_event_step TaskEnds l \<noteq> None"
proof -
  have born: "thread_reach 7 (thread_born 7)" by (rule thread_reach.intros(1))
  have e: "thread_event_enabled Join (thread_born 7)" by (simp add: thread_born_def)
  obtain l where l: "thread_event_step Join (thread_born 7) = Some l"
    using join_handle_lifecycle [OF born, of Join] e by blast
  have r: "thread_reach 7 l" by (rule thread_reach.intros(2) [OF born e l])
  have "thread_event_enabled TaskEnds l"
    using l by (auto simp: thread_born_def thread_create_def thread_join_def)
  with join_handle_lifecycle [OF r, of TaskEnds] l show ?thesis by blast
qed

text \<open>
  C22. \<open>execute_once\<close> is what its name says, also when the initialisation routine yields or
  throws: at any time at most one task is inside the routine, the routine completes at most once, a
  call that has returned did so after the completion, and a task that spins does so only while
  another one is inside the routine, so that it goes on as soon as that one returns or throws.
\<close>

theorem execute_once_exactly_once:
  assumes "once_reach \<sigma>"
  shows "once_completed \<sigma> \<le> 1 \<and> (once_pcs \<sigma> t = OnceReturned \<longrightarrow> once_completed \<sigma> = 1) \<and>
     (once_pcs \<sigma> t = OnceInit \<and> once_pcs \<sigma> u = OnceInit \<longrightarrow> t = u) \<and>
     (once_pcs \<sigma> t = OnceSpin \<longrightarrow> (\<exists>v. once_pcs \<sigma> v = OnceInit) \<or>
        (\<exists>\<tau>. once_step \<sigma> \<tau> \<and> once_pcs \<tau> t \<noteq> OnceSpin))"
proof -
  have ok: "once_ok \<sigma>" by (rule once_reach_ok [OF assms])
  have "\<exists>\<tau>. once_step \<sigma> \<tau> \<and> once_pcs \<tau> t \<noteq> OnceSpin" if "once_pcs \<sigma> t = OnceSpin" "once_flag \<sigma> \<noteq> 1"
    using once_step.spin_ends [OF that] ok that(2) by (auto simp: once_move_def once_enter_def once_ok_def)
  with ok show ?thesis by (auto simp: once_ok_def)
qed

theorem execute_once_exactly_once_witness: "once_completed (once_move 1 (once_enter 0) once_start) \<le> 1"
proof -
  have "once_step once_start (once_move 1 (once_enter (once_flag once_start)) once_start)"
    by (rule once_step.enter) (simp add: once_start_def)
  then have "once_reach (once_move 1 (once_enter 0) once_start)"
    using once_reach.intros by (simp add: once_start_def)
  from execute_once_exactly_once [OF this] show ?thesis by blast
qed

subsection \<open>Thread-local variables\<close>

lemma destroy_pass_append:
  "destroy_pass call ds (ks @ js) st = destroy_pass call ds ks st \<bind> destroy_pass call ds js"
  by (induction ks arbitrary: st) (auto split: bind_splits)

lemma destroy_pass_unset:
  assumes "\<forall>k \<in> set ks. k < length kv \<and> k < length ds \<and> kv ! k = None"
  shows "destroy_pass call ds ks (kv, calls, called) = Some (kv, calls, called)"
  using assms by (induction ks) (auto simp: destroy_slot_def get_at_def)

lemma destroy_one_slot:
  assumes "k < n" "n \<le> length kv" "length ds = length kv" "ds ! k = Some f"
    and unset: "\<forall>j < n. kv ! j = None" and call: "call f v kv = kv"
  shows "destroy_passes call ds n PTHREAD_DESTRUCTOR_ITERATIONS (kv[k := Some v], []) = Some (kv, [(f, v)])"
proof -
  obtain m where "n = k + Suc m" using assms(1) less_iff_Suc_add by auto
  then have split: "[0..<n] = [0..<k] @ [k] @ [Suc k..<n]"
    using upt_add_eq_append [of 0 k "Suc m"] upt_conv_Cons [OF assms(1)] by simp
  have k: "k < length kv" using assms(1,2) by simp
  have kv: "(kv[k := Some v])[k := None] = kv" using unset assms(1) k by (metis list_update_id list_update_overwrite)
  have slot: "destroy_slot call ds k (kv[k := Some v], [], False) = Some (kv, [(f, v)], True)"
    using k assms(3,4) call kv by (simp add: destroy_slot_def get_at_def put_at_def)
  have p1: "destroy_pass call ds [0..<k] (kv[k := Some v], [], False) = Some (kv[k := Some v], [], False)"
    using unset assms k by (intro destroy_pass_unset) auto
  have p2: "destroy_pass call ds [Suc k..<n] (kv, [(f, v)], True) = Some (kv, [(f, v)], True)"
    using unset assms k by (intro destroy_pass_unset) auto
  have "destroy_pass call ds [0..<n] (kv[k := Some v], [], False) = Some (kv, [(f, v)], True)"
    unfolding split destroy_pass_append p1 by (simp add: slot p2)
  moreover have "destroy_pass call ds [0..<n] (kv, [(f, v)], False) = Some (kv, [(f, v)], False)"
    using unset assms by (intro destroy_pass_unset) auto
  ultimately show ?thesis by (simp add: PTHREAD_DESTRUCTOR_ITERATIONS_def numeral_eq_Suc)
qed

lemma register_all_list:
  assumes "k < length kv"
  shows "register_all k xs (Some (kv[k := Some l])) = Some (Some (kv[k := Some (rev xs @ l)]))"
  using assms
proof (induction xs arbitrary: l)
  case (Cons x xs)
  obtain d y where x: "x = (d, y)" by (cases x)
  have "cxa_thread_atexit k True d y (Some (kv[k := Some l])) = Some (0, Some (kv[k := Some ((d, y) # l)]))"
    using Cons.prems by (simp add: cxa_thread_atexit_def tls_get_def tls_set_def get_at_def put_at_def)
  with Cons.IH [OF Cons.prems, of "(d, y) # l"] x show ?case by simp
qed simp

lemma register_all_fresh:
  assumes "k < length kv" "kv ! k = None" "xs \<noteq> []"
  shows "register_all k xs (Some kv) = Some (Some (kv[k := Some (rev xs)]))"
proof -
  obtain d y ys where xs: "xs = (d, y) # ys" using assms(3) by (metis neq_Nil_conv surj_pair)
  have "cxa_thread_atexit k True d y (Some kv) = Some (0, Some (kv[k := Some [(d, y)]]))"
    using assms by (simp add: cxa_thread_atexit_def tls_get_def tls_set_def get_at_def put_at_def)
  with register_all_list [OF assms(1), of ys "[(d, y)]"] xs show ?thesis by simp
qed

lemma new_tls_data_simps [simp]:
  "length new_tls_data = MAX_TLS_KEYS" "j < MAX_TLS_KEYS \<Longrightarrow> new_tls_data ! j = None"
  by (simp_all add: new_tls_data_def)

lemma cxa_thread_atexit_dtor_all: "cxa_thread_atexit_dtor l = l"
  by (induction l rule: cxa_thread_atexit_dtor.induct) simp_all

text \<open>
  C23. Thread-local variables are destroyed in the reverse order of their construction, each once: if
  a new thread registers the destructors \<open>xs\<close> under the key that was created for them, then at
  the end of the thread the key's destructor is called once, and walks through \<open>xs\<close> backwards.
\<close>

theorem thread_locals_destroyed_lifo:
  assumes "tls_create (Some f) K0 = Some (key, K)" "length (s_destructors K0) = MAX_TLS_KEYS"
    "xs \<noteq> []" "register_all key xs (Some new_tls_data) = Some tls" "\<forall>v kv. call f v kv = kv"
  shows "\<exists>l. run_destructors call K tls = Some [(f, l)] \<and> cxa_thread_atexit_dtor l = rev xs"
proof -
  have k: "key < MAX_TLS_KEYS" "s_destructors K = (s_destructors K0)[key := Some f]" "s_next_key K = wrap32 (key + 1)"
    using assms(1,2) by (auto simp: tls_create_def Let_def res_simps)
  then have n: "s_next_key K = key + 1" by (simp add: MAX_TLS_KEYS_def)
  have tls: "tls = Some (new_tls_data[key := Some (rev xs)])"
    using register_all_fresh [of key new_tls_data xs] assms(3,4) k(1) by simp
  have "destroy_passes call (s_destructors K) (s_next_key K) PTHREAD_DESTRUCTOR_ITERATIONS
      (new_tls_data[key := Some (rev xs)], []) = Some (new_tls_data, [(f, rev xs)])"
    using k n assms(2,5) by (intro destroy_one_slot) auto
  then show ?thesis by (simp add: run_destructors_def tls cxa_thread_atexit_dtor_all)
qed

theorem thread_locals_destroyed_lifo_witness:
  "\<exists>l. run_destructors (\<lambda>_ _ kv. kv) \<lparr>s_destructors = (replicate MAX_TLS_KEYS None)[0 := Some ()], s_next_key = 1\<rparr>
       (Some (new_tls_data[0 := Some [((), 2), ((), 1 :: nat)]])) = Some [((), l)] \<and>
     cxa_thread_atexit_dtor l = rev [((), 1), ((), 2)]"
proof (rule thread_locals_destroyed_lifo [where ?K0.0 = tls_keys_start and key = 0])
  show "tls_create (Some ()) tls_keys_start =
      Some (0, \<lparr>s_destructors = (replicate MAX_TLS_KEYS None)[0 := Some ()], s_next_key = 1\<rparr>)"
    by (simp add: tls_create_def tls_keys_start_def put_at_def MAX_TLS_KEYS_def)
  show "register_all 0 [((), 1), ((), 2)] (Some new_tls_data) =
      Some (Some (new_tls_data[0 := Some [((), 2), ((), 1 :: nat)]]))"
    using register_all_fresh [of 0 new_tls_data "[((), 1), ((), 2 :: nat)]"] by (simp add: MAX_TLS_KEYS_def)
qed (simp_all add: tls_keys_start_def)

text \<open>The limits of the key-value layer: 32 keys, and none for a task without its own data.\<close>

lemma tls_create_overflows:
  assumes "length (s_destructors K) = MAX_TLS_KEYS"
  shows "tls_create d K = None \<longleftrightarrow> MAX_TLS_KEYS \<le> s_next_key K"
  using assms by (auto simp: tls_create_def Let_def put_at_def)

lemma atexit_lost_without_data: "cxa_thread_atexit key True d x None = Some (0, None)"
  by (simp add: cxa_thread_atexit_def tls_get_def tls_set_def)

subsection \<open>Time-outs\<close>

text \<open>
  Sleeping and timed waiting take the time modulo \<open>2 ^ 32\<close> microseconds: \<open>sleep_for\<close>
  passes the number of microseconds on with its low 32 bits only, and so does the timed wait of the
  condition variable, so both are right exactly for times below 71.6 minutes; a longer sleep ends
  early.
\<close>

theorem thread_times_truncated:
  assumes "1000 \<le> ns"
  shows "(\<exists>w. thread_sleep_for ns = SchedUsSleep w \<and> uint w = (ns div 1000) mod 2 ^ 32 \<and>
       (uint w = ns div 1000 \<longleftrightarrow> ns < 2 ^ 32 * 1000)) \<and>
     uint (condvar_timeout_us (timespec_diff_us s n now_s now_us)) = timespec_diff_us s n now_s now_us mod 2 ^ 32"
proof -
  have "0 \<le> timespec_diff_us s n now_s now_us" by (simp add: timespec_diff_us_def Let_def)
  then have "uint (condvar_timeout_us (timespec_diff_us s n now_s now_us)) = timespec_diff_us s n now_s now_us mod 2 ^ 32"
    by (simp add: condvar_timeout_us_def unsigned_of_int take_bit_eq_mod)
  moreover have "thread_sleep_for ns = SchedUsSleep (of_int (ns div 1000))"
    using assms by (simp add: thread_sleep_for_def Let_def)
  moreover have "uint (of_int (ns div 1000) :: u32) = (ns div 1000) mod 2 ^ 32"
    by (simp add: unsigned_of_int take_bit_eq_mod)
  moreover have "(ns div 1000) mod 2 ^ 32 = ns div 1000 \<longleftrightarrow> ns < 2 ^ 32 * 1000"
  proof (cases "ns < 2 ^ 32 * 1000")
    case True
    with assms show ?thesis by simp
  next
    case False
    then have "2 ^ 32 \<le> ns div 1000" by simp
    moreover have "(ns div 1000) mod 2 ^ 32 < 2 ^ 32" by simp
    ultimately show ?thesis using False by linarith
  qed
  ultimately show ?thesis by auto
qed

theorem thread_times_truncated_witness: "\<exists>w. thread_sleep_for 4294967296000 = SchedUsSleep w \<and> uint w = 0"
  using thread_times_truncated [of 4294967296000 0 0 0 0] by auto

end
