(* ===== verification/Adapted_Socket.thy ===== *)
theory Adapted_Socket
  imports C_Strings
begin

text \<open>
  The sockets that mbed TLS works on: \<open>CAdaptedSocket\<close>
  (\<open>src/circle-mbedtls/adaptedsocket.cpp\<close>) with its table of handles, and the network
  functions of mbed TLS implemented on it (\<open>net_sockets.cpp\<close>).

  Parameters are the class \<open>CSocket\<close> and the services of Circle it is used with (record
  \<open>sock_env\<close>), the pointer array \<open>CPtrArray\<close> (record \<open>ptr_array_ops\<close>), and
  the numbers of the error codes of mbed TLS. Objects live in a heap from addresses to records; an
  access to a deleted object fails (\<open>None\<close>), like a failed assertion.
\<close>

subsection \<open>Pointer arrays\<close>

record 'l ptr_array_ops =
  pa_GetCount :: "'l \<Rightarrow> nat"
  pa_At :: "'l \<Rightarrow> nat \<Rightarrow> nat option"
  pa_Set :: "'l \<Rightarrow> nat \<Rightarrow> nat option \<Rightarrow> 'l"
  pa_Append :: "'l \<Rightarrow> nat option \<Rightarrow> nat \<times> 'l"

locale ptr_array =
  fixes A :: "'l ptr_array_ops" and entries :: "'l \<Rightarrow> nat option list"
  assumes GetCount: "pa_GetCount A a = length (entries a)"
    and At: "i < length (entries a) \<Longrightarrow> pa_At A a i = entries a ! i"
    and Set: "i < length (entries a) \<Longrightarrow> entries (pa_Set A a i p) = (entries a)[i := p]"
    and Append: "fst (pa_Append A a p) = length (entries a)" "entries (snd (pa_Append A a p)) = entries a @ [p]"

definition list_array :: "nat option list ptr_array_ops" where
  "list_array = \<lparr>pa_GetCount = length, pa_At = (\<lambda>l i. l ! i), pa_Set = list_update,
     pa_Append = (\<lambda>l p. (length l, l @ [p]))\<rparr>"

interpretation list_array: ptr_array list_array id
  by unfold_locales (simp_all add: list_array_def)

subsection \<open>Environment\<close>

record mbed_codes =
  ERR_NET_SOCKET_FAILED :: int
  ERR_NET_CONNECT_FAILED :: int
  ERR_NET_BIND_FAILED :: int
  ERR_NET_ACCEPT_FAILED :: int
  ERR_NET_SEND_FAILED :: int
  ERR_NET_UNKNOWN_HOST :: int
  ERR_NET_BUFFER_TOO_SMALL :: int
  ERR_NET_INVALID_CONTEXT :: int
  ERR_SSL_WANT_READ :: int
  ERR_SSL_TIMEOUT :: int
  ERR_SSL_ALLOC_FAILED :: int
  NET_PROTO_TCP :: int
  NET_LISTEN_BACKLOG :: nat

text \<open>
  \<open>obj_new\<close> says whether an object of \<open>CAdaptedSocket\<close> can be allocated;
  \<open>msec_hz\<close> is the macro \<open>MSEC2HZ\<close>. \<open>sizeof_ip_size\<close> is
  \<open>sizeof (IP_ADDRESS_SIZE)\<close>, the size of the type of that constant.
\<close>

record ('w, 'c, 'l) sock_env = mbed_codes +
  array_ops :: "'l ptr_array_ops"
  frame_size :: nat
  ip_size :: nat
  sizeof_ip_size :: nat
  proto_tcp :: int
  cs_new :: "int \<Rightarrow> 'w \<Rightarrow> 'c \<times> 'w"
  cs_delete :: "'c \<Rightarrow> 'w \<Rightarrow> 'w"
  cs_Connect :: "'c \<Rightarrow> u8 list \<Rightarrow> u16 \<Rightarrow> 'w \<Rightarrow> int \<times> 'w"
  cs_Bind :: "'c \<Rightarrow> u16 \<Rightarrow> 'w \<Rightarrow> int \<times> 'w"
  cs_Listen :: "'c \<Rightarrow> nat \<Rightarrow> 'w \<Rightarrow> int \<times> 'w"
  cs_Accept :: "'c \<Rightarrow> 'w \<Rightarrow> ('c \<times> u8 list) option \<times> 'w"
  cs_Receive :: "'c \<Rightarrow> nat \<Rightarrow> bool \<Rightarrow> 'w \<Rightarrow> (int \<times> u8 list) \<times> 'w"
  cs_Send :: "'c \<Rightarrow> u8 list \<Rightarrow> 'w \<Rightarrow> int \<times> 'w"
  cs_GetForeignIP :: "'c \<Rightarrow> 'w \<Rightarrow> u8 list option"
  net_Resolve :: "cstring \<Rightarrow> 'w \<Rightarrow> u8 list option \<times> 'w"
  obj_new :: "'w \<Rightarrow> bool \<times> 'w"
  sched_Yield :: "'w \<Rightarrow> 'w"
  sched_usSleep :: "nat \<Rightarrow> 'w \<Rightarrow> 'w"
  timer_Ticks :: "'w \<Rightarrow> u32 \<times> 'w"
  msec_hz :: "u32 \<Rightarrow> u32"

record 'c adapted_socket =
  as_Socket :: 'c
  as_Handle :: int
  as_RxBuffer :: "u8 list"
  as_RxBytesValid :: nat
  as_RxBytesUsed :: nat
  as_Block :: bool

record ('c, 'l) socket_heap =
  sh_objects :: "nat \<Rightarrow> 'c adapted_socket option"
  sh_next :: nat
  s_SocketArray :: 'l

subsection \<open>The table of handles\<close>

text \<open>
  The subscript operator of \<open>CPtrArray\<close> asserts that the index is below the number of entries, in
  \<open>DeleteSocket\<close> and \<open>GetSocket\<close> (\<open>CAdaptedSocket::Get\<close>); the search in \<open>AddSocket\<close> stays below it.
\<close>

function free_slot :: "'l ptr_array_ops \<Rightarrow> 'l \<Rightarrow> nat \<Rightarrow> nat option" where
  "free_slot A a i =
     (if i < pa_GetCount A a
      then if pa_At A a i = None then Some i else free_slot A a (i + 1)
      else None)"
  by pat_completeness auto
termination by (relation "measure (\<lambda>(A, a, i). pa_GetCount A a - i)") auto

declare free_slot.simps [simp del]

definition AddSocket :: "'l ptr_array_ops \<Rightarrow> nat \<Rightarrow> 'l \<Rightarrow> nat \<times> 'l" where
  "AddSocket A p a =
     (case free_slot A a 0 of
        Some i \<Rightarrow> (i, pa_Set A a i (Some p))
      | None \<Rightarrow> pa_Append A a (Some p))"

definition DeleteSocket :: "'l ptr_array_ops \<Rightarrow> int \<Rightarrow> 'l \<Rightarrow> 'l option" where
  "DeleteSocket A nHandle a = do {
     assert (nHandle \<ge> 0);
     assert (nat nHandle < pa_GetCount A a);
     Some (pa_Set A a (nat nHandle) None)
   }"

definition GetSocket :: "'l ptr_array_ops \<Rightarrow> int \<Rightarrow> 'l \<Rightarrow> nat option option" where
  "GetSocket A nHandle a =
     (if nHandle < 0 then Some None
      else do {
        assert (nat nHandle < pa_GetCount A a);
        Some (pa_At A a (nat nHandle))
      })"

subsection \<open>Objects\<close>

text \<open>The two constructors; the receive buffer starts with what the memory held.\<close>

definition construct ::
  "('w, 'c, 'l, 'x) sock_env_scheme \<Rightarrow> u8 list \<Rightarrow> 'c \<Rightarrow> ('c, 'l) socket_heap \<Rightarrow> nat \<times> ('c, 'l) socket_heap" where
  "construct E mem csock h =
     (let this = sh_next h;
          (nHandle, a) = AddSocket (array_ops E) this (s_SocketArray h)
      in (this, \<lparr>sh_objects = (sh_objects h)(this \<mapsto> \<lparr>as_Socket = csock, as_Handle = int nHandle,
                   as_RxBuffer = mem, as_RxBytesValid = 0, as_RxBytesUsed = 0, as_Block = True\<rparr>),
                 sh_next = Suc this, s_SocketArray = a\<rparr>))"

definition CAdaptedSocket_new ::
  "('w, 'c, 'l, 'x) sock_env_scheme \<Rightarrow> u8 list \<Rightarrow> int \<Rightarrow> ('c, 'l) socket_heap \<Rightarrow> 'w \<Rightarrow>
     (nat \<times> ('c, 'l) socket_heap \<times> 'w) option" where
  "CAdaptedSocket_new E mem nProtocol h w = do {
     let (csock, w) = cs_new E nProtocol w;
     let (this, h) = construct E mem csock h;
     assert (nProtocol = proto_tcp E);
     Some (this, h, w)
   }"

definition CAdaptedSocket_delete ::
  "('w, 'c, 'l, 'x) sock_env_scheme \<Rightarrow> nat \<Rightarrow> ('c, 'l) socket_heap \<Rightarrow> 'w \<Rightarrow>
     (('c, 'l) socket_heap \<times> 'w) option" where
  "CAdaptedSocket_delete E this h w = do {
     s \<leftarrow> sh_objects h this;
     a \<leftarrow> DeleteSocket (array_ops E) (as_Handle s) (s_SocketArray h);
     Some (h\<lparr>s_SocketArray := a, sh_objects := (sh_objects h)(this := None)\<rparr>, cs_delete E (as_Socket s) w)
   }"

definition GetHandle :: "nat \<Rightarrow> ('c, 'l) socket_heap \<Rightarrow> int option" where
  "GetHandle this h = do { s \<leftarrow> sh_objects h this; assert (as_Handle s \<ge> 0); Some (as_Handle s) }"

definition GetForeignIP ::
  "('w, 'c, 'l, 'x) sock_env_scheme \<Rightarrow> nat \<Rightarrow> ('c, 'l) socket_heap \<Rightarrow> 'w \<Rightarrow> u8 list option option" where
  "GetForeignIP E this h w = do { s \<leftarrow> sh_objects h this; Some (cs_GetForeignIP E (as_Socket s) w) }"

definition SetOptionBlocking :: "bool \<Rightarrow> 'c adapted_socket \<Rightarrow> 'c adapted_socket" where
  "SetOptionBlocking bBlock s = s\<lparr>as_Block := bBlock\<rparr>"

subsection \<open>Connecting\<close>

definition Connect_ip ::
  "('w, 'c, 'l, 'x) sock_env_scheme \<Rightarrow> u8 list \<Rightarrow> u16 \<Rightarrow> 'c adapted_socket \<Rightarrow> 'w \<Rightarrow> int \<times> 'w" where
  "Connect_ip E ip port s w =
     (let (r, w) = cs_Connect E (as_Socket s) ip port w
      in (if r < 0 then ERR_NET_CONNECT_FAILED E else 0, w))"

text \<open>The port number of a string: \<open>None\<close> unless it is a numeral from 1 to 65535.\<close>

definition parse_port :: "cstring \<Rightarrow> u16 option" where
  "parse_port pPort =
     (let (ulPort, pEnd) = strtoul 10 pPort
      in if pEnd < length pPort \<or> ulPort = 0 \<or> ulPort > 0xFFFF then None else Some (of_nat ulPort))"

definition Connect_host ::
  "('w, 'c, 'l, 'x) sock_env_scheme \<Rightarrow> cstring \<Rightarrow> cstring \<Rightarrow> 'c adapted_socket \<Rightarrow> 'w \<Rightarrow> int \<times> 'w" where
  "Connect_host E pHost pPort s w =
     (case parse_port pPort of
        None \<Rightarrow> (ERR_NET_CONNECT_FAILED E, w)
      | Some port \<Rightarrow>
          let (ip, w) = net_Resolve E pHost w
          in (case ip of
                None \<Rightarrow> (ERR_NET_UNKNOWN_HOST E, w)
              | Some ip \<Rightarrow> Connect_ip E ip port s w))"

definition Bind ::
  "('w, 'c, 'l, 'x) sock_env_scheme \<Rightarrow> cstring \<Rightarrow> 'c adapted_socket \<Rightarrow> 'w \<Rightarrow> int \<times> 'w" where
  "Bind E pPort s w =
     (case parse_port pPort of
        None \<Rightarrow> (ERR_NET_CONNECT_FAILED E, w)
      | Some port \<Rightarrow>
          let (r, w) = cs_Bind E (as_Socket s) port w
          in if r < 0 then (ERR_NET_BIND_FAILED E, w)
             else let (r, w) = cs_Listen E (as_Socket s) (NET_LISTEN_BACKLOG E) w
                  in (if r < 0 then ERR_NET_BIND_FAILED E else 0, w))"

text \<open>
  \<open>Accept\<close>: the handle or an error code, and the address of the peer when the caller passes
  a place for it (\<open>bForeignIP\<close>).
\<close>

definition Accept ::
  "('w, 'c, 'l, 'x) sock_env_scheme \<Rightarrow> u8 list \<Rightarrow> bool \<Rightarrow> nat \<Rightarrow> ('c, 'l) socket_heap \<Rightarrow> 'w \<Rightarrow>
     (int \<times> u8 list option \<times> ('c, 'l) socket_heap \<times> 'w) option" where
  "Accept E mem bForeignIP this h w = do {
     s \<leftarrow> sh_objects h this;
     let (conn, w) = cs_Accept E (as_Socket s) w;
     case conn of
       None \<Rightarrow> Some (ERR_NET_ACCEPT_FAILED E, None, h, w)
     | Some (pConnection, ip) \<Rightarrow>
         let (ok, w) = obj_new E w
         in if \<not> ok then Some (ERR_SSL_ALLOC_FAILED E, None, h, cs_delete E pConnection w)
            else let (pNewSocket, h) = construct E mem pConnection h;
                     (nHandle, a) = AddSocket (array_ops E) pNewSocket (s_SocketArray h)
                 in Some (int nHandle, if bForeignIP then Some ip else None, h\<lparr>s_SocketArray := a\<rparr>, w)
   }"

subsection \<open>Receiving and sending\<close>

text \<open>Copying from the receive buffer: the bytes for the caller.\<close>

definition take_buffered ::
  "nat \<Rightarrow> 'c adapted_socket \<Rightarrow> (int \<times> u8 list \<times> 'c adapted_socket) option" where
  "take_buffered nLength s = do {
     let nBytesAvail = wrap32 (as_RxBytesValid s + 2 ^ 32 - as_RxBytesUsed s);
     let nLength = (if nLength > nBytesAvail then nBytesAvail else nLength);
     data \<leftarrow> get_block (as_RxBuffer s) (as_RxBytesUsed s) nLength;
     Some (int nLength, data, s\<lparr>as_RxBytesUsed := as_RxBytesUsed s + nLength\<rparr>)
   }"

text \<open>What \<open>CSocket::Receive\<close> stores into \<open>m_RxBuffer\<close>.\<close>

definition fill_buffer :: "int \<Rightarrow> u8 list \<Rightarrow> 'c adapted_socket \<Rightarrow> 'c adapted_socket option" where
  "fill_buffer nResult bs s = do {
     b \<leftarrow> put_block (as_RxBuffer s) 0 bs;
     Some (s\<lparr>as_RxBuffer := b, as_RxBytesValid := nat nResult, as_RxBytesUsed := 0\<rparr>)
   }"

definition ReceiveBuf ::
  "('w, 'c, 'l, 'x) sock_env_scheme \<Rightarrow> nat \<Rightarrow> 'c adapted_socket \<Rightarrow> 'w \<Rightarrow>
     (int \<times> u8 list \<times> 'c adapted_socket \<times> 'w) option" where
  "ReceiveBuf E nLength s w =
     (if wrap32 (as_RxBytesValid s + 2 ^ 32 - as_RxBytesUsed s) = 0
      then case cs_Receive E (as_Socket s) (frame_size E) (\<not> as_Block s) w of ((nResult, bs), w) \<Rightarrow>
        if nResult = 0 then Some (ERR_SSL_WANT_READ E, [], s, sched_Yield E w)
        else if nResult < 0 then Some (0, [], s, w)
        else do {
          s \<leftarrow> fill_buffer nResult bs s;
          (n, data, s) \<leftarrow> take_buffered nLength s;
          Some (n, data, s, w)
        }
      else do {
        (n, data, s) \<leftarrow> take_buffered nLength s;
        Some (n, data, s, w)
      })"

text \<open>The loop of \<open>ReceiveTimeout\<close>: \<open>Inl\<close> of a return value, or the frame received.\<close>

partial_function (option) timeout_loop ::
  "('w, 'c, 'l) sock_env \<Rightarrow> 'c \<Rightarrow> u32 \<Rightarrow> u32 \<Rightarrow> u32 \<Rightarrow> 'w \<Rightarrow> ((int + int \<times> u8 list) \<times> 'w) option" where
  "timeout_loop E cs nTimeoutMs nTimeoutHZ nStartTicks w =
     (case cs_Receive E cs (frame_size E) (nTimeoutMs \<noteq> 0) w of ((nResult, bs), w) \<Rightarrow>
        if nResult = 0
        then case timer_Ticks E (sched_Yield E w) of (t, w) \<Rightarrow>
          if t - nStartTicks \<ge> nTimeoutHZ then Some (Inl (ERR_SSL_TIMEOUT E), w)
          else timeout_loop E cs nTimeoutMs nTimeoutHZ nStartTicks w
        else if nResult < 0 then Some (Inl 0, w)
        else Some (Inr (nResult, bs), w))"

definition ReceiveTimeout ::
  "('w, 'c, 'l) sock_env \<Rightarrow> nat \<Rightarrow> u32 \<Rightarrow> 'c adapted_socket \<Rightarrow> 'w \<Rightarrow>
     (int \<times> u8 list \<times> 'c adapted_socket \<times> 'w) option option" where
  "ReceiveTimeout E nLength nTimeoutMs s w =
     (if wrap32 (as_RxBytesValid s + 2 ^ 32 - as_RxBytesUsed s) = 0
      then do {
        let nTimeoutHZ = msec_hz E nTimeoutMs;
        let (nStartTicks, w) = timer_Ticks E w;
        (r, w) \<leftarrow> timeout_loop E (as_Socket s) nTimeoutMs nTimeoutHZ nStartTicks w;
        Some (case r of
          Inl code \<Rightarrow> Some (code, [], s, w)
        | Inr (nResult, bs) \<Rightarrow> do {
            s \<leftarrow> fill_buffer nResult bs s;
            (n, data, s) \<leftarrow> take_buffered nLength s;
            Some (n, data, s, w)
          })
      }
      else Some (do {
        (n, data, s) \<leftarrow> take_buffered nLength s;
        Some (n, data, s, w)
      }))"

definition SendBuf ::
  "('w, 'c, 'l, 'x) sock_env_scheme \<Rightarrow> u8 list \<Rightarrow> 'c adapted_socket \<Rightarrow> 'w \<Rightarrow> int \<times> 'w" where
  "SendBuf E bs s w =
     (let (nResult, w) = cs_Send E (as_Socket s) bs w
      in (if nResult < 0 then ERR_NET_SEND_FAILED E else nResult, w))"

end
