(* ===== verification/Net_Sockets.thy ===== *)
theory Net_Sockets
  imports Adapted_Socket
begin

text \<open>
  The network functions of mbed TLS on adapted sockets (\<open>src/circle-mbedtls/net_sockets.cpp\<close>)
  and programs that call them on several contexts. A context (\<open>mbedtls_net_context\<close>) is its
  descriptor \<open>fd\<close>; a function that changes it returns the new one. \<open>mem\<close> is what the
  memory of a new object's receive buffer holds.
\<close>

type_synonym ('c, 'l, 'w) net_result = "(int \<times> u8 list \<times> ('c, 'l) socket_heap \<times> 'w) option"

definition mbedtls_net_init :: int where
  "mbedtls_net_init = -1"

definition mbedtls_net_connect ::
  "('w, 'c, 'l) sock_env \<Rightarrow> u8 list \<Rightarrow> int \<Rightarrow> cstring \<Rightarrow> cstring \<Rightarrow> int \<Rightarrow> ('c, 'l) socket_heap \<Rightarrow> 'w \<Rightarrow>
     (int \<times> int \<times> ('c, 'l) socket_heap \<times> 'w) option" where
  "mbedtls_net_connect E mem fd host port proto h w =
     (if proto \<noteq> NET_PROTO_TCP E then Some (ERR_NET_SOCKET_FAILED E, fd, h, w)
      else let (ok, w) = obj_new E w
           in if \<not> ok then Some (ERR_SSL_ALLOC_FAILED E, fd, h, w)
              else do {
                (pSocket, h, w) \<leftarrow> CAdaptedSocket_new E mem (proto_tcp E) h w;
                fd \<leftarrow> GetHandle pSocket h;
                assert (fd \<ge> 0);
                s \<leftarrow> sh_objects h pSocket;
                let (r, w) = Connect_host E host port s w;
                Some (r, fd, h, w)
              })"

definition mbedtls_net_bind ::
  "('w, 'c, 'l) sock_env \<Rightarrow> u8 list \<Rightarrow> int \<Rightarrow> cstring option \<Rightarrow> cstring \<Rightarrow> int \<Rightarrow> ('c, 'l) socket_heap \<Rightarrow> 'w \<Rightarrow>
     (int \<times> int \<times> ('c, 'l) socket_heap \<times> 'w) option" where
  "mbedtls_net_bind E mem fd bind_ip port proto h w =
     (if proto \<noteq> NET_PROTO_TCP E then Some (ERR_NET_SOCKET_FAILED E, fd, h, w)
      else if bind_ip \<noteq> None then Some (ERR_NET_BIND_FAILED E, fd, h, w)
      else let (ok, w) = obj_new E w
           in if \<not> ok then Some (ERR_SSL_ALLOC_FAILED E, fd, h, w)
              else do {
                (pSocket, h, w) \<leftarrow> CAdaptedSocket_new E mem (proto_tcp E) h w;
                fd \<leftarrow> GetHandle pSocket h;
                assert (fd \<ge> 0);
                s \<leftarrow> sh_objects h pSocket;
                let (r, w) = Bind E port s w;
                Some (r, fd, h, w)
              })"

text \<open>
  \<open>mbedtls_net_accept\<close>: \<open>client_ip\<close> is the size of the buffer for the address, if there is
  one. The result is the code, the descriptor of the client's context and the address with
  \<open>*ip_len\<close>.
\<close>

definition mbedtls_net_accept ::
  "('w, 'c, 'l) sock_env \<Rightarrow> u8 list \<Rightarrow> int \<Rightarrow> int \<Rightarrow> nat option \<Rightarrow> ('c, 'l) socket_heap \<Rightarrow> 'w \<Rightarrow>
     (int \<times> int \<times> (u8 list \<times> nat) option \<times> ('c, 'l) socket_heap \<times> 'w) option" where
  "mbedtls_net_accept E mem bind_fd client_fd client_ip h w =
     (if client_ip \<noteq> None \<and> the client_ip < sizeof_ip_size E
      then Some (ERR_NET_BUFFER_TOO_SMALL E, client_fd, None, h, w)
      else do {
        pSocket \<leftarrow> GetSocket (array_ops E) bind_fd (s_SocketArray h);
        case pSocket of
          None \<Rightarrow> Some (ERR_NET_INVALID_CONTEXT E, client_fd, None, h, w)
        | Some pSocket \<Rightarrow> do {
            (nResult, ip, h, w) \<leftarrow> Accept E mem (client_ip \<noteq> None) pSocket h w;
            Some (if nResult < 0 then (ERR_NET_ACCEPT_FAILED E, client_fd, None, h, w)
                  else (0, nResult, map_option (\<lambda>a. (a, ip_size E)) ip, h, w))
          }
      })"

text \<open>The functions that only work on the socket of a descriptor.\<close>

definition on_socket ::
  "('w, 'c, 'l) sock_env \<Rightarrow> int \<Rightarrow>
     ('c adapted_socket \<Rightarrow> 'w \<Rightarrow> (int \<times> u8 list \<times> 'c adapted_socket \<times> 'w) option) \<Rightarrow>
     ('c, 'l) socket_heap \<Rightarrow> 'w \<Rightarrow> ('c, 'l, 'w) net_result" where
  "on_socket E fd f h w = do {
     pSocket \<leftarrow> GetSocket (array_ops E) fd (s_SocketArray h);
     case pSocket of
       None \<Rightarrow> Some (ERR_NET_INVALID_CONTEXT E, [], h, w)
     | Some pSocket \<Rightarrow> do {
         s \<leftarrow> sh_objects h pSocket;
         (r, bs, s, w) \<leftarrow> f s w;
         Some (r, bs, h\<lparr>sh_objects := (sh_objects h)(pSocket \<mapsto> s)\<rparr>, w)
       }
   }"

definition mbedtls_net_set_block ::
  "('w, 'c, 'l) sock_env \<Rightarrow> int \<Rightarrow> ('c, 'l) socket_heap \<Rightarrow> 'w \<Rightarrow> ('c, 'l, 'w) net_result" where
  "mbedtls_net_set_block E fd = on_socket E fd (\<lambda>s w. Some (0, [], SetOptionBlocking True s, w))"

definition mbedtls_net_set_nonblock ::
  "('w, 'c, 'l) sock_env \<Rightarrow> int \<Rightarrow> ('c, 'l) socket_heap \<Rightarrow> 'w \<Rightarrow> ('c, 'l, 'w) net_result" where
  "mbedtls_net_set_nonblock E fd = on_socket E fd (\<lambda>s w. Some (0, [], SetOptionBlocking False s, w))"

definition mbedtls_net_recv ::
  "('w, 'c, 'l) sock_env \<Rightarrow> int \<Rightarrow> nat \<Rightarrow> ('c, 'l) socket_heap \<Rightarrow> 'w \<Rightarrow> ('c, 'l, 'w) net_result" where
  "mbedtls_net_recv E fd len = on_socket E fd (ReceiveBuf E len)"

text \<open>The outer \<open>None\<close> is a run of the polling loop that does not end.\<close>

definition mbedtls_net_recv_timeout ::
  "('w, 'c, 'l) sock_env \<Rightarrow> int \<Rightarrow> nat \<Rightarrow> u32 \<Rightarrow> ('c, 'l) socket_heap \<Rightarrow> 'w \<Rightarrow>
     ('c, 'l, 'w) net_result option" where
  "mbedtls_net_recv_timeout E fd len timeout h w =
     (case GetSocket (array_ops E) fd (s_SocketArray h) of
        None \<Rightarrow> Some None
      | Some None \<Rightarrow> Some (Some (ERR_NET_INVALID_CONTEXT E, [], h, w))
      | Some (Some pSocket) \<Rightarrow>
          (case sh_objects h pSocket of
             None \<Rightarrow> Some None
           | Some s \<Rightarrow> map_option (map_option (\<lambda>(r, bs, s, w).
               (r, bs, h\<lparr>sh_objects := (sh_objects h)(pSocket \<mapsto> s)\<rparr>, w))) (ReceiveTimeout E len timeout s w)))"

definition mbedtls_net_send ::
  "('w, 'c, 'l) sock_env \<Rightarrow> int \<Rightarrow> u8 list \<Rightarrow> ('c, 'l) socket_heap \<Rightarrow> 'w \<Rightarrow> ('c, 'l, 'w) net_result" where
  "mbedtls_net_send E fd bs = on_socket E fd (\<lambda>s w. let (r, w) = SendBuf E bs s w in Some (r, [], s, w))"

definition mbedtls_net_free ::
  "('w, 'c, 'l) sock_env \<Rightarrow> int \<Rightarrow> ('c, 'l) socket_heap \<Rightarrow> 'w \<Rightarrow> (int \<times> ('c, 'l) socket_heap \<times> 'w) option" where
  "mbedtls_net_free E fd h w = do {
     pSocket \<leftarrow> GetSocket (array_ops E) fd (s_SocketArray h);
     case pSocket of
       None \<Rightarrow> Some (-1, h, w)
     | Some pSocket \<Rightarrow> do { (h, w) \<leftarrow> CAdaptedSocket_delete E pSocket h w; Some (-1, h, w) }
   }"

definition mbedtls_net_usleep :: "('w, 'c, 'l) sock_env \<Rightarrow> nat \<Rightarrow> 'w \<Rightarrow> 'w" where
  "mbedtls_net_usleep E usec w = sched_usSleep E usec w"

subsection \<open>Programs on contexts\<close>

text \<open>
  A program calls the functions on its contexts, numbered here. \<open>net_call\<close> is one call,
  \<open>nc_ctx\<close> the descriptors and \<open>nc_out\<close> what the calls returned, latest last: the code with the
  bytes read, or with the address of the peer for \<open>mbedtls_net_accept\<close>. A call that fails or does
  not return makes the program \<open>None\<close>.
\<close>

datatype net_call =
    NetInit nat
  | NetConnect nat cstring cstring int
  | NetBind nat "cstring option" cstring int
  | NetSetBlock nat
  | NetSetNonblock nat
  | NetAccept nat nat "nat option"
  | NetRecv nat nat
  | NetRecvTimeout nat nat u32
  | NetSend nat "u8 list"
  | NetFree nat
  | NetUsleep nat

record ('c, 'l, 'w) net_state =
  nc_ctx :: "nat \<Rightarrow> int"
  nc_heap :: "('c, 'l) socket_heap"
  nc_world :: 'w
  nc_out :: "(int \<times> u8 list) list"

definition returned :: "('c, 'l, 'w) net_state \<Rightarrow> ('c, 'l, 'w) net_result \<Rightarrow> ('c, 'l, 'w) net_state option" where
  "returned n r = map_option (\<lambda>(r, bs, h, w). n\<lparr>nc_heap := h, nc_world := w, nc_out := nc_out n @ [(r, bs)]\<rparr>) r"

definition opened :: "('c, 'l, 'w) net_state \<Rightarrow> nat \<Rightarrow> (int \<times> int \<times> ('c, 'l) socket_heap \<times> 'w) option \<Rightarrow>
    ('c, 'l, 'w) net_state option" where
  "opened n c r = map_option (\<lambda>(r, fd, h, w).
     n\<lparr>nc_ctx := (nc_ctx n)(c := fd), nc_heap := h, nc_world := w, nc_out := nc_out n @ [(r, [])]\<rparr>) r"

fun net_do ::
  "('w, 'c, 'l) sock_env \<Rightarrow> u8 list \<Rightarrow> net_call \<Rightarrow> ('c, 'l, 'w) net_state \<Rightarrow> ('c, 'l, 'w) net_state option" where
  "net_do E mem (NetInit c) n = Some (n\<lparr>nc_ctx := (nc_ctx n)(c := mbedtls_net_init)\<rparr>)"
| "net_do E mem (NetConnect c host port proto) n =
     opened n c (mbedtls_net_connect E mem (nc_ctx n c) host port proto (nc_heap n) (nc_world n))"
| "net_do E mem (NetBind c ip port proto) n =
     opened n c (mbedtls_net_bind E mem (nc_ctx n c) ip port proto (nc_heap n) (nc_world n))"
| "net_do E mem (NetSetBlock c) n = returned n (mbedtls_net_set_block E (nc_ctx n c) (nc_heap n) (nc_world n))"
| "net_do E mem (NetSetNonblock c) n = returned n (mbedtls_net_set_nonblock E (nc_ctx n c) (nc_heap n) (nc_world n))"
| "net_do E mem (NetRecv c len) n = returned n (mbedtls_net_recv E (nc_ctx n c) len (nc_heap n) (nc_world n))"
| "net_do E mem (NetAccept b c ip) n =
     map_option (\<lambda>(r, fd, addr, h, w). n\<lparr>nc_ctx := (nc_ctx n)(c := fd), nc_heap := h, nc_world := w,
         nc_out := nc_out n @ [(r, case addr of None \<Rightarrow> [] | Some (a, _) \<Rightarrow> a)]\<rparr>)
       (mbedtls_net_accept E mem (nc_ctx n b) (nc_ctx n c) ip (nc_heap n) (nc_world n))"
| "net_do E mem (NetRecvTimeout c len ms) n =
     returned n (Option.bind (mbedtls_net_recv_timeout E (nc_ctx n c) len ms (nc_heap n) (nc_world n)) id)"
| "net_do E mem (NetSend c bs) n = returned n (mbedtls_net_send E (nc_ctx n c) bs (nc_heap n) (nc_world n))"
| "net_do E mem (NetFree c) n =
     map_option (\<lambda>(fd, h, w). n\<lparr>nc_ctx := (nc_ctx n)(c := fd), nc_heap := h, nc_world := w\<rparr>)
       (mbedtls_net_free E (nc_ctx n c) (nc_heap n) (nc_world n))"
| "net_do E mem (NetUsleep usec) n = Some (n\<lparr>nc_world := mbedtls_net_usleep E usec (nc_world n)\<rparr>)"

primrec net_run ::
  "('w, 'c, 'l) sock_env \<Rightarrow> u8 list \<Rightarrow> net_call list \<Rightarrow> ('c, 'l, 'w) net_state \<Rightarrow> ('c, 'l, 'w) net_state option" where
  "net_run E mem [] n = Some n"
| "net_run E mem (c # cs) n = do { n \<leftarrow> net_do E mem c n; net_run E mem cs n }"

end
