(* ===== verification/Tls_Socket.thy ===== *)
theory Tls_Socket
  imports Net_Sockets
begin

text \<open>
  TLS sockets on adapted sockets: \<open>CTLSSocket\<close> (\<open>tlssocket.cpp\<close>), the certificate chain
  (\<open>x509certchain.cpp\<close>), the configuration and the random generator wrappers (\<open>tlsconfig.h\<close>,
  \<open>ctr_drbg.h\<close>), and \<open>CTLSSimpleClientSocket\<close> (\<open>tlssimpleclientsocket.cpp\<close>).

  The functions of mbed TLS are parameters (record \<open>tls_env\<close>). Those that exchange data
  (\<open>mbedtls_ssl_handshake\<close>, \<open>_read\<close>, \<open>_write\<close>, \<open>_close_notify\<close>) get the callbacks of
  the socket and can reach the network only through them; they fail (\<open>None\<close>) if a callback does.
  A pair of the heap of socket objects and the world is the state the callbacks work on.
\<close>

type_synonym ('c, 'l, 'w) io = "('c, 'l) socket_heap \<times> 'w"

record ('c, 'l, 'w) bio =
  bio_recv :: "nat \<Rightarrow> ('c, 'l, 'w) io \<Rightarrow> (int \<times> u8 list \<times> ('c, 'l, 'w) io) option"
  bio_send :: "u8 list \<Rightarrow> ('c, 'l, 'w) io \<Rightarrow> (int \<times> ('c, 'l, 'w) io) option"

text \<open>
  \<open>'s\<close> is \<open>mbedtls_ssl_context\<close>, \<open>'g\<close> \<open>mbedtls_ssl_config\<close>, \<open>'x\<close> \<open>mbedtls_x509_crt\<close>, \<open>'d\<close>
  \<open>mbedtls_ctr_drbg_context\<close>, \<open>'p\<close> \<open>mbedtls_x509_crt_profile\<close>. \<open>file_read name n\<close> is
  \<open>fopen\<close>, \<open>fread\<close> of at most \<open>n\<close> bytes and \<open>fclose\<close>; \<open>dir_entries\<close> the names that \<open>readdir\<close>
  returns; \<open>null_str\<close> the string that \<open>strlen\<close> finds at address 0, \<open>None\<close> on a machine on which the
  access faults.
\<close>

record ('w, 'c, 'l, 's, 'g, 'x, 'd, 'p) tls_env = "('w, 'c, 'l) sock_env" +
  ERR_SSL_WANT_WRITE :: int
  ERR_X509_CERT_VERIFY_FAILED :: int
  ERR_X509_BUFFER_TOO_SMALL :: int
  ERR_PK_FILE_IO_ERROR :: int
  SSL_VERIFY_NONE :: int
  SSL_VERIFY_REQUIRED :: int
  SSL_IS_CLIENT :: int
  SSL_TRANSPORT_STREAM :: int
  SSL_PRESET_DEFAULT :: int
  ssl_init :: 's
  ssl_setup :: "'g \<Rightarrow> 's \<Rightarrow> int \<times> 's"
  ssl_set_hostname :: "cstring \<Rightarrow> 's \<Rightarrow> int \<times> 's"
  ssl_handshake :: "('c, 'l, 'w) bio \<Rightarrow> 's \<Rightarrow> ('c, 'l, 'w) io \<Rightarrow> (int \<times> 's \<times> ('c, 'l, 'w) io) option"
  ssl_get_verify_result :: "'s \<Rightarrow> u32"
  ssl_read :: "('c, 'l, 'w) bio \<Rightarrow> nat \<Rightarrow> 's \<Rightarrow> ('c, 'l, 'w) io \<Rightarrow> (int \<times> u8 list \<times> 's \<times> ('c, 'l, 'w) io) option"
  ssl_write :: "('c, 'l, 'w) bio \<Rightarrow> u8 list \<Rightarrow> 's \<Rightarrow> ('c, 'l, 'w) io \<Rightarrow> (int \<times> 's \<times> ('c, 'l, 'w) io) option"
  ssl_close_notify :: "('c, 'l, 'w) bio \<Rightarrow> 's \<Rightarrow> ('c, 'l, 'w) io \<Rightarrow> (int \<times> 's \<times> ('c, 'l, 'w) io) option"
  log_verify_info :: "u32 \<Rightarrow> 'w \<Rightarrow> 'w"
  log_parse_failed :: "cstring \<Rightarrow> int \<Rightarrow> 'w \<Rightarrow> 'w"
  ssl_config_init :: 'g
  ssl_config_defaults :: "int \<Rightarrow> int \<Rightarrow> int \<Rightarrow> 'g \<Rightarrow> int \<times> 'g"
  ssl_conf_authmode :: "int \<Rightarrow> 'g \<Rightarrow> 'g"
  ssl_conf_cert_profile :: "'p \<Rightarrow> 'g \<Rightarrow> 'g"
  ssl_conf_ca_chain :: "'x \<Rightarrow> 'g \<Rightarrow> 'g"
  ssl_conf_rng :: "'d \<Rightarrow> 'g \<Rightarrow> 'g"
  ssl_conf_dbg :: "'g \<Rightarrow> 'g"
  x509_crt_init :: 'x
  x509_crt_parse :: "u8 list \<Rightarrow> 'x \<Rightarrow> int \<times> 'x"
  ctr_drbg_init :: 'd
  ctr_drbg_seed :: "u8 list \<Rightarrow> 'd \<Rightarrow> 'w \<Rightarrow> int \<times> 'd \<times> 'w"
  file_read :: "cstring \<Rightarrow> nat \<Rightarrow> 'w \<Rightarrow> u8 list option \<times> 'w"
  dir_entries :: "cstring \<Rightarrow> 'w \<Rightarrow> cstring list option \<times> 'w"
  null_str :: "cstring option"

abbreviation socks :: "('w, 'c, 'l, 's, 'g, 'x, 'd, 'p) tls_env \<Rightarrow> ('w, 'c, 'l) sock_env" where
  "socks E \<equiv> sock_env.truncate E"

subsection \<open>TLS socket\<close>

text \<open>\<open>ts_bio\<close> is the socket that \<open>mbedtls_ssl_set_bio\<close> was called with.\<close>

record 's tls_socket =
  ts_Context :: 's
  ts_Socket :: "nat option"
  ts_bio :: "nat option"
  ts_Connected :: bool

definition ReceiveCallback ::
  "('w, 'c, 'l, 's, 'g, 'x, 'd, 'p) tls_env \<Rightarrow> nat \<Rightarrow> nat \<Rightarrow> ('c, 'l, 'w) io \<Rightarrow> (int \<times> u8 list \<times> ('c, 'l, 'w) io) option" where
  "ReceiveCallback E pSocket nLength b = (case b of (h, w) \<Rightarrow> do {
     s \<leftarrow> sh_objects h pSocket;
     (r, bs, s, w) \<leftarrow> ReceiveBuf E nLength s w;
     Some (r, bs, h\<lparr>sh_objects := (sh_objects h)(pSocket \<mapsto> s)\<rparr>, w)
   })"

definition ReceiveTimeoutCallback ::
  "('w, 'c, 'l, 's, 'g, 'x, 'd, 'p) tls_env \<Rightarrow> nat \<Rightarrow> nat \<Rightarrow> u32 \<Rightarrow> ('c, 'l, 'w) io \<Rightarrow>
     (int \<times> u8 list \<times> ('c, 'l, 'w) io) option option" where
  "ReceiveTimeoutCallback E pSocket nLength nTimeoutMs b = (case b of (h, w) \<Rightarrow>
     (case sh_objects h pSocket of
        None \<Rightarrow> Some None
      | Some s \<Rightarrow> map_option (map_option (\<lambda>(r, bs, s, w). (r, bs, h\<lparr>sh_objects := (sh_objects h)(pSocket \<mapsto> s)\<rparr>, w)))
          (ReceiveTimeout (socks E) nLength nTimeoutMs s w)))"

definition SendCallback ::
  "('w, 'c, 'l, 's, 'g, 'x, 'd, 'p) tls_env \<Rightarrow> nat \<Rightarrow> u8 list \<Rightarrow> ('c, 'l, 'w) io \<Rightarrow> (int \<times> ('c, 'l, 'w) io) option" where
  "SendCallback E pSocket bs b = (case b of (h, w) \<Rightarrow> do {
     s \<leftarrow> sh_objects h pSocket;
     let (r, w) = SendBuf E bs s w;
     Some (r, h, w)
   })"

definition bio_of :: "('w, 'c, 'l, 's, 'g, 'x, 'd, 'p) tls_env \<Rightarrow> 's tls_socket \<Rightarrow> ('c, 'l, 'w) bio" where
  "bio_of E t =
     (case ts_bio t of
        None \<Rightarrow> \<lparr>bio_recv = (\<lambda>_ _. None), bio_send = (\<lambda>_ _. None)\<rparr>
      | Some p \<Rightarrow> \<lparr>bio_recv = ReceiveCallback E p, bio_send = SendCallback E p\<rparr>)"

definition CTLSSocket_new ::
  "('w, 'c, 'l, 's, 'g, 'x, 'd, 'p) tls_env \<Rightarrow> u8 list \<Rightarrow> int \<Rightarrow> ('c, 'l, 'w) io \<Rightarrow> ('s tls_socket \<times> ('c, 'l, 'w) io) option" where
  "CTLSSocket_new E mem nProtocol b = (case b of (h, w) \<Rightarrow>
     case obj_new E w of (ok, w) \<Rightarrow>
       if \<not> ok then Some (\<lparr>ts_Context = ssl_init E, ts_Socket = None, ts_bio = None, ts_Connected = False\<rparr>, h, w)
       else do {
         (p, h, w) \<leftarrow> CAdaptedSocket_new E mem nProtocol h w;
         Some (\<lparr>ts_Context = ssl_init E, ts_Socket = Some p, ts_bio = None, ts_Connected = False\<rparr>, h, w)
       })"

definition CTLSSocket_delete ::
  "('w, 'c, 'l, 's, 'g, 'x, 'd, 'p) tls_env \<Rightarrow> 's tls_socket \<Rightarrow> ('c, 'l, 'w) io \<Rightarrow> ('c, 'l, 'w) io option" where
  "CTLSSocket_delete E t b = do {
     b \<leftarrow> (if ts_Connected t
          then map_option (\<lambda>(_, _, b). b) (ssl_close_notify E (bio_of E t) (ts_Context t) b) else Some b);
     case ts_Socket t of
       None \<Rightarrow> Some b
     | Some p \<Rightarrow> CAdaptedSocket_delete E p (fst b) (snd b)
   }"

definition tls_Setup :: "('w, 'c, 'l, 's, 'g, 'x, 'd, 'p) tls_env \<Rightarrow> 'g \<Rightarrow> 's tls_socket \<Rightarrow> (int \<times> 's tls_socket) option" where
  "tls_Setup E cfg t = do {
     assert (\<not> ts_Connected t);
     let (r, s) = ssl_setup E cfg (ts_Context t);
     Some (r, t\<lparr>ts_Context := s\<rparr>)
   }"

definition SetHostname :: "('w, 'c, 'l, 's, 'g, 'x, 'd, 'p) tls_env \<Rightarrow> cstring \<Rightarrow> 's tls_socket \<Rightarrow> (int \<times> 's tls_socket) option" where
  "SetHostname E pHostname t = do {
     assert (\<not> ts_Connected t);
     let (r, s) = ssl_set_hostname E pHostname (ts_Context t);
     Some (r, t\<lparr>ts_Context := s\<rparr>)
   }"

text \<open>
  The handshake loop: the result of the last call, the context and the state. \<open>Some None\<close> is a
  failure in a callback, \<open>None\<close> a loop that does not end.
\<close>

partial_function (option) handshake_loop ::
  "('w, 'c, 'l, 's, 'g, 'x, 'd, 'p) tls_env \<Rightarrow> ('c, 'l, 'w) bio \<Rightarrow> 's \<Rightarrow> ('c, 'l, 'w) io \<Rightarrow>
     (int \<times> 's \<times> ('c, 'l, 'w) io) option option" where
  "handshake_loop E bio s b =
     (case ssl_handshake E bio s b of
        None \<Rightarrow> Some None
      | Some (r, s, b) \<Rightarrow>
          if r \<noteq> 0 \<and> (r = ERR_SSL_WANT_READ E \<or> r = ERR_SSL_WANT_WRITE E) then handshake_loop E bio s b
          else Some (Some (r, s, b)))"

definition tls_Connect_ip ::
  "('w, 'c, 'l, 's, 'g, 'x, 'd, 'p) tls_env \<Rightarrow> u8 list \<Rightarrow> u16 \<Rightarrow> 's tls_socket \<Rightarrow> ('c, 'l, 'w) io \<Rightarrow>
     (int \<times> 's tls_socket \<times> ('c, 'l, 'w) io) option option" where
  "tls_Connect_ip E ip port t b =
     (case ts_Socket t of
        None \<Rightarrow> Some (Some (ERR_SSL_ALLOC_FAILED E, t, b))
      | Some p \<Rightarrow>
          if ts_Connected t then Some None
          else (case sh_objects (fst b) p of
            None \<Rightarrow> Some None
          | Some s \<Rightarrow>
              (case Connect_ip E ip port s (snd b) of (nResult, w) \<Rightarrow>
                 if nResult \<noteq> 0 then Some (Some (nResult, t, fst b, w))
                 else let t = t\<lparr>ts_bio := Some p\<rparr>
                      in map_option (map_option (\<lambda>(nResult, s, b).
                           let t = t\<lparr>ts_Context := s\<rparr>
                           in if nResult \<noteq> 0 then (nResult, t, b)
                              else let t = t\<lparr>ts_Connected := True\<rparr>;
                                       nFlags = ssl_get_verify_result E s
                                   in if nFlags \<noteq> 0
                                      then (ERR_X509_CERT_VERIFY_FAILED E, t, fst b, log_verify_info E nFlags (snd b))
                                      else (0, t, b)))
                         (handshake_loop E (bio_of E t) (ts_Context t) (fst b, w)))))"

definition tls_Connect ::
  "('w, 'c, 'l, 's, 'g, 'x, 'd, 'p) tls_env \<Rightarrow> cstring \<Rightarrow> cstring \<Rightarrow> 's tls_socket \<Rightarrow> ('c, 'l, 'w) io \<Rightarrow>
     (int \<times> 's tls_socket \<times> ('c, 'l, 'w) io) option option" where
  "tls_Connect E pHost pPort t b =
     (case parse_port pPort of
        None \<Rightarrow> Some (Some (ERR_NET_CONNECT_FAILED E, t, b))
      | Some port \<Rightarrow>
          (case net_Resolve E pHost (snd b) of
             (None, w) \<Rightarrow> Some (Some (ERR_NET_UNKNOWN_HOST E, t, fst b, w))
           | (Some ip, w) \<Rightarrow> tls_Connect_ip E ip port t (fst b, w)))"

text \<open>\<open>bDontWait\<close> is \<open>nFlags == MSG_DONTWAIT\<close>.\<close>

definition tls_Receive ::
  "('w, 'c, 'l, 's, 'g, 'x, 'd, 'p) tls_env \<Rightarrow> nat \<Rightarrow> bool \<Rightarrow> 's tls_socket \<Rightarrow> ('c, 'l, 'w) io \<Rightarrow>
     (int \<times> u8 list \<times> 's tls_socket \<times> ('c, 'l, 'w) io) option" where
  "tls_Receive E nLength bDontWait t b = do {
     p \<leftarrow> ts_Socket t;
     s \<leftarrow> sh_objects (fst b) p;
     let h = (fst b)\<lparr>sh_objects := (sh_objects (fst b))(p \<mapsto> SetOptionBlocking (\<not> bDontWait) s)\<rparr>;
     assert (ts_Connected t);
     (nResult, bs, s, b) \<leftarrow> ssl_read E (bio_of E t) nLength (ts_Context t) (h, snd b);
     let t = t\<lparr>ts_Context := s\<rparr>;
     if nResult = ERR_SSL_WANT_READ E \<or> nResult = ERR_SSL_WANT_WRITE E
     then do { assert bDontWait; Some (0, bs, t, b) }
     else if nResult = 0 then Some (-1, bs, t, b)
     else Some (nResult, bs, t, b)
   }"

definition tls_Send ::
  "('w, 'c, 'l, 's, 'g, 'x, 'd, 'p) tls_env \<Rightarrow> u8 list \<Rightarrow> 's tls_socket \<Rightarrow> ('c, 'l, 'w) io \<Rightarrow>
     (int \<times> 's tls_socket \<times> ('c, 'l, 'w) io) option" where
  "tls_Send E bs t b = do {
     assert (ts_Connected t);
     (r, s, b) \<leftarrow> ssl_write E (bio_of E t) bs (ts_Context t) b;
     Some (r, t\<lparr>ts_Context := s\<rparr>, b)
   }"

definition tls_GetForeignIP ::
  "('w, 'c, 'l, 's, 'g, 'x, 'd, 'p) tls_env \<Rightarrow> 's tls_socket \<Rightarrow> ('c, 'l, 'w) io \<Rightarrow> u8 list option option" where
  "tls_GetForeignIP E t b =
     (case ts_Socket t of None \<Rightarrow> Some None | Some p \<Rightarrow> GetForeignIP E p (fst b) (snd b))"

end
