(* ===== verification/Ssl_Programs.thy ===== *)
theory Ssl_Programs
  imports Tls_Socket
begin

text \<open>
  The example programs of mbed TLS that run on the network functions of this library: the client
  \<open>samples/mbedtls/01-https-client1/ssl_client1.c\<close>, which fetches one page, and the server
  \<open>samples/mbedtls/03-https-server1/ssl_server.c\<close>, which answers one connection after the other. Both
  are one function \<open>tlsmain\<close> with labels, split here at the labels and the loops.

  The results are doubly optional where a loop is involved: \<open>None\<close> is a loop that does not end,
  \<open>Some None\<close> a failure. What the programs print is a list of messages; the fixed texts are left out.
\<close>

definition and_then :: "'a option option \<Rightarrow> ('a \<Rightarrow> 'b option option) \<Rightarrow> 'b option option" where
  "and_then m f = (case m of None \<Rightarrow> None | Some None \<Rightarrow> Some None | Some (Some x) \<Rightarrow> f x)"

lemma and_then_simps [simp]:
  "and_then None f = None" "and_then (Some None) f = Some None" "and_then (Some (Some x)) f = f x"
  by (simp_all add: and_then_def)

subsection \<open>Library\<close>

text \<open>
  The functions and data of mbed TLS that only these programs use. \<open>'k\<close> is \<open>mbedtls_pk_context\<close>,
  \<open>'h\<close> \<open>mbedtls_ssl_cache_context\<close>. \<open>crt_next\<close> is the rest of a chain (the field \<open>next\<close>).
\<close>

record ('s, 'g, 'x, 'k, 'h) ssl_env =
  ERR_SSL_PEER_CLOSE_NOTIFY :: int
  ERR_NET_CONN_RESET :: int
  SSL_IS_SERVER :: int
  SSL_VERIFY_OPTIONAL :: int
  test_cas_pem :: "u8 list"
  test_srv_crt :: "u8 list"
  test_srv_key :: "u8 list"
  crt_next :: "'x \<Rightarrow> 'x"
  pk_init :: 'k
  pk_parse_key :: "u8 list \<Rightarrow> 'k \<Rightarrow> int \<times> 'k"
  ssl_cache_init :: 'h
  ssl_conf_session_cache :: "'h \<Rightarrow> 'g \<Rightarrow> 'g"
  ssl_conf_own_cert :: "'x \<Rightarrow> 'k \<Rightarrow> 'g \<Rightarrow> int \<times> 'g"
  ssl_session_reset :: "'s \<Rightarrow> int \<times> 's"
  ssl_get_ciphersuite :: "'s \<Rightarrow> cstring"

text \<open>\<open>mbedtls_ssl_set_bio\<close> with the network functions on a context.\<close>

definition net_bio :: "('w, 'c, 'l, 's, 'g, 'x, 'd, 'p) tls_env \<Rightarrow> int \<Rightarrow> ('c, 'l, 'w) bio" where
  "net_bio E fd = \<lparr>
     bio_recv = (\<lambda>n (h, w). map_option (\<lambda>(r, bs, h, w). (r, bs, h, w)) (mbedtls_net_recv (socks E) fd n h w)),
     bio_send = (\<lambda>bs (h, w). map_option (\<lambda>(r, _, h, w). (r, h, w)) (mbedtls_net_send (socks E) fd bs h w))\<rparr>"

abbreviation wants :: "('w, 'c, 'l, 's, 'g, 'x, 'd, 'p) tls_env \<Rightarrow> int \<Rightarrow> bool" where
  "wants E ret \<equiv> ret = ERR_SSL_WANT_READ E \<or> ret = ERR_SSL_WANT_WRITE E"

datatype ssl_message =
    Verify_failed u32
  | Bytes_written int cstring
  | Bytes_read int cstring
  | Read_ended int
  | Last_error int

definition last_error :: "int \<Rightarrow> ssl_message list" where
  "last_error ret = (if ret \<noteq> 0 then [Last_error ret] else [])"

subsection \<open>Steps of both programs\<close>

text \<open>\<open>unsigned char buf[1024]\<close> and \<open>sprintf\<close> into it: the buffer and the length.\<close>

definition BUF_SIZE :: nat where "BUF_SIZE = 1024"

definition sprintf_buf :: "u8 list \<Rightarrow> cstring \<Rightarrow> (u8 list \<times> nat) option" where
  "sprintf_buf buf str = map_option (\<lambda>buf. (buf, length str)) (put_block buf 0 (str @ [0]))"

text \<open>One round of a read loop: \<open>memset\<close> and \<open>mbedtls_ssl_read\<close> of all but the last byte.\<close>

definition read_buf ::
  "('w, 'c, 'l, 's, 'g, 'x, 'd, 'p) tls_env \<Rightarrow> ('c, 'l, 'w) bio \<Rightarrow> 's \<Rightarrow> ('c, 'l, 'w) io \<Rightarrow>
     (int \<times> u8 list \<times> 's \<times> ('c, 'l, 'w) io) option" where
  "read_buf E bio ssl b = do {
     (ret, bs, ssl, b) \<leftarrow> ssl_read E bio (BUF_SIZE - 1) ssl b;
     buf \<leftarrow> put_block (replicate BUF_SIZE 0) 0 bs;
     Some (ret, buf, ssl, b)
   }"

text \<open>The loop around \<open>mbedtls_ssl_write\<close>; a code of \<open>stop\<close> ends it in any case.\<close>

partial_function (option) write_loop ::
  "('w, 'c, 'l, 's, 'g, 'x, 'd, 'p) tls_env \<Rightarrow> int set \<Rightarrow> ('c, 'l, 'w) bio \<Rightarrow> u8 list \<Rightarrow> 's \<Rightarrow> ('c, 'l, 'w) io \<Rightarrow>
     (int \<times> 's \<times> ('c, 'l, 'w) io) option option" where
  "write_loop E stop bio bs ssl b =
     (case ssl_write E bio bs ssl b of
        None \<Rightarrow> Some None
      | Some (ret, ssl, b) \<Rightarrow>
          if ret \<le> 0 \<and> ret \<notin> stop \<and> wants E ret then write_loop E stop bio bs ssl b
          else Some (Some (ret, ssl, b)))"

subsection \<open>Client\<close>

definition SERVER_PORT :: cstring where "SERVER_PORT = cstr ''443''"

definition SERVER_NAME :: cstring where "SERVER_NAME = cstr ''elinux.org''"

definition crlf :: cstring where "crlf = [13, 10]"

definition GET_REQUEST :: cstring where
  "GET_REQUEST = cstr ''GET /Main_Page HTTP/1.1'' @ crlf @ cstr ''Host: '' @ SERVER_NAME @ crlf @ crlf"

definition client1_setup ::
  "('w, 'c, 'l, 's, 'g, 'x, 'd, 'p) tls_env \<Rightarrow> ('s, 'g, 'x, 'k, 'h) ssl_env \<Rightarrow> 'x \<Rightarrow> 'd \<Rightarrow> int \<times> 's" where
  "client1_setup E X cacert ctr_drbg =
     (let ssl = ssl_init E;
          (ret, conf) = ssl_config_defaults E (SSL_IS_CLIENT E) (SSL_TRANSPORT_STREAM E) (SSL_PRESET_DEFAULT E)
            (ssl_config_init E)
      in if ret \<noteq> 0 then (ret, ssl)
         else let conf = ssl_conf_authmode E (SSL_VERIFY_OPTIONAL X) conf;
                  conf = ssl_conf_ca_chain E cacert conf;
                  conf = ssl_conf_rng E ctr_drbg conf;
                  conf = ssl_conf_dbg E conf;
                  (ret, ssl) = ssl_setup E conf ssl
              in if ret \<noteq> 0 then (ret, ssl) else ssl_set_hostname E SERVER_NAME ssl)"

partial_function (option) client1_read ::
  "('w, 'c, 'l, 's, 'g, 'x, 'd, 'p) tls_env \<Rightarrow> ('s, 'g, 'x, 'k, 'h) ssl_env \<Rightarrow> ('c, 'l, 'w) bio \<Rightarrow>
     ssl_message list \<Rightarrow> 's \<Rightarrow> ('c, 'l, 'w) io \<Rightarrow>
     (int \<times> ssl_message list \<times> 's \<times> ('c, 'l, 'w) io) option option" where
  "client1_read E X bio out ssl b =
     (case read_buf E bio ssl b of
        None \<Rightarrow> Some None
      | Some (ret, buf, ssl, b) \<Rightarrow>
          if wants E ret then client1_read E X bio out ssl b
          else if ret = ERR_SSL_PEER_CLOSE_NOTIFY X then Some (Some (ret, out, ssl, b))
          else if ret < 0 then Some (Some (ret, out @ [Read_ended ret], ssl, b))
          else if ret = 0 then Some (Some (ret, out @ [Read_ended ret], ssl, b))
          else (case c_str_at buf 0 of
                  None \<Rightarrow> Some None
                | Some str \<Rightarrow> client1_read E X bio (out @ [Bytes_read ret str]) ssl b))"

text \<open>
  From the handshake to \<open>exit\<close>: the code, the messages and the state of the network. The result of the
  verification is only printed.
\<close>

definition client1_session ::
  "('w, 'c, 'l, 's, 'g, 'x, 'd, 'p) tls_env \<Rightarrow> ('s, 'g, 'x, 'k, 'h) ssl_env \<Rightarrow> u8 list \<Rightarrow> int \<Rightarrow> 's \<Rightarrow>
     ('c, 'l, 'w) io \<Rightarrow> (int \<times> ssl_message list \<times> ('c, 'l, 'w) io) option option" where
  "client1_session E X buf server_fd ssl b =
     (let bio = net_bio E server_fd
      in and_then (handshake_loop E bio ssl b) (\<lambda>(ret, ssl, b).
           if ret \<noteq> 0 then Some (Some (ret, [], b))
           else let flags = ssl_get_verify_result E ssl;
                    out = (if flags \<noteq> 0 then [Verify_failed flags] else [])
                in and_then (Some (sprintf_buf buf GET_REQUEST)) (\<lambda>(buf, len).
                   and_then (write_loop E {} bio (take len buf) ssl b) (\<lambda>(ret, ssl, b).
                     if ret \<le> 0 then Some (Some (ret, out, b))
                     else and_then (Some (c_str_at buf 0)) (\<lambda>str.
                       and_then (client1_read E X bio (out @ [Bytes_written ret str]) ssl b) (\<lambda>(ret, out, ssl, b).
                         Some (map_option (\<lambda>(_, _, b). (ret, out, b)) (ssl_close_notify E bio ssl b))))))))"

definition client1_exit ::
  "('w, 'c, 'l, 's, 'g, 'x, 'd, 'p) tls_env \<Rightarrow> int \<Rightarrow> int \<times> ssl_message list \<times> ('c, 'l, 'w) io \<Rightarrow>
     (int \<times> ssl_message list \<times> ('c, 'l, 'w) io) option option" where
  "client1_exit E server_fd = (\<lambda>(ret, out, h, w).
     Some (map_option (\<lambda>(_, h, w). (ret, out @ last_error ret, h, w)) (mbedtls_net_free (socks E) server_fd h w)))"

text \<open>\<open>mem\<close> is the memory of the receive buffer of a new socket object, \<open>buf\<close> the uninitialised \<open>buf\<close>.\<close>

definition ssl_client1 ::
  "('w, 'c, 'l, 's, 'g, 'x, 'd, 'p) tls_env \<Rightarrow> ('s, 'g, 'x, 'k, 'h) ssl_env \<Rightarrow> u8 list \<Rightarrow> u8 list \<Rightarrow>
     ('c, 'l, 'w) io \<Rightarrow> (int \<times> ssl_message list \<times> ('c, 'l, 'w) io) option option" where
  "ssl_client1 E X mem buf = (\<lambda>(h, w).
     let server_fd = mbedtls_net_init
     in (case ctr_drbg_seed E (cstr ''ssl_client1'') (ctr_drbg_init E) w of (ret, ctr_drbg, w) \<Rightarrow>
           if ret \<noteq> 0 then client1_exit E server_fd (ret, [], h, w)
           else (case x509_crt_parse E (test_cas_pem X) (x509_crt_init E) of (ret, cacert) \<Rightarrow>
             if ret < 0 then client1_exit E server_fd (ret, [], h, w)
             else and_then (Some (mbedtls_net_connect (socks E) mem server_fd SERVER_NAME SERVER_PORT
                              (NET_PROTO_TCP E) h w)) (\<lambda>(ret, server_fd, h, w).
               if ret \<noteq> 0 then client1_exit E server_fd (ret, [], h, w)
               else (case client1_setup E X cacert ctr_drbg of (ret, ssl) \<Rightarrow>
                 if ret \<noteq> 0 then client1_exit E server_fd (ret, [], h, w)
                 else and_then (client1_session E X buf server_fd ssl (h, w)) (client1_exit E server_fd))))))"

subsection \<open>Server\<close>

definition HTTP_RESPONSE :: "cstring \<Rightarrow> cstring" where
  "HTTP_RESPONSE ciphersuite =
     cstr ''HTTP/1.0 200 OK'' @ crlf @ cstr ''Content-Type: text/html'' @ crlf @ crlf @
     cstr ''<h2>mbed TLS Test Server</h2>'' @ crlf @
     cstr ''<p>Successful connection using: '' @ ciphersuite @ cstr ''</p>'' @ crlf"

text \<open>The variables that live across the jumps to \<open>reset\<close>, and the state of the network.\<close>

record ('c, 'l, 'w, 's) server_state =
  sv_ret :: int
  sv_client :: int
  sv_ssl :: 's
  sv_buf :: "u8 list"
  sv_out :: "ssl_message list"
  sv_io :: "('c, 'l, 'w) io"

datatype label = Goto_reset | Goto_exit

definition server_configure ::
  "('w, 'c, 'l, 's, 'g, 'x, 'd, 'p) tls_env \<Rightarrow> ('s, 'g, 'x, 'k, 'h) ssl_env \<Rightarrow> 'x \<Rightarrow> 'k \<Rightarrow> 'd \<Rightarrow> int \<times> 's" where
  "server_configure E X srvcert pkey ctr_drbg =
     (let ssl = ssl_init E;
          (ret, conf) = ssl_config_defaults E (SSL_IS_SERVER X) (SSL_TRANSPORT_STREAM E) (SSL_PRESET_DEFAULT E)
            (ssl_config_init E)
      in if ret \<noteq> 0 then (ret, ssl)
         else let conf = ssl_conf_rng E ctr_drbg conf;
                  conf = ssl_conf_dbg E conf;
                  conf = ssl_conf_session_cache X (ssl_cache_init X) conf;
                  conf = ssl_conf_ca_chain E (crt_next X srvcert) conf;
                  (ret, conf) = ssl_conf_own_cert X srvcert pkey conf
              in if ret \<noteq> 0 then (ret, ssl) else ssl_setup E conf ssl)"

text \<open>Up to the label \<open>reset\<close>: the descriptor of the listener and the state with the code.\<close>

definition server_setup ::
  "('w, 'c, 'l, 's, 'g, 'x, 'd, 'p) tls_env \<Rightarrow> ('s, 'g, 'x, 'k, 'h) ssl_env \<Rightarrow> u8 list \<Rightarrow> u8 list \<Rightarrow>
     ('c, 'l, 'w) io \<Rightarrow> (int \<times> ('c, 'l, 'w, 's) server_state) option" where
  "server_setup E X mem buf = (\<lambda>(h, w).
     let st = (\<lambda>ret ssl h w. \<lparr>sv_ret = ret, sv_client = mbedtls_net_init, sv_ssl = ssl, sv_buf = buf, sv_out = [],
                 sv_io = (h, w)\<rparr>);
         listen_fd = mbedtls_net_init
     in (case x509_crt_parse E (test_srv_crt X) (x509_crt_init E) of (ret, srvcert) \<Rightarrow>
           if ret \<noteq> 0 then Some (listen_fd, st ret (ssl_init E) h w)
           else (case x509_crt_parse E (test_cas_pem X) srvcert of (ret, srvcert) \<Rightarrow>
             if ret \<noteq> 0 then Some (listen_fd, st ret (ssl_init E) h w)
             else (case pk_parse_key X (test_srv_key X) (pk_init X) of (ret, pkey) \<Rightarrow>
               if ret \<noteq> 0 then Some (listen_fd, st ret (ssl_init E) h w)
               else do {
                 (ret, listen_fd, h, w) \<leftarrow>
                   mbedtls_net_bind (socks E) mem listen_fd None (cstr ''443'') (NET_PROTO_TCP E) h w;
                 if ret \<noteq> 0 then Some (listen_fd, st ret (ssl_init E) h w)
                 else (case ctr_drbg_seed E (cstr ''ssl_server'') (ctr_drbg_init E) w of (ret, ctr_drbg, w) \<Rightarrow>
                   if ret \<noteq> 0 then Some (listen_fd, st ret (ssl_init E) h w)
                   else (case server_configure E X srvcert pkey ctr_drbg of (ret, ssl) \<Rightarrow>
                     Some (listen_fd, st ret ssl h w)))
               }))))"

partial_function (option) server_read ::
  "('w, 'c, 'l, 's, 'g, 'x, 'd, 'p) tls_env \<Rightarrow> ('c, 'l, 'w) bio \<Rightarrow> 's \<Rightarrow> ('c, 'l, 'w) io \<Rightarrow>
     (ssl_message \<times> u8 list \<times> 's \<times> ('c, 'l, 'w) io) option option" where
  "server_read E bio ssl b =
     (case read_buf E bio ssl b of
        None \<Rightarrow> Some None
      | Some (ret, buf, ssl, b) \<Rightarrow>
          if wants E ret then server_read E bio ssl b
          else if ret \<le> 0 then Some (Some (Read_ended ret, buf, ssl, b))
          else (case c_str_at buf 0 of
                  None \<Rightarrow> Some None
                | Some str \<Rightarrow> Some (Some (Bytes_read ret str, buf, ssl, b))))"

partial_function (option) close_loop ::
  "('w, 'c, 'l, 's, 'g, 'x, 'd, 'p) tls_env \<Rightarrow> ('c, 'l, 'w) bio \<Rightarrow> 's \<Rightarrow> ('c, 'l, 'w) io \<Rightarrow>
     (int \<times> 's \<times> ('c, 'l, 'w) io) option option" where
  "close_loop E bio ssl b =
     (case ssl_close_notify E bio ssl b of
        None \<Rightarrow> Some None
      | Some (ret, ssl, b) \<Rightarrow>
          if ret < 0 \<and> wants E ret then close_loop E bio ssl b else Some (Some (ret, ssl, b)))"

text \<open>
  An accepted connection: handshake, one read, the response, the end of the connection. The response
  is written whatever the read returned.
\<close>

definition server_connection ::
  "('w, 'c, 'l, 's, 'g, 'x, 'd, 'p) tls_env \<Rightarrow> ('s, 'g, 'x, 'k, 'h) ssl_env \<Rightarrow>
     ('c, 'l, 'w, 's) server_state \<Rightarrow> (label \<times> ('c, 'l, 'w, 's) server_state) option option" where
  "server_connection E X st =
     (let bio = net_bio E (sv_client st)
      in and_then (handshake_loop E bio (sv_ssl st) (sv_io st)) (\<lambda>(ret, ssl, b).
           let st = st\<lparr>sv_ret := ret, sv_ssl := ssl, sv_io := b\<rparr>
           in if ret \<noteq> 0 then Some (Some (Goto_reset, st))
              else and_then (server_read E bio ssl b) (\<lambda>(msg, buf, ssl, b).
                   and_then (Some (sprintf_buf buf (HTTP_RESPONSE (ssl_get_ciphersuite X ssl)))) (\<lambda>(buf, len).
                   let st = st\<lparr>sv_buf := buf, sv_out := sv_out st @ [msg]\<rparr>
                   in and_then (write_loop E {ERR_NET_CONN_RESET X} bio (take len buf) ssl b) (\<lambda>(ret, ssl, b).
                        let st = st\<lparr>sv_ret := ret, sv_ssl := ssl, sv_io := b\<rparr>
                        in if ret \<le> 0 \<and> ret = ERR_NET_CONN_RESET X then Some (Some (Goto_reset, st))
                           else if ret \<le> 0 then Some (Some (Goto_exit, st))
                           else and_then (Some (c_str_at buf 0)) (\<lambda>str.
                                let st = st\<lparr>sv_out := sv_out st @ [Bytes_written ret str]\<rparr>
                                in and_then (close_loop E bio ssl b) (\<lambda>(ret, ssl, b).
                                     Some (Some (Goto_reset,
                                       st\<lparr>sv_ret := (if ret < 0 then ret else 0), sv_ssl := ssl, sv_io := b\<rparr>)))))))))"

text \<open>From the label \<open>reset\<close> to the next jump.\<close>

definition server_cycle ::
  "('w, 'c, 'l, 's, 'g, 'x, 'd, 'p) tls_env \<Rightarrow> ('s, 'g, 'x, 'k, 'h) ssl_env \<Rightarrow> u8 list \<Rightarrow> int \<Rightarrow>
     ('c, 'l, 'w, 's) server_state \<Rightarrow> (label \<times> ('c, 'l, 'w, 's) server_state) option option" where
  "server_cycle E X mem listen_fd st =
     (let st = st\<lparr>sv_out := sv_out st @ last_error (sv_ret st)\<rparr>
      in and_then (Some (mbedtls_net_free (socks E) (sv_client st) (fst (sv_io st)) (snd (sv_io st)))) (\<lambda>(client_fd, h, w).
         let ssl = snd (ssl_session_reset X (sv_ssl st))
         in and_then (Some (mbedtls_net_accept (socks E) mem listen_fd client_fd None h w)) (\<lambda>(ret, client_fd, _, h, w).
              let st = st\<lparr>sv_ret := ret, sv_client := client_fd, sv_ssl := ssl, sv_io := (h, w)\<rparr>
              in if ret \<noteq> 0 then Some (Some (Goto_exit, st)) else server_connection E X st)))"

partial_function (option) server_loop ::
  "('w, 'c, 'l, 's, 'g, 'x, 'd, 'p) tls_env \<Rightarrow> ('s, 'g, 'x, 'k, 'h) ssl_env \<Rightarrow> u8 list \<Rightarrow> int \<Rightarrow>
     ('c, 'l, 'w, 's) server_state \<Rightarrow> ('c, 'l, 'w, 's) server_state option option" where
  "server_loop E X mem listen_fd st =
     (case server_cycle E X mem listen_fd st of
        None \<Rightarrow> None
      | Some None \<Rightarrow> Some None
      | Some (Some (Goto_reset, st)) \<Rightarrow> server_loop E X mem listen_fd st
      | Some (Some (Goto_exit, st)) \<Rightarrow> Some (Some st))"

definition server_exit ::
  "('w, 'c, 'l, 's, 'g, 'x, 'd, 'p) tls_env \<Rightarrow> int \<Rightarrow> ('c, 'l, 'w, 's) server_state \<Rightarrow>
     (int \<times> ssl_message list \<times> ('c, 'l, 'w) io) option" where
  "server_exit E listen_fd st = do {
     (_, h, w) \<leftarrow> mbedtls_net_free (socks E) (sv_client st) (fst (sv_io st)) (snd (sv_io st));
     (_, h, w) \<leftarrow> mbedtls_net_free (socks E) listen_fd h w;
     Some (sv_ret st, sv_out st @ last_error (sv_ret st), h, w)
   }"

definition ssl_server ::
  "('w, 'c, 'l, 's, 'g, 'x, 'd, 'p) tls_env \<Rightarrow> ('s, 'g, 'x, 'k, 'h) ssl_env \<Rightarrow> u8 list \<Rightarrow> u8 list \<Rightarrow>
     ('c, 'l, 'w) io \<Rightarrow> (int \<times> ssl_message list \<times> ('c, 'l, 'w) io) option option" where
  "ssl_server E X mem buf b =
     and_then (Some (server_setup E X mem buf b)) (\<lambda>(listen_fd, st).
       if sv_ret st \<noteq> 0 then Some (server_exit E listen_fd st)
       else and_then (server_loop E X mem listen_fd st) (\<lambda>st. Some (server_exit E listen_fd st)))"

end
