(* ===== verification/Net_Sockets_Inv.thy ===== *)
theory Net_Sockets_Inv
  imports Net_Sockets
begin

text \<open>
  The interface of the adapted sockets to Circle as locales, and in them: the receive buffer refines
  a byte stream, the table of handles and the objects stay consistent, reads with a timeout end.
\<close>

subsection \<open>The interface to Circle\<close>

text \<open>\<open>CSocket::Receive\<close> fills at most the buffer it is given and returns the number of bytes;
  error codes are negative.\<close>

locale socket_provider = ptr_array "array_ops E" entries
  for E :: "('w, 'c, 'l) sock_env" and entries :: "'l \<Rightarrow> nat option list" +
  assumes Receive_frame:
      "cs_Receive E c (frame_size E) f w = ((r, bs), w') \<Longrightarrow> 0 < r \<Longrightarrow>
         int (length bs) = r \<and> length bs \<le> frame_size E"
    and frame_bound: "frame_size E < 2 ^ 31"
    and accept_codes: "ERR_NET_ACCEPT_FAILED E < 0" "ERR_SSL_ALLOC_FAILED E < 0"

subsection \<open>The receive buffer\<close>

definition buf_ok :: "('w, 'c, 'l) sock_env \<Rightarrow> 'c adapted_socket \<Rightarrow> bool" where
  "buf_ok E s \<longleftrightarrow> length (as_RxBuffer s) = frame_size E \<and> as_RxBytesUsed s \<le> as_RxBytesValid s \<and>
     as_RxBytesValid s \<le> frame_size E"

definition pending :: "'c adapted_socket \<Rightarrow> u8 list" where
  "pending s = take (as_RxBytesValid s - as_RxBytesUsed s) (drop (as_RxBytesUsed s) (as_RxBuffer s))"

definition advance :: "nat \<Rightarrow> 'c adapted_socket \<Rightarrow> 'c adapted_socket" where
  "advance n s = s\<lparr>as_RxBytesUsed := as_RxBytesUsed s + n\<rparr>"

definition load :: "u8 list \<Rightarrow> 'c adapted_socket \<Rightarrow> 'c adapted_socket" where
  "load bs s = s\<lparr>as_RxBuffer := bs @ drop (length bs) (as_RxBuffer s), as_RxBytesValid := length bs,
     as_RxBytesUsed := 0\<rparr>"

lemma advance_fields [simp]:
  "as_Socket (advance n s) = as_Socket s" "as_Handle (advance n s) = as_Handle s"
  "as_Block (advance n s) = as_Block s"
  by (simp_all add: advance_def)

lemma load_fields [simp]:
  "as_Socket (load bs s) = as_Socket s" "as_Handle (load bs s) = as_Handle s" "as_Block (load bs s) = as_Block s"
  by (simp_all add: load_def)

lemma length_pending: "buf_ok E s \<Longrightarrow> length (pending s) = as_RxBytesValid s - as_RxBytesUsed s"
  by (auto simp: buf_ok_def pending_def)

lemma buf_ok_advance: "buf_ok E s \<Longrightarrow> n \<le> length (pending s) \<Longrightarrow> buf_ok E (advance n s)"
  by (auto simp: buf_ok_def pending_def advance_def)

lemma pending_advance: "pending (advance n s) = drop n (pending s)"
  by (simp add: pending_def advance_def drop_take add.commute)

lemma drop_min_length [simp]: "drop (min (length xs) n) xs = drop n xs"
  by (cases "n \<le> length xs") (simp_all add: min_def)

lemma load_ok: "buf_ok E s \<Longrightarrow> length bs \<le> frame_size E \<Longrightarrow> buf_ok E (load bs s)"
  by (simp add: buf_ok_def load_def)

lemma pending_load [simp]: "pending (load bs s) = bs"
  by (simp add: pending_def load_def)

context socket_provider
begin

lemma avail: "buf_ok E s \<Longrightarrow> wrap32 (as_RxBytesValid s + 2 ^ 32 - as_RxBytesUsed s) = length (pending s)"
  using frame_bound wrap32_sub [of "as_RxBytesUsed s" "as_RxBytesValid s"]
  by (simp only: length_pending) (simp add: buf_ok_def)

lemma take_buffered_ok:
  assumes "buf_ok E s"
  shows "take_buffered n s = Some (int (length (take n (pending s))), take n (pending s),
    advance (length (take n (pending s))) s)"
proof -
  let ?k = "min (length (pending s)) n"
  have l: "length (pending s) = as_RxBytesValid s - as_RxBytesUsed s" by (rule length_pending [OF assms])
  have "get_block (as_RxBuffer s) (as_RxBytesUsed s) ?k = Some (take ?k (drop (as_RxBytesUsed s) (as_RxBuffer s)))"
    using assms l by (intro get_block_in) (auto simp: buf_ok_def)
  also have "take ?k (drop (as_RxBytesUsed s) (as_RxBuffer s)) = take n (pending s)"
    unfolding l by (simp add: pending_def min.commute)
  finally have g: "get_block (as_RxBuffer s) (as_RxBytesUsed s) ?k = Some (take n (pending s))" .
  have "(if n > length (pending s) then length (pending s) else n) = ?k" by simp
  then show ?thesis
    unfolding take_buffered_def avail [OF assms] Let_def by (simp add: g advance_def)
qed

lemma fill_buffer_ok:
  "buf_ok E s \<Longrightarrow> length bs \<le> frame_size E \<Longrightarrow> r = int (length bs) \<Longrightarrow> fill_buffer r bs s = Some (load bs s)"
  by (simp add: fill_buffer_def put_block_in load_def buf_ok_def)

lemma receive_frame_ok:
  assumes "buf_ok E s" "cs_Receive E c (frame_size E) f w = ((r, bs), w')" "0 < r"
  shows "fill_buffer r bs s = Some (load bs s)" "buf_ok E (load bs s)" "bs \<noteq> []"
  using Receive_frame [OF assms(2,3)] assms(1,3) by (auto intro: fill_buffer_ok load_ok)

end

subsection \<open>Reading as a byte stream\<close>

text \<open>
  The reference: what is pending is returned first; a new frame is fetched only when nothing is
  pending.
\<close>

definition stream_read ::
  "('w, 'c, 'l) sock_env \<Rightarrow> 'c \<Rightarrow> bool \<Rightarrow> nat \<Rightarrow> u8 list \<times> 'w \<Rightarrow> (int \<times> u8 list) \<times> u8 list \<times> 'w" where
  "stream_read E c block n = (\<lambda>(p, w).
     if p \<noteq> [] then ((int (length (take n p)), take n p), drop n p, w)
     else case cs_Receive E c (frame_size E) (\<not> block) w of ((r, bs), w) \<Rightarrow>
       if r = 0 then ((ERR_SSL_WANT_READ E, []), [], sched_Yield E w)
       else if r < 0 then ((0, []), [], w)
       else ((int (length (take n bs)), take n bs), drop n bs, w))"

context socket_provider
begin

lemma ReceiveBuf_avail:
  assumes "buf_ok E s"
  shows "ReceiveBuf E n s w =
     (if pending s = []
      then case cs_Receive E (as_Socket s) (frame_size E) (\<not> as_Block s) w of ((nResult, bs), w) \<Rightarrow>
        if nResult = 0 then Some (ERR_SSL_WANT_READ E, [], s, sched_Yield E w)
        else if nResult < 0 then Some (0, [], s, w)
        else do { s \<leftarrow> fill_buffer nResult bs s; (n, data, s) \<leftarrow> take_buffered n s; Some (n, data, s, w) }
      else do { (n, data, s) \<leftarrow> take_buffered n s; Some (n, data, s, w) })"
  unfolding ReceiveBuf_def avail [OF assms] by simp

lemma ReceiveBuf_refines:
  assumes "buf_ok E s" "stream_read E (as_Socket s) (as_Block s) n (pending s, w) = ((r, bs), p, w')"
  shows "\<exists>s'. ReceiveBuf E n s w = Some (r, bs, s', w') \<and> buf_ok E s' \<and> pending s' = p \<and>
    as_Socket s' = as_Socket s \<and> as_Handle s' = as_Handle s \<and> as_Block s' = as_Block s"
proof (cases "pending s = []")
  case False
  then show ?thesis
    using assms by (auto simp: ReceiveBuf_avail take_buffered_ok stream_read_def pending_advance
      intro!: buf_ok_advance)
next
  case True
  obtain x ds w1 where rcv: "cs_Receive E (as_Socket s) (frame_size E) (\<not> as_Block s) w = ((x, ds), w1)"
    by (metis surj_pair)
  consider "x = 0" | "x < 0" | "0 < x" by linarith
  then show ?thesis
  proof cases
    case 3
    note load = receive_frame_ok [OF assms(1) rcv 3]
    show ?thesis
      using assms True rcv 3 load
      by (auto simp: ReceiveBuf_avail take_buffered_ok stream_read_def pending_advance intro!: buf_ok_advance)
  qed (use assms True rcv in \<open>auto simp: ReceiveBuf_avail stream_read_def\<close>)
qed

end

subsection \<open>The table of handles\<close>

definition slot :: "nat option list \<Rightarrow> nat \<Rightarrow> nat option" where
  "slot es i = (if i < length es then es ! i else None)"

context ptr_array
begin

lemma free_slot_Some: "free_slot A a i = Some j \<Longrightarrow> j < length (entries a) \<and> slot (entries a) j = None"
proof (induction "length (entries a) - i" arbitrary: i)
  case 0
  then show ?case by (simp add: free_slot.simps GetCount)
next
  case (Suc k)
  have "free_slot A a (Suc i) = Some j \<Longrightarrow> j < length (entries a) \<and> slot (entries a) j = None"
    using Suc.hyps by (intro Suc.hyps(1)) auto
  then show ?case
    using Suc.prems by (auto simp: free_slot.simps [of A a i] GetCount At slot_def split: if_splits)
qed

lemma AddSocket_slots:
  assumes "AddSocket A p a = (j, a')"
  shows "slot (entries a) j = None \<and> j < length (entries a') \<and> length (entries a) \<le> length (entries a') \<and>
    slot (entries a') = (slot (entries a))(j := Some p)"
proof (cases "free_slot A a 0")
  case None
  then have "j = length (entries a)" "entries a' = entries a @ [Some p]"
    using assms Append [of a "Some p"] by (auto simp: AddSocket_def)
  then show ?thesis
    by (auto simp: slot_def nth_append)
next
  case (Some i)
  then have "j = i" "j < length (entries a)" "entries a' = (entries a)[j := Some p]" "slot (entries a) j = None"
    using assms Set free_slot_Some [OF Some] by (auto simp: AddSocket_def)
  then show ?thesis
    by (auto simp: slot_def)
qed

lemma DeleteSocket_slots:
  assumes "i < length (entries a)"
  shows "\<exists>a'. DeleteSocket A (int i) a = Some a' \<and> length (entries a') = length (entries a) \<and>
    slot (entries a') = (slot (entries a))(i := None)"
  using assms by (auto simp: DeleteSocket_def Set slot_def GetCount)

lemma GetSocket_slot: "fd < int (length (entries a)) \<Longrightarrow>
    GetSocket A fd a = Some (if fd < 0 then None else slot (entries a) (nat fd))"
  by (auto simp: GetSocket_def At slot_def GetCount nat_less_iff)

end

text \<open>
  Occupied slots and live objects correspond one to one: the slot of an object is its handle. The
  descriptors of the contexts stay inside the table.
\<close>

definition table_ok :: "(nat \<Rightarrow> nat option) \<Rightarrow> ('c, 'l) socket_heap \<Rightarrow> bool" where
  "table_ok t h \<longleftrightarrow>
     (\<forall>i p. t i = Some p \<longrightarrow> (\<exists>s. sh_objects h p = Some s \<and> as_Handle s = int i)) \<and>
     (\<forall>p s. sh_objects h p = Some s \<longrightarrow> p < sh_next h \<and> (\<exists>i. as_Handle s = int i \<and> t i = Some p))"

definition net_inv ::
  "('w, 'c, 'l) sock_env \<Rightarrow> ('l \<Rightarrow> nat option list) \<Rightarrow> ('c, 'l, 'w) net_state \<Rightarrow> bool" where
  "net_inv E entries n \<longleftrightarrow> table_ok (slot (entries (s_SocketArray (nc_heap n)))) (nc_heap n) \<and>
     (\<forall>p s. sh_objects (nc_heap n) p = Some s \<longrightarrow> buf_ok E s) \<and>
     (\<forall>c. nc_ctx n c < int (length (entries (s_SocketArray (nc_heap n)))))"

lemma table_ok_new:
  assumes "table_ok t h" "t i = None" "as_Handle s = int i" "p = sh_next h"
    "sh_objects h' = (sh_objects h)(p \<mapsto> s)" "sh_next h' = Suc p"
  shows "table_ok (t(i \<mapsto> p)) h'"
  using assms unfolding table_ok_def
  by (auto simp: less_Suc_eq) (metis less_irrefl option.distinct(1))+

lemma table_ok_delete:
  assumes "table_ok t h" "sh_objects h p = Some s" "as_Handle s = int i"
    "sh_objects h' = (sh_objects h)(p := None)" "sh_next h' = sh_next h"
  shows "table_ok (t(i := None)) h'"
  using assms unfolding table_ok_def by (auto) (metis option.inject of_nat_eq_iff)+

lemma table_ok_update:
  assumes "table_ok t h" "sh_objects h p = Some s" "as_Handle s' = as_Handle s"
    "sh_objects h' = (sh_objects h)(p \<mapsto> s')" "sh_next h' = sh_next h"
  shows "table_ok t h'"
  using assms unfolding table_ok_def by auto (metis option.inject)

text \<open>A descriptor is the handle of a live object, or its slot is empty.\<close>

context socket_provider
begin

lemma net_inv_fd:
  assumes "net_inv E entries n"
  obtains "GetSocket (array_ops E) (nc_ctx n c) (s_SocketArray (nc_heap n)) = Some None"
  | p s where "GetSocket (array_ops E) (nc_ctx n c) (s_SocketArray (nc_heap n)) = Some (Some p)"
      "sh_objects (nc_heap n) p = Some s" "buf_ok E s" "as_Handle s = nc_ctx n c"
proof -
  have g: "GetSocket (array_ops E) (nc_ctx n c) (s_SocketArray (nc_heap n)) =
      Some (if nc_ctx n c < 0 then None else slot (entries (s_SocketArray (nc_heap n))) (nat (nc_ctx n c)))"
    using assms by (intro GetSocket_slot) (simp add: net_inv_def)
  show thesis
  proof (cases "if nc_ctx n c < 0 then None else slot (entries (s_SocketArray (nc_heap n))) (nat (nc_ctx n c))")
    case (Some p)
    then have fd: "0 \<le> nc_ctx n c" "slot (entries (s_SocketArray (nc_heap n))) (nat (nc_ctx n c)) = Some p"
      by (auto split: if_splits)
    then obtain s where "sh_objects (nc_heap n) p = Some s" "as_Handle s = int (nat (nc_ctx n c))"
      using assms unfolding net_inv_def table_ok_def by blast
    then have "sh_objects (nc_heap n) p = Some s" "as_Handle s = nc_ctx n c" using fd(1) by simp_all
    then show thesis using g Some assms that(2) by (auto simp: net_inv_def)
  qed (use that(1) g in simp)
qed

lemma net_inv_update:
  assumes "net_inv E entries n" "sh_objects (nc_heap n) p = Some s" "as_Handle s' = as_Handle s" "buf_ok E s'"
  shows "net_inv E entries (n\<lparr>nc_heap := (nc_heap n)\<lparr>sh_objects := (sh_objects (nc_heap n))(p \<mapsto> s')\<rparr>,
    nc_world := w, nc_out := os\<rparr>)"
  using assms by (auto simp: net_inv_def intro: table_ok_update)

lemma on_socket_inv:
  assumes "net_inv E entries n"
    and f: "\<And>s w. buf_ok E s \<Longrightarrow> \<exists>r bs s' w'. f s w = Some (r, bs, s', w') \<and> buf_ok E s' \<and> as_Handle s' = as_Handle s"
  shows "\<exists>n'. returned n (on_socket E (nc_ctx n c) f (nc_heap n) (nc_world n)) = Some n' \<and> net_inv E entries n'"
proof (cases rule: net_inv_fd [OF assms(1), of c, case_names no_object object])
  case no_object
  then show ?thesis using assms(1) by (simp add: returned_def on_socket_def net_inv_def)
next
  case (object p s)
  then show ?thesis
    using f [OF object(3), of "nc_world n"] net_inv_update [OF assms(1) object(2)]
    by (auto simp: returned_def on_socket_def)
qed

lemma construct_slots:
  assumes "construct E mem cs h = (p, h')"
  shows "\<exists>i s. p = sh_next h \<and> sh_next h' = Suc p \<and> sh_objects h' = (sh_objects h)(p \<mapsto> s) \<and> as_Handle s = int i \<and>
     slot (entries (s_SocketArray h)) i = None \<and> i < length (entries (s_SocketArray h')) \<and>
     length (entries (s_SocketArray h)) \<le> length (entries (s_SocketArray h')) \<and>
     slot (entries (s_SocketArray h')) = (slot (entries (s_SocketArray h)))(i \<mapsto> p) \<and>
     as_Socket s = cs \<and> as_RxBuffer s = mem \<and> as_RxBytesValid s = 0 \<and> as_RxBytesUsed s = 0 \<and> as_Block s"
proof -
  obtain j a where add: "AddSocket (array_ops E) (sh_next h) (s_SocketArray h) = (j, a)" by (metis surj_pair)
  show ?thesis
    using assms AddSocket_slots [OF add]
    by (intro exI [of _ j] exI [of _ "\<lparr>as_Socket = cs, as_Handle = int j, as_RxBuffer = mem,
          as_RxBytesValid = 0, as_RxBytesUsed = 0, as_Block = True\<rparr>"]) (auto simp: construct_def add Let_def)
qed

lemma open_inv:
  assumes "net_inv E entries n" "length mem = frame_size E"
  shows "\<exists>p h w' fd s. CAdaptedSocket_new E mem (proto_tcp E) (nc_heap n) w = Some (p, h, w') \<and>
     GetHandle p h = Some fd \<and> 0 \<le> fd \<and> sh_objects h p = Some s \<and>
     (\<forall>w'' os. net_inv E entries
        (n\<lparr>nc_ctx := (nc_ctx n)(c := fd), nc_heap := h, nc_world := w'', nc_out := os\<rparr>))"
proof -
  obtain cs w' where new: "cs_new E (proto_tcp E) w = (cs, w')" by (metis surj_pair)
  obtain p h where con: "construct E mem cs (nc_heap n) = (p, h)" by (metis surj_pair)
  obtain i s where x: "p = sh_next (nc_heap n)" "sh_next h = Suc p" "sh_objects h = (sh_objects (nc_heap n))(p \<mapsto> s)"
      "as_Handle s = int i" "slot (entries (s_SocketArray (nc_heap n))) i = None"
      "i < length (entries (s_SocketArray h))"
      "length (entries (s_SocketArray (nc_heap n))) \<le> length (entries (s_SocketArray h))"
      "slot (entries (s_SocketArray h)) = (slot (entries (s_SocketArray (nc_heap n))))(i \<mapsto> p)"
      "as_RxBuffer s = mem" "as_RxBytesValid s = 0" "as_RxBytesUsed s = 0"
    using construct_slots [OF con] by blast
  have t: "table_ok ((slot (entries (s_SocketArray (nc_heap n))))(i \<mapsto> p)) h"
    using assms(1) x by (intro table_ok_new [where h = "nc_heap n"]) (auto simp: net_inv_def)
  have "buf_ok E s" using x assms(2) by (simp add: buf_ok_def)
  then have "net_inv E entries (n\<lparr>nc_ctx := (nc_ctx n)(c := int i), nc_heap := h, nc_world := w'', nc_out := os\<rparr>)"
    for w'' os
    using assms(1) x t unfolding net_inv_def by auto (meson less_le_trans of_nat_le_iff)
  then show ?thesis using new con x by (auto simp: CAdaptedSocket_new_def GetHandle_def)
qed

lemma free_inv:
  assumes "net_inv E entries n"
  shows "\<exists>h w. mbedtls_net_free E (nc_ctx n c) (nc_heap n) (nc_world n) = Some (-1, h, w) \<and>
     net_inv E entries (n\<lparr>nc_ctx := (nc_ctx n)(c := -1), nc_heap := h, nc_world := w\<rparr>)"
proof (cases rule: net_inv_fd [OF assms, of c, case_names no_object object])
  case no_object
  have "net_inv E entries (n\<lparr>nc_ctx := (nc_ctx n)(c := -1)\<rparr>)"
    using assms by (simp add: net_inv_def)
  then show ?thesis using no_object by (simp add: mbedtls_net_free_def)
next
  case (object p s)
  let ?a = "s_SocketArray (nc_heap n)"
  obtain i where i: "as_Handle s = int i" "slot (entries ?a) i = Some p"
    using assms object(2) unfolding net_inv_def table_ok_def by blast
  then have "i < length (entries ?a)" by (simp add: slot_def split: if_splits)
  then obtain a' where del: "DeleteSocket (array_ops E) (int i) ?a = Some a'"
      "length (entries a') = length (entries ?a)" "slot (entries a') = (slot (entries ?a))(i := None)"
    using DeleteSocket_slots by blast
  have t: "table_ok ((slot (entries ?a))(i := None))
      ((nc_heap n)\<lparr>s_SocketArray := a', sh_objects := (sh_objects (nc_heap n))(p := None)\<rparr>)"
    using assms object(2) i(1) by (intro table_ok_delete [where h = "nc_heap n"]) (auto simp: net_inv_def)
  show ?thesis
    using assms object i del t
    by (auto simp: mbedtls_net_free_def CAdaptedSocket_delete_def net_inv_def split: if_splits)
qed

lemma connect_inv:
  assumes "net_inv E entries n" "length mem = frame_size E"
  shows "\<exists>n'. opened n c (mbedtls_net_connect E mem (nc_ctx n c) host port proto (nc_heap n) (nc_world n)) = Some n' \<and>
    net_inv E entries n'"
proof -
  obtain ok w where ok: "obj_new E (nc_world n) = (ok, w)" by (metis surj_pair)
  obtain p h w' fd s where x: "CAdaptedSocket_new E mem (proto_tcp E) (nc_heap n) w = Some (p, h, w')"
      "GetHandle p h = Some fd" "0 \<le> fd" "sh_objects h p = Some s"
      "\<forall>w'' os. net_inv E entries (n\<lparr>nc_ctx := (nc_ctx n)(c := fd), nc_heap := h, nc_world := w'', nc_out := os\<rparr>)"
    using open_inv [OF assms, of w c] by blast
  obtain r w2 where "Connect_host E host port s w' = (r, w2)" by (metis surj_pair)
  then show ?thesis
    using assms(1) ok x by (auto simp: opened_def mbedtls_net_connect_def net_inv_def)
qed

lemma bind_inv:
  assumes "net_inv E entries n" "length mem = frame_size E"
  shows "\<exists>n'. opened n c (mbedtls_net_bind E mem (nc_ctx n c) ip port proto (nc_heap n) (nc_world n)) = Some n' \<and>
    net_inv E entries n'"
proof -
  obtain ok w where ok: "obj_new E (nc_world n) = (ok, w)" by (metis surj_pair)
  obtain p h w' fd s where x: "CAdaptedSocket_new E mem (proto_tcp E) (nc_heap n) w = Some (p, h, w')"
      "GetHandle p h = Some fd" "0 \<le> fd" "sh_objects h p = Some s"
      "\<forall>w'' os. net_inv E entries (n\<lparr>nc_ctx := (nc_ctx n)(c := fd), nc_heap := h, nc_world := w'', nc_out := os\<rparr>)"
    using open_inv [OF assms, of w c] by blast
  obtain r w2 where "Bind E port s w' = (r, w2)" by (metis surj_pair)
  then show ?thesis
    using assms(1) ok x by (auto simp: opened_def mbedtls_net_bind_def net_inv_def)
qed

lemma ReceiveBuf_total:
  assumes "buf_ok E s"
  shows "\<exists>r bs s' w'. ReceiveBuf E n s w = Some (r, bs, s', w') \<and> buf_ok E s' \<and> as_Handle s' = as_Handle s"
proof -
  obtain r bs p w' where "stream_read E (as_Socket s) (as_Block s) n (pending s, w) = ((r, bs), p, w')"
    by (metis surj_pair)
  from ReceiveBuf_refines [OF assms this] show ?thesis by blast
qed

end

subsection \<open>Reads with a timeout\<close>

text \<open>
  \<open>clock\<close> is the time in ticks, without the wrap-around of \<open>CTimer::GetTicks\<close>. Time does not run
  backwards, a round of the polling loop takes less than \<open>2^31\<close> ticks, and time does not stand still
  while the loop polls.
\<close>

definition poll :: "('w, 'c, 'l) sock_env \<Rightarrow> 'c \<Rightarrow> bool \<Rightarrow> 'w \<Rightarrow> 'w" where
  "poll E c f w = snd (timer_Ticks E (sched_Yield E (snd (cs_Receive E c (frame_size E) f w))))"

locale clocked_sockets = socket_provider E entries
  for E :: "('w, 'c, 'l) sock_env" and entries :: "'l \<Rightarrow> nat option list" +
  fixes clock :: "'w \<Rightarrow> nat"
  assumes Ticks: "timer_Ticks E w = (t, w') \<Longrightarrow> t = of_nat (clock w) \<and> clock w' = clock w"
    and poll_forward: "clock w \<le> clock (poll E c f w)" "clock (poll E c f w) < clock w + 2 ^ 31"
    and poll_progress: "\<exists>k. m \<le> clock ((poll E c f ^^ k) w)"

lemma elapsed_word:
  assumes "a \<le> b" "b < a + 2 ^ 32"
  shows "(hz \<le> (of_nat b :: u32) - of_nat a) = (a + unat hz \<le> b)"
proof -
  have "(of_nat b :: u32) - of_nat a = of_nat (b - a)" using assms(1) by simp
  moreover have "b - a < 2 ^ 32" using assms by simp
  then have "unat (of_nat (b - a) :: u32) = b - a" by (simp only: unat_of_nat take_bit_nat_eq_self_iff) simp
  ultimately show ?thesis using assms(1) by (auto simp: word_le_nat_alt)
qed

context clocked_sockets
begin

lemma timeout_loop_ends:
  assumes "start \<le> clock w" "clock w \<le> start + unat hz" "unat hz \<le> 2 ^ 31"
    "start + unat hz \<le> clock ((poll E c (ms \<noteq> 0) ^^ k) w)"
  shows "\<exists>x w'. timeout_loop E c ms hz (of_nat start) w = Some (x, w') \<and>
    (case x of Inl code \<Rightarrow> code = 0 \<or> code = ERR_SSL_TIMEOUT E \<and> start + unat hz \<le> clock w'
     | Inr (r, bs) \<Rightarrow> 0 < r \<and> (\<exists>w0. cs_Receive E c (frame_size E) (ms \<noteq> 0) w0 = ((r, bs), w')))"
  using assms
proof (induction k arbitrary: w)
  case 0
  obtain r bs w1 where rcv: "cs_Receive E c (frame_size E) (ms \<noteq> 0) w = ((r, bs), w1)" by (metis surj_pair)
  obtain t w2 where tick: "timer_Ticks E (sched_Yield E w1) = (t, w2)" by (metis surj_pair)
  have p: "poll E c (ms \<noteq> 0) w = w2" using rcv tick by (simp add: poll_def)
  have "clock w2 < start + 2 ^ 32" "start \<le> clock w2" "start + unat hz \<le> clock w2"
    using poll_forward [where w = w and c = c and f = "ms \<noteq> 0"] "0.prems" by (simp_all add: p)
  moreover have "t = of_nat (clock w2)" using Ticks [OF tick] by simp
  ultimately have "hz \<le> t - of_nat start" using elapsed_word [of start "clock w2" hz] by simp
  then show ?case
    using rcv tick \<open>start + unat hz \<le> clock w2\<close>
    by (subst timeout_loop.simps) (cases "r = 0"; cases "r < 0"; auto)
next
  case (Suc k)
  obtain r bs w1 where rcv: "cs_Receive E c (frame_size E) (ms \<noteq> 0) w = ((r, bs), w1)" by (metis surj_pair)
  obtain t w2 where tick: "timer_Ticks E (sched_Yield E w1) = (t, w2)" by (metis surj_pair)
  have p: "poll E c (ms \<noteq> 0) w = w2" using rcv tick by (simp add: poll_def)
  have b: "clock w2 < start + 2 ^ 32" "start \<le> clock w2"
    using poll_forward [where w = w and c = c and f = "ms \<noteq> 0"] Suc.prems by (simp_all add: p)
  moreover have t: "t = of_nat (clock w2)" using Ticks [OF tick] by simp
  ultimately have el: "hz \<le> t - of_nat start \<longleftrightarrow> start + unat hz \<le> clock w2"
    using elapsed_word [of start "clock w2" hz] by simp
  show ?case
  proof (cases "r = 0 \<and> clock w2 < start + unat hz")
    case True
    have "start + unat hz \<le> clock ((poll E c (ms \<noteq> 0) ^^ k) w2)"
      using Suc.prems(4) by (simp only: funpow_Suc_right comp_def p)
    from Suc.IH [OF b(2) _ Suc.prems(3) this] True show ?thesis
      using rcv tick el by (subst timeout_loop.simps) (auto simp: not_le)
  next
    case False
    then show ?thesis
      using rcv tick el by (subst timeout_loop.simps) (cases "r = 0"; cases "r < 0"; auto)
  qed
qed

lemma ReceiveTimeout_ends:
  assumes "buf_ok E s" "unat (msec_hz E ms) \<le> 2 ^ 31"
  shows "\<exists>r bs s' w'. ReceiveTimeout E n ms s w = Some (Some (r, bs, s', w')) \<and> buf_ok E s' \<and>
    as_Handle s' = as_Handle s \<and>
    (if pending s \<noteq> [] then r = int (length bs) \<and> bs @ pending s' = pending s \<and> w' = w
     else r = ERR_SSL_TIMEOUT E \<and> bs = [] \<and> s' = s \<and> clock w + unat (msec_hz E ms) \<le> clock w'
       \<or> r = 0 \<and> bs = [] \<and> s' = s
       \<or> (\<exists>w0 ds. r = int (length bs) \<and> bs @ pending s' = ds \<and>
           cs_Receive E (as_Socket s) (frame_size E) (ms \<noteq> 0) w0 = ((int (length ds), ds), w')))"
proof (cases "pending s = []")
  case False
  have "wrap32 (as_RxBytesValid s + 2 ^ 32 - as_RxBytesUsed s) \<noteq> 0" unfolding avail [OF assms(1)] using False by simp
  then have "ReceiveTimeout E n ms s w =
      Some (do { (n, data, s) \<leftarrow> take_buffered n s; Some (n, data, s, w) })" unfolding ReceiveTimeout_def by (rule if_not_P)
  then show ?thesis
    using False assms(1) by (auto simp: take_buffered_ok pending_advance intro!: buf_ok_advance)
next
  case True
  let ?hz = "msec_hz E ms"
  obtain t w1 where tick: "timer_Ticks E w = (t, w1)" by (metis surj_pair)
  then have t: "t = of_nat (clock w)" "clock w1 = clock w" using Ticks by blast+
  obtain k where "clock w1 + unat ?hz \<le> clock ((poll E (as_Socket s) (ms \<noteq> 0) ^^ k) w1)" using poll_progress by blast
  then obtain x w' where loop: "timeout_loop E (as_Socket s) ms ?hz t w1 = Some (x, w')"
      and x: "case x of Inl code \<Rightarrow> code = 0 \<or> code = ERR_SSL_TIMEOUT E \<and> clock w + unat ?hz \<le> clock w'
        | Inr (r, bs) \<Rightarrow> 0 < r \<and> (\<exists>w0. cs_Receive E (as_Socket s) (frame_size E) (ms \<noteq> 0) w0 = ((r, bs), w'))"
    using timeout_loop_ends [where start = "clock w1" and w = w1 and hz = ?hz and c = "as_Socket s" and ms = ms and k = k] assms(2)
    by (simp only: t le_refl le_add1 if_True) blast
  have z: "wrap32 (as_RxBytesValid s + 2 ^ 32 - as_RxBytesUsed s) = 0" unfolding avail [OF assms(1)] using True by simp
  show ?thesis
  proof (cases x)
    case (Inl code)
    have "ReceiveTimeout E n ms s w = Some (Some (code, [], s, w'))"
      unfolding ReceiveTimeout_def if_P [OF z] using tick loop Inl by simp
    then show ?thesis using True assms(1) x Inl by auto
  next
    case (Inr rb)
    obtain r ds where rb: "rb = (r, ds)" by (metis surj_pair)
    then obtain w0 where rcv: "0 < r" "cs_Receive E (as_Socket s) (frame_size E) (ms \<noteq> 0) w0 = ((r, ds), w')"
      using x Inr by auto
    note load = receive_frame_ok [OF assms(1) rcv(2,1)]
    have r: "r = int (length ds)" using Receive_frame [OF rcv(2,1)] by simp
    obtain s' bs where s': "ReceiveTimeout E n ms s w = Some (Some (int (length bs), bs, s', w'))"
        "buf_ok E s'" "as_Handle s' = as_Handle s" "bs @ pending s' = ds"
    proof
      show "ReceiveTimeout E n ms s w = Some (Some (int (length (take n ds)), take n ds,
          advance (length (take n ds)) (load ds s), w'))"
        unfolding ReceiveTimeout_def if_P [OF z] using tick loop Inr rb load by (simp add: take_buffered_ok)
      show "buf_ok E (advance (length (take n ds)) (load ds s))"
        using load(2) by (intro buf_ok_advance) auto
    qed (simp_all add: pending_advance)
    have "\<exists>w0 ds. int (length bs) = int (length bs) \<and> bs @ pending s' = ds \<and>
        cs_Receive E (as_Socket s) (frame_size E) (ms \<noteq> 0) w0 = ((int (length ds), ds), w')"
      using rcv(2) r s'(4) by blast
    then show ?thesis using s' True by (intro exI [of _ "int (length bs)"] exI [of _ bs] exI [of _ s'] exI [of _ w']) simp
  qed
qed

end

end
