(* ===== verification/Net_Heap.thy ===== *)
theory Net_Heap
  imports Net_Sockets_Inv
begin

text \<open>
  Programs on network contexts: they keep the heap of socket objects and the contexts consistent and
  never fail, with accepted connections and reads with a timeout too; the reads on a context return
  the byte stream the socket delivered.
\<close>

subsection \<open>Heaps with slots of deleted objects\<close>

text \<open>
  \<open>Accept\<close> registers an object twice, so the table of handles is not one to one with the objects once
  a connection was accepted; \<open>heap_ok\<close> is the invariant that remains.
\<close>

definition heap_ok ::
  "('w, 'c, 'l) sock_env \<Rightarrow> ('l \<Rightarrow> nat option list) \<Rightarrow> ('c, 'l) socket_heap \<Rightarrow> bool" where
  "heap_ok E entries h \<longleftrightarrow>
     (\<forall>p s. sh_objects h p = Some s \<longrightarrow> p < sh_next h \<and> buf_ok E s \<and>
        (\<exists>i. as_Handle s = int i \<and> slot (entries (s_SocketArray h)) i = Some p)) \<and>
     (\<forall>i p. slot (entries (s_SocketArray h)) i = Some p \<longrightarrow> p < sh_next h)"

text \<open>The slots whose object has been deleted.\<close>

definition dangling :: "('l \<Rightarrow> nat option list) \<Rightarrow> ('c, 'l) socket_heap \<Rightarrow> nat set" where
  "dangling entries h = {i. \<exists>p. slot (entries (s_SocketArray h)) i = Some p \<and> sh_objects h p = None}"

text \<open>What the callbacks of a connection leave as it was.\<close>

definition same_shape :: "('w, 'c, 'l) sock_env \<Rightarrow> ('c, 'l) socket_heap \<Rightarrow> ('c, 'l) socket_heap \<Rightarrow> bool" where
  "same_shape E h0 h \<longleftrightarrow> s_SocketArray h = s_SocketArray h0 \<and> sh_next h = sh_next h0 \<and>
     (\<forall>p. map_option as_Handle (sh_objects h p) = map_option as_Handle (sh_objects h0 p)) \<and>
     (\<forall>p s. sh_objects h p = Some s \<longrightarrow> buf_ok E s)"

lemma slot_bound: "slot es i = Some p \<Longrightarrow> i < length es"
  by (simp add: slot_def split: if_splits)

lemma dangling_finite: "finite (dangling entries h)"
  by (rule finite_subset [of _ "{..<length (entries (s_SocketArray h))}"]) (auto simp: dangling_def dest: slot_bound)

lemma heap_okD:
  assumes "heap_ok E entries h" "sh_objects h p = Some s"
  obtains i where "as_Handle s = int i" "slot (entries (s_SocketArray h)) i = Some p" "p < sh_next h" "buf_ok E s"
  using assms unfolding heap_ok_def by blast

lemma shape_refl: "heap_ok E entries h \<Longrightarrow> same_shape E h h"
  by (auto simp: same_shape_def heap_ok_def)

lemma shape_object:
  assumes "same_shape E h0 h" "sh_objects h0 p = Some s0"
  obtains s where "sh_objects h p = Some s" "as_Handle s = as_Handle s0" "buf_ok E s"
proof -
  have "map_option as_Handle (sh_objects h p) = Some (as_Handle s0)" using assms by (simp add: same_shape_def)
  then show thesis using that assms(1) by (auto simp: same_shape_def)
qed

lemma shape_dom: "same_shape E h0 h \<Longrightarrow> dom (sh_objects h) = dom (sh_objects h0)"
  unfolding same_shape_def dom_def by (metis (no_types, lifting) option.map_disc_iff)

lemma shape_None: "same_shape E h0 h \<Longrightarrow> (sh_objects h p = None) = (sh_objects h0 p = None)"
  using shape_dom [of E h0 h] by blast

lemma shape_dangling: "same_shape E h0 h \<Longrightarrow> dangling entries h = dangling entries h0"
  by (simp add: dangling_def shape_None) (simp add: same_shape_def)

lemma shape_heap_ok:
  assumes "same_shape E h0 h" "heap_ok E entries h0"
  shows "heap_ok E entries h"
proof -
  have "p < sh_next h \<and> buf_ok E s \<and> (\<exists>i. as_Handle s = int i \<and> slot (entries (s_SocketArray h)) i = Some p)"
    if s: "sh_objects h p = Some s" for p s
  proof -
    obtain s0 where "sh_objects h0 p = Some s0" using shape_None [OF assms(1), of p] s by auto
    then show ?thesis
      using heap_okD [OF assms(2)] shape_object [OF assms(1)] s assms(1)
      by (metis (no_types, lifting) option.inject same_shape_def)
  qed
  then show ?thesis using assms by (auto simp: heap_ok_def same_shape_def)
qed

lemma shape_update:
  assumes "same_shape E h0 h" "sh_objects h p = Some s" "as_Handle s' = as_Handle s" "buf_ok E s'"
  shows "same_shape E h0 (h\<lparr>sh_objects := (sh_objects h)(p \<mapsto> s')\<rparr>)"
proof -
  have "map_option as_Handle (sh_objects h0 p) = Some (as_Handle s)"
    using assms(1,2) unfolding same_shape_def by (metis option.simps(9))
  then show ?thesis using assms by (auto simp: same_shape_def)
qed

text \<open>A context of a live object, or one that was initialised or freed.\<close>

definition fd_ok :: "('l \<Rightarrow> nat option list) \<Rightarrow> ('c, 'l) socket_heap \<Rightarrow> int \<Rightarrow> bool" where
  "fd_ok entries h fd \<longleftrightarrow> fd < 0 \<or> (\<exists>p s. slot (entries (s_SocketArray h)) (nat fd) = Some p \<and> sh_objects h p = Some s)"

lemma shape_fd_ok: "same_shape E h0 h \<Longrightarrow> fd_ok entries h0 fd \<Longrightarrow> fd_ok entries h fd"
  unfolding fd_ok_def using shape_object by (metis (no_types, lifting) same_shape_def)

context socket_provider
begin

lemma GetSocket_negative [simp]: "fd < 0 \<Longrightarrow> GetSocket (array_ops E) fd a = Some None"
  by (simp add: GetSocket_def)

lemma GetSocket_held: "0 \<le> fd \<Longrightarrow> slot (entries a) (nat fd) = Some p \<Longrightarrow> GetSocket (array_ops E) fd a = Some (Some p)"
  using GetSocket_slot [of fd a] slot_bound [of "entries a" "nat fd" p] by simp

lemma on_socket_shape:
  assumes "same_shape E h0 h" "fd_ok entries h0 fd"
    and f: "\<And>s w. buf_ok E s \<Longrightarrow> \<exists>r bs s' w'. f s w = Some (r, bs, s', w') \<and> buf_ok E s' \<and> as_Handle s' = as_Handle s"
  shows "\<exists>r bs h' w'. on_socket E fd f h w = Some (r, bs, h', w') \<and> same_shape E h0 h'"
proof (cases "fd < 0")
  case True
  then show ?thesis using assms(1) by (simp add: on_socket_def)
next
  case False
  then obtain p s where p: "slot (entries (s_SocketArray h)) (nat fd) = Some p" "sh_objects h p = Some s"
    using shape_fd_ok [OF assms(1,2)] by (auto simp: fd_ok_def)
  then have "buf_ok E s" using assms(1) by (simp add: same_shape_def)
  from f [OF this, of w] show ?thesis
    using p False GetSocket_held shape_update [OF assms(1) p(2)] by (auto simp: on_socket_def)
qed

lemma recv_shape:
  assumes "same_shape E h0 h" "fd_ok entries h0 fd"
  shows "\<exists>r bs h' w'. mbedtls_net_recv E fd n h w = Some (r, bs, h', w') \<and> same_shape E h0 h'"
  using on_socket_shape [OF assms, of "ReceiveBuf E n"] ReceiveBuf_total by (simp add: mbedtls_net_recv_def)

lemma send_shape:
  assumes "same_shape E h0 h" "fd_ok entries h0 fd"
  shows "\<exists>r bs h' w'. mbedtls_net_send E fd ds h w = Some (r, bs, h', w') \<and> same_shape E h0 h'"
  using on_socket_shape [OF assms] by (simp add: mbedtls_net_send_def split: prod.splits)

subsubsection \<open>New and deleted objects\<close>

lemma construct_heap_ok:
  assumes "heap_ok E entries h" "length mem = frame_size E" "construct E mem cs h = (p, h')"
  obtains i s where "heap_ok E entries h'" "sh_objects h' = (sh_objects h)(p \<mapsto> s)" "as_Handle s = int i"
    "sh_objects h p = None" "p = sh_next h" "sh_next h' = Suc p" "slot (entries (s_SocketArray h)) i = None"
    "slot (entries (s_SocketArray h')) = (slot (entries (s_SocketArray h)))(i \<mapsto> p)"
proof -
  obtain i s where x: "p = sh_next h" "sh_next h' = Suc p" "sh_objects h' = (sh_objects h)(p \<mapsto> s)"
      "as_Handle s = int i" "slot (entries (s_SocketArray h)) i = None"
      "slot (entries (s_SocketArray h')) = (slot (entries (s_SocketArray h)))(i \<mapsto> p)"
      "as_RxBuffer s = mem" "as_RxBytesValid s = 0" "as_RxBytesUsed s = 0"
    using construct_slots [OF assms(3)] by blast
  have "buf_ok E s" using x assms(2) by (simp add: buf_ok_def)
  moreover have "sh_objects h p = None" using assms(1) x(1) unfolding heap_ok_def by (meson less_irrefl not_None_eq)
  moreover have "heap_ok E entries h'"
    using assms(1) x \<open>buf_ok E s\<close> unfolding heap_ok_def
    by (auto simp: less_Suc_eq split: if_splits) (metis option.distinct(1))+
  ultimately show thesis using that x by blast
qed

lemma free_negative: "fd < 0 \<Longrightarrow> mbedtls_net_free E fd h w = Some (-1, h, w)"
  by (simp add: mbedtls_net_free_def)

lemma free_heap_ok:
  assumes "heap_ok E entries h" "0 \<le> fd" "slot (entries (s_SocketArray h)) (nat fd) = Some p"
    "sh_objects h p = Some s" "as_Handle s = int i"
  obtains h' w' where "mbedtls_net_free E fd h w = Some (-1, h', w')" "heap_ok E entries h'"
    "sh_objects h' = (sh_objects h)(p := None)" "sh_next h' = sh_next h"
    "slot (entries (s_SocketArray h')) = (slot (entries (s_SocketArray h)))(i := None)"
proof -
  have i: "slot (entries (s_SocketArray h)) i = Some p" using heap_okD [OF assms(1,4)] assms(5) by auto
  then obtain a' where del: "DeleteSocket (array_ops E) (int i) (s_SocketArray h) = Some a'"
      "slot (entries a') = (slot (entries (s_SocketArray h)))(i := None)"
    using DeleteSocket_slots slot_bound by metis
  let ?h = "h\<lparr>s_SocketArray := a', sh_objects := (sh_objects h)(p := None)\<rparr>"
  have "mbedtls_net_free E fd h w = Some (-1, ?h, cs_delete E (as_Socket s) w)"
    using GetSocket_held [OF assms(2,3)] assms(4,5) del(1)
    by (simp add: mbedtls_net_free_def CAdaptedSocket_delete_def)
  moreover have "heap_ok E entries ?h"
    using assms(1) i del(2) unfolding heap_ok_def by (auto) (metis option.inject)
  ultimately show thesis using that del(2) by simp
qed

end

subsection \<open>Programs on contexts\<close>

text \<open>
  What every program keeps, with \<open>mbedtls_net_accept\<close> too: the heap is consistent, a context is
  negative or its slot holds a live object, and two contexts never hold the same object.
\<close>

definition ctx_inv ::
  "('w, 'c, 'l) sock_env \<Rightarrow> ('l \<Rightarrow> nat option list) \<Rightarrow> ('c, 'l, 'w) net_state \<Rightarrow> bool" where
  "ctx_inv E entries n \<longleftrightarrow> heap_ok E entries (nc_heap n) \<and> (\<forall>c. fd_ok entries (nc_heap n) (nc_ctx n c)) \<and>
     (\<forall>c d. c \<noteq> d \<longrightarrow> 0 \<le> nc_ctx n c \<longrightarrow> 0 \<le> nc_ctx n d \<longrightarrow>
        slot (entries (s_SocketArray (nc_heap n))) (nat (nc_ctx n c)) \<noteq>
        slot (entries (s_SocketArray (nc_heap n))) (nat (nc_ctx n d)))"

text \<open>The one call that may not return: a read with a timeout on a network on which time stands still.\<close>

definition call_returns :: "('w, 'c, 'l) sock_env \<Rightarrow> net_call \<Rightarrow> ('c, 'l, 'w) net_state \<Rightarrow> bool" where
  "call_returns E call n \<longleftrightarrow> (\<forall>c len ms. call = NetRecvTimeout c len ms \<longrightarrow>
     mbedtls_net_recv_timeout E (nc_ctx n c) len ms (nc_heap n) (nc_world n) \<noteq> None)"

context socket_provider
begin

lemma timeout_loop_frame:
  assumes "timeout_loop E c ms hz t w = Some (Inr (r, bs), w')"
  shows "0 < r \<and> (\<exists>w0. cs_Receive E c (frame_size E) (ms \<noteq> 0) w0 = ((r, bs), w'))"
proof -
  let ?P = "\<lambda>E' c' ms' (hz' :: u32) (t' :: u32) (u :: 'w) x. \<forall>r bs v. E' = E \<longrightarrow> c' = c \<longrightarrow> ms' = ms \<longrightarrow> x = (Inr (r, bs), v) \<longrightarrow>
      0 < r \<and> (\<exists>w0. cs_Receive E c (frame_size E) (ms \<noteq> 0) w0 = ((r, bs), v))"
  have "?P E c ms hz t w x" if "timeout_loop E c ms hz t w = Some x" for x
  proof (rule timeout_loop.raw_induct [where P = ?P, OF _ that], goal_cases)
    case (1 loop E' c' ms' hz' t' u x)
    obtain y ds v where rcv: "cs_Receive E' c' (frame_size E') (ms' \<noteq> 0) u = ((y, ds), v)" by (metis surj_pair)
    obtain tt v' where tick: "timer_Ticks E' (sched_Yield E' v) = (tt, v')" by (metis surj_pair)
    show ?case
    proof (cases "y = 0 \<and> \<not> hz' \<le> tt - t'")
      case True
      then have "loop E' c' ms' hz' t' v' = Some x" using 1(2) rcv tick by simp
      then show ?thesis by (rule 1(1))
    next
      case False
      then show ?thesis using 1(2) rcv tick by (auto split: if_splits)
    qed
  qed
  from this [OF assms] show ?thesis by blast
qed

lemma ReceiveTimeout_keeps:
  assumes "buf_ok E s" "ReceiveTimeout E len ms s w = Some x"
  shows "\<exists>r bs s' w'. x = Some (r, bs, s', w') \<and> buf_ok E s' \<and> as_Handle s' = as_Handle s"
proof (cases "pending s = []")
  case False
  then have "wrap32 (as_RxBytesValid s + 2 ^ 32 - as_RxBytesUsed s) \<noteq> 0" unfolding avail [OF assms(1)] by simp
  from assms(2) [unfolded ReceiveTimeout_def if_not_P [OF this]] show ?thesis
    using assms(1) by (auto simp: take_buffered_ok intro!: buf_ok_advance)
next
  case True
  then have z: "wrap32 (as_RxBytesValid s + 2 ^ 32 - as_RxBytesUsed s) = 0" unfolding avail [OF assms(1)] by simp
  obtain t w1 where tick: "timer_Ticks E w = (t, w1)" by (metis surj_pair)
  obtain y w2 where loop: "timeout_loop E (as_Socket s) ms (msec_hz E ms) t w1 = Some (y, w2)"
    using assms(2) [unfolded ReceiveTimeout_def if_P [OF z]] tick
    by (cases "timeout_loop E (as_Socket s) ms (msec_hz E ms) t w1") auto
  show ?thesis
  proof (cases y)
    case (Inl code)
    then show ?thesis
      using assms(2) [unfolded ReceiveTimeout_def if_P [OF z]] tick loop assms(1) by auto
  next
    case (Inr rb)
    then obtain r ds w0 where rb: "rb = (r, ds)" "0 < r" "cs_Receive E (as_Socket s) (frame_size E) (ms \<noteq> 0) w0 = ((r, ds), w2)"
      using timeout_loop_frame loop by (metis surj_pair)
    note load = receive_frame_ok [OF assms(1) rb(3,2)]
    then show ?thesis
      using assms(2) [unfolded ReceiveTimeout_def if_P [OF z]] tick loop Inr rb(1)
      by (auto simp: take_buffered_ok intro!: buf_ok_advance)
  qed
qed

lemma ctx_inv_fd:
  assumes "ctx_inv E entries n"
  obtains "nc_ctx n c < 0" "GetSocket (array_ops E) (nc_ctx n c) (s_SocketArray (nc_heap n)) = Some None"
  | p s where "0 \<le> nc_ctx n c" "slot (entries (s_SocketArray (nc_heap n))) (nat (nc_ctx n c)) = Some p"
      "GetSocket (array_ops E) (nc_ctx n c) (s_SocketArray (nc_heap n)) = Some (Some p)"
      "sh_objects (nc_heap n) p = Some s" "buf_ok E s"
proof (cases "nc_ctx n c < 0")
  case False
  then obtain p s where p: "slot (entries (s_SocketArray (nc_heap n))) (nat (nc_ctx n c)) = Some p" "sh_objects (nc_heap n) p = Some s"
    using assms unfolding ctx_inv_def fd_ok_def by blast
  moreover have "buf_ok E s" using assms p(2) unfolding ctx_inv_def heap_ok_def by blast
  ultimately show thesis using that(2) GetSocket_held False by simp
qed (use that(1) in simp)

lemma ctx_inv_update:
  assumes "ctx_inv E entries n" "sh_objects (nc_heap n) p = Some s" "as_Handle s' = as_Handle s" "buf_ok E s'"
  shows "ctx_inv E entries (n\<lparr>nc_heap := (nc_heap n)\<lparr>sh_objects := (sh_objects (nc_heap n))(p \<mapsto> s')\<rparr>,
    nc_world := w, nc_out := os\<rparr>)"
proof -
  have "same_shape E (nc_heap n) ((nc_heap n)\<lparr>sh_objects := (sh_objects (nc_heap n))(p \<mapsto> s')\<rparr>)"
    using assms shape_refl [of E entries] by (intro shape_update) (auto simp: ctx_inv_def)
  then show ?thesis
    using assms(1) shape_heap_ok [of E "nc_heap n"] shape_fd_ok [of E "nc_heap n"] by (simp add: ctx_inv_def)
qed

lemma on_socket_ctx:
  assumes "ctx_inv E entries n"
    and f: "\<And>s w. buf_ok E s \<Longrightarrow> \<exists>r bs s' w'. f s w = Some (r, bs, s', w') \<and> buf_ok E s' \<and> as_Handle s' = as_Handle s"
  shows "\<exists>n'. returned n (on_socket E (nc_ctx n c) f (nc_heap n) (nc_world n)) = Some n' \<and> ctx_inv E entries n'"
proof (cases rule: ctx_inv_fd [OF assms(1), of c, case_names no_object object])
  case no_object
  then show ?thesis using assms(1) by (simp add: returned_def on_socket_def ctx_inv_def)
next
  case (object p s)
  then show ?thesis
    using f [OF object(5), of "nc_world n"] ctx_inv_update [OF assms(1) object(4)]
    by (auto simp: returned_def on_socket_def)
qed

text \<open>A context that gets a new object, registered once or twice.\<close>

lemma ctx_inv_new:
  assumes "ctx_inv E entries n" "heap_ok E entries h" "sh_objects h = (sh_objects (nc_heap n))(p \<mapsto> s)"
    "p = sh_next (nc_heap n)" "slot (entries (s_SocketArray h)) j = Some p"
    and keep: "\<And>i q. slot (entries (s_SocketArray (nc_heap n))) i = Some q \<Longrightarrow> slot (entries (s_SocketArray h)) i = Some q"
  shows "ctx_inv E entries (n\<lparr>nc_ctx := (nc_ctx n)(c := int j), nc_heap := h, nc_world := w, nc_out := os\<rparr>)"
proof -
  let ?t = "slot (entries (s_SocketArray (nc_heap n)))" and ?t' = "slot (entries (s_SocketArray h))"
  have fresh: "\<exists>q s. ?t (nat (nc_ctx n d)) = Some q \<and> ?t' (nat (nc_ctx n d)) = Some q \<and> q \<noteq> p \<and>
      sh_objects (nc_heap n) q = Some s" if "0 \<le> nc_ctx n d" for d
  proof -
    from assms(1) that obtain q s where "?t (nat (nc_ctx n d)) = Some q" "sh_objects (nc_heap n) q = Some s"
      unfolding ctx_inv_def fd_ok_def by (metis not_le)
    moreover from this(2) have "q < sh_next (nc_heap n)" using assms(1) unfolding ctx_inv_def heap_ok_def by blast
    ultimately show ?thesis using keep assms(4) by auto
  qed
  have "fd_ok entries h (((nc_ctx n)(c := int j)) d)" for d
  proof (cases "d = c \<or> nc_ctx n d < 0")
    case False
    then obtain q s' where "?t' (nat (nc_ctx n d)) = Some q" "q \<noteq> p" "sh_objects (nc_heap n) q = Some s'"
      using fresh [of d] by auto
    then show ?thesis using False assms(3) by (auto simp: fd_ok_def)
  qed (use assms(3,5) in \<open>auto simp: fd_ok_def\<close>)
  moreover have "?t' (nat (((nc_ctx n)(c := int j)) d)) \<noteq> ?t' (nat (((nc_ctx n)(c := int j)) e))"
    if "d \<noteq> e" "0 \<le> ((nc_ctx n)(c := int j)) d" "0 \<le> ((nc_ctx n)(c := int j)) e" for d e
  proof (cases "d = c \<or> e = c")
    case True
    then show ?thesis using that fresh [of d] fresh [of e] assms(5) by fastforce
  next
    case False
    then have "?t (nat (nc_ctx n d)) \<noteq> ?t (nat (nc_ctx n e))" using that assms(1) by (simp add: ctx_inv_def)
    then show ?thesis using False that fresh [of d] fresh [of e] by auto
  qed
  ultimately show ?thesis using assms(2) by (simp add: ctx_inv_def)
qed

lemma open_ctx:
  assumes "ctx_inv E entries n" "length mem = frame_size E"
  shows "\<exists>p h w' fd s. CAdaptedSocket_new E mem (proto_tcp E) (nc_heap n) w = Some (p, h, w') \<and>
     GetHandle p h = Some fd \<and> 0 \<le> fd \<and> sh_objects h p = Some s \<and>
     (\<forall>w'' os. ctx_inv E entries
        (n\<lparr>nc_ctx := (nc_ctx n)(c := fd), nc_heap := h, nc_world := w'', nc_out := os\<rparr>))"
proof -
  obtain cs w' where new: "cs_new E (proto_tcp E) w = (cs, w')" by (metis surj_pair)
  obtain p h where con: "construct E mem cs (nc_heap n) = (p, h)" by (metis surj_pair)
  have "heap_ok E entries (nc_heap n)" using assms(1) by (simp add: ctx_inv_def)
  from construct_heap_ok [OF this assms(2) con] obtain i s where x: "heap_ok E entries h"
      "sh_objects h = (sh_objects (nc_heap n))(p \<mapsto> s)" "as_Handle s = int i" "p = sh_next (nc_heap n)"
      "slot (entries (s_SocketArray (nc_heap n))) i = None"
      "slot (entries (s_SocketArray h)) = (slot (entries (s_SocketArray (nc_heap n))))(i \<mapsto> p)" by metis
  have "ctx_inv E entries (n\<lparr>nc_ctx := (nc_ctx n)(c := int i), nc_heap := h, nc_world := w'', nc_out := os\<rparr>)" for w'' os
    using x by (intro ctx_inv_new [OF assms(1) x(1,2,4)]) auto
  then show ?thesis using new con x by (auto simp: CAdaptedSocket_new_def GetHandle_def)
qed

lemma connect_ctx:
  assumes "ctx_inv E entries n" "length mem = frame_size E"
  shows "\<exists>n'. opened n c (mbedtls_net_connect E mem (nc_ctx n c) host port proto (nc_heap n) (nc_world n)) = Some n' \<and>
    ctx_inv E entries n'"
proof -
  obtain ok w where ok: "obj_new E (nc_world n) = (ok, w)" by (metis surj_pair)
  obtain p h w' fd s where x: "CAdaptedSocket_new E mem (proto_tcp E) (nc_heap n) w = Some (p, h, w')"
      "GetHandle p h = Some fd" "0 \<le> fd" "sh_objects h p = Some s"
      "\<forall>w'' os. ctx_inv E entries (n\<lparr>nc_ctx := (nc_ctx n)(c := fd), nc_heap := h, nc_world := w'', nc_out := os\<rparr>)"
    using open_ctx [OF assms, of w c] by blast
  obtain r w2 where "Connect_host E host port s w' = (r, w2)" by (metis surj_pair)
  then show ?thesis
    using assms(1) ok x by (auto simp: opened_def mbedtls_net_connect_def ctx_inv_def)
qed

lemma bind_ctx:
  assumes "ctx_inv E entries n" "length mem = frame_size E"
  shows "\<exists>n'. opened n c (mbedtls_net_bind E mem (nc_ctx n c) ip port proto (nc_heap n) (nc_world n)) = Some n' \<and>
    ctx_inv E entries n'"
proof -
  obtain ok w where ok: "obj_new E (nc_world n) = (ok, w)" by (metis surj_pair)
  obtain p h w' fd s where x: "CAdaptedSocket_new E mem (proto_tcp E) (nc_heap n) w = Some (p, h, w')"
      "GetHandle p h = Some fd" "0 \<le> fd" "sh_objects h p = Some s"
      "\<forall>w'' os. ctx_inv E entries (n\<lparr>nc_ctx := (nc_ctx n)(c := fd), nc_heap := h, nc_world := w'', nc_out := os\<rparr>)"
    using open_ctx [OF assms, of w c] by blast
  obtain r w2 where "Bind E port s w' = (r, w2)" by (metis surj_pair)
  then show ?thesis
    using assms(1) ok x by (auto simp: opened_def mbedtls_net_bind_def ctx_inv_def)
qed

text \<open>An accepted connection: the object is registered by the constructor and again by \<open>Accept\<close>.\<close>

lemma accepted_ctx:
  assumes "ctx_inv E entries n" "length mem = frame_size E" "construct E mem conn (nc_heap n) = (q, h)"
    "AddSocket (array_ops E) q (s_SocketArray h) = (j, a)"
  shows "ctx_inv E entries (n\<lparr>nc_ctx := (nc_ctx n)(c := int j), nc_heap := h\<lparr>s_SocketArray := a\<rparr>, nc_world := w, nc_out := os\<rparr>)"
proof -
  have "heap_ok E entries (nc_heap n)" using assms(1) by (simp add: ctx_inv_def)
  from construct_heap_ok [OF this assms(2,3)] obtain i s where x: "heap_ok E entries h"
      "sh_objects h = (sh_objects (nc_heap n))(q \<mapsto> s)" "as_Handle s = int i" "q = sh_next (nc_heap n)" "sh_next h = Suc q"
      "slot (entries (s_SocketArray (nc_heap n))) i = None"
      "slot (entries (s_SocketArray h)) = (slot (entries (s_SocketArray (nc_heap n))))(i \<mapsto> q)" by metis
  have y: "slot (entries (s_SocketArray h)) j = None" "slot (entries a) = (slot (entries (s_SocketArray h)))(j \<mapsto> q)"
    using AddSocket_slots [OF assms(4)] by auto
  have "heap_ok E entries (h\<lparr>s_SocketArray := a\<rparr>)"
    using x(1,5) y unfolding heap_ok_def by auto (metis option.distinct(1))+
  then show ?thesis
    using x y by (intro ctx_inv_new [OF assms(1) _ _ x(4)]) (auto split: if_splits)
qed

lemma accept_ctx:
  assumes "ctx_inv E entries n" "length mem = frame_size E"
  shows "\<exists>n'. net_do E mem (NetAccept b c ip) n = Some n' \<and> ctx_inv E entries n'"
proof (cases "ip \<noteq> None \<and> the ip < sizeof_ip_size E")
  case True
  then show ?thesis using assms(1) by (auto simp: mbedtls_net_accept_def ctx_inv_def)
next
  case False
  show ?thesis
  proof (cases rule: ctx_inv_fd [OF assms(1), of b, case_names no_object object])
    case no_object
    then show ?thesis using False assms(1) by (auto simp: mbedtls_net_accept_def ctx_inv_def)
  next
    case (object p s)
    obtain conn w1 where acc: "cs_Accept E (as_Socket s) (nc_world n) = (conn, w1)" by (metis surj_pair)
    obtain ok w2 where ok: "obj_new E w1 = (ok, w2)" by (metis surj_pair)
    have keep: "ctx_inv E entries (n\<lparr>nc_world := w, nc_out := os\<rparr>)" for w os using assms(1) by (simp add: ctx_inv_def)
    show ?thesis
    proof (cases conn)
      case None
      then show ?thesis
        using False object(3,4) acc accept_codes keep by (auto simp: mbedtls_net_accept_def Accept_def)
    next
      case (Some ca)
      obtain cn adr where cn: "ca = (cn, adr)" by (metis surj_pair)
      obtain q h where con: "construct E mem cn (nc_heap n) = (q, h)" by (metis surj_pair)
      obtain j a where add: "AddSocket (array_ops E) q (s_SocketArray h) = (j, a)" by (metis surj_pair)
      show ?thesis
        using False object(3,4) acc ok Some cn con add accept_codes keep accepted_ctx [OF assms con add, where c = c]
        by (cases ok) (auto simp: mbedtls_net_accept_def Accept_def)
    qed
  qed
qed

lemma free_ctx:
  assumes "ctx_inv E entries n"
  shows "\<exists>n'. net_do E mem (NetFree c) n = Some n' \<and> ctx_inv E entries n'"
proof (cases rule: ctx_inv_fd [OF assms(1), of c, case_names no_object object])
  case no_object
  then show ?thesis using assms by (simp add: mbedtls_net_free_def ctx_inv_def fd_ok_def)
next
  case (object p s)
  let ?t = "slot (entries (s_SocketArray (nc_heap n)))"
  have ok: "heap_ok E entries (nc_heap n)" using assms by (simp add: ctx_inv_def)
  obtain i where i: "as_Handle s = int i" "?t i = Some p" using heap_okD [OF ok object(4)] by metis
  obtain h w where h: "mbedtls_net_free E (nc_ctx n c) (nc_heap n) (nc_world n) = Some (-1, h, w)" "heap_ok E entries h"
      "sh_objects h = (sh_objects (nc_heap n))(p := None)" "slot (entries (s_SocketArray h)) = ?t(i := None)"
    using free_heap_ok [OF ok object(1,2,4) i(1)] by metis
  have other: "\<exists>q s. ?t (nat (nc_ctx n d)) = Some q \<and> slot (entries (s_SocketArray h)) (nat (nc_ctx n d)) = Some q \<and>
      sh_objects h q = Some s" if "0 \<le> nc_ctx n d" "d \<noteq> c" for d
  proof -
    obtain q s where q: "?t (nat (nc_ctx n d)) = Some q" "sh_objects (nc_heap n) q = Some s"
    proof -
      have "fd_ok entries (nc_heap n) (nc_ctx n d)" using assms by (simp add: ctx_inv_def)
      then show thesis using that \<open>0 \<le> nc_ctx n d\<close> by (auto simp: fd_ok_def)
    qed
    have "?t (nat (nc_ctx n d)) \<noteq> ?t (nat (nc_ctx n c))" using assms that object(1) by (simp add: ctx_inv_def)
    then have "q \<noteq> p" "nat (nc_ctx n d) \<noteq> i" using q(1) i(2) object(2) by auto
    then show ?thesis using q h(3,4) by simp
  qed
  have "fd_ok entries h (((nc_ctx n)(c := -1)) d)" for d
  proof (cases "d = c \<or> nc_ctx n d < 0")
    case False
    then obtain q s' where "slot (entries (s_SocketArray h)) (nat (nc_ctx n d)) = Some q" "sh_objects h q = Some s'"
      using other [of d] by auto
    then show ?thesis using False by (auto simp: fd_ok_def)
  qed (auto simp: fd_ok_def)
  moreover have "slot (entries (s_SocketArray h)) (nat (((nc_ctx n)(c := -1)) d)) \<noteq>
      slot (entries (s_SocketArray h)) (nat (((nc_ctx n)(c := -1)) e))"
    if "d \<noteq> e" "0 \<le> ((nc_ctx n)(c := -1)) d" "0 \<le> ((nc_ctx n)(c := -1)) e" for d e
  proof -
    have de: "d \<noteq> c" "e \<noteq> c" "0 \<le> nc_ctx n d" "0 \<le> nc_ctx n e" using that by (auto split: if_splits)
    then have "?t (nat (nc_ctx n d)) \<noteq> ?t (nat (nc_ctx n e))" using that(1) assms by (simp add: ctx_inv_def)
    then show ?thesis using other [of d] other [of e] de by auto
  qed
  ultimately show ?thesis using h(1,2) by (simp add: ctx_inv_def)
qed

lemma recv_timeout_ctx:
  assumes "ctx_inv E entries n" "call_returns E (NetRecvTimeout c len ms) n"
  shows "\<exists>n'. net_do E mem (NetRecvTimeout c len ms) n = Some n' \<and> ctx_inv E entries n'"
proof (cases rule: ctx_inv_fd [OF assms(1), of c, case_names no_object object])
  case no_object
  then show ?thesis using assms(1) by (simp add: returned_def mbedtls_net_recv_timeout_def ctx_inv_def)
next
  case (object p s)
  then obtain x where x: "ReceiveTimeout E len ms s (nc_world n) = Some x"
    using assms(2) by (auto simp: call_returns_def mbedtls_net_recv_timeout_def)
  obtain r bs s' w' where "x = Some (r, bs, s', w')" "buf_ok E s'" "as_Handle s' = as_Handle s"
    using ReceiveTimeout_keeps [OF object(5) x] by metis
  then show ?thesis
    using object x ctx_inv_update [OF assms(1) object(4)] by (auto simp: returned_def mbedtls_net_recv_timeout_def)
qed

lemma net_do_ctx:
  assumes "ctx_inv E entries n" "length mem = frame_size E" "call_returns E call n"
  shows "\<exists>n'. net_do E mem call n = Some n' \<and> ctx_inv E entries n'"
proof (cases call)
  case (NetInit c)
  then show ?thesis using assms(1) by (auto simp: mbedtls_net_init_def ctx_inv_def fd_ok_def)
next
  case (NetRecv c len)
  then show ?thesis
    using on_socket_ctx [OF assms(1), of "ReceiveBuf E len" c] ReceiveBuf_total by (simp add: mbedtls_net_recv_def)
next
  case (NetSend c bs)
  then show ?thesis
    using on_socket_ctx [OF assms(1)] by (simp add: mbedtls_net_send_def split: prod.splits)
next
  case (NetSetBlock c)
  then show ?thesis
    using on_socket_ctx [OF assms(1)] by (simp add: mbedtls_net_set_block_def SetOptionBlocking_def buf_ok_def)
next
  case (NetSetNonblock c)
  then show ?thesis
    using on_socket_ctx [OF assms(1)] by (simp add: mbedtls_net_set_nonblock_def SetOptionBlocking_def buf_ok_def)
next
  case (NetUsleep u)
  then show ?thesis using assms(1) by (simp add: ctx_inv_def)
next
  case (NetAccept b c ip)
  then show ?thesis using accept_ctx [OF assms(1,2)] by metis
next
  case (NetRecvTimeout c len ms)
  then show ?thesis using recv_timeout_ctx assms(1,3) by metis
next
  case (NetFree c)
  then show ?thesis using free_ctx [OF assms(1)] by metis
qed (use assms connect_ctx bind_ctx in auto)

lemma net_do_returned: "net_do E mem call n = Some n' \<Longrightarrow> call_returns E call n"
  by (auto simp: call_returns_def returned_def split: Option.bind_splits)

lemma net_run_ctx:
  assumes "ctx_inv E entries n" "length mem = frame_size E" "net_run E mem calls n = Some n'"
  shows "ctx_inv E entries n'"
  using assms(1,3)
proof (induction calls arbitrary: n)
  case (Cons call calls)
  then obtain n1 where n1: "net_do E mem call n = Some n1" "net_run E mem calls n1 = Some n'"
    by (auto split: Option.bind_splits)
  then have "ctx_inv E entries n1"
    using net_do_ctx [OF Cons.prems(1) assms(2) net_do_returned [OF n1(1)]] by simp
  then show ?case using Cons.IH n1(2) by blast
qed simp

text \<open>Without \<open>mbedtls_net_accept\<close> the occupied slots and the live objects stay one to one.\<close>

lemma net_do_inv:
  assumes "net_inv E entries n" "length mem = frame_size E" "net_do E mem call n = Some n'"
    "\<And>b c ip. call \<noteq> NetAccept b c ip"
  shows "net_inv E entries n'"
proof -
  have "\<exists>n'. net_do E mem call n = Some n' \<and> net_inv E entries n'"
  proof (cases call)
    case (NetInit c)
    then show ?thesis using assms(1) by (simp add: mbedtls_net_init_def net_inv_def)
  next
    case (NetFree c)
    then show ?thesis using free_inv [OF assms(1), of c] by auto
  next
    case (NetRecv c len)
    then show ?thesis
      using on_socket_inv [OF assms(1), of "ReceiveBuf E len" c] ReceiveBuf_total by (simp add: mbedtls_net_recv_def)
  next
    case (NetSend c bs)
    then show ?thesis
      using on_socket_inv [OF assms(1)] by (simp add: mbedtls_net_send_def split: prod.splits)
  next
    case (NetSetBlock c)
    then show ?thesis
      using on_socket_inv [OF assms(1)] by (simp add: mbedtls_net_set_block_def SetOptionBlocking_def buf_ok_def)
  next
    case (NetSetNonblock c)
    then show ?thesis
      using on_socket_inv [OF assms(1)] by (simp add: mbedtls_net_set_nonblock_def SetOptionBlocking_def buf_ok_def)
  next
    case (NetUsleep u)
    then show ?thesis using assms(1) by (simp add: net_inv_def)
  next
    case (NetRecvTimeout c len ms)
    show ?thesis
    proof (cases rule: net_inv_fd [OF assms(1), of c, case_names no_object object])
      case no_object
      then show ?thesis
        using NetRecvTimeout assms(1) by (simp add: returned_def mbedtls_net_recv_timeout_def net_inv_def)
    next
      case (object p s)
      then obtain x where x: "ReceiveTimeout E len ms s (nc_world n) = Some x"
        using assms(3) NetRecvTimeout by (auto simp: returned_def mbedtls_net_recv_timeout_def split: Option.bind_splits)
      obtain r bs s' w' where "x = Some (r, bs, s', w')" "buf_ok E s'" "as_Handle s' = as_Handle s"
        using ReceiveTimeout_keeps [OF object(3) x] by metis
      then show ?thesis
        using NetRecvTimeout object x net_inv_update [OF assms(1) object(2)]
        by (auto simp: returned_def mbedtls_net_recv_timeout_def)
    qed
  next
    case (NetConnect c host port proto)
    then show ?thesis using connect_inv [OF assms(1,2)] by simp
  next
    case (NetBind c ip port proto)
    then show ?thesis using bind_inv [OF assms(1,2)] by simp
  qed (use assms(4) in blast)
  then show ?thesis using assms(3) by simp
qed

lemma net_run_inv:
  assumes "net_inv E entries n" "length mem = frame_size E" "net_run E mem calls n = Some n'"
    "\<And>b c ip. NetAccept b c ip \<notin> set calls"
  shows "net_inv E entries n'"
  using assms(1,3,4)
proof (induction calls arbitrary: n)
  case (Cons call calls)
  then obtain n1 where n1: "net_do E mem call n = Some n1" "net_run E mem calls n1 = Some n'"
    by (auto split: Option.bind_splits)
  have "net_inv E entries n1" using Cons.prems(3) by (intro net_do_inv [OF Cons.prems(1) assms(2) n1(1)]) auto
  then show ?case using Cons.IH n1(2) Cons.prems(3) by simp
qed simp

end

context clocked_sockets
begin

lemma recv_timeout_returns:
  assumes "ctx_inv E entries n" "unat (msec_hz E ms) \<le> 2 ^ 31"
  shows "call_returns E (NetRecvTimeout c len ms) n"
proof (cases rule: ctx_inv_fd [OF assms(1), of c, case_names no_object object])
  case no_object
  then show ?thesis by (simp add: call_returns_def mbedtls_net_recv_timeout_def)
next
  case (object p s)
  then show ?thesis
    using ReceiveTimeout_ends [OF object(5) assms(2), of len "nc_world n"]
    by (auto simp: call_returns_def mbedtls_net_recv_timeout_def)
qed

end

lemma net_run_returns:
  assumes "socket_provider E entries" "ctx_inv E entries n" "length mem = frame_size E"
    and timeouts: "\<And>c len ms. NetRecvTimeout c len ms \<in> set calls \<Longrightarrow>
      clocked_sockets E entries clock \<and> unat (msec_hz E ms) \<le> 2 ^ 31"
  shows "\<exists>n'. net_run E mem calls n = Some n'"
  using assms(2) timeouts
proof (induction calls arbitrary: n)
  case (Cons call calls)
  have "call_returns E call n"
  proof (cases "\<exists>c len ms. call = NetRecvTimeout c len ms")
    case True
    then obtain c len ms where call: "call = NetRecvTimeout c len ms" by blast
    with Cons.prems(2) have "clocked_sockets E entries clock" "unat (msec_hz E ms) \<le> 2 ^ 31" by auto
    then show ?thesis using clocked_sockets.recv_timeout_returns [OF _ Cons.prems(1)] call by blast
  qed (auto simp: call_returns_def)
  then obtain n1 where n1: "net_do E mem call n = Some n1" "ctx_inv E entries n1"
    using socket_provider.net_do_ctx [OF assms(1) Cons.prems(1) assms(3)] by blast
  have "\<exists>n'. net_run E mem calls n1 = Some n'"
    by (rule Cons.IH [OF n1(2)]) (use Cons.prems(2) in auto)
  then show ?case using n1(1) by simp
qed simp

subsection \<open>Bytes delivered and bytes read\<close>

text \<open>
  \<open>log w\<close> is everything \<open>CSocket::Receive\<close> has delivered so far: it appends what it returns, and no
  other service changes the log.
\<close>

locale logging_sockets = socket_provider E entries
  for E :: "('w, 'c, 'l) sock_env" and entries :: "'l \<Rightarrow> nat option list" +
  fixes log :: "'w \<Rightarrow> u8 list"
  assumes Receive_log: "cs_Receive E c (frame_size E) f w = ((r, bs), w') \<Longrightarrow>
      log w' = log w @ (if 0 < r then bs else [])"
    and Send_log: "cs_Send E c bs w = (r, w') \<Longrightarrow> log w' = log w"
    and Yield_log: "log (sched_Yield E w) = log w"
    and usSleep_log: "log (sched_usSleep E u w) = log w"

text \<open>Calls on one open context, and what they returned followed by what is still buffered.\<close>

fun session_call :: "nat \<Rightarrow> net_call \<Rightarrow> bool" where
  "session_call c (NetRecv d len) = (d = c)"
| "session_call c (NetSend d bs) = (d = c)"
| "session_call c (NetSetBlock d) = (d = c)"
| "session_call c (NetSetNonblock d) = (d = c)"
| "session_call c (NetUsleep u) = True"
| "session_call c _ = False"

definition fd_pending :: "('w, 'c, 'l) sock_env \<Rightarrow> int \<Rightarrow> ('c, 'l) socket_heap \<Rightarrow> u8 list" where
  "fd_pending E fd h =
     (case GetSocket (array_ops E) fd (s_SocketArray h) of
        None \<Rightarrow> []
      | Some None \<Rightarrow> []
      | Some (Some p) \<Rightarrow> (case sh_objects h p of None \<Rightarrow> [] | Some s \<Rightarrow> pending s))"

definition stream_so_far :: "('w, 'c, 'l) sock_env \<Rightarrow> nat \<Rightarrow> ('c, 'l, 'w) net_state \<Rightarrow> u8 list" where
  "stream_so_far E c n = concat (map snd (nc_out n)) @ fd_pending E (nc_ctx n c) (nc_heap n)"

context logging_sockets
begin

lemma stream_read_log:
  assumes "stream_read E c block n (p, w) = ((r, bs), p', w')"
  shows "\<exists>d. log w' = log w @ d \<and> bs @ p' = p @ d"
proof -
  obtain x ds w1 where rcv: "cs_Receive E c (frame_size E) (\<not> block) w = ((x, ds), w1)" by (metis surj_pair)
  show ?thesis
    using assms rcv Receive_log [OF rcv] by (auto simp: stream_read_def Yield_log split: if_splits)
qed

lemma on_socket_stream:
  assumes "ctx_inv E entries n"
    and f: "\<And>s w. buf_ok E s \<Longrightarrow> \<exists>r bs s' w' d. f s w = Some (r, bs, s', w') \<and> buf_ok E s' \<and>
      as_Handle s' = as_Handle s \<and> log w' = log w @ d \<and> bs @ pending s' = pending s @ d"
  shows "\<exists>n' d. returned n (on_socket E (nc_ctx n c) f (nc_heap n) (nc_world n)) = Some n' \<and> ctx_inv E entries n' \<and>
    log (nc_world n') = log (nc_world n) @ d \<and> stream_so_far E c n' = stream_so_far E c n @ d"
proof (cases rule: ctx_inv_fd [OF assms(1), of c, case_names no_object object])
  case no_object
  then show ?thesis
    using assms(1) by (simp add: returned_def on_socket_def ctx_inv_def stream_so_far_def fd_pending_def)
next
  case (object p s)
  then show ?thesis
    using f [OF object(5), of "nc_world n"] ctx_inv_update [OF assms(1) object(4)]
    by (auto simp: returned_def on_socket_def stream_so_far_def fd_pending_def)
qed

lemma session_call_stream:
  assumes "ctx_inv E entries n" "session_call c call"
  shows "\<exists>n' d. net_do E mem call n = Some n' \<and> ctx_inv E entries n' \<and>
    log (nc_world n') = log (nc_world n) @ d \<and> stream_so_far E c n' = stream_so_far E c n @ d"
proof (cases call)
  case (NetRecv d len)
  have "\<exists>r bs s' w' d. ReceiveBuf E len s w = Some (r, bs, s', w') \<and> buf_ok E s' \<and>
      as_Handle s' = as_Handle s \<and> log w' = log w @ d \<and> bs @ pending s' = pending s @ d" if "buf_ok E s" for s w
  proof -
    obtain r bs p w' where "stream_read E (as_Socket s) (as_Block s) len (pending s, w) = ((r, bs), p, w')"
      by (metis surj_pair)
    from ReceiveBuf_refines [OF that this] stream_read_log [OF this] show ?thesis by blast
  qed
  from on_socket_stream [OF assms(1) this] show ?thesis using NetRecv assms(2) by (simp add: mbedtls_net_recv_def)
next
  case (NetSend d bs)
  have "\<exists>r bs' s' w' d. (let (r, w') = SendBuf E bs s w in Some (r, [], s, w')) = Some (r, bs', s', w') \<and> buf_ok E s' \<and>
      as_Handle s' = as_Handle s \<and> log w' = log w @ d \<and> bs' @ pending s' = pending s @ d" if "buf_ok E s" for s w
    using that Send_log [of "as_Socket s" bs w] by (auto simp: SendBuf_def split: prod.splits)
  from on_socket_stream [OF assms(1) this] show ?thesis using NetSend assms(2) by (simp add: mbedtls_net_send_def)
next
  case (NetUsleep u)
  then show ?thesis
    using assms(1) by (auto simp: ctx_inv_def stream_so_far_def usSleep_log mbedtls_net_usleep_def)
qed (use assms on_socket_stream [OF assms(1)] in \<open>auto simp: mbedtls_net_set_block_def mbedtls_net_set_nonblock_def
       SetOptionBlocking_def buf_ok_def pending_def\<close>)

lemma session_stream:
  assumes "ctx_inv E entries n" "list_all (session_call c) calls"
  shows "\<exists>n' d. net_run E mem calls n = Some n' \<and>
    log (nc_world n') = log (nc_world n) @ d \<and> stream_so_far E c n' = stream_so_far E c n @ d"
  using assms
proof (induction calls arbitrary: n)
  case (Cons call calls)
  then have "session_call c call" "list_all (session_call c) calls" by simp_all
  then show ?case
    using session_call_stream [OF Cons.prems(1), of c call mem] Cons.IH by fastforce
qed simp

end

end
