(* ===== verification/Ssl_Inv.thy ===== *)
theory Ssl_Inv
  imports Ssl_Programs Net_Heap
begin

text \<open>
  What the example programs rely on. The contract of mbed TLS (\<open>locale ssl_callbacks\<close>) is that it reaches the network through the
  callbacks only, and \<open>locale ssl_progress\<close> that a connection comes to an end.
\<close>

subsection \<open>Contract of mbed TLS\<close>

text \<open>
  \<open>bio_keeps bio P\<close>: in every state of the network in which \<open>P\<close> holds the callbacks return and keep
  \<open>P\<close>. A function that reaches the network only through the callbacks then keeps it too.
\<close>

definition bio_keeps :: "('c, 'l, 'w) bio \<Rightarrow> (('c, 'l, 'w) io \<Rightarrow> bool) \<Rightarrow> bool" where
  "bio_keeps bio P \<longleftrightarrow>
     (\<forall>n b. P b \<longrightarrow> (\<exists>r bs b'. bio_recv bio n b = Some (r, bs, b') \<and> P b')) \<and>
     (\<forall>ds b. P b \<longrightarrow> (\<exists>r b'. bio_send bio ds b = Some (r, b') \<and> P b'))"

locale ssl_callbacks =
  fixes E :: "('w, 'c, 'l, 's, 'g, 'x, 'd, 'p) tls_env"
  assumes handshake_keeps: "bio_keeps bio P \<Longrightarrow> P b \<Longrightarrow> \<exists>r s' b'. ssl_handshake E bio s b = Some (r, s', b') \<and> P b'"
    and read_keeps: "bio_keeps bio P \<Longrightarrow> P b \<Longrightarrow>
      \<exists>r bs s' b'. ssl_read E bio n s b = Some (r, bs, s', b') \<and> length bs \<le> n \<and> P b'"
    and write_keeps: "bio_keeps bio P \<Longrightarrow> P b \<Longrightarrow> \<exists>r s' b'. ssl_write E bio bs s b = Some (r, s', b') \<and> P b'"
    and close_keeps: "bio_keeps bio P \<Longrightarrow> P b \<Longrightarrow> \<exists>r s' b'. ssl_close_notify E bio s b = Some (r, s', b') \<and> P b'"
    and codes: "ERR_NET_ACCEPT_FAILED E < 0" "ERR_SSL_ALLOC_FAILED E < 0"

text \<open>
  A connection over the network functions comes to an end: a call can ask only finitely often to be
  repeated, and the peer sends finitely much. \<open>budget s b\<close> bounds the number of such calls that are
  still possible, for a context and a state of the network.
\<close>

locale ssl_progress = ssl_callbacks E
  for E :: "('w, 'c, 'l, 's, 'g, 'x, 'd, 'p) tls_env" +
  fixes budget :: "'s \<Rightarrow> ('c, 'l, 'w) io \<Rightarrow> nat"
  assumes handshake_budget: "ssl_handshake E (net_bio E fd) s b = Some (r, s', b') \<Longrightarrow> wants E r \<Longrightarrow> budget s' b' < budget s b"
    and read_budget: "ssl_read E (net_bio E fd) n s b = Some (r, bs, s', b') \<Longrightarrow> wants E r \<or> 0 < r \<Longrightarrow> budget s' b' < budget s b"
    and write_budget: "ssl_write E (net_bio E fd) bs s b = Some (r, s', b') \<Longrightarrow> wants E r \<Longrightarrow> budget s' b' < budget s b"
    and close_budget: "ssl_close_notify E (net_bio E fd) s b = Some (r, s', b') \<Longrightarrow> wants E r \<Longrightarrow> budget s' b' < budget s b"

lemma zeroed_string:
  assumes "length bs < k"
  shows "\<exists>buf. put_block (replicate k 0) 0 bs = Some buf \<and> length buf = k \<and>
    c_str_at buf 0 = Some (takeWhile (\<lambda>c. c \<noteq> 0) bs)"
proof -
  have "0 \<in> set (replicate (k - length bs) (0 :: u8))" using assms by simp
  moreover have "takeWhile (\<lambda>c. c \<noteq> 0) (bs @ replicate n (0 :: u8)) = takeWhile (\<lambda>c. c \<noteq> 0) bs" for n
    by (induction bs) (simp_all add: takeWhile_replicate)
  ultimately show ?thesis using assms by (simp add: put_block_in c_str_at_def)
qed

lemma sprintf_buf_fits:
  assumes "length str < length buf" "c_string str"
  shows "\<exists>buf'. sprintf_buf buf str = Some (buf', length str) \<and> length buf' = length buf \<and>
    take (length str) buf' = str \<and> c_str_at buf' 0 = Some str"
  using assms by (auto simp: sprintf_buf_def put_block_in intro!: c_str_at_terminated simp: nth_append)

context ssl_callbacks
begin

lemma read_buf_keeps:
  assumes "bio_keeps bio P" "P b"
  shows "\<exists>r bs buf s' b'. ssl_read E bio (BUF_SIZE - 1) s b = Some (r, bs, s', b') \<and>
    read_buf E bio s b = Some (r, buf, s', b') \<and> length buf = BUF_SIZE \<and>
    c_str_at buf 0 = Some (takeWhile (\<lambda>c. c \<noteq> 0) bs) \<and> P b'"
proof -
  obtain r bs s' b' where r: "ssl_read E bio (BUF_SIZE - 1) s b = Some (r, bs, s', b')" "length bs \<le> BUF_SIZE - 1" "P b'"
    using read_keeps [OF assms] by metis
  then have "length bs < BUF_SIZE" by (simp add: BUF_SIZE_def)
  from zeroed_string [OF this] show ?thesis using r by (auto simp: read_buf_def)
qed

end

context ssl_progress
begin

lemma handshake_loop_returns:
  assumes "bio_keeps (net_bio E fd) P"
  shows "P b \<Longrightarrow> \<exists>r s' b'. handshake_loop E (net_bio E fd) s b = Some (Some (r, s', b')) \<and> P b'"
proof (induction "budget s b" arbitrary: s b rule: less_induct)
  case less
  obtain r s' b' where h: "ssl_handshake E (net_bio E fd) s b = Some (r, s', b')" "P b'"
    using handshake_keeps [OF assms less.prems] by metis
  then show ?case
    using less.hyps [OF handshake_budget [OF h(1)] h(2)] by (subst handshake_loop.simps) (auto simp del: split_paired_Ex)
qed

lemma write_loop_returns:
  assumes "bio_keeps (net_bio E fd) P"
  shows "P b \<Longrightarrow> \<exists>r s' b'. write_loop E stop (net_bio E fd) bs s b = Some (Some (r, s', b')) \<and> P b'"
proof (induction "budget s b" arbitrary: s b rule: less_induct)
  case less
  obtain r s' b' where h: "ssl_write E (net_bio E fd) bs s b = Some (r, s', b')" "P b'"
    using write_keeps [OF assms less.prems] by metis
  then show ?case
    using less.hyps [OF write_budget [OF h(1)] h(2)] by (subst write_loop.simps) (auto simp del: split_paired_Ex)
qed

lemma close_loop_returns:
  assumes "bio_keeps (net_bio E fd) P"
  shows "P b \<Longrightarrow> \<exists>r s' b'. close_loop E (net_bio E fd) s b = Some (Some (r, s', b')) \<and> P b'"
proof (induction "budget s b" arbitrary: s b rule: less_induct)
  case less
  obtain r s' b' where h: "ssl_close_notify E (net_bio E fd) s b = Some (r, s', b')" "P b'"
    using close_keeps [OF assms less.prems] by metis
  then show ?case
    using less.hyps [OF close_budget [OF h(1)] h(2)] by (subst close_loop.simps) (auto simp del: split_paired_Ex)
qed

lemma server_read_returns:
  assumes "bio_keeps (net_bio E fd) P"
  shows "P b \<Longrightarrow> \<exists>msg buf s' b'. server_read E (net_bio E fd) s b = Some (Some (msg, buf, s', b')) \<and> length buf = BUF_SIZE \<and> P b'"
proof (induction "budget s b" arbitrary: s b rule: less_induct)
  case less
  obtain r bs buf s' b' where h: "ssl_read E (net_bio E fd) (BUF_SIZE - 1) s b = Some (r, bs, s', b')"
      "read_buf E (net_bio E fd) s b = Some (r, buf, s', b')" "length buf = BUF_SIZE"
      "c_str_at buf 0 = Some (takeWhile (\<lambda>c. c \<noteq> 0) bs)" "P b'"
    using read_buf_keeps [OF assms less.prems] by metis
  show ?case
  proof (cases "wants E r")
    case True
    then have "server_read E (net_bio E fd) s b = server_read E (net_bio E fd) s' b'" using h(2) by (subst server_read.simps) simp
    then show ?thesis using less.hyps [OF read_budget [OF h(1)] h(5)] True by simp
  next
    case False
    then show ?thesis using h by (subst server_read.simps) (auto simp del: split_paired_Ex)
  qed
qed

lemma client1_read_returns:
  assumes "bio_keeps (net_bio E fd) P"
  shows "P b \<Longrightarrow> \<exists>r out' s' b'. client1_read E X (net_bio E fd) out s b = Some (Some (r, out', s', b')) \<and> P b'"
proof (induction "budget s b" arbitrary: s b out rule: less_induct)
  case less
  obtain r bs buf s' b' where h: "ssl_read E (net_bio E fd) (BUF_SIZE - 1) s b = Some (r, bs, s', b')"
      "read_buf E (net_bio E fd) s b = Some (r, buf, s', b')" "c_str_at buf 0 = Some (takeWhile (\<lambda>c. c \<noteq> 0) bs)" "P b'"
    using read_buf_keeps [OF assms less.prems] by metis
  show ?case
  proof (cases "wants E r \<or> 0 < r \<and> r \<noteq> ERR_SSL_PEER_CLOSE_NOTIFY X")
    case True
    have "client1_read E X (net_bio E fd) out s b = client1_read E X (net_bio E fd)
        (if wants E r then out else out @ [Bytes_read r (takeWhile (\<lambda>c. c \<noteq> 0) bs)]) s' b'"
      using h(2,3) True by (subst client1_read.simps) auto
    moreover have "budget s' b' < budget s b" using read_budget [OF h(1)] True by blast
    ultimately show ?thesis using less.hyps h(4) by metis
  next
    case False
    then show ?thesis using h by (subst client1_read.simps) (auto simp del: split_paired_Ex)
  qed
qed

end

end
