(* ===== verification/Tls_Client.thy ===== *)
theory Tls_Client
  imports Tls_Socket
begin

text \<open>
  Certificates and the simple client: \<open>CX509CertificateChain\<close> (\<open>x509certchain.h\<close>, \<open>.cpp\<close>),
  \<open>CX509CertificateProfile\<close> (\<open>x509certprofile.h\<close>), \<open>CTLSConfig\<close> (\<open>tlsconfig.h\<close>), \<open>CCTR_DRBG\<close>
  (\<open>ctr_drbg.h\<close>) and \<open>CTLSSimpleClientSocket\<close> (\<open>tlssimpleclientsocket.cpp\<close>).
\<close>

subsection \<open>Certificate chain\<close>

definition CERTIFICATE_MAX_SIZE :: nat where "CERTIFICATE_MAX_SIZE = 5000"

fun strstr :: "cstring \<Rightarrow> cstring \<Rightarrow> bool" where
  "strstr [] needle = (needle = [])"
| "strstr (c # cs) needle = (take (length needle) (c # cs) = needle \<or> strstr cs needle)"

definition CX509CertificateChain_new :: "('w, 'c, 'l, 's, 'g, 'x, 'd, 'p) tls_env \<Rightarrow> 'x" where
  "CX509CertificateChain_new E = x509_crt_init E"

definition AddCertificate ::
  "('w, 'c, 'l, 's, 'g, 'x, 'd, 'p) tls_env \<Rightarrow> u8 list \<Rightarrow> 'x \<Rightarrow> int \<times> 'x" where
  "AddCertificate E bs chain = x509_crt_parse E bs chain"

text \<open>A file in PEM format is passed with its terminating zero, one in DER format without.\<close>

definition AddCertificateFile ::
  "('w, 'c, 'l, 's, 'g, 'x, 'd, 'p) tls_env \<Rightarrow> cstring \<Rightarrow> 'x \<Rightarrow> 'w \<Rightarrow> int \<times> 'x \<times> 'w" where
  "AddCertificateFile E pFilename chain w =
     (case file_read E pFilename CERTIFICATE_MAX_SIZE w of
        (None, w) \<Rightarrow> (ERR_PK_FILE_IO_ERROR E, chain, w)
      | (Some bs, w) \<Rightarrow>
          if length bs = 0 then (ERR_PK_FILE_IO_ERROR E, chain, w)
          else if length bs \<ge> CERTIFICATE_MAX_SIZE then (ERR_X509_BUFFER_TOO_SMALL E, chain, w)
          else let Buffer = bs @ [0];
                   nLength = (if strstr (takeWhile (\<lambda>c. c \<noteq> 0) Buffer) (cstr ''-----BEGIN '')
                              then length bs + 1 else length bs);
                   (r, chain) = AddCertificate E (take nLength Buffer) chain
               in (r, chain, w))"

definition certificate_name :: "cstring \<Rightarrow> bool" where
  "certificate_name d_name \<longleftrightarrow> \<not> length d_name < 5 \<and>
     (let nLength = length d_name - 4
      in drop nLength d_name = cstr ''.pem'' \<or> drop nLength d_name = cstr ''.crt'' \<or>
         drop nLength d_name = cstr ''.der'')"

fun certificate_loop ::
  "('w, 'c, 'l, 's, 'g, 'x, 'd, 'p) tls_env \<Rightarrow> cstring list \<Rightarrow> int \<Rightarrow> 'x \<Rightarrow> 'w \<Rightarrow> int \<times> 'x \<times> 'w" where
  "certificate_loop E [] nFiles chain w = (nFiles, chain, w)"
| "certificate_loop E (d_name # entries) nFiles chain w =
     (if \<not> certificate_name d_name then certificate_loop E entries nFiles chain w
      else case AddCertificateFile E d_name chain w of (nResult, chain, w) \<Rightarrow>
        if nResult < 0 then (nResult, chain, log_parse_failed E d_name nResult w)
        else certificate_loop E entries (nFiles + 1) chain w)"

definition AddCertificatePath ::
  "('w, 'c, 'l, 's, 'g, 'x, 'd, 'p) tls_env \<Rightarrow> cstring \<Rightarrow> 'x \<Rightarrow> 'w \<Rightarrow> int \<times> 'x \<times> 'w" where
  "AddCertificatePath E pPath chain w =
     (case dir_entries E pPath w of
        (None, w) \<Rightarrow> (ERR_PK_FILE_IO_ERROR E, chain, w)
      | (Some entries, w) \<Rightarrow> certificate_loop E entries 0 chain w)"

subsection \<open>Certificate profile\<close>

text \<open>
  The fields of \<open>mbedtls_x509_crt_profile\<close>. \<open>flag\<close> is the macro \<open>MBEDTLS_X509_ID_FLAG\<close>, which gives
  every type a bit of its own.
\<close>

record cert_profile =
  allowed_mds :: u32
  allowed_pks :: u32
  allowed_curves :: u32
  rsa_min_bitlen :: u32

definition profile_Set :: "cert_profile \<Rightarrow> cert_profile \<Rightarrow> cert_profile" where
  "profile_Set pProfile p = pProfile"

text \<open>The constructor; \<open>m\<close> is the memory of the object, \<open>profile_default\<close> a constant of mbed TLS.\<close>

definition CX509CertificateProfile_new :: "cert_profile \<Rightarrow> cert_profile \<Rightarrow> cert_profile" where
  "CX509CertificateProfile_new profile_default m = profile_Set profile_default m"

definition EnableMessageDigest :: "('t \<Rightarrow> u32) \<Rightarrow> 't \<Rightarrow> cert_profile \<Rightarrow> cert_profile" where
  "EnableMessageDigest flag ty p = p\<lparr>allowed_mds := allowed_mds p OR flag ty\<rparr>"

definition DisableMessageDigest :: "('t \<Rightarrow> u32) \<Rightarrow> 't \<Rightarrow> cert_profile \<Rightarrow> cert_profile" where
  "DisableMessageDigest flag ty p = p\<lparr>allowed_mds := allowed_mds p AND NOT (flag ty)\<rparr>"

definition IsMessageDigestAllowed :: "('t \<Rightarrow> u32) \<Rightarrow> 't \<Rightarrow> cert_profile \<Rightarrow> bool" where
  "IsMessageDigestAllowed flag ty p \<longleftrightarrow> allowed_mds p AND flag ty \<noteq> 0"

definition EnablePublicKey :: "('t \<Rightarrow> u32) \<Rightarrow> 't \<Rightarrow> cert_profile \<Rightarrow> cert_profile" where
  "EnablePublicKey flag ty p = p\<lparr>allowed_pks := allowed_pks p OR flag ty\<rparr>"

definition DisablePublicKey :: "('t \<Rightarrow> u32) \<Rightarrow> 't \<Rightarrow> cert_profile \<Rightarrow> cert_profile" where
  "DisablePublicKey flag ty p = p\<lparr>allowed_pks := allowed_pks p AND NOT (flag ty)\<rparr>"

definition IsPublicKeyAllowed :: "('t \<Rightarrow> u32) \<Rightarrow> 't \<Rightarrow> cert_profile \<Rightarrow> bool" where
  "IsPublicKeyAllowed flag ty p \<longleftrightarrow> allowed_pks p AND flag ty \<noteq> 0"

definition EnableEllipticCurve :: "('t \<Rightarrow> u32) \<Rightarrow> 't \<Rightarrow> cert_profile \<Rightarrow> cert_profile" where
  "EnableEllipticCurve flag ty p = p\<lparr>allowed_curves := allowed_curves p OR flag ty\<rparr>"

definition DisableEllipticCurve :: "('t \<Rightarrow> u32) \<Rightarrow> 't \<Rightarrow> cert_profile \<Rightarrow> cert_profile" where
  "DisableEllipticCurve flag ty p = p\<lparr>allowed_curves := allowed_curves p AND NOT (flag ty)\<rparr>"

definition IsEllipticCurveAllowed :: "('t \<Rightarrow> u32) \<Rightarrow> 't \<Rightarrow> cert_profile \<Rightarrow> bool" where
  "IsEllipticCurveAllowed flag ty p \<longleftrightarrow> allowed_curves p AND flag ty \<noteq> 0"

definition SetAllowedMessageDigests :: "u32 \<Rightarrow> cert_profile \<Rightarrow> cert_profile" where
  "SetAllowedMessageDigests nFlags p = p\<lparr>allowed_mds := nFlags\<rparr>"

definition SetAllowedPublicKeys :: "u32 \<Rightarrow> cert_profile \<Rightarrow> cert_profile" where
  "SetAllowedPublicKeys nFlags p = p\<lparr>allowed_pks := nFlags\<rparr>"

definition SetAllowedEllipticCurves :: "u32 \<Rightarrow> cert_profile \<Rightarrow> cert_profile" where
  "SetAllowedEllipticCurves nFlags p = p\<lparr>allowed_curves := nFlags\<rparr>"

definition SetRSAMinimumKeySize :: "u32 \<Rightarrow> cert_profile \<Rightarrow> cert_profile" where
  "SetRSAMinimumKeySize nBitLen p = p\<lparr>rsa_min_bitlen := nBitLen\<rparr>"

text \<open>Types have different bits; \<open>valid\<close> are the types that have one.\<close>

locale id_flags =
  fixes flag :: "'t \<Rightarrow> u32" and valid :: "'t set"
  assumes flag_set: "a \<in> valid \<Longrightarrow> flag a \<noteq> 0"
    and flag_distinct: "a \<in> valid \<Longrightarrow> b \<in> valid \<Longrightarrow> a \<noteq> b \<Longrightarrow> flag a AND flag b = 0"
begin

lemma flag_set_or:
  assumes "a \<in> valid" "b \<in> valid"
  shows "((x OR flag a) AND flag b \<noteq> 0) = (b = a \<or> x AND flag b \<noteq> 0)"
proof (cases "a = b")
  case True
  have "(x OR flag b) AND flag b = flag b" by (rule bit_word_eqI) (auto simp: bit_simps)
  then show ?thesis using True flag_set [OF assms(2)] by simp
qed (use flag_distinct [OF assms] in \<open>simp add: bit.conj_disj_distrib2\<close>)

lemma flag_clear:
  assumes "a \<in> valid" "b \<in> valid"
  shows "((x AND NOT (flag a)) AND flag b \<noteq> 0) = (b \<noteq> a \<and> x AND flag b \<noteq> 0)"
proof (cases "a = b")
  case False
  have "NOT (flag a) AND flag b = flag b"
  proof (rule bit_word_eqI)
    fix n
    have "\<not> (bit (flag a) n \<and> bit (flag b) n)"
      using flag_distinct [OF assms False] by (metis bit_0_eq bit_and_iff bot_apply bot_bool_def)
    then show "bit (NOT (flag a) AND flag b) n = bit (flag b) n" if "n < LENGTH(32)"
      using that by (auto simp: bit_simps)
  qed
  then show ?thesis using False by (simp add: and.assoc)
qed (simp add: and.assoc)

lemma profile_digests:
  assumes "a \<in> valid" "b \<in> valid"
  shows "IsMessageDigestAllowed flag b (EnableMessageDigest flag a p) = (b = a \<or> IsMessageDigestAllowed flag b p)"
    "IsMessageDigestAllowed flag b (DisableMessageDigest flag a p) = (b \<noteq> a \<and> IsMessageDigestAllowed flag b p)"
  using flag_set_or [OF assms] flag_clear [OF assms]
  by (simp_all add: IsMessageDigestAllowed_def EnableMessageDigest_def DisableMessageDigest_def)

lemma profile_public_keys:
  assumes "a \<in> valid" "b \<in> valid"
  shows "IsPublicKeyAllowed flag b (EnablePublicKey flag a p) = (b = a \<or> IsPublicKeyAllowed flag b p)"
    "IsPublicKeyAllowed flag b (DisablePublicKey flag a p) = (b \<noteq> a \<and> IsPublicKeyAllowed flag b p)"
  using flag_set_or [OF assms] flag_clear [OF assms]
  by (simp_all add: IsPublicKeyAllowed_def EnablePublicKey_def DisablePublicKey_def)

lemma profile_curves:
  assumes "a \<in> valid" "b \<in> valid"
  shows "IsEllipticCurveAllowed flag b (EnableEllipticCurve flag a p) = (b = a \<or> IsEllipticCurveAllowed flag b p)"
    "IsEllipticCurveAllowed flag b (DisableEllipticCurve flag a p) = (b \<noteq> a \<and> IsEllipticCurveAllowed flag b p)"
  using flag_set_or [OF assms] flag_clear [OF assms]
  by (simp_all add: IsEllipticCurveAllowed_def EnableEllipticCurve_def DisableEllipticCurve_def)

end

text \<open>The macro shifts 1 by the number of the type less one.\<close>

definition shifted_flag :: "nat \<Rightarrow> u32" where
  "shifted_flag ty = push_bit (ty - 1) 1"

interpretation shifted_flag: id_flags shifted_flag "{1..32}"
proof
  show "shifted_flag a \<noteq> 0" if "a \<in> {1..32}" for a
    using that by (auto simp: shifted_flag_def bit_eq_iff bit_simps intro!: exI [of _ "a - 1"])
  show "shifted_flag a AND shifted_flag b = 0" if "a \<in> {1..32}" "b \<in> {1..32}" "a \<noteq> b" for a b
    using that by (intro bit_word_eqI) (auto simp: shifted_flag_def bit_simps)
qed

subsection \<open>Random generator and configuration\<close>

definition CCTR_DRBG_new :: "('w, 'c, 'l, 's, 'g, 'x, 'd, 'p) tls_env \<Rightarrow> 'd" where
  "CCTR_DRBG_new E = ctr_drbg_init E"

text \<open>
  \<open>Seed\<close> calls \<open>strlen\<close>, which reads the memory the pointer refers to: for a null pointer what the
  machine has at address 0.
\<close>

definition Seed ::
  "('w, 'c, 'l, 's, 'g, 'x, 'd, 'p) tls_env \<Rightarrow> cstring option \<Rightarrow> 'd \<Rightarrow> 'w \<Rightarrow> (int \<times> 'd \<times> 'w) option" where
  "Seed E pPersonalizationString d w = do {
     str \<leftarrow> (case pPersonalizationString of None \<Rightarrow> null_str E | Some s \<Rightarrow> Some s);
     Some (ctr_drbg_seed E str d w)
   }"

definition CTLSConfig_new :: "('w, 'c, 'l, 's, 'g, 'x, 'd, 'p) tls_env \<Rightarrow> 'g" where
  "CTLSConfig_new E = ssl_config_init E"

definition SetDefaults ::
  "('w, 'c, 'l, 's, 'g, 'x, 'd, 'p) tls_env \<Rightarrow> int \<Rightarrow> int \<Rightarrow> int \<Rightarrow> 'g \<Rightarrow> int \<times> 'g" where
  "SetDefaults E nEndpoint nTransport nPreset g = ssl_config_defaults E nEndpoint nTransport nPreset g"

definition SetAuthMode :: "('w, 'c, 'l, 's, 'g, 'x, 'd, 'p) tls_env \<Rightarrow> int \<Rightarrow> 'g \<Rightarrow> 'g" where
  "SetAuthMode E nAuthMode g = ssl_conf_authmode E nAuthMode g"

definition SetCertProfile :: "('w, 'c, 'l, 's, 'g, 'x, 'd, 'p) tls_env \<Rightarrow> 'p \<Rightarrow> 'g \<Rightarrow> 'g" where
  "SetCertProfile E pProfile g = ssl_conf_cert_profile E pProfile g"

definition SetCA_Chain :: "('w, 'c, 'l, 's, 'g, 'x, 'd, 'p) tls_env \<Rightarrow> 'x \<Rightarrow> 'g \<Rightarrow> 'g" where
  "SetCA_Chain E pCA_Chain g = ssl_conf_ca_chain E pCA_Chain g"

definition SetRNG :: "('w, 'c, 'l, 's, 'g, 'x, 'd, 'p) tls_env \<Rightarrow> 'd \<Rightarrow> 'g \<Rightarrow> 'g" where
  "SetRNG E pCTR_DRBG g = ssl_conf_rng E pCTR_DRBG g"

definition SetDebugCallback :: "('w, 'c, 'l, 's, 'g, 'x, 'd, 'p) tls_env \<Rightarrow> 'g \<Rightarrow> 'g" where
  "SetDebugCallback E g = ssl_conf_dbg E g"

lemmas config_defs = SetAuthMode_def SetCertProfile_def SetCA_Chain_def SetRNG_def SetDebugCallback_def

subsection \<open>The simple client\<close>

text \<open>
  The configuration keeps pointers to the profile and the chain; both are read at \<open>Setup\<close> here, after which
  the interface does not allow certificates to be added.
\<close>

record ('s, 'g, 'x, 'd, 'p) simple_client =
  sc_tls :: "'s tls_socket"
  sc_CertProfile :: 'p
  sc_CTR_DRBG :: 'd
  sc_CertChain :: 'x
  sc_TLSConfig :: 'g
  sc_CertAdded :: bool

definition CTLSSimpleClientSocket_new ::
  "('w, 'c, 'l, 's, 'g, 'x, 'd, 'p) tls_env \<Rightarrow> u8 list \<Rightarrow> 'p \<Rightarrow> int \<Rightarrow> ('c, 'l, 'w) io \<Rightarrow>
     (('s, 'g, 'x, 'd, 'p) simple_client \<times> ('c, 'l, 'w) io) option" where
  "CTLSSimpleClientSocket_new E mem profile nProtocol b = do {
     (t, b) \<leftarrow> CTLSSocket_new E mem nProtocol b;
     Some (\<lparr>sc_tls = t, sc_CertProfile = profile, sc_CTR_DRBG = CCTR_DRBG_new E,
       sc_CertChain = CX509CertificateChain_new E, sc_TLSConfig = CTLSConfig_new E, sc_CertAdded = False\<rparr>, b)
   }"

definition client_AddCertificate ::
  "('w, 'c, 'l, 's, 'g, 'x, 'd, 'p) tls_env \<Rightarrow> u8 list \<Rightarrow> ('s, 'g, 'x, 'd, 'p) simple_client \<Rightarrow>
     int \<times> ('s, 'g, 'x, 'd, 'p) simple_client" where
  "client_AddCertificate E bs c =
     (let (nResult, chain) = AddCertificate E bs (sc_CertChain c); c = c\<lparr>sc_CertChain := chain\<rparr>
      in if nResult \<noteq> 0 then (nResult, c) else (0, c\<lparr>sc_CertAdded := True\<rparr>))"

definition client_AddCertificateFile ::
  "('w, 'c, 'l, 's, 'g, 'x, 'd, 'p) tls_env \<Rightarrow> cstring \<Rightarrow> ('s, 'g, 'x, 'd, 'p) simple_client \<Rightarrow> 'w \<Rightarrow>
     int \<times> ('s, 'g, 'x, 'd, 'p) simple_client \<times> 'w" where
  "client_AddCertificateFile E pFilename c w =
     (let (nResult, chain, w) = AddCertificateFile E pFilename (sc_CertChain c) w; c = c\<lparr>sc_CertChain := chain\<rparr>
      in if nResult \<noteq> 0 then (nResult, c, w) else (0, c\<lparr>sc_CertAdded := True\<rparr>, w))"

definition client_AddCertificatePath ::
  "('w, 'c, 'l, 's, 'g, 'x, 'd, 'p) tls_env \<Rightarrow> cstring \<Rightarrow> ('s, 'g, 'x, 'd, 'p) simple_client \<Rightarrow> 'w \<Rightarrow>
     int \<times> ('s, 'g, 'x, 'd, 'p) simple_client \<times> 'w" where
  "client_AddCertificatePath E pPath c w =
     (let (nResult, chain, w) = AddCertificatePath E pPath (sc_CertChain c) w; c = c\<lparr>sc_CertChain := chain\<rparr>
      in if nResult \<le> 0 then (nResult, c, w) else (nResult, c\<lparr>sc_CertAdded := True\<rparr>, w))"

definition configure ::
  "('w, 'c, 'l, 's, 'g, 'x, 'd, 'p) tls_env \<Rightarrow> ('s, 'g, 'x, 'd, 'p) simple_client \<Rightarrow> 'g \<Rightarrow> 'g" where
  "configure E c g =
     SetDebugCallback E (SetRNG E (sc_CTR_DRBG c)
       (if sc_CertAdded c
        then SetCA_Chain E (sc_CertChain c)
               (SetCertProfile E (sc_CertProfile c) (SetAuthMode E (SSL_VERIFY_REQUIRED E) g))
        else SetAuthMode E (SSL_VERIFY_NONE E) g))"

definition client_Setup ::
  "('w, 'c, 'l, 's, 'g, 'x, 'd, 'p) tls_env \<Rightarrow> cstring \<Rightarrow> cstring option \<Rightarrow> ('s, 'g, 'x, 'd, 'p) simple_client \<Rightarrow>
     'w \<Rightarrow> (int \<times> ('s, 'g, 'x, 'd, 'p) simple_client \<times> 'w) option" where
  "client_Setup E pServername pPersonalizationString c w = do {
     (nResult, d, w) \<leftarrow> Seed E pPersonalizationString (sc_CTR_DRBG c) w;
     let c = c\<lparr>sc_CTR_DRBG := d\<rparr>;
     if nResult \<noteq> 0 then Some (nResult, c, w)
     else (case SetDefaults E (SSL_IS_CLIENT E) (SSL_TRANSPORT_STREAM E) (SSL_PRESET_DEFAULT E) (sc_TLSConfig c) of
       (nResult, g) \<Rightarrow>
         if nResult \<noteq> 0 then Some (nResult, c\<lparr>sc_TLSConfig := g\<rparr>, w)
         else do {
           let c = c\<lparr>sc_TLSConfig := configure E c g\<rparr>;
           (nResult, t) \<leftarrow> tls_Setup E (sc_TLSConfig c) (sc_tls c);
           let c = c\<lparr>sc_tls := t\<rparr>;
           if nResult \<noteq> 0 then Some (nResult, c, w)
           else do {
             (nResult, t) \<leftarrow> SetHostname E pServername (sc_tls c);
             Some (nResult, c\<lparr>sc_tls := t\<rparr>, w)
           }
         })
   }"

end
