(* ===== verification/Tls_Support.thy ===== *)
theory Tls_Support
  imports Prelude
begin

text \<open>
  What mbed TLS needs from its platform, and the mutexes of Circle as the C++ library uses them: the
  mutex callbacks (\<open>threadingmodule.cpp\<close>), recursive C++ mutexes (\<open>mutex.cpp\<close>) and the source of
  entropy (\<open>entropymodule.cpp\<close>).
\<close>

subsection \<open>Circle's recursive mutex\<close>

text \<open>
  \<open>cm_Acquire t m\<close> is \<open>None\<close> when task \<open>t\<close> has to wait; \<open>cm_Release t m\<close> is \<open>None\<close> when \<open>t\<close> does not
  own the mutex, which is a failed assertion. \<open>owner\<close> is the owning task and how often it holds the
  mutex.
\<close>

record 'm cmutex_ops =
  cm_new :: 'm
  cm_Acquire :: "nat \<Rightarrow> 'm \<Rightarrow> 'm option"
  cm_TryAcquire :: "nat \<Rightarrow> 'm \<Rightarrow> bool \<times> 'm"
  cm_Release :: "nat \<Rightarrow> 'm \<Rightarrow> 'm option"

locale recursive_mutex =
  fixes M :: "'m cmutex_ops" and owner :: "'m \<Rightarrow> (nat \<times> nat) option"
  assumes new_free: "owner (cm_new M) = None"
    and Acquire_free: "owner m = None \<Longrightarrow> \<exists>m'. cm_Acquire M t m = Some m' \<and> owner m' = Some (t, 1)"
    and Acquire_own: "owner m = Some (t, n) \<Longrightarrow> \<exists>m'. cm_Acquire M t m = Some m' \<and> owner m' = Some (t, Suc n)"
    and Acquire_other: "owner m = Some (u, n) \<Longrightarrow> u \<noteq> t \<Longrightarrow> cm_Acquire M t m = None"
    and TryAcquire: "cm_TryAcquire M t m = (case cm_Acquire M t m of None \<Rightarrow> (False, m) | Some m' \<Rightarrow> (True, m'))"
    and Release_own: "owner m = Some (t, Suc n) \<Longrightarrow>
      \<exists>m'. cm_Release M t m = Some m' \<and> owner m' = (if n = 0 then None else Some (t, n))"

definition counted_mutex :: "(nat \<times> nat) option cmutex_ops" where
  "counted_mutex = \<lparr>cm_new = None,
     cm_Acquire = (\<lambda>t m. case m of None \<Rightarrow> Some (Some (t, 1))
       | Some (u, n) \<Rightarrow> if u = t then Some (Some (t, Suc n)) else None),
     cm_TryAcquire = (\<lambda>t m. case m of None \<Rightarrow> (True, Some (t, 1))
       | Some (u, n) \<Rightarrow> if u = t then (True, Some (t, Suc n)) else (False, m)),
     cm_Release = (\<lambda>t m. case m of None \<Rightarrow> None
       | Some (u, n) \<Rightarrow> if u = t then Some (if n \<le> 1 then None else Some (t, n - 1)) else None)\<rparr>"

interpretation counted_mutex: recursive_mutex counted_mutex id
  by unfold_locales (auto simp: counted_mutex_def split: option.splits)

subsection \<open>Recursive C++ mutexes\<close>

definition recursive_mutex_init :: "'m cmutex_ops \<Rightarrow> int \<times> 'm" where
  "recursive_mutex_init M = (0, cm_new M)"

definition recursive_mutex_lock :: "'m cmutex_ops \<Rightarrow> nat \<Rightarrow> 'm \<Rightarrow> (int \<times> 'm) option" where
  "recursive_mutex_lock M t m = map_option (Pair 0) (cm_Acquire M t m)"

definition recursive_mutex_trylock :: "'m cmutex_ops \<Rightarrow> nat \<Rightarrow> 'm \<Rightarrow> bool \<times> 'm" where
  "recursive_mutex_trylock M t m = cm_TryAcquire M t m"

definition recursive_mutex_unlock :: "'m cmutex_ops \<Rightarrow> nat \<Rightarrow> 'm \<Rightarrow> (int \<times> 'm) option" where
  "recursive_mutex_unlock M t m = map_option (Pair 0) (cm_Release M t m)"

subsection \<open>Mutex callbacks of mbed TLS\<close>

text \<open>
  A variable of type \<open>mbedtls_threading_mutex_t\<close> is used as a pointer to a \<open>CMutex\<close>
  (\<open>tm_vars\<close>): its memory holds anything before it is set (reading it fails here), a null pointer or
  the address of a mutex; \<open>tm_objects\<close> are the mutexes that have not been deleted. A callback gets a
  pointer to the variable. \<open>tm_alt\<close>: the callbacks are registered with mbed TLS.
\<close>

datatype mutex_var = Indeterminate | Null | Mutex nat

record 'm threading =
  tm_nUseCount :: int
  tm_alt :: bool
  tm_vars :: "nat \<Rightarrow> mutex_var"
  tm_objects :: "nat \<Rightarrow> 'm option"
  tm_next :: nat

definition CThreadingModule_new :: "'m threading \<Rightarrow> 'm threading" where
  "CThreadingModule_new s =
     s\<lparr>tm_nUseCount := tm_nUseCount s + 1, tm_alt := (if tm_nUseCount s = 0 then True else tm_alt s)\<rparr>"

definition CThreadingModule_delete :: "'m threading \<Rightarrow> 'm threading option" where
  "CThreadingModule_delete s = do {
     assert (tm_nUseCount s > 0);
     Some (s\<lparr>tm_nUseCount := tm_nUseCount s - 1, tm_alt := (if tm_nUseCount s - 1 = 0 then False else tm_alt s)\<rparr>)
   }"

text \<open>\<open>allocated\<close> says whether \<open>new CMutex\<close> returned an object; the result is asserted.\<close>

definition mutex_init :: "'m cmutex_ops \<Rightarrow> bool \<Rightarrow> nat option \<Rightarrow> 'm threading \<Rightarrow> 'm threading option" where
  "mutex_init M allocated ppMutex s = do {
     v \<leftarrow> ppMutex;
     let s = (if allocated
              then s\<lparr>tm_vars := (tm_vars s)(v := Mutex (tm_next s)), tm_objects := (tm_objects s)(tm_next s \<mapsto> cm_new M),
                     tm_next := Suc (tm_next s)\<rparr>
              else s\<lparr>tm_vars := (tm_vars s)(v := Null)\<rparr>);
     assert (tm_vars s v \<noteq> Null);
     Some s
   }"

text \<open>The pointer in a variable, null as \<open>None\<close>.\<close>

definition read_var :: "nat \<Rightarrow> 'm threading \<Rightarrow> nat option option" where
  "read_var v s = (case tm_vars s v of Indeterminate \<Rightarrow> None | Null \<Rightarrow> Some None | Mutex p \<Rightarrow> Some (Some p))"

definition mutex_free :: "nat option \<Rightarrow> 'm threading \<Rightarrow> 'm threading option" where
  "mutex_free ppMutex s = do {
     v \<leftarrow> ppMutex;
     ptr \<leftarrow> read_var v s;
     p \<leftarrow> ptr;
     m \<leftarrow> tm_objects s p;
     Some (s\<lparr>tm_vars := (tm_vars s)(v := Null), tm_objects := (tm_objects s)(p := None)\<rparr>)
   }"

text \<open>
  \<open>mutex_lock\<close> and \<open>mutex_unlock\<close>; \<open>mutex_lock\<close> is \<open>Some None\<close> when the caller has to wait.
\<close>

definition deref :: "nat option \<Rightarrow> 'm threading \<Rightarrow> nat option option" where
  "deref ppMutex s = (case ppMutex of None \<Rightarrow> Some None | Some v \<Rightarrow> read_var v s)"

definition mutex_lock ::
  "'m cmutex_ops \<Rightarrow> int \<Rightarrow> nat \<Rightarrow> nat option \<Rightarrow> 'm threading \<Rightarrow> (int \<times> 'm threading) option option" where
  "mutex_lock M bad_input t ppMutex s = do {
     ptr \<leftarrow> deref ppMutex s;
     case ptr of
       None \<Rightarrow> Some (Some (bad_input, s))
     | Some p \<Rightarrow> do {
         m \<leftarrow> tm_objects s p;
         Some (map_option (\<lambda>m. (0, s\<lparr>tm_objects := (tm_objects s)(p \<mapsto> m)\<rparr>)) (cm_Acquire M t m))
       }
   }"

definition mutex_unlock ::
  "'m cmutex_ops \<Rightarrow> int \<Rightarrow> nat \<Rightarrow> nat option \<Rightarrow> 'm threading \<Rightarrow> (int \<times> 'm threading) option" where
  "mutex_unlock M bad_input t ppMutex s = do {
     ptr \<leftarrow> deref ppMutex s;
     case ptr of
       None \<Rightarrow> Some (bad_input, s)
     | Some p \<Rightarrow> do {
         m \<leftarrow> tm_objects s p;
         m \<leftarrow> cm_Release M t m;
         Some (0, s\<lparr>tm_objects := (tm_objects s)(p \<mapsto> m)\<rparr>)
       }
   }"

subsection \<open>Entropy\<close>

text \<open>
  \<open>EntropyPoll\<close> stores words of the hardware generator (\<open>GetNumber\<close>) into the output as long as four
  bytes are left. The machine is little-endian.
\<close>

definition le_bytes :: "u32 \<Rightarrow> u8 list" where
  "le_bytes v = [ucast v, ucast (drop_bit 8 v), ucast (drop_bit 16 v), ucast (drop_bit 24 v)]"

fun entropy_loop ::
  "('w \<Rightarrow> u32 \<times> 'w) \<Rightarrow> nat \<Rightarrow> nat \<Rightarrow> u8 list \<Rightarrow> 'w \<Rightarrow> (nat \<times> u8 list \<times> 'w) option" where
  "entropy_loop GetNumber nLength nResultLength out w =
     (if nLength \<ge> 4
      then do {
        let (v, w) = GetNumber w;
        out \<leftarrow> put_block out nResultLength (le_bytes v);
        entropy_loop GetNumber (nLength - 4) (nResultLength + 4) out w
      }
      else Some (nResultLength, out, w))"

declare entropy_loop.simps [simp del]

definition EntropyPoll ::
  "('w \<Rightarrow> u32 \<times> 'w) \<Rightarrow> unit option \<Rightarrow> u8 list \<Rightarrow> nat \<Rightarrow> 'w \<Rightarrow> (int \<times> nat \<times> u8 list \<times> 'w) option" where
  "EntropyPoll GetNumber pData out nLength w = do {
     assert (pData = None);
     assert (nLength \<ge> 4);
     (nResultLength, out, w) \<leftarrow> entropy_loop GetNumber nLength 0 out w;
     Some (0, nResultLength, out, w)
   }"

definition mbedtls_hardware_poll ::
  "('w \<Rightarrow> u32 \<times> 'w) \<Rightarrow> unit option \<Rightarrow> u8 list \<Rightarrow> nat \<Rightarrow> 'w \<Rightarrow> (int \<times> nat \<times> u8 list \<times> 'w) option" where
  "mbedtls_hardware_poll GetNumber pData out nLength w = EntropyPoll GetNumber pData out nLength w"

subsection \<open>Lemmas\<close>

text \<open>The numbers a generator delivers, and the world after them.\<close>

primrec numbers :: "('w \<Rightarrow> u32 \<times> 'w) \<Rightarrow> nat \<Rightarrow> 'w \<Rightarrow> u32 list \<times> 'w" where
  "numbers g 0 w = ([], w)"
| "numbers g (Suc n) w = (case g w of (v, w) \<Rightarrow> case numbers g n w of (vs, w) \<Rightarrow> (v # vs, w))"

lemma length_le_bytes [simp]: "length (le_bytes v) = 4"
  by (simp add: le_bytes_def)

lemma entropy_loop_run:
  "r + n \<le> length out \<Longrightarrow> numbers g (n div 4) w = (vs, w') \<Longrightarrow>
     entropy_loop g n r out w =
       Some (r + 4 * (n div 4), take r out @ concat (map le_bytes vs) @ drop (r + 4 * (n div 4)) out, w')"
proof (induction g n r out w arbitrary: vs rule: entropy_loop.induct)
  case (1 g n r out w)
  show ?case
  proof (cases "4 \<le> n")
    case False
    then show ?thesis using "1.prems" by (simp add: entropy_loop.simps [of g n])
  next
    case True
    then have d: "n div 4 = Suc ((n - 4) div 4)" by (simp add: le_div_geq)
    obtain v w1 where v: "g w = (v, w1)" by (metis surj_pair)
    obtain vs' w2 where vs': "numbers g ((n - 4) div 4) w1 = (vs', w2)" by (metis surj_pair)
    then have vs: "vs = v # vs'" "w2 = w'" using "1.prems"(2) v by (simp_all add: d)
    let ?out = "take r out @ le_bytes v @ drop (r + 4) out"
    have put: "put_block out r (le_bytes v) = Some ?out"
      using "1.prems"(1) True by (simp add: put_block_in)
    have len: "r + 4 + (n - 4) \<le> length ?out" using "1.prems"(1) True by simp
    have "entropy_loop g (n - 4) (r + 4) ?out w1 = Some (r + 4 + 4 * ((n - 4) div 4),
        take (r + 4) ?out @ concat (map le_bytes vs') @ drop (r + 4 + 4 * ((n - 4) div 4)) ?out, w')"
      by (rule "1.IH" [OF True refl _ put len]) (simp_all add: v vs' vs(2))
    moreover have "take (r + 4) ?out = take r out @ le_bytes v"
        "drop (r + 4 + 4 * ((n - 4) div 4)) ?out = drop (r + 4 + 4 * ((n - 4) div 4)) out"
        "r + 4 + 4 * ((n - 4) div 4) = r + 4 * (n div 4)"
      using "1.prems"(1) True by (simp_all add: d min_def add.commute)
    ultimately have "entropy_loop g (n - 4) (r + 4) ?out w1 = Some (r + 4 * (n div 4),
        (take r out @ le_bytes v) @ concat (map le_bytes vs') @ drop (r + 4 * (n div 4)) out, w')"
      by (simp only:)
    then show ?thesis using True v put vs(1) by (simp add: entropy_loop.simps [of g n])
  qed
qed

text \<open>
  Every use of the module and of the callbacks by any tasks. The variables start with any memory but
  the address of a mutex, and their memory may be cleared or reused at any time.
\<close>

inductive threading_reach :: "'m cmutex_ops \<Rightarrow> int \<Rightarrow> 'm threading \<Rightarrow> bool" for M bad_input where
  start: "(\<And>v. vars v \<in> {Indeterminate, Null}) \<Longrightarrow> threading_reach M bad_input
    \<lparr>tm_nUseCount = 0, tm_alt = False, tm_vars = vars, tm_objects = Map.empty, tm_next = 0\<rparr>"
| new_module: "threading_reach M bad_input s \<Longrightarrow> threading_reach M bad_input (CThreadingModule_new s)"
| delete_module: "threading_reach M bad_input s \<Longrightarrow> CThreadingModule_delete s = Some s' \<Longrightarrow> threading_reach M bad_input s'"
| memory: "threading_reach M bad_input s \<Longrightarrow> x \<in> {Indeterminate, Null} \<Longrightarrow>
    threading_reach M bad_input (s\<lparr>tm_vars := (tm_vars s)(v := x)\<rparr>)"
| init: "threading_reach M bad_input s \<Longrightarrow> mutex_init M ok pp s = Some s' \<Longrightarrow> threading_reach M bad_input s'"
| free: "threading_reach M bad_input s \<Longrightarrow> mutex_free pp s = Some s' \<Longrightarrow> threading_reach M bad_input s'"
| lock: "threading_reach M bad_input s \<Longrightarrow> mutex_lock M bad_input t pp s = Some (Some (r, s')) \<Longrightarrow> threading_reach M bad_input s'"
| unlock: "threading_reach M bad_input s \<Longrightarrow> mutex_unlock M bad_input t pp s = Some (r, s') \<Longrightarrow> threading_reach M bad_input s'"

definition threading_ok :: "'m threading \<Rightarrow> bool" where
  "threading_ok s \<longleftrightarrow> 0 \<le> tm_nUseCount s \<and> (tm_alt s \<longleftrightarrow> 0 < tm_nUseCount s) \<and>
     (\<forall>v p. tm_vars s v = Mutex p \<longrightarrow> p < tm_next s \<and> tm_objects s p \<noteq> None) \<and>
     (\<forall>u v p. tm_vars s u = Mutex p \<and> tm_vars s v = Mutex p \<longrightarrow> u = v)"

lemma mutex_init_some:
  "mutex_init M ok pp s = Some s' \<longleftrightarrow> ok \<and> (\<exists>v. pp = Some v \<and>
     s' = s\<lparr>tm_vars := (tm_vars s)(v := Mutex (tm_next s)), tm_objects := (tm_objects s)(tm_next s \<mapsto> cm_new M),
            tm_next := Suc (tm_next s)\<rparr>)"
  by (cases pp; cases ok) (auto simp: mutex_init_def res_simps)

lemma mutex_free_some:
  "mutex_free pp s = Some s' \<longleftrightarrow> (\<exists>v p m. pp = Some v \<and> tm_vars s v = Mutex p \<and> tm_objects s p = Some m \<and>
     s' = s\<lparr>tm_vars := (tm_vars s)(v := Null), tm_objects := (tm_objects s)(p := None)\<rparr>)"
proof (cases pp)
  case (Some v)
  then show ?thesis by (cases "tm_vars s v") (auto simp: mutex_free_def read_var_def bind_some)
qed (simp add: mutex_free_def)

lemma threading_reach_ok: "threading_reach M bad_input s \<Longrightarrow> threading_ok s"
proof (induction rule: threading_reach.induct)
  case (start vars)
  then have "vars v \<noteq> Mutex p" for v p by (metis insertE mutex_var.distinct(3,5) singletonD)
  then show ?case by (simp add: threading_ok_def)
next
  case (init s ok pp s')
  then show ?case unfolding threading_ok_def mutex_init_some by (auto simp: less_Suc_eq split: if_splits) (metis less_irrefl)+
next
  case (free s pp s')
  then show ?case unfolding threading_ok_def mutex_free_some by (auto split: if_splits)
qed (auto simp: threading_ok_def CThreadingModule_new_def CThreadingModule_delete_def mutex_lock_def mutex_unlock_def
       res_simps split: option.splits if_splits Option.bind_splits)

text \<open>
  The reference: what a variable is to its users, with the task that owns the mutex and how often.
\<close>

datatype mutex_view = Unset | NoMutex | Owned "(nat \<times> nat) option"

definition view :: "('m \<Rightarrow> (nat \<times> nat) option) \<Rightarrow> 'm threading \<Rightarrow> nat \<Rightarrow> mutex_view" where
  "view owner s v = (case tm_vars s v of Indeterminate \<Rightarrow> Unset | Null \<Rightarrow> NoMutex
     | Mutex p \<Rightarrow> (case tm_objects s p of None \<Rightarrow> Unset | Some m \<Rightarrow> Owned (owner m)))"

lemma view_Owned:
  "view owner s v = Owned x \<longleftrightarrow> (\<exists>p m. tm_vars s v = Mutex p \<and> tm_objects s p = Some m \<and> x = owner m)"
  by (auto simp: view_def split: mutex_var.splits option.splits)

lemma view_Null: "view owner s v = NoMutex \<longleftrightarrow> tm_vars s v = Null"
  by (auto simp: view_def split: mutex_var.splits option.splits)

lemma view_Unset:
  assumes "threading_ok s"
  shows "view owner s v = Unset \<longleftrightarrow> tm_vars s v = Indeterminate"
proof (cases "tm_vars s v")
  case (Mutex p)
  then have "tm_objects s p \<noteq> None" using assms unfolding threading_ok_def by blast
  then show ?thesis using Mutex by (auto simp: view_def)
qed (simp_all add: view_def)

lemma view_update:
  assumes "threading_ok s" "tm_vars s v = Mutex p"
  shows "view owner (s\<lparr>tm_objects := (tm_objects s)(p \<mapsto> m)\<rparr>) = (view owner s)(v := Owned (owner m))"
  using assms by (auto simp: view_def threading_ok_def fun_eq_iff split: mutex_var.splits)

lemma view_init:
  assumes "threading_ok s"
  shows "view owner (s\<lparr>tm_vars := (tm_vars s)(v := Mutex (tm_next s)), tm_objects := (tm_objects s)(tm_next s \<mapsto> m),
      tm_next := n\<rparr>) = (view owner s)(v := Owned (owner m))"
  using assms by (auto simp: view_def threading_ok_def fun_eq_iff split: mutex_var.splits)

lemma view_free:
  assumes "threading_ok s" "tm_vars s v = Mutex p"
  shows "view owner (s\<lparr>tm_vars := (tm_vars s)(v := Null), tm_objects := (tm_objects s)(p := None)\<rparr>) = (view owner s)(v := NoMutex)"
  using assms by (auto simp: view_def threading_ok_def fun_eq_iff split: mutex_var.splits)

context recursive_mutex
begin

lemma lock_view:
  assumes "threading_ok s"
  shows "case view owner s v of
      Unset \<Rightarrow> mutex_lock M bad t (Some v) s = None
    | NoMutex \<Rightarrow> mutex_lock M bad t (Some v) s = Some (Some (bad, s))
    | Owned None \<Rightarrow> (\<exists>s'. mutex_lock M bad t (Some v) s = Some (Some (0, s')) \<and>
        view owner s' = (view owner s)(v := Owned (Some (t, 1))))
    | Owned (Some (u, n)) \<Rightarrow>
        if u = t then \<exists>s'. mutex_lock M bad t (Some v) s = Some (Some (0, s')) \<and>
          view owner s' = (view owner s)(v := Owned (Some (t, Suc n)))
        else mutex_lock M bad t (Some v) s = Some None"
proof (cases "view owner s v")
  case Unset
  then show ?thesis using view_Unset [OF assms, of owner v] by (simp add: mutex_lock_def deref_def read_var_def)
next
  case NoMutex
  then have "tm_vars s v = Null" by (simp add: view_Null)
  then show ?thesis using NoMutex by (simp add: mutex_lock_def deref_def read_var_def)
next
  case (Owned x)
  then obtain p m where p: "tm_vars s v = Mutex p" "tm_objects s p = Some m" "x = owner m" by (auto simp: view_Owned)
  note upd = view_update [OF assms p(1), of owner]
  have l: "mutex_lock M bad t (Some v) s = Some (map_option (\<lambda>m. (0, s\<lparr>tm_objects := (tm_objects s)(p \<mapsto> m)\<rparr>)) (cm_Acquire M t m))"
    using p by (simp add: mutex_lock_def deref_def read_var_def)
  show ?thesis
  proof (cases "owner m")
    case None
    then show ?thesis using Owned p(3) l upd Acquire_free [of m t] by auto
  next
    case (Some un)
    then obtain u n where un: "owner m = Some (u, n)" by (cases un) auto
    then show ?thesis using Owned p(3) l upd Acquire_own [of m t n] Acquire_other [of m u n t] by (cases "u = t") auto
  qed
qed

lemma unlock_view:
  assumes "threading_ok s"
  shows "case view owner s v of
      Unset \<Rightarrow> mutex_unlock M bad t (Some v) s = None
    | NoMutex \<Rightarrow> mutex_unlock M bad t (Some v) s = Some (bad, s)
    | Owned x \<Rightarrow> (\<forall>n. x = Some (t, Suc n) \<longrightarrow> (\<exists>s'. mutex_unlock M bad t (Some v) s = Some (0, s') \<and>
        view owner s' = (view owner s)(v := Owned (if n = 0 then None else Some (t, n)))))"
proof (cases "view owner s v")
  case Unset
  then show ?thesis using view_Unset [OF assms, of owner v] by (simp add: mutex_unlock_def deref_def read_var_def)
next
  case NoMutex
  then have "tm_vars s v = Null" by (simp add: view_Null)
  then show ?thesis using NoMutex by (simp add: mutex_unlock_def deref_def read_var_def)
next
  case (Owned x)
  then obtain p m where p: "tm_vars s v = Mutex p" "tm_objects s p = Some m" "x = owner m" by (auto simp: view_Owned)
  note upd = view_update [OF assms p(1), of owner]
  have "\<exists>s'. mutex_unlock M bad t (Some v) s = Some (0, s') \<and>
      view owner s' = (view owner s)(v := Owned (if n = 0 then None else Some (t, n)))" if "x = Some (t, Suc n)" for n
    using that p Release_own [of m t n] upd by (auto simp: mutex_unlock_def deref_def read_var_def)
  then show ?thesis using Owned by simp
qed

lemma free_view:
  assumes "threading_ok s"
  shows "case view owner s v of
      Owned x \<Rightarrow> (\<exists>s'. mutex_free (Some v) s = Some s' \<and> view owner s' = (view owner s)(v := NoMutex))
    | _ \<Rightarrow> mutex_free (Some v) s = None"
proof (cases "view owner s v")
  case (Owned x)
  then obtain p m where p: "tm_vars s v = Mutex p" "tm_objects s p = Some m" by (auto simp: view_Owned)
  then show ?thesis using Owned view_free [OF assms p(1), of owner] by (simp add: mutex_free_def read_var_def)
next
  case NoMutex
  then have "tm_vars s v = Null" by (simp add: view_Null)
  then show ?thesis using NoMutex by (simp add: mutex_free_def read_var_def)
next
  case Unset
  then have "tm_vars s v = Indeterminate" using view_Unset [OF assms] by blast
  then show ?thesis using Unset by (simp add: mutex_free_def read_var_def)
qed

end

end
