(* ===== verification/Net_Props.thy ===== *)
theory Net_Props
  imports Net_Heap
begin

text \<open>
  The properties of the adapted sockets, over the interface locales of \<open>Net_Sockets_Inv\<close>, and a
  network whose sockets deliver a given list of frames, on which those locales are interpreted.
\<close>

subsection \<open>A scripted network\<close>

text \<open>
  \<open>sw_rx\<close> are the frames to deliver, an empty one for no data; after the last the peer has closed the
  connection. Each \<open>Yield\<close> takes one tick. The error codes are those of mbed TLS.
\<close>

record sock_world =
  sw_rx :: "u8 list list"
  sw_conns :: "nat list"
  sw_ticks :: nat
  sw_log :: "u8 list"

definition script_sock_env :: "(sock_world, nat, nat option list) sock_env" where
  "script_sock_env = \<lparr>
     ERR_NET_SOCKET_FAILED = -0x42, ERR_NET_CONNECT_FAILED = -0x44, ERR_NET_BIND_FAILED = -0x46,
     ERR_NET_ACCEPT_FAILED = -0x4A, ERR_NET_SEND_FAILED = -0x4E, ERR_NET_UNKNOWN_HOST = -0x52,
     ERR_NET_BUFFER_TOO_SMALL = -0x43, ERR_NET_INVALID_CONTEXT = -0x45, ERR_SSL_WANT_READ = -0x6900,
     ERR_SSL_TIMEOUT = -0x6800, ERR_SSL_ALLOC_FAILED = -0x7F00, NET_PROTO_TCP = 0, NET_LISTEN_BACKLOG = 10,
     array_ops = list_array, frame_size = 4, ip_size = 4, sizeof_ip_size = 4, proto_tcp = 6,
     cs_new = (\<lambda>_ w. (0, w)), cs_delete = (\<lambda>_ w. w),
     cs_Connect = (\<lambda>_ _ _ w. (0, w)), cs_Bind = (\<lambda>_ _ w. (0, w)), cs_Listen = (\<lambda>_ _ w. (0, w)),
     cs_Accept = (\<lambda>_ w. case sw_conns w of [] \<Rightarrow> (None, w) | c # cs \<Rightarrow> (Some (c, [10, 0, 0, 1]), w\<lparr>sw_conns := cs\<rparr>)),
     cs_Receive = (\<lambda>_ n _ w. case sw_rx w of
         [] \<Rightarrow> ((-1, []), w)
       | bs # fs \<Rightarrow> ((int (length (take n bs)), take n bs), w\<lparr>sw_rx := fs, sw_log := sw_log w @ take n bs\<rparr>)),
     cs_Send = (\<lambda>_ bs w. (int (length bs), w)),
     cs_GetForeignIP = (\<lambda>_ _. Some [10, 0, 0, 1]),
     net_Resolve = (\<lambda>_ w. (Some [10, 0, 0, 1], w)),
     obj_new = (\<lambda>w. (True, w)),
     sched_Yield = (\<lambda>w. w\<lparr>sw_ticks := sw_ticks w + 1\<rparr>), sched_usSleep = (\<lambda>_ w. w),
     timer_Ticks = (\<lambda>w. (of_nat (sw_ticks w), w)), msec_hz = (\<lambda>ms. ms div 10)\<rparr>"

interpretation script_sockets: socket_provider script_sock_env id
  by unfold_locales (auto simp: script_sock_env_def list_array_def split: list.splits)

interpretation script_logging: logging_sockets script_sock_env id sw_log
  by unfold_locales (auto simp: script_sock_env_def split: list.splits)

lemma script_poll_ticks [simp]: "sw_ticks (poll script_sock_env c f w) = Suc (sw_ticks w)"
  by (simp add: poll_def script_sock_env_def split: list.splits)

lemma script_polls_ticks [simp]: "sw_ticks ((poll script_sock_env c f ^^ k) w) = sw_ticks w + k"
  by (induction k) simp_all

interpretation script_clock: clocked_sockets script_sock_env id sw_ticks
proof unfold_locales
  show "\<exists>k. m \<le> sw_ticks ((poll script_sock_env c f ^^ k) w)" for m c f w
    by (rule exI [of _ m]) simp
  show "t = of_nat (sw_ticks w) \<and> sw_ticks w' = sw_ticks w" if "timer_Ticks script_sock_env w = (t, w')" for w t w'
    using that by (auto simp: script_sock_env_def)
qed simp_all

subsection \<open>Programs on contexts\<close>

definition net_start :: "'l \<Rightarrow> 'w \<Rightarrow> ('c, 'l, 'w) net_state" where
  "net_start a w = \<lparr>nc_ctx = (\<lambda>_. mbedtls_net_init),
     nc_heap = \<lparr>sh_objects = Map.empty, sh_next = 0, s_SocketArray = a\<rparr>, nc_world = w, nc_out = []\<rparr>"

lemma net_start_inv: "entries a = [] \<Longrightarrow> net_inv E entries (net_start a w)"
  by (simp add: net_inv_def net_start_def table_ok_def slot_def mbedtls_net_init_def)

lemma net_start_ctx: "entries a = [] \<Longrightarrow> ctx_inv E entries (net_start a w)"
  by (simp add: ctx_inv_def net_start_def heap_ok_def fd_ok_def slot_def mbedtls_net_init_def)

text \<open>
  C25. Every program of calls on network contexts, accepted connections and reads with a timeout
  included, runs to its end without a failed assertion, without an access to a deleted socket object
  or outside the table of handles and without an access outside a receive buffer, whatever the
  network does (for reads with a timeout time has to pass, and the timeout is at most \<open>2^31\<close> ticks). It
  keeps the contexts consistent: a context is negative or its slot holds a live object, two
  contexts never hold the same object, the slot of an object's handle holds that object. Without
  \<open>mbedtls_net_accept\<close> the occupied slots and the live socket objects even correspond one to one;
  with it a slot of a deleted object can remain (\<open>accept_leaves_dangling\<close>).
\<close>

theorem net_programs_sound:
  assumes "socket_provider E entries" "length mem = frame_size E" "entries a = []"
    "\<forall>c len ms. NetRecvTimeout c len ms \<in> set calls \<longrightarrow>
       clocked_sockets E entries clock \<and> unat (msec_hz E ms) \<le> 2 ^ 31"
  shows "\<exists>n. net_run E mem calls (net_start a w) = Some n \<and> ctx_inv E entries n \<and>
    ((\<forall>b c ip. NetAccept b c ip \<notin> set calls) \<longrightarrow> net_inv E entries n)"
proof -
  obtain n where n: "net_run E mem calls (net_start a w) = Some n"
    using net_run_returns [OF assms(1) net_start_ctx assms(2), of a calls clock w] assms(3,4) by blast
  have "ctx_inv E entries n"
    by (rule socket_provider.net_run_ctx [OF assms(1) net_start_ctx [of entries, OF assms(3)] assms(2) n])
  moreover have "net_inv E entries n" if "\<forall>b c ip. NetAccept b c ip \<notin> set calls"
    by (rule socket_provider.net_run_inv [OF assms(1) net_start_inv [of entries, OF assms(3)] assms(2) n]) (use that in simp)
  ultimately show ?thesis using n by blast
qed

theorem net_programs_sound_witness:
  "\<exists>n. net_run script_sock_env [0, 0, 0, 0]
     [NetInit 0, NetBind 0 None (cstr ''443'') 0, NetAccept 0 1 (Some 4), NetRecv 1 2, NetRecvTimeout 1 4 100,
      NetFree 1, NetFree 0, NetRecv 0 1]
     (net_start [] \<lparr>sw_rx = [[1, 2, 3]], sw_conns = [9], sw_ticks = 0, sw_log = []\<rparr>) = Some n \<and>
     ctx_inv script_sock_env id n"
proof -
  have "\<forall>c len ms. NetRecvTimeout c len ms \<in> set [NetInit 0, NetBind 0 None (cstr ''443'') 0, NetAccept 0 1 (Some 4),
      NetRecv 1 2, NetRecvTimeout 1 4 100, NetFree 1, NetFree 0, NetRecv 0 1] \<longrightarrow>
    clocked_sockets script_sock_env id sw_ticks \<and> unat (msec_hz script_sock_env ms) \<le> 2 ^ 31"
    using script_clock.clocked_sockets_axioms by (simp add: script_sock_env_def)
  from net_programs_sound [OF script_sockets.socket_provider_axioms _ _ this,
      of "[0, 0, 0, 0]" "[]" "\<lparr>sw_rx = [[1, 2, 3]], sw_conns = [9], sw_ticks = 0, sw_log = []\<rparr>"]
  show ?thesis by (auto simp: script_sock_env_def)
qed

subsection \<open>The byte stream\<close>

text \<open>
  C24. Reading is a byte stream. After any program, a sequence of calls on one context (reads of any
  sizes, sends, changes of the blocking mode, pauses) returns exactly the bytes the socket
  delivered, in order: what the reads returned followed by what is still buffered grows by the
  bytes \<open>CSocket::Receive\<close> delivered meanwhile. No byte is lost, repeated or reordered, although
  frames are fetched whole and reads may be smaller.
\<close>

theorem net_recv_stream:
  assumes "logging_sockets E entries log" "length mem = frame_size E" "entries a = []"
    "net_run E mem before (net_start a w) = Some n" "list_all (session_call c) calls"
  shows "\<exists>n' d. net_run E mem calls n = Some n' \<and> log (nc_world n') = log (nc_world n) @ d \<and>
     stream_so_far E c n' = stream_so_far E c n @ d"
proof -
  have "socket_provider E entries" using assms(1) by (rule logging_sockets.axioms)
  then have "ctx_inv E entries n"
    by (rule socket_provider.net_run_ctx [OF _ net_start_ctx [of entries, OF assms(3)] assms(2,4)])
  then show ?thesis by (rule logging_sockets.session_stream [OF assms(1) _ assms(5)])
qed

definition net_example :: "(nat, nat option list, sock_world) net_state" where
  "net_example = the (net_run script_sock_env [0, 0, 0, 0]
     [NetConnect 0 (cstr ''host'') (cstr ''443'') 0]
     (net_start [] \<lparr>sw_rx = [[1, 2, 3], [], [4]], sw_conns = [], sw_ticks = 0, sw_log = []\<rparr>))"

lemma net_example_run:
  "net_run script_sock_env [0, 0, 0, 0] [NetConnect 0 (cstr ''host'') (cstr ''443'') 0]
     (net_start [] \<lparr>sw_rx = [[1, 2, 3], [], [4]], sw_conns = [], sw_ticks = 0, sw_log = []\<rparr>) = Some net_example"
proof -
  obtain n where "net_run script_sock_env [0, 0, 0, 0] [NetConnect 0 (cstr ''host'') (cstr ''443'') 0]
     (net_start [] \<lparr>sw_rx = [[1, 2, 3], [], [4]], sw_conns = [], sw_ticks = 0, sw_log = []\<rparr>) = Some n"
    using net_run_returns [OF script_sockets.socket_provider_axioms net_start_ctx,
        of "[]" "[0, 0, 0, 0]" "[NetConnect 0 (cstr ''host'') (cstr ''443'') 0]"]
    by (fastforce simp: script_sock_env_def)
  then show ?thesis by (simp add: net_example_def)
qed

theorem net_recv_stream_witness:
  "\<exists>n' d. net_run script_sock_env [0, 0, 0, 0] [NetRecv 0 2, NetRecv 0 2, NetRecv 0 2, NetRecv 0 2] net_example = Some n' \<and>
     sw_log (nc_world n') = sw_log (nc_world net_example) @ d \<and>
     stream_so_far script_sock_env 0 n' = stream_so_far script_sock_env 0 net_example @ d"
  by (rule net_recv_stream [OF script_logging.logging_sockets_axioms _ _ net_example_run])
    (simp_all add: script_sock_env_def)

subsection \<open>Reads with a timeout\<close>

text \<open>
  C26. A read with a timeout ends on every network on which time passes: it returns what is buffered at once,
  or the bytes of the next frame, or 0 when the peer has closed the connection, or
  \<open>MBEDTLS_ERR_SSL_TIMEOUT\<close>, and the last only after at least the requested number of ticks, even
  when the 32-bit tick counter wraps around meanwhile. Conversions to more than \<open>2^31\<close> ticks are excluded.
\<close>

theorem net_recv_timeout_ends:
  assumes "clocked_sockets E entries clock" "net_inv E entries n" "unat (msec_hz E ms) \<le> 2 ^ 31"
    "GetSocket (array_ops E) (nc_ctx n c) (s_SocketArray (nc_heap n)) = Some (Some p)"
  shows "\<exists>s r bs s' w'. sh_objects (nc_heap n) p = Some s \<and>
    mbedtls_net_recv_timeout E (nc_ctx n c) len ms (nc_heap n) (nc_world n) =
      Some (Some (r, bs, (nc_heap n)\<lparr>sh_objects := (sh_objects (nc_heap n))(p \<mapsto> s')\<rparr>, w')) \<and>
    (if pending s \<noteq> [] then r = int (length bs) \<and> bs @ pending s' = pending s \<and> w' = nc_world n
     else r = ERR_SSL_TIMEOUT E \<and> bs = [] \<and> s' = s \<and> clock (nc_world n) + unat (msec_hz E ms) \<le> clock w'
       \<or> r = 0 \<and> bs = [] \<and> s' = s
       \<or> (\<exists>w0 ds. r = int (length bs) \<and> bs @ pending s' = ds \<and>
           cs_Receive E (as_Socket s) (frame_size E) (ms \<noteq> 0) w0 = ((int (length ds), ds), w')))"
proof -
  have "socket_provider E entries" using assms(1) by (rule clocked_sockets.axioms)
  from socket_provider.net_inv_fd [OF this assms(2), of c] obtain s
    where s: "sh_objects (nc_heap n) p = Some s" "buf_ok E s"
    using assms(4) by (metis option.distinct(1) option.inject)
  show ?thesis
    using clocked_sockets.ReceiveTimeout_ends [OF assms(1) s(2) assms(3), of len "nc_world n"] s(1) assms(4)
    by (elim exE conjE) (intro exI conjI, assumption, auto simp: mbedtls_net_recv_timeout_def)
qed

subsection \<open>Accepted connections\<close>

text \<open>
  What \<open>Accept\<close> leaves behind. The constructor registers the new socket object, and \<open>Accept\<close> registers
  it a second time and returns the second handle. When the connection is freed through that
  descriptor, the destructor clears the first slot only: the slot of the returned descriptor keeps
  the pointer to the deleted object and is never free again.
\<close>

theorem accept_leaves_dangling:
  assumes "socket_provider E entries" "net_inv E entries n"
    "GetSocket (array_ops E) (nc_ctx n c) (s_SocketArray (nc_heap n)) = Some (Some p)"
    "sh_objects (nc_heap n) p = Some s"
    "cs_Accept E (as_Socket s) (nc_world n) = (Some (conn, ip), w1)" "obj_new E w1 = (True, w2)"
  shows "\<exists>fd h1 h2 w3 q.
    mbedtls_net_accept E mem (nc_ctx n c) cfd None (nc_heap n) (nc_world n) = Some (0, fd, None, h1, w2) \<and>
    mbedtls_net_free E fd h1 w2 = Some (-1, h2, w3) \<and>
    GetSocket (array_ops E) fd (s_SocketArray h2) = Some (Some q) \<and> sh_objects h2 q = None"
proof -
  obtain q h where con: "construct E mem conn (nc_heap n) = (q, h)" by (metis surj_pair)
  obtain i so where x: "sh_objects h q = Some so" "as_Handle so = int i" "i < length (entries (s_SocketArray h))"
      "slot (entries (s_SocketArray h)) i = Some q"
    using socket_provider.construct_slots [OF assms(1) con] by auto
  obtain j a where add: "AddSocket (array_ops E) q (s_SocketArray h) = (j, a)" by (metis surj_pair)
  have arr: "ptr_array (array_ops E) entries" using assms(1) by (rule socket_provider.axioms)
  note slots = ptr_array.AddSocket_slots [OF arr add]
  have ij: "i \<noteq> j" using slots x(4) by auto
  obtain a' where del: "DeleteSocket (array_ops E) (int i) a = Some a'" "length (entries a') = length (entries a)"
      "slot (entries a') = (slot (entries a))(i := None)"
    using ptr_array.DeleteSocket_slots [OF arr, of i a] slots x(3) by auto
  have g: "GetSocket (array_ops E) (int j) a = Some (Some q)" "GetSocket (array_ops E) (int j) a' = Some (Some q)"
    using ptr_array.GetSocket_slot [OF arr, of "int j"] slots del ij by simp_all
  let ?h1 = "h\<lparr>s_SocketArray := a\<rparr>"
  have "mbedtls_net_accept E mem (nc_ctx n c) cfd None (nc_heap n) (nc_world n) = Some (0, int j, None, ?h1, w2)"
    using assms(3-6) con add by (simp add: mbedtls_net_accept_def Accept_def)
  moreover have "mbedtls_net_free E (int j) ?h1 w2 =
      Some (-1, ?h1\<lparr>s_SocketArray := a', sh_objects := (sh_objects h)(q := None)\<rparr>, cs_delete E (as_Socket so) w2)"
    using g(1) x del(1) by (simp add: mbedtls_net_free_def CAdaptedSocket_delete_def)
  ultimately show ?thesis using g(2) by force
qed

subsection \<open>Witnesses\<close>

definition net_listening :: "(nat, nat option list, sock_world) net_state" where
  "net_listening = \<lparr>nc_ctx = (\<lambda>_. -1)(0 := 0),
     nc_heap = \<lparr>sh_objects = [0 \<mapsto> \<lparr>as_Socket = 7, as_Handle = 0, as_RxBuffer = [0, 0, 0, 0], as_RxBytesValid = 0,
         as_RxBytesUsed = 0, as_Block = True\<rparr>], sh_next = 1, s_SocketArray = [Some 0]\<rparr>,
     nc_world = \<lparr>sw_rx = [[], [1, 2]], sw_conns = [9], sw_ticks = 2 ^ 32 - 1, sw_log = []\<rparr>, nc_out = []\<rparr>"

lemma net_listening_inv: "net_inv script_sock_env id net_listening"
  by (auto simp: net_inv_def net_listening_def table_ok_def slot_def buf_ok_def script_sock_env_def split: if_splits)

lemma net_listening_socket: "GetSocket (array_ops script_sock_env) (nc_ctx net_listening 0) (s_SocketArray (nc_heap net_listening)) = Some (Some 0)"
  by (simp add: net_listening_def GetSocket_def script_sock_env_def list_array_def)

theorem net_recv_timeout_ends_witness:
  "\<exists>r x. mbedtls_net_recv_timeout script_sock_env (nc_ctx net_listening 0) 4 100 (nc_heap net_listening)
     (nc_world net_listening) = Some (Some (r, x))"
  using net_recv_timeout_ends [OF script_clock.clocked_sockets_axioms net_listening_inv _ net_listening_socket, of 100 4]
  by (auto simp: script_sock_env_def)

theorem accept_leaves_dangling_witness:
  "\<exists>fd h1 h2 w3 q.
    mbedtls_net_accept script_sock_env [0, 0, 0, 0] (nc_ctx net_listening 0) (-1) None (nc_heap net_listening)
      (nc_world net_listening) = Some (0, fd, None, h1, (nc_world net_listening)\<lparr>sw_conns := []\<rparr>) \<and>
    mbedtls_net_free script_sock_env fd h1 ((nc_world net_listening)\<lparr>sw_conns := []\<rparr>) = Some (-1, h2, w3) \<and>
    GetSocket (array_ops script_sock_env) fd (s_SocketArray h2) = Some (Some q) \<and> sh_objects h2 q = None"
  by (rule accept_leaves_dangling [OF script_sockets.socket_provider_axioms net_listening_inv net_listening_socket])
    (auto simp: net_listening_def script_sock_env_def)

end
