(* ===== verification/Tls_Props.thy ===== *)
theory Tls_Props
  imports Tls_Client Tls_Support Net_Props
begin

text \<open>
  Properties of the TLS layer: when \<open>Connect\<close> succeeds, when the certificate of the server is
  required, which files \<open>AddCertificatePath\<close> reads, what the entropy source writes, and the mutex
  callbacks.
\<close>

subsection \<open>Connecting\<close>

text \<open>A handshake that ends with a result after any number of calls that ask to be repeated.\<close>

inductive handshake_ends ::
  "('w, 'c, 'l, 's, 'g, 'x, 'd, 'p) tls_env \<Rightarrow> ('c, 'l, 'w) bio \<Rightarrow> 's \<Rightarrow> ('c, 'l, 'w) io \<Rightarrow>
     int \<Rightarrow> 's \<Rightarrow> ('c, 'l, 'w) io \<Rightarrow> bool" for E bio where
  finished: "ssl_handshake E bio s b = Some (r, s', b') \<Longrightarrow>
    r = 0 \<or> r \<notin> {ERR_SSL_WANT_READ E, ERR_SSL_WANT_WRITE E} \<Longrightarrow> handshake_ends E bio s b r s' b'"
| again: "ssl_handshake E bio s b = Some (q, s1, b1) \<Longrightarrow> q \<noteq> 0 \<Longrightarrow>
    q \<in> {ERR_SSL_WANT_READ E, ERR_SSL_WANT_WRITE E} \<Longrightarrow>
    handshake_ends E bio s1 b1 r s' b' \<Longrightarrow> handshake_ends E bio s b r s' b'"

lemma handshake_loop_ends:
  "handshake_ends E bio s b r s' b' \<Longrightarrow> handshake_loop E bio s b = Some (Some (r, s', b'))"
  by (induction rule: handshake_ends.induct) (subst handshake_loop.simps, auto)+

text \<open>
  C28. \<open>CTLSSocket::Connect\<close> returns 0 exactly when the TCP connection is established, the
  handshake has come to a successful end and the verification of the certificate has raised no flag.
  A handshake that fails leaves the socket unconnected and its error code is returned; a certificate that
  does not verify is reported as \<open>MBEDTLS_ERR_X509_CERT_VERIFY_FAILED\<close>. For every handshake that ends
  \<open>Connect\<close> returns, however often it had to be repeated.
\<close>

theorem tls_connect_verified:
  assumes "ERR_X509_CERT_VERIFY_FAILED E \<noteq> 0" "ts_Socket t = Some p" "\<not> ts_Connected t" "sh_objects h p = Some s"
    "Connect_ip E ip port s w = (r0, w0)"
    "handshake_ends E \<lparr>bio_recv = ReceiveCallback E p, bio_send = SendCallback E p\<rparr> (ts_Context t) (h, w0) r s' b'"
  shows "\<exists>code t' b''. tls_Connect_ip E ip port t (h, w) = Some (Some (code, t', b'')) \<and>
    (code = 0 \<longleftrightarrow> r0 = 0 \<and> r = 0 \<and> ssl_get_verify_result E s' = 0) \<and>
    (ts_Connected t' \<longleftrightarrow> r0 = 0 \<and> r = 0) \<and>
    (r0 = 0 \<and> r = 0 \<and> ssl_get_verify_result E s' \<noteq> 0 \<longrightarrow> code = ERR_X509_CERT_VERIFY_FAILED E) \<and>
    (r0 \<noteq> 0 \<longrightarrow> code = r0) \<and> (r0 = 0 \<and> r \<noteq> 0 \<longrightarrow> code = r)"
  using assms handshake_loop_ends [OF assms(6)]
  by (cases "r0 = 0"; cases "r = 0") (auto simp: tls_Connect_ip_def bio_of_def Let_def)

subsection \<open>Required verification\<close>

text \<open>
  What an application may do before \<open>Setup\<close>, and which of the calls report a certificate added.
\<close>

datatype cert_call = AddCert "u8 list" | AddFile cstring | AddPath cstring

fun cert_do ::
  "('w, 'c, 'l, 's, 'g, 'x, 'd, 'p) tls_env \<Rightarrow> cert_call \<Rightarrow> ('s, 'g, 'x, 'd, 'p) simple_client \<times> 'w \<Rightarrow>
     int \<times> ('s, 'g, 'x, 'd, 'p) simple_client \<times> 'w" where
  "cert_do E (AddCert bs) (c, w) = (case client_AddCertificate E bs c of (r, c) \<Rightarrow> (r, c, w))"
| "cert_do E (AddFile f) (c, w) = client_AddCertificateFile E f c w"
| "cert_do E (AddPath p) (c, w) = client_AddCertificatePath E p c w"

fun reports_added :: "cert_call \<Rightarrow> int \<Rightarrow> bool" where
  "reports_added (AddPath p) r \<longleftrightarrow> 0 < r"
| "reports_added _ r \<longleftrightarrow> r = 0"

fun cert_run ::
  "('w, 'c, 'l, 's, 'g, 'x, 'd, 'p) tls_env \<Rightarrow> cert_call list \<Rightarrow> ('s, 'g, 'x, 'd, 'p) simple_client \<times> 'w \<Rightarrow>
     int list \<times> ('s, 'g, 'x, 'd, 'p) simple_client \<times> 'w" where
  "cert_run E [] st = ([], st)"
| "cert_run E (k # ks) st = (case cert_do E k st of (r, st) \<Rightarrow> case cert_run E ks st of (rs, st) \<Rightarrow> (r # rs, st))"

lemma cert_do_added:
  assumes "cert_do E k (c, w) = (r, c', w')"
  shows "sc_CertAdded c' \<longleftrightarrow> sc_CertAdded c \<or> reports_added k r" "sc_tls c' = sc_tls c"
  using assms
  by (cases k; auto simp: client_AddCertificate_def client_AddCertificateFile_def client_AddCertificatePath_def Let_def
    split: prod.splits if_splits)+

lemma cert_run_added:
  "cert_run E ks (c, w) = (rs, c', w') \<Longrightarrow>
     (sc_CertAdded c' \<longleftrightarrow> sc_CertAdded c \<or> (\<exists>(k, r) \<in> set (zip ks rs). reports_added k r)) \<and> sc_tls c' = sc_tls c"
proof (induction ks arbitrary: c w rs)
  case (Cons k ks)
  obtain r c1 w1 where k: "cert_do E k (c, w) = (r, c1, w1)" by (metis prod_cases3)
  obtain rs1 where "cert_run E ks (c1, w1) = (rs1, c', w')" "rs = r # rs1"
    using Cons.prems k by (auto split: prod.splits)
  then show ?case using Cons.IH cert_do_added [OF k] by auto
qed simp

text \<open>
  The interface to the configuration functions of mbed TLS: \<open>authmode g\<close> is the mode a configuration
  holds and \<open>ca_chain g\<close> the chain it verifies against.
\<close>

locale ssl_config =
  fixes E :: "('w, 'c, 'l, 's, 'g, 'x, 'd, 'p) tls_env" and authmode :: "'g \<Rightarrow> int" and ca_chain :: "'g \<Rightarrow> 'x option"
  assumes authmode: "authmode (ssl_conf_authmode E m g) = m" "authmode (ssl_conf_cert_profile E p g) = authmode g"
      "authmode (ssl_conf_ca_chain E x g) = authmode g" "authmode (ssl_conf_rng E d g) = authmode g"
      "authmode (ssl_conf_dbg E g) = authmode g"
    and ca_chain: "ca_chain (ssl_conf_ca_chain E x g) = Some x" "ca_chain (ssl_conf_rng E d g) = ca_chain g"
      "ca_chain (ssl_conf_dbg E g) = ca_chain g" "ca_chain (ssl_conf_authmode E m g) = ca_chain g"
begin

lemma configure_mode:
  "authmode (configure E c g) = (if sc_CertAdded c then SSL_VERIFY_REQUIRED E else SSL_VERIFY_NONE E)"
  "sc_CertAdded c \<Longrightarrow> ca_chain (configure E c g) = Some (sc_CertChain c)"
  by (simp_all add: configure_def config_defs authmode ca_chain)

end

lemma client_Setup_ok:
  assumes "client_Setup E host pers c w = Some (0, c', w')"
  shows "\<exists>g d s. sc_TLSConfig c' = configure E (c\<lparr>sc_CTR_DRBG := d\<rparr>) g \<and>
    ssl_setup E (sc_TLSConfig c') (ts_Context (sc_tls c)) = (0, s) \<and>
    ssl_set_hostname E host s = (0, ts_Context (sc_tls c'))"
  using assms
  by (auto simp: client_Setup_def tls_Setup_def SetHostname_def Let_def split: prod.splits if_splits Option.bind_splits)
    blast

text \<open>
  C27. When a client verifies its server. Whatever certificates an application tries to add to a new
  client, if \<open>Setup\<close> then returns 0, mbed TLS has been set up with a configuration that requires a
  valid certificate, checked against the chain of the client, if at least one of the calls reported
  success (0, or a positive count for a path), and with one that verifies nothing otherwise. Only what
  the calls reported counts: a path that fails after some of its files leaves their certificates in
  the chain without requiring them (\<open>failed_path_not_required\<close>), and so does a file or buffer of which the
  parser accepts some certificates only.
\<close>

theorem tls_verification_required:
  assumes "ssl_config E authmode ca_chain"
    "CTLSSimpleClientSocket_new E mem profile nProtocol b = Some (c, b')"
    "cert_run E ks (c, w) = (rs, c1, w1)" "client_Setup E host pers c1 w1 = Some (0, c2, w2)"
  shows "(\<exists>s. ssl_setup E (sc_TLSConfig c2) (ssl_init E) = (0, s)) \<and>
    (if \<exists>(k, r) \<in> set (zip ks rs). reports_added k r
     then authmode (sc_TLSConfig c2) = SSL_VERIFY_REQUIRED E \<and> ca_chain (sc_TLSConfig c2) = Some (sc_CertChain c1)
     else authmode (sc_TLSConfig c2) = SSL_VERIFY_NONE E)"
proof -
  have c: "\<not> sc_CertAdded c" "ts_Context (sc_tls c) = ssl_init E"
    using assms(2) by (auto simp: CTLSSimpleClientSocket_new_def CTLSSocket_new_def split: prod.splits if_splits Option.bind_splits)
  obtain g d s where g: "sc_TLSConfig c2 = configure E (c1\<lparr>sc_CTR_DRBG := d\<rparr>) g"
      "ssl_setup E (sc_TLSConfig c2) (ts_Context (sc_tls c1)) = (0, s)"
    using client_Setup_ok [OF assms(4)] by blast
  show ?thesis
    using cert_run_added [OF assms(3)] c g ssl_config.configure_mode [OF assms(1), of "c1\<lparr>sc_CTR_DRBG := d\<rparr>" g]
    by auto
qed

text \<open>
  \<open>Setup\<close> without the optional second argument passes a null pointer to \<open>strlen\<close>: it behaves as if the
  string at address 0 had been given, and fails where there is none.
\<close>

lemma setup_without_string:
  "client_Setup E host None c w = (case null_str E of None \<Rightarrow> None | Some str \<Rightarrow> client_Setup E host (Some str) c w)"
  by (simp add: client_Setup_def Seed_def split: option.splits)

text \<open>With a string \<open>Setup\<close> returns on every socket that is not connected yet.\<close>

lemma setup_with_string_returns:
  assumes "\<not> ts_Connected (sc_tls c)"
  shows "\<exists>r c' w'. client_Setup E host (Some str) c w = Some (r, c', w')"
proof -
  obtain r d w1 where "ctr_drbg_seed E str (sc_CTR_DRBG c) w = (r, d, w1)" by (metis prod_cases3)
  then show ?thesis
    using assms by (auto simp: client_Setup_def Seed_def tls_Setup_def SetHostname_def Let_def split: prod.splits)
qed

text \<open>
  A path that fails: the certificates of the files before the failing one are in the chain, but
  nothing requires them to be used.
\<close>

lemma failed_path_not_required:
  assumes "dir_entries E path w = (Some (f # g # entries), w1)" "certificate_name f" "certificate_name g"
    "AddCertificateFile E f (sc_CertChain c) w1 = (r1, chain1, w2)" "0 \<le> r1"
    "AddCertificateFile E g chain1 w2 = (r2, chain2, w3)" "r2 < 0"
  shows "\<exists>w'. client_AddCertificatePath E path c w = (r2, c\<lparr>sc_CertChain := chain2\<rparr>, w')"
  using assms by (simp add: client_AddCertificatePath_def AddCertificatePath_def)

subsection \<open>Certificates from a directory\<close>

text \<open>
  The reference. A certificate file has a name that ends in one of three extensions and has
  something before it. What a file contributes depends on its content: nothing to read is an I/O
  error, \<open>5000\<close> bytes and more are too much, and a text with the mark of the PEM format before its first
  zero byte is given to the parser with a terminating zero, anything else as it is.
\<close>

definition certificate_file :: "cstring \<Rightarrow> bool" where
  "certificate_file name \<longleftrightarrow>
     (\<exists>base ext. name = base @ ext \<and> base \<noteq> [] \<and> ext \<in> {cstr ''.pem'', cstr ''.crt'', cstr ''.der''})"

definition pem :: "u8 list \<Rightarrow> bool" where
  "pem bs \<longleftrightarrow> (\<exists>xs ys zs. bs = xs @ cstr ''-----BEGIN '' @ ys @ zs \<and> 0 \<notin> set (xs @ ys) \<and> (zs = [] \<or> hd zs = 0))"

definition content_outcome ::
  "('w, 'c, 'l, 's, 'g, 'x, 'd, 'p) tls_env \<Rightarrow> u8 list option \<Rightarrow> 'x \<Rightarrow> int \<times> 'x" where
  "content_outcome E content chain =
     (case content of
        None \<Rightarrow> (ERR_PK_FILE_IO_ERROR E, chain)
      | Some bs \<Rightarrow>
          if bs = [] then (ERR_PK_FILE_IO_ERROR E, chain)
          else if 5000 \<le> length bs then (ERR_X509_BUFFER_TOO_SMALL E, chain)
          else x509_crt_parse E (if pem bs then bs @ [0] else bs) chain)"

text \<open>One file by its bare name, and the chain and the world after a list of files.\<close>

definition file_outcome ::
  "('w, 'c, 'l, 's, 'g, 'x, 'd, 'p) tls_env \<Rightarrow> cstring \<Rightarrow> 'x \<times> 'w \<Rightarrow> int \<times> 'x \<times> 'w" where
  "file_outcome E f st =
     (case file_read E f 5000 (snd st) of (content, w) \<Rightarrow>
        case content_outcome E content (fst st) of (r, chain) \<Rightarrow> (r, chain, w))"

definition after_files ::
  "('w, 'c, 'l, 's, 'g, 'x, 'd, 'p) tls_env \<Rightarrow> cstring list \<Rightarrow> 'x \<times> 'w \<Rightarrow> 'x \<times> 'w" where
  "after_files E fs st = fold (\<lambda>f st. snd (file_outcome E f st)) fs st"

lemma certificate_name_file: "certificate_name name = certificate_file name"
proof
  assume c: "certificate_name name"
  let ?b = "take (length name - 4) name" and ?e = "drop (length name - 4) name"
  have "?b \<noteq> []" using c by (auto simp: certificate_name_def Let_def)
  moreover have "?e \<in> {cstr ''.pem'', cstr ''.crt'', cstr ''.der''}"
    using c by (auto simp: certificate_name_def Let_def)
  ultimately show "certificate_file name" unfolding certificate_file_def by (intro exI [of _ ?b] exI [of _ ?e]) simp
next
  assume "certificate_file name"
  then obtain base ext where n: "name = base @ ext" "base \<noteq> []" "ext \<in> {cstr ''.pem'', cstr ''.crt'', cstr ''.der''}"
    unfolding certificate_file_def by blast
  then have "length ext = 4" "0 < length base" by auto
  then show "certificate_name name" using n by (auto simp: certificate_name_def Let_def)
qed

lemma strstr_append: "strstr hay needle \<longleftrightarrow> (\<exists>xs ys. hay = xs @ needle @ ys)"
proof (induction hay)
  case (Cons c cs)
  have "take (length needle) (c # cs) = needle \<longleftrightarrow> (\<exists>ys. c # cs = needle @ ys)"
    by (metis append_eq_conv_conj append_take_drop_id)
  moreover have "(\<exists>xs ys. c # cs = xs @ needle @ ys) \<longleftrightarrow>
      (\<exists>ys. c # cs = needle @ ys) \<or> (\<exists>xs ys. cs = xs @ needle @ ys)"
    by (auto simp: Cons_eq_append_conv)
  ultimately show ?case using Cons.IH by simp
qed simp

lemma pem_strstr: "pem bs \<longleftrightarrow> strstr (takeWhile (\<lambda>c. c \<noteq> 0) (bs @ [0])) (cstr ''-----BEGIN '')"
proof -
  let ?m = "cstr ''-----BEGIN ''"
  have tw: "takeWhile (\<lambda>c. c \<noteq> 0) (bs @ [0]) = takeWhile (\<lambda>c. c \<noteq> 0) bs" by (induction bs) auto
  have m: "0 \<notin> set ?m" by simp
  show ?thesis
  proof
    assume "pem bs"
    then obtain xs ys zs where x: "bs = xs @ ?m @ ys @ zs" "0 \<notin> set (xs @ ys)" "zs = [] \<or> hd zs = 0"
      unfolding pem_def by blast
    have "takeWhile (\<lambda>c. c \<noteq> 0) ((xs @ ?m @ ys) @ zs) = (xs @ ?m @ ys) @ takeWhile (\<lambda>c. c \<noteq> 0) zs"
      using x(2) m by (intro takeWhile_append2) auto
    moreover have "takeWhile (\<lambda>c. c \<noteq> 0) zs = []" using x(3) by (cases zs) auto
    ultimately have "takeWhile (\<lambda>c. c \<noteq> 0) bs = xs @ ?m @ ys" using x(1) by simp
    then show "strstr (takeWhile (\<lambda>c. c \<noteq> 0) (bs @ [0])) ?m" unfolding tw strstr_append by blast
  next
    assume "strstr (takeWhile (\<lambda>c. c \<noteq> 0) (bs @ [0])) ?m"
    then obtain xs ys where x: "takeWhile (\<lambda>c. c \<noteq> 0) bs = xs @ ?m @ ys" unfolding tw strstr_append by blast
    let ?zs = "dropWhile (\<lambda>c. c \<noteq> 0) bs"
    have "bs = xs @ ?m @ ys @ ?zs" using x takeWhile_dropWhile_id [of "\<lambda>c. c \<noteq> 0" bs] by simp
    moreover have "0 \<notin> set (takeWhile (\<lambda>c. c \<noteq> 0) bs)" by (auto dest: set_takeWhileD)
    then have "0 \<notin> set (xs @ ys)" unfolding x by simp
    moreover have "?zs = [] \<or> hd ?zs = 0" using hd_dropWhile [of "\<lambda>c. c \<noteq> 0" bs] by auto
    ultimately show "pem bs" unfolding pem_def by blast
  qed
qed

lemma AddCertificateFile_outcome: "AddCertificateFile E f chain w = file_outcome E f (chain, w)"
  by (simp add: AddCertificateFile_def file_outcome_def content_outcome_def AddCertificate_def CERTIFICATE_MAX_SIZE_def
      pem_strstr Let_def split: prod.splits option.splits)

text \<open>The loop up to the first failure, as a function of the files it picks.\<close>

lemma certificate_loop_all:
  assumes "\<And>i. i < length (filter certificate_file entries) \<Longrightarrow>
    0 \<le> fst (file_outcome E (filter certificate_file entries ! i) (after_files E (take i (filter certificate_file entries)) (chain, w)))"
  shows "certificate_loop E entries n chain w =
    (n + int (length (filter certificate_file entries)), after_files E (filter certificate_file entries) (chain, w))"
  using assms
proof (induction entries arbitrary: n chain w)
  case (Cons f entries)
  show ?case
  proof (cases "certificate_file f")
    case True
    obtain r chain1 w1 where f: "file_outcome E f (chain, w) = (r, chain1, w1)" by (metis prod_cases3)
    have "0 \<le> r" using Cons.prems [of 0] True f by (simp add: after_files_def)
    moreover have "certificate_loop E entries (n + 1) chain1 w1 =
        (n + 1 + int (length (filter certificate_file entries)), after_files E (filter certificate_file entries) (chain1, w1))"
    proof (rule Cons.IH)
      fix i assume "i < length (filter certificate_file entries)"
      then show "0 \<le> fst (file_outcome E (filter certificate_file entries ! i)
          (after_files E (take i (filter certificate_file entries)) (chain1, w1)))"
        using Cons.prems [of "Suc i"] True f by (simp add: after_files_def)
    qed
    ultimately show ?thesis
      using True f by (simp add: certificate_name_file AddCertificateFile_outcome after_files_def)
  qed (use Cons in \<open>simp add: certificate_name_file\<close>)
qed (simp add: after_files_def)

lemma certificate_loop_fails:
  assumes "i < length (filter certificate_file entries)"
    "\<And>j. j < i \<Longrightarrow> 0 \<le> fst (file_outcome E (filter certificate_file entries ! j)
      (after_files E (take j (filter certificate_file entries)) (chain, w)))"
    "file_outcome E (filter certificate_file entries ! i)
      (after_files E (take i (filter certificate_file entries)) (chain, w)) = (r, chain', w')" "r < 0"
  shows "certificate_loop E entries n chain w = (r, chain', log_parse_failed E (filter certificate_file entries ! i) r w')"
  using assms
proof (induction entries arbitrary: n chain w i)
  case (Cons f entries)
  show ?case
  proof (cases "certificate_file f")
    case True
    obtain r1 chain1 w1 where f: "file_outcome E f (chain, w) = (r1, chain1, w1)" by (metis prod_cases3)
    show ?thesis
    proof (cases i)
      case 0
      then show ?thesis
        using Cons.prems True f by (simp add: certificate_name_file AddCertificateFile_outcome after_files_def)
    next
      case (Suc k)
      have "0 \<le> r1" using Cons.prems(2) [of 0] Suc True f by (simp add: after_files_def)
      moreover have "certificate_loop E entries (n + 1) chain1 w1 =
          (r, chain', log_parse_failed E (filter certificate_file entries ! k) r w')"
      proof (rule Cons.IH)
        show "0 \<le> fst (file_outcome E (filter certificate_file entries ! j)
            (after_files E (take j (filter certificate_file entries)) (chain1, w1)))" if "j < k" for j
          using Cons.prems(2) [of "Suc j"] that Suc True f by (simp add: after_files_def)
      qed (use Cons.prems Suc True f in \<open>simp_all add: after_files_def\<close>)
      ultimately show ?thesis using Suc True f by (simp add: certificate_name_file AddCertificateFile_outcome)
    qed
  qed (use Cons in \<open>simp add: certificate_name_file\<close>)
qed simp

text \<open>
  C29. \<open>AddCertificatePath\<close> takes the entries of the directory whose name is something followed by
  \<open>.pem\<close>, \<open>.crt\<close> or \<open>.der\<close>, in the order of the directory, and adds the content of each to the chain (see
  \<open>content_outcome\<close>). When every one of them is accepted the result is the number of the files;
  otherwise it is the error of the first that is not, the chain keeps what the files before it added,
  and no later file is read. A directory that cannot be opened is an I/O error. The files are opened
  by their bare names, so the path of the directory has no influence on what is read.
\<close>

theorem certificate_path_files:
  assumes "dir_entries E path w = (listing, w1)"
  shows "case listing of
      None \<Rightarrow> AddCertificatePath E path chain w = (ERR_PK_FILE_IO_ERROR E, chain, w1)
    | Some entries \<Rightarrow>
        let fs = filter certificate_file entries;
            outcome = (\<lambda>i. file_outcome E (fs ! i) (after_files E (take i fs) (chain, w1)))
        in ((\<forall>i < length fs. 0 \<le> fst (outcome i)) \<longrightarrow>
              AddCertificatePath E path chain w = (int (length fs), after_files E fs (chain, w1))) \<and>
           (\<forall>i < length fs. \<forall>r chain' w'. (\<forall>j < i. 0 \<le> fst (outcome j)) \<and> outcome i = (r, chain', w') \<and> r < 0 \<longrightarrow>
              AddCertificatePath E path chain w = (r, chain', log_parse_failed E (fs ! i) r w'))"
proof (cases listing)
  case None
  then show ?thesis using assms by (simp add: AddCertificatePath_def)
next
  case (Some entries)
  have "AddCertificatePath E path chain w = certificate_loop E entries 0 chain w1"
    using assms Some by (simp add: AddCertificatePath_def)
  then show ?thesis
    using certificate_loop_all [of entries E chain w1 0] certificate_loop_fails [of _ entries E chain w1 _ _ _ 0]
    by (simp add: Some Let_def)
qed

lemma certificate_path_bare_names:
  assumes "dir_entries E path w = (Some entries, w1)" "filter certificate_file entries = f # fs"
    "file_read E f 5000 w1 = (None, w2)" "ERR_PK_FILE_IO_ERROR E < 0"
  shows "fst (AddCertificatePath E path chain w) = ERR_PK_FILE_IO_ERROR E"
  using certificate_loop_fails [of 0 entries E chain w1 "ERR_PK_FILE_IO_ERROR E" chain w2 0] assms
  by (simp add: AddCertificatePath_def file_outcome_def content_outcome_def after_files_def)

subsection \<open>Entropy\<close>

text \<open>
  C30. For every request of at least four bytes \<open>EntropyPoll\<close> returns 0, fills the output with
  numbers of the generator, four bytes each, rounds the length it reports down to a multiple of
  four and does not touch the bytes behind it.
\<close>

theorem entropy_poll_fills:
  assumes "4 \<le> nLength" "nLength \<le> length out" "numbers GetNumber (nLength div 4) w = (vs, w')"
  shows "mbedtls_hardware_poll GetNumber None out nLength w =
    Some (0, 4 * (nLength div 4), concat (map le_bytes vs) @ drop (4 * (nLength div 4)) out, w')"
  using entropy_loop_run [of 0 nLength out GetNumber w vs w'] assms
  by (simp add: mbedtls_hardware_poll_def EntropyPoll_def)

subsection \<open>Mutexes\<close>


subsection \<open>Witnesses\<close>

text \<open>
  A library in which the handshake asks to be repeated as often as the context says, every
  certificate parses and the working directory holds two certificates, one of them in PEM format; nothing is readable at address 0. A configuration is its mode and
  chain.
\<close>

definition script_tls_env ::
  "(sock_world, nat, nat option list, nat, int \<times> u8 list list option, u8 list list, unit, unit) tls_env" where
  "script_tls_env = sock_env.extend script_sock_env (tls_env.fields (-0x6880) (-0x2700) (-0x2980) (-0x3E00) 0 2 0 0 0
     2 (\<lambda>g s. (0, s)) (\<lambda>host s. (0, s))
     (\<lambda>bio s b. case s of 0 \<Rightarrow> Some (0, 0, b) | Suc n \<Rightarrow> Some (-0x6900, n, b))
     (\<lambda>s. 0) (\<lambda>bio n s b. Some (0, [], s, b)) (\<lambda>bio bs s b. Some (int (length bs), s, b))
     (\<lambda>bio s b. Some (0, s, b)) (\<lambda>_ w. w) (\<lambda>_ _ w. w)
     (0, None) (\<lambda>_ _ _ g. (0, g)) (\<lambda>m g. (m, snd g)) (\<lambda>_ g. g) (\<lambda>x g. (fst g, Some x)) (\<lambda>_ g. g) (\<lambda>g. g)
     [] (\<lambda>bs x. (0, x @ [bs])) () (\<lambda>_ d w. (0, d, w))
     (\<lambda>f n w. (if f = cstr ''a.pem'' then Some [1, 2, 3] else if f = cstr ''p.crt'' then Some (cstr ''-----BEGIN x'') else None, w))
     (\<lambda>p w. (Some [cstr ''.'', cstr ''a.pem'', cstr ''.pem'', cstr ''p.crt'', cstr ''n.txt''], w)) None)"

lemmas script_tls_simps = script_tls_env_def sock_env.defs tls_env.defs script_sock_env_def

interpretation script_config: ssl_config script_tls_env fst snd
  by unfold_locales (simp_all add: script_tls_simps)

definition script_io :: "(nat, nat option list, sock_world) io" where
  "script_io = (nc_heap net_listening, nc_world net_listening)"

definition script_socket :: "nat tls_socket" where
  "script_socket = \<lparr>ts_Context = 1, ts_Socket = Some 0, ts_bio = None, ts_Connected = False\<rparr>"

lemma client_new_total: "CTLSSimpleClientSocket_new E mem profile (proto_tcp E) b \<noteq> None"
  by (auto simp: CTLSSimpleClientSocket_new_def CTLSSocket_new_def CAdaptedSocket_new_def split: prod.splits)

theorem tls_connect_verified_witness:
  "\<exists>t' b. tls_Connect_ip script_tls_env [10, 0, 0, 1] 443 script_socket script_io = Some (Some (0, t', b)) \<and> ts_Connected t'"
proof -
  let ?E = script_tls_env and ?bio = "\<lparr>bio_recv = ReceiveCallback script_tls_env 0, bio_send = SendCallback script_tls_env 0\<rparr>"
  let ?w = "nc_world net_listening" and ?h = "nc_heap net_listening"
  obtain s where s: "sh_objects ?h 0 = Some s" by (simp add: net_listening_def)
  have "handshake_ends ?E ?bio 0 (?h, ?w) 0 0 (?h, ?w)"
    by (rule handshake_ends.finished) (simp_all add: script_tls_simps)
  then have "handshake_ends ?E ?bio (ts_Context script_socket) (?h, ?w) 0 0 (?h, ?w)"
    by (rule handshake_ends.again [where q = "-0x6900", rotated 3]) (simp_all add: script_tls_simps script_socket_def)
  from tls_connect_verified [OF _ _ _ s _ this, of "[10, 0, 0, 1]" 443 ?w 0] show ?thesis
    by (auto simp: script_tls_simps script_socket_def script_io_def Connect_ip_def)
qed

theorem tls_verification_required_witness:
  "\<exists>c b rs c1 w1 c2 w2. CTLSSimpleClientSocket_new script_tls_env [0, 0, 0, 0] () 6 script_io = Some (c, b) \<and>
     cert_run script_tls_env [AddFile (cstr ''b.pem''), AddPath (cstr ''/'')] (c, snd b) = (rs, c1, w1) \<and>
     client_Setup script_tls_env (cstr ''host'') (Some []) c1 w1 = Some (0, c2, w2) \<and>
     fst (sc_TLSConfig c2) = SSL_VERIFY_REQUIRED script_tls_env"
proof -
  let ?E = script_tls_env and ?ks = "[AddFile (cstr ''b.pem''), AddPath (cstr ''/'')]"
  obtain c b where new: "CTLSSimpleClientSocket_new ?E [0, 0, 0, 0] () 6 script_io = Some (c, b)"
    using client_new_total [of ?E "[0, 0, 0, 0]" "()" script_io] by (auto simp: script_tls_simps)
  obtain rs c1 w1 where run: "cert_run ?E ?ks (c, snd b) = (rs, c1, w1)" by (metis prod_cases3)
  then have r: "\<exists>(k, r) \<in> set (zip ?ks rs). reports_added k r"
    by (auto simp: client_AddCertificateFile_def client_AddCertificatePath_def AddCertificatePath_def
      AddCertificateFile_def AddCertificate_def CERTIFICATE_MAX_SIZE_def certificate_name_def script_tls_simps
      split: prod.splits if_splits)
  have "\<not> ts_Connected (sc_tls c)"
    using new by (auto simp: CTLSSimpleClientSocket_new_def CTLSSocket_new_def split: prod.splits if_splits Option.bind_splits)
  then have "\<not> ts_Connected (sc_tls c1)" using cert_run_added [OF run] by simp
  then obtain c2 w2 where set: "client_Setup ?E (cstr ''host'') (Some []) c1 w1 = Some (0, c2, w2)"
    by (auto simp: client_Setup_def Seed_def SetDefaults_def tls_Setup_def SetHostname_def script_tls_simps Let_def)
  from tls_verification_required [OF script_config.ssl_config_axioms new run set] r new run set show ?thesis by auto
qed

lemma script_certificates:
  "filter certificate_file [cstr ''.'', cstr ''a.pem'', cstr ''.pem'', cstr ''p.crt'', cstr ''n.txt''] = [cstr ''a.pem'', cstr ''p.crt'']"
  by (simp flip: certificate_name_file add: certificate_name_def)

theorem certificate_path_files_witness:
  "AddCertificatePath script_tls_env (cstr ''/certs'') [] (snd script_io) =
     (2, [[1, 2, 3], cstr ''-----BEGIN x'' @ [0]], snd script_io)"
proof -
  let ?E = script_tls_env and ?w = "snd script_io"
  have dir: "dir_entries ?E (cstr ''/certs'') ?w =
      (Some [cstr ''.'', cstr ''a.pem'', cstr ''.pem'', cstr ''p.crt'', cstr ''n.txt''], ?w)"
    by (simp add: script_tls_simps)
  have "file_outcome ?E (cstr ''a.pem'') ([], ?w) = (0, [[1, 2, 3]], ?w)"
    "file_outcome ?E (cstr ''p.crt'') ([[1, 2, 3]], ?w) = (0, [[1, 2, 3], cstr ''-----BEGIN x'' @ [0]], ?w)"
    by (simp_all add: file_outcome_def content_outcome_def pem_strstr script_tls_simps)
  then show ?thesis
    using certificate_path_files [OF dir, of "[]", unfolded option.case Let_def script_certificates, THEN conjunct1]
    by (simp add: after_files_def All_less_Suc)
qed

theorem entropy_poll_fills_witness:
  "mbedtls_hardware_poll (\<lambda>w. (0x01020304, w)) None [0, 0, 0, 0, 0, 9] 6 () = Some (0, 4, [4, 3, 2, 1, 0, 9], ())"
  using entropy_poll_fills [of 6 "[0, 0, 0, 0, 0, 9]" "\<lambda>w. (0x01020304, w)" "()" "[0x01020304]" "()"]
  by (simp add: le_bytes_def)


end
