(* ===== verification/Ssl_Props.thy ===== *)
theory Ssl_Props
  imports Ssl_Inv Tls_Props
begin

text \<open>
  The example programs end every path with their sockets released: properties of the client
  \<open>ssl_client1.c\<close> and of the server \<open>ssl_server.c\<close>, over the contracts of mbed TLS and of the sockets
  of Circle together (\<open>locale ssl_program\<close>).
\<close>

text \<open>The names of cipher suites are strings of moderate length.\<close>

locale ssl_program = ssl_progress E budget + socket_provider "socks E" entries
  for E :: "('w, 'c, 'l, 's, 'g, 'x, 'd, 'p) tls_env" and budget :: "'s \<Rightarrow> ('c, 'l, 'w) io \<Rightarrow> nat"
    and entries :: "'l \<Rightarrow> nat option list" +
  fixes X :: "('s, 'g, 'x, 'k, 'h) ssl_env"
  assumes suite_name: "c_string (ssl_get_ciphersuite X s)" "length (ssl_get_ciphersuite X s) \<le> 255"

subsection \<open>Opening and closing a context\<close>

text \<open>A heap \<open>h'\<close> after a context was opened in \<open>h\<close>, or not.\<close>

definition opened_fd ::
  "('l \<Rightarrow> nat option list) \<Rightarrow> ('c, 'l) socket_heap \<Rightarrow> ('c, 'l) socket_heap \<Rightarrow> int \<Rightarrow> bool" where
  "opened_fd entries h h' fd \<longleftrightarrow> fd = -1 \<and> h' = h \<or>
     0 \<le> fd \<and> slot (entries (s_SocketArray h)) (nat fd) = None \<and>
     (\<exists>p s. sh_objects h p = None \<and> sh_objects h' = (sh_objects h)(p \<mapsto> s) \<and> as_Handle s = fd \<and>
        (\<forall>i. slot (entries (s_SocketArray h)) i \<noteq> Some p) \<and>
        slot (entries (s_SocketArray h')) = (slot (entries (s_SocketArray h)))(nat fd \<mapsto> p))"

lemma opened_fd_ok: "opened_fd entries h h' fd \<Longrightarrow> fd_ok entries h' fd"
  by (auto simp: opened_fd_def fd_ok_def)

context ssl_program
begin

lemma net_bio_keeps:
  assumes "fd_ok entries h0 fd"
  shows "bio_keeps (net_bio E fd) (\<lambda>b. same_shape (socks E) h0 (fst b))"
  using recv_shape [OF _ assms] send_shape [OF _ assms] unfolding bio_keeps_def net_bio_def by fastforce

lemma new_opened:
  assumes "heap_ok (socks E) entries h" "length mem = frame_size E"
  obtains p h' w' fd s where "CAdaptedSocket_new (socks E) mem (proto_tcp (socks E)) h w = Some (p, h', w')"
    "GetHandle p h' = Some fd" "0 \<le> fd" "sh_objects h' p = Some s" "heap_ok (socks E) entries h'"
    "opened_fd entries h h' fd"
proof -
  obtain cs w' where new: "cs_new (socks E) (proto_tcp (socks E)) w = (cs, w')" by (metis surj_pair)
  obtain p h' where con: "construct (socks E) mem cs h = (p, h')" by (metis surj_pair)
  have mem: "length mem = frame_size (socks E)" using assms(2) by (simp add: sock_env.defs)
  obtain i s where x: "heap_ok (socks E) entries h'" "sh_objects h' = (sh_objects h)(p \<mapsto> s)" "as_Handle s = int i"
      "sh_objects h p = None" "p = sh_next h" "slot (entries (s_SocketArray h)) i = None"
      "slot (entries (s_SocketArray h')) = (slot (entries (s_SocketArray h)))(i \<mapsto> p)"
    using construct_heap_ok [OF assms(1) mem con] by metis
  have "slot (entries (s_SocketArray h)) j \<noteq> Some p" for j
    using assms(1) x(5) unfolding heap_ok_def by (metis less_irrefl)
  then have "opened_fd entries h h' (int i)" using x by (auto simp: opened_fd_def)
  then show thesis
    using that [of p h' w' "int i" s] new con x by (simp add: CAdaptedSocket_new_def GetHandle_def)
qed

lemma connect_opened:
  assumes "heap_ok (socks E) entries h" "length mem = frame_size E"
  shows "\<exists>r fd h' w'. mbedtls_net_connect (socks E) mem mbedtls_net_init host port proto h w = Some (r, fd, h', w') \<and>
    heap_ok (socks E) entries h' \<and> opened_fd entries h h' fd"
proof -
  obtain ok w1 where ok: "obj_new (socks E) w = (ok, w1)" by (metis surj_pair)
  obtain p h' w' fd s where x: "CAdaptedSocket_new (socks E) mem (proto_tcp (socks E)) h w1 = Some (p, h', w')"
      "GetHandle p h' = Some fd" "0 \<le> fd" "sh_objects h' p = Some s" "heap_ok (socks E) entries h'"
      "opened_fd entries h h' fd"
    by (rule new_opened [OF assms])
  obtain r w2 where "Connect_host (socks E) host port s w' = (r, w2)" by (metis surj_pair)
  then show ?thesis
    using assms(1) ok x by (auto simp: mbedtls_net_connect_def mbedtls_net_init_def opened_fd_def [of entries h h "-1"])
qed

lemma bind_opened:
  assumes "heap_ok (socks E) entries h" "length mem = frame_size E"
  shows "\<exists>r fd h' w'. mbedtls_net_bind (socks E) mem mbedtls_net_init ip port proto h w = Some (r, fd, h', w') \<and>
    heap_ok (socks E) entries h' \<and> opened_fd entries h h' fd \<and> (proto = NET_PROTO_TCP E \<and> ip = None \<and> r = 0 \<longrightarrow> 0 \<le> fd)"
proof -
  obtain ok w1 where ok: "obj_new (socks E) w = (ok, w1)" by (metis surj_pair)
  obtain p h' w' fd s where x: "CAdaptedSocket_new (socks E) mem (proto_tcp (socks E)) h w1 = Some (p, h', w')"
      "GetHandle p h' = Some fd" "0 \<le> fd" "sh_objects h' p = Some s" "heap_ok (socks E) entries h'"
      "opened_fd entries h h' fd"
    by (rule new_opened [OF assms])
  obtain r w2 where "Bind (socks E) port s w' = (r, w2)" by (metis surj_pair)
  then show ?thesis
    using assms(1) ok x codes
    by (auto simp: mbedtls_net_bind_def mbedtls_net_init_def opened_fd_def [of entries h h "-1"] sock_env.defs)
qed

text \<open>Closing what was opened gives back the objects and the slots of before.\<close>

lemma opened_free:
  assumes "opened_fd entries h0 h fd" "heap_ok (socks E) entries h" "same_shape (socks E) h h1"
    "heap_ok (socks E) entries h0"
  shows "\<exists>h' w'. mbedtls_net_free (socks E) fd h1 w = Some (-1, h', w') \<and> heap_ok (socks E) entries h' \<and>
    dom (sh_objects h') = dom (sh_objects h0) \<and>
    slot (entries (s_SocketArray h')) = slot (entries (s_SocketArray h0))"
proof (cases "fd < 0")
  case True
  then show ?thesis
    using assms shape_heap_ok [OF assms(3,2)] shape_dom [OF assms(3)]
    by (auto simp: opened_fd_def free_negative same_shape_def)
next
  case False
  then obtain p s where p: "0 \<le> fd" "slot (entries (s_SocketArray h0)) (nat fd) = None" "sh_objects h0 p = None"
      "sh_objects h = (sh_objects h0)(p \<mapsto> s)" "as_Handle s = fd"
      "slot (entries (s_SocketArray h)) = (slot (entries (s_SocketArray h0)))(nat fd \<mapsto> p)"
    using assms(1) by (auto simp: opened_fd_def)
  have "sh_objects h p = Some s" using p(4) by simp
  then obtain s1 where s1: "sh_objects h1 p = Some s1" "as_Handle s1 = as_Handle s"
    by (rule shape_object [OF assms(3)])
  have h1: "s_SocketArray h1 = s_SocketArray h" using assms(3) by (simp add: same_shape_def)
  have "slot (entries (s_SocketArray h1)) (nat fd) = Some p" "as_Handle s1 = int (nat fd)"
    using p s1(2) h1 by simp_all
  then obtain h' w' where f: "mbedtls_net_free (socks E) fd h1 w = Some (-1, h', w')" "heap_ok (socks E) entries h'"
      "sh_objects h' = (sh_objects h1)(p := None)"
      "slot (entries (s_SocketArray h')) = (slot (entries (s_SocketArray h1)))(nat fd := None)"
    using free_heap_ok [OF shape_heap_ok [OF assms(3,2)] p(1) _ s1(1)] by metis
  have "dom (sh_objects h') = dom (sh_objects h0)"
    using f(3) shape_dom [OF assms(3)] p(3,4) by auto
  moreover have "slot (entries (s_SocketArray h')) = slot (entries (s_SocketArray h0))"
    unfolding f(4) h1 p(6) using p(2) by (simp add: fun_upd_idem)
  ultimately show ?thesis using f by blast
qed

subsection \<open>Client\<close>

lemma GET_REQUEST_fits: "length GET_REQUEST < BUF_SIZE" "c_string GET_REQUEST"
  by (simp_all add: GET_REQUEST_def SERVER_NAME_def crlf_def BUF_SIZE_def c_string_def)

lemma client1_session_returns:
  assumes "fd_ok entries h fd" "heap_ok (socks E) entries h" "length buf = BUF_SIZE"
  shows "\<exists>ret out b'. client1_session E X buf fd ssl (h, w) = Some (Some (ret, out, b')) \<and> same_shape (socks E) h (fst b')"
proof -
  let ?bio = "net_bio E fd" and ?P = "\<lambda>b. same_shape (socks E) h (fst b)"
  note keeps = net_bio_keeps [OF assms(1)]
  have "?P (h, w)" using shape_refl [OF assms(2)] by simp
  then obtain r1 s1 b1 where hs: "handshake_loop E ?bio ssl (h, w) = Some (Some (r1, s1, b1))" "?P b1"
    using handshake_loop_returns [OF keeps] by meson
  obtain buf' where buf: "sprintf_buf buf GET_REQUEST = Some (buf', length GET_REQUEST)" "c_str_at buf' 0 = Some GET_REQUEST"
    using sprintf_buf_fits [of GET_REQUEST buf] GET_REQUEST_fits assms(3) by auto
  obtain r2 s2 b2 where wr: "write_loop E {} ?bio (take (length GET_REQUEST) buf') s1 b1 = Some (Some (r2, s2, b2))" "?P b2"
    using write_loop_returns [OF keeps hs(2)] by meson
  define out where "out = (if ssl_get_verify_result E s1 \<noteq> 0 then [Verify_failed (ssl_get_verify_result E s1)] else [])"
  obtain r3 out3 s3 b3 where rd: "client1_read E X ?bio (out @ [Bytes_written r2 GET_REQUEST]) s2 b2 =
      Some (Some (r3, out3, s3, b3))" "?P b3"
    using client1_read_returns [OF keeps wr(2)] by meson
  obtain r4 s4 b4 where "ssl_close_notify E ?bio s3 b3 = Some (r4, s4, b4)" "?P b4"
    using close_keeps [OF keeps rd(2)] by meson
  then show ?thesis
    unfolding client1_session_def Let_def hs(1) and_then_simps prod.case buf wr(1) out_def [symmetric] rd(1)
    using hs(2) wr(2) by (auto simp del: split_paired_Ex)
qed

lemma client1_exit_frees:
  assumes "heap_ok (socks E) entries h0" "opened_fd entries h0 h fd" "heap_ok (socks E) entries h"
    "same_shape (socks E) h (fst b)"
  shows "\<exists>out' h' w'. client1_exit E fd (ret, out, b) = Some (Some (ret, out', h', w')) \<and> heap_ok (socks E) entries h' \<and>
    dom (sh_objects h') = dom (sh_objects h0) \<and>
    slot (entries (s_SocketArray h')) = slot (entries (s_SocketArray h0))"
  using opened_free [OF assms(2,3,4,1), of "snd b"] by (cases b) (auto simp: client1_exit_def)

lemma client1_returns:
  assumes "heap_ok (socks E) entries h" "length mem = frame_size E" "length buf = BUF_SIZE"
  shows "\<exists>ret out h' w'. ssl_client1 E X mem buf (h, w) = Some (Some (ret, out, h', w')) \<and>
    heap_ok (socks E) entries h' \<and> dom (sh_objects h') = dom (sh_objects h) \<and>
    slot (entries (s_SocketArray h')) = slot (entries (s_SocketArray h))"
proof -
  have open0: "opened_fd entries h h mbedtls_net_init" by (simp add: opened_fd_def mbedtls_net_init_def)
  have no: "\<exists>out' h' w'. client1_exit E mbedtls_net_init (ret, out, h, w1) = Some (Some (ret, out', h', w')) \<and>
      heap_ok (socks E) entries h' \<and> dom (sh_objects h') = dom (sh_objects h) \<and>
      slot (entries (s_SocketArray h')) = slot (entries (s_SocketArray h))" for ret out w1
    using client1_exit_frees [OF assms(1) open0 assms(1), of "(h, w1)"] shape_refl [OF assms(1)] by simp
  obtain r1 d w1 where sd: "ctr_drbg_seed E (cstr ''ssl_client1'') (ctr_drbg_init E) w = (r1, d, w1)" by (metis prod_cases3)
  obtain r2 cacert where crt: "x509_crt_parse E (test_cas_pem X) (x509_crt_init E) = (r2, cacert)" by (metis surj_pair)
  obtain r3 fd h3 w3 where con: "mbedtls_net_connect (socks E) mem mbedtls_net_init SERVER_NAME SERVER_PORT (NET_PROTO_TCP E) h w1 =
      Some (r3, fd, h3, w3)" "heap_ok (socks E) entries h3" "opened_fd entries h h3 fd"
    using connect_opened [OF assms(1,2)] by meson
  obtain r4 ssl where stp: "client1_setup E X cacert d = (r4, ssl)" by (metis surj_pair)
  obtain r5 out5 b5 where ses: "client1_session E X buf fd ssl (h3, w3) = Some (Some (r5, out5, b5))"
      "same_shape (socks E) h3 (fst b5)"
    using client1_session_returns [OF opened_fd_ok [OF con(3)] con(2) assms(3)] by meson
  note rel = client1_exit_frees [OF assms(1) con(3,2)]
  show ?thesis
    unfolding ssl_client1_def prod.case Let_def sd crt con(1) and_then_simps stp ses(1)
    using no rel [OF ses(2)] rel [of "(h3, w3)"] shape_refl [OF con(2)] by (simp, meson)
qed

end

end
