(* ===== verification/Ssl_Server_Props.thy ===== *)
theory Ssl_Server_Props
  imports Ssl_Props
begin

text \<open>
  The server \<open>ssl_server.c\<close>: its invariant over the cycles from \<open>reset\<close> to \<open>reset\<close>, and the properties
  of both example programs with their witnesses.
\<close>

subsection \<open>Invariant of the server\<close>

text \<open>
  \<open>D\<close> are the objects from before the server. There is the object of the listener, registered in its
  slot, and the object of the client, if there is one, registered in two slots: the descriptor of
  the client's context is the one that is not the handle of the object.
\<close>

definition server_inv ::
  "('w, 'c, 'l) sock_env \<Rightarrow> ('l \<Rightarrow> nat option list) \<Rightarrow> nat set \<Rightarrow> int \<Rightarrow> int \<Rightarrow> ('c, 'l) socket_heap \<Rightarrow> bool" where
  "server_inv E entries D lfd cfd h \<longleftrightarrow> heap_ok E entries h \<and> 0 \<le> lfd \<and>
     (\<exists>lp ls. slot (entries (s_SocketArray h)) (nat lfd) = Some lp \<and> sh_objects h lp = Some ls \<and> as_Handle ls = lfd \<and>
        lp \<notin> D \<and>
        (cfd = -1 \<and> dom (sh_objects h) = insert lp D \<or>
         0 \<le> cfd \<and> (\<exists>q qs i. sh_objects h q = Some qs \<and> as_Handle qs = int i \<and> i \<noteq> nat cfd \<and> q \<noteq> lp \<and> q \<notin> D \<and>
            (\<forall>x. slot (entries (s_SocketArray h)) x = Some q \<longleftrightarrow> x = i \<or> x = nat cfd) \<and>
            dom (sh_objects h) = insert q (insert lp D))))"

lemma server_inv_shape:
  assumes "same_shape E h h'" "server_inv E entries D lfd cfd h"
  shows "server_inv E entries D lfd cfd h'"
proof -
  have ok: "heap_ok E entries h'" using assms shape_heap_ok unfolding server_inv_def by blast
  have a: "s_SocketArray h' = s_SocketArray h" using assms(1) by (simp add: same_shape_def)
  obtain lp ls where l: "slot (entries (s_SocketArray h)) (nat lfd) = Some lp" "sh_objects h lp = Some ls"
      "as_Handle ls = lfd" "lp \<notin> D" "0 \<le> lfd"
    and c: "cfd = -1 \<and> dom (sh_objects h) = insert lp D \<or>
         0 \<le> cfd \<and> (\<exists>q qs i. sh_objects h q = Some qs \<and> as_Handle qs = int i \<and> i \<noteq> nat cfd \<and> q \<noteq> lp \<and> q \<notin> D \<and>
            (\<forall>x. slot (entries (s_SocketArray h)) x = Some q \<longleftrightarrow> x = i \<or> x = nat cfd) \<and>
            dom (sh_objects h) = insert q (insert lp D))"
    using assms(2) unfolding server_inv_def by blast
  obtain ls' where "sh_objects h' lp = Some ls'" "as_Handle ls' = lfd" using shape_object [OF assms(1) l(2)] l(3) by metis
  moreover have "cfd = -1 \<and> dom (sh_objects h') = insert lp D \<or>
         0 \<le> cfd \<and> (\<exists>q qs i. sh_objects h' q = Some qs \<and> as_Handle qs = int i \<and> i \<noteq> nat cfd \<and> q \<noteq> lp \<and> q \<notin> D \<and>
            (\<forall>x. slot (entries (s_SocketArray h')) x = Some q \<longleftrightarrow> x = i \<or> x = nat cfd) \<and>
            dom (sh_objects h') = insert q (insert lp D))"
    using c unfolding a shape_dom [OF assms(1)] by (metis shape_object [OF assms(1)])
  ultimately show ?thesis using ok l unfolding server_inv_def a by blast
qed

lemma server_inv_fds:
  assumes "server_inv E entries D lfd cfd h"
  shows "fd_ok entries h cfd" "fd_ok entries h lfd" "cfd < 0 \<longleftrightarrow> cfd = -1"
  using assms by (auto simp: server_inv_def fd_ok_def)

context ssl_program
begin

lemma listener_opened:
  assumes "opened_fd entries h0 h fd" "0 \<le> fd" "heap_ok (socks E) entries h" 
  shows "server_inv (socks E) entries (dom (sh_objects h0)) fd (-1) h"
  using assms by (auto simp: opened_fd_def server_inv_def)

lemma free_client:
  assumes "server_inv (socks E) entries D lfd cfd h"
  shows "\<exists>h' w'. mbedtls_net_free (socks E) cfd h w = Some (-1, h', w') \<and> server_inv (socks E) entries D lfd (-1) h' \<and>
    card (dangling entries h') = card (dangling entries h) + (if cfd < 0 then 0 else 1)"
proof (cases "cfd < 0")
  case True
  then show ?thesis using assms server_inv_fds(3) [OF assms] by (auto simp: free_negative)
next
  case False
  let ?t = "slot (entries (s_SocketArray h))"
  obtain lp ls q qs i where x: "heap_ok (socks E) entries h" "0 \<le> lfd" "?t (nat lfd) = Some lp"
      "sh_objects h lp = Some ls" "as_Handle ls = lfd" "lp \<notin> D" "sh_objects h q = Some qs" "as_Handle qs = int i"
      "i \<noteq> nat cfd" "q \<noteq> lp" "q \<notin> D" "\<forall>x. ?t x = Some q \<longleftrightarrow> x = i \<or> x = nat cfd"
      "dom (sh_objects h) = insert q (insert lp D)"
    using assms False unfolding server_inv_def by auto
  have "0 \<le> cfd" "?t (nat cfd) = Some q" using False x(12) by auto
  then obtain h' w' where f: "mbedtls_net_free (socks E) cfd h w = Some (-1, h', w')" "heap_ok (socks E) entries h'"
      "sh_objects h' = (sh_objects h)(q := None)" "slot (entries (s_SocketArray h')) = ?t(i := None)"
    using free_heap_ok [OF x(1) _ _ x(7,8)] by metis
  have tq: "?t i = Some q" "?t (nat cfd) = Some q" "\<And>x. ?t x = Some q \<Longrightarrow> x = i \<or> x = nat cfd" using x(12) by auto
  then have "dangling entries h' = insert (nat cfd) (dangling entries h)"
    using x(7,9) unfolding dangling_def f(3,4) by (auto split: if_splits)
  moreover have "nat cfd \<notin> dangling entries h" using x(7) tq(2) by (simp add: dangling_def)
  moreover have "nat lfd \<noteq> i" using x(3,10) tq(1) by auto
  then have "server_inv (socks E) entries D lfd (-1) h'" using x f(2-4) unfolding server_inv_def by auto
  ultimately show ?thesis using f(1) False by (simp add: dangling_finite)
qed

lemma free_listener:
  assumes "server_inv (socks E) entries D lfd (-1) h"
  shows "\<exists>h' w'. mbedtls_net_free (socks E) lfd h w = Some (-1, h', w') \<and> heap_ok (socks E) entries h' \<and>
    dom (sh_objects h') = D"
proof -
  obtain lp ls where x: "heap_ok (socks E) entries h" "0 \<le> lfd" "slot (entries (s_SocketArray h)) (nat lfd) = Some lp"
      "sh_objects h lp = Some ls" "as_Handle ls = int (nat lfd)" "lp \<notin> D" "dom (sh_objects h) = insert lp D"
    using assms unfolding server_inv_def by auto
  show ?thesis using free_heap_ok [OF x(1-5), of w] x(6,7) by (metis Diff_insert_absorb dom_fun_upd)
qed

lemma accept_client:
  assumes "server_inv (socks E) entries D lfd (-1) h" "length mem = frame_size E"
  shows "\<exists>r cfd h' w'. mbedtls_net_accept (socks E) mem lfd (-1) None h w = Some (r, cfd, None, h', w') \<and>
    server_inv (socks E) entries D lfd cfd h' \<and> dangling entries h' = dangling entries h \<and> (r = 0 \<longleftrightarrow> 0 \<le> cfd)"
proof -
  let ?t = "slot (entries (s_SocketArray h))" and ?S = "socks E"
  obtain lp ls where l: "heap_ok ?S entries h" "0 \<le> lfd" "?t (nat lfd) = Some lp"
      "sh_objects h lp = Some ls" "as_Handle ls = lfd" "lp \<notin> D" "dom (sh_objects h) = insert lp D"
    using assms(1) unfolding server_inv_def by auto
  note get = GetSocket_held [OF l(2,3)]
  have cds: "ERR_NET_ACCEPT_FAILED ?S < 0" "ERR_SSL_ALLOC_FAILED ?S < 0" using codes by (simp_all add: sock_env.defs)
  obtain conn w1 where acc: "cs_Accept ?S (as_Socket ls) w = (conn, w1)" by (metis surj_pair)
  show ?thesis
  proof (cases "\<exists>c ip. conn = Some (c, ip) \<and> fst (obj_new ?S w1)")
    case False
    have "\<exists>w'. mbedtls_net_accept ?S mem lfd (-1) None h w = Some (ERR_NET_ACCEPT_FAILED ?S, -1, None, h, w')"
      using get l(4) acc False cds
      by (cases conn; cases "obj_new ?S w1") (auto simp: mbedtls_net_accept_def Accept_def split: if_splits)
    then show ?thesis using assms(1) cds by auto
  next
    case True
    then obtain c ip w2 where c: "conn = Some (c, ip)" "obj_new ?S w1 = (True, w2)" by (metis surjective_pairing)
    obtain q h1 where con: "construct ?S mem c h = (q, h1)" by (metis surj_pair)
    have mem: "length mem = frame_size ?S" using assms(2) by (simp add: sock_env.defs)
    obtain i s where n: "heap_ok ?S entries h1" "sh_objects h1 = (sh_objects h)(q \<mapsto> s)" "as_Handle s = int i"
        "sh_objects h q = None" "q = sh_next h" "sh_next h1 = Suc q" "?t i = None"
        "slot (entries (s_SocketArray h1)) = ?t(i \<mapsto> q)"
      using construct_heap_ok [OF l(1) mem con] by metis
    obtain j a where add: "AddSocket (array_ops ?S) q (s_SocketArray h1) = (j, a)" by (metis surj_pair)
    have j: "i \<noteq> j" "?t j = None" "slot (entries a) = ?t(i \<mapsto> q, j \<mapsto> q)"
      using AddSocket_slots [OF add] n(8) by (auto split: if_splits)
    have old: "?t x \<noteq> Some q" for x using l(1) n(5) unfolding heap_ok_def by (metis less_irrefl)
    let ?h = "h1\<lparr>s_SocketArray := a\<rparr>"
    have "heap_ok ?S entries ?h"
      using n(1,6) j(2) unfolding heap_ok_def by (simp add: j(3) n(8)) (metis fun_upd_apply lessI option.distinct(1) option.inject)
    moreover have "lp \<noteq> q" "q \<notin> D" "nat lfd \<noteq> i" "nat lfd \<noteq> j" using l n(4,7) j(2) by auto
    ultimately have "server_inv ?S entries D lfd (int j) ?h"
      using l n(2,3) j old unfolding server_inv_def by auto
    moreover have "dangling entries ?h = dangling entries h"
      using n(2,4,7) j old unfolding dangling_def by (auto split: if_splits) metis
    moreover have "mbedtls_net_accept ?S mem lfd (-1) None h w = Some (0, int j, None, ?h, w2)"
      using get l(4) acc c con add by (simp add: mbedtls_net_accept_def Accept_def)
    ultimately show ?thesis by (intro exI [of _ 0] exI [of _ "int j"] exI [of _ ?h] exI [of _ w2]) simp
  qed
qed

subsection \<open>Cycles of the server\<close>

lemma HTTP_RESPONSE_fits:
  "length (HTTP_RESPONSE (ssl_get_ciphersuite X s)) < BUF_SIZE" "c_string (HTTP_RESPONSE (ssl_get_ciphersuite X s))"
  using suite_name [of s] by (simp_all add: HTTP_RESPONSE_def crlf_def BUF_SIZE_def c_string_def)

lemma server_connection_returns:
  assumes "fd_ok entries h (sv_client st)" "heap_ok (socks E) entries h" "fst (sv_io st) = h"
  shows "\<exists>lbl st'. server_connection E X st = Some (Some (lbl, st')) \<and> sv_client st' = sv_client st \<and>
    same_shape (socks E) h (fst (sv_io st'))"
proof -
  let ?bio = "net_bio E (sv_client st)" and ?P = "\<lambda>b. same_shape (socks E) h (fst b)"
  note keeps = net_bio_keeps [OF assms(1)]
  have "?P (sv_io st)" using shape_refl [OF assms(2)] assms(3) by simp
  then obtain r1 s1 b1 where hs: "handshake_loop E ?bio (sv_ssl st) (sv_io st) = Some (Some (r1, s1, b1))" "?P b1"
    using handshake_loop_returns [OF keeps] by meson
  obtain msg buf s2 b2 where rd: "server_read E ?bio s1 b1 = Some (Some (msg, buf, s2, b2))" "length buf = BUF_SIZE" "?P b2"
    using server_read_returns [OF keeps hs(2)] by meson
  define str where "str = HTTP_RESPONSE (ssl_get_ciphersuite X s2)"
  obtain buf' where buf: "sprintf_buf buf str = Some (buf', length str)" "c_str_at buf' 0 = Some str"
    using sprintf_buf_fits [of str buf] HTTP_RESPONSE_fits [of s2] rd(2) unfolding str_def by auto
  obtain r3 s3 b3 where wr: "write_loop E {ERR_NET_CONN_RESET X} ?bio (take (length str) buf') s2 b2 = Some (Some (r3, s3, b3))"
      "?P b3"
    using write_loop_returns [OF keeps rd(3)] by meson
  obtain r4 s4 b4 where cl: "close_loop E ?bio s3 b3 = Some (Some (r4, s4, b4))" "?P b4"
    using close_loop_returns [OF keeps wr(2)] by meson
  show ?thesis
    unfolding server_connection_def Let_def hs(1) and_then_simps prod.case rd(1) str_def [symmetric] buf wr(1) cl(1)
    using hs(2) wr(2) cl(2) by simp
qed

lemma server_cycle_returns:
  assumes "server_inv (socks E) entries D lfd (sv_client st) (fst (sv_io st))" "length mem = frame_size E"
  shows "\<exists>lbl st'. server_cycle E X mem lfd st = Some (Some (lbl, st')) \<and>
    server_inv (socks E) entries D lfd (sv_client st') (fst (sv_io st')) \<and>
    card (dangling entries (fst (sv_io st'))) =
      card (dangling entries (fst (sv_io st))) + (if sv_client st < 0 then 0 else 1) \<and>
    (lbl = Goto_reset \<longrightarrow> 0 \<le> sv_client st')"
proof -
  obtain h1 w1 where fr: "mbedtls_net_free (socks E) (sv_client st) (fst (sv_io st)) (snd (sv_io st)) = Some (-1, h1, w1)"
      "server_inv (socks E) entries D lfd (-1) h1"
      "card (dangling entries h1) = card (dangling entries (fst (sv_io st))) + (if sv_client st < 0 then 0 else 1)"
    using free_client [OF assms(1)] by meson
  obtain r cfd h2 w2 where ac: "mbedtls_net_accept (socks E) mem lfd (-1) None h1 w1 = Some (r, cfd, None, h2, w2)"
      "server_inv (socks E) entries D lfd cfd h2" "dangling entries h2 = dangling entries h1" "r = 0 \<longleftrightarrow> 0 \<le> cfd"
    using accept_client [OF fr(2) assms(2)] by meson
  define st2 where "st2 = st\<lparr>sv_out := sv_out st @ last_error (sv_ret st), sv_ret := r, sv_client := cfd,
    sv_ssl := snd (ssl_session_reset X (sv_ssl st)), sv_io := (h2, w2)\<rparr>"
  have st2: "sv_client st2 = cfd" "fst (sv_io st2) = h2" by (simp_all add: st2_def)
  have cyc: "server_cycle E X mem lfd st = (if r \<noteq> 0 then Some (Some (Goto_exit, st2)) else server_connection E X st2)"
    using fr(1) ac(1) by (simp add: server_cycle_def st2_def Let_def)
  have "heap_ok (socks E) entries h2" using ac(2) by (simp add: server_inv_def)
  then obtain n st' where con: "server_connection E X st2 = Some (Some (n, st'))" "sv_client st' = cfd"
      "same_shape (socks E) h2 (fst (sv_io st'))"
    using server_connection_returns [of h2 st2] server_inv_fds(1) [OF ac(2)] st2 by metis
  show ?thesis
  proof (cases "r = 0")
    case True
    then show ?thesis
      using cyc con fr(3) ac(3,4) server_inv_shape [OF con(3) ac(2)] shape_dangling [OF con(3)] by simp
  next
    case False
    then show ?thesis using cyc fr(3) ac(2,3) st2 by simp
  qed
qed

lemma server_exit_frees:
  assumes "server_inv (socks E) entries D lfd (sv_client st) (fst (sv_io st))"
  shows "\<exists>out h' w'. server_exit E lfd st = Some (sv_ret st, out, h', w') \<and> heap_ok (socks E) entries h' \<and>
    dom (sh_objects h') = D"
proof -
  obtain h1 w1 where fr: "mbedtls_net_free (socks E) (sv_client st) (fst (sv_io st)) (snd (sv_io st)) = Some (-1, h1, w1)"
      "server_inv (socks E) entries D lfd (-1) h1"
    using free_client [OF assms] by meson
  obtain h2 w2 where "mbedtls_net_free (socks E) lfd h1 w1 = Some (-1, h2, w2)" "heap_ok (socks E) entries h2"
      "dom (sh_objects h2) = D"
    using free_listener [OF fr(2)] by meson
  then show ?thesis using fr(1) by (simp add: server_exit_def)
qed

lemma server_setup_returns:
  assumes "heap_ok (socks E) entries h" "length mem = frame_size E"
  shows "\<exists>lfd st. server_setup E X mem buf (h, w) = Some (lfd, st) \<and> sv_client st = -1 \<and>
    heap_ok (socks E) entries (fst (sv_io st)) \<and> opened_fd entries h (fst (sv_io st)) lfd \<and> (sv_ret st = 0 \<longrightarrow> 0 \<le> lfd)"
proof -
  have no: "opened_fd entries h h mbedtls_net_init" by (simp add: opened_fd_def mbedtls_net_init_def)
  obtain r1 c1 where c1: "x509_crt_parse E (test_srv_crt X) (x509_crt_init E) = (r1, c1)" by (metis surj_pair)
  obtain r2 c2 where c2: "x509_crt_parse E (test_cas_pem X) c1 = (r2, c2)" by (metis surj_pair)
  obtain r3 k where k: "pk_parse_key X (test_srv_key X) (pk_init X) = (r3, k)" by (metis surj_pair)
  obtain r4 lfd h4 w4 where b: "mbedtls_net_bind (socks E) mem mbedtls_net_init None (cstr ''443'') (NET_PROTO_TCP E) h w =
      Some (r4, lfd, h4, w4)" "heap_ok (socks E) entries h4" "opened_fd entries h h4 lfd" "r4 = 0 \<longrightarrow> 0 \<le> lfd"
    using bind_opened [OF assms, where ip = None and proto = "NET_PROTO_TCP E"] by meson
  obtain r5 d w5 where sd: "ctr_drbg_seed E (cstr ''ssl_server'') (ctr_drbg_init E) w4 = (r5, d, w5)" by (metis prod_cases3)
  obtain r6 ssl where cf: "server_configure E X c2 k d = (r6, ssl)" by (metis surj_pair)
  show ?thesis
    unfolding server_setup_def prod.case Let_def c1 c2 k b(1) bind.bind_lunit sd cf
    using no assms(1) b(2-4) by (simp add: mbedtls_net_init_def)
qed

lemma failed_setup_frees:
  assumes "heap_ok (socks E) entries h0" "heap_ok (socks E) entries (fst (sv_io st))"
    "opened_fd entries h0 (fst (sv_io st)) lfd" "sv_client st = -1"
  shows "\<exists>out h' w'. server_exit E lfd st = Some (sv_ret st, out, h', w') \<and> heap_ok (socks E) entries h' \<and>
    dom (sh_objects h') = dom (sh_objects h0)"
proof -
  obtain h' w' where "mbedtls_net_free (socks E) lfd (fst (sv_io st)) (snd (sv_io st)) = Some (-1, h', w')"
      "heap_ok (socks E) entries h'" "dom (sh_objects h') = dom (sh_objects h0)"
    using opened_free [OF assms(3,2) shape_refl [OF assms(2)] assms(1)] by meson
  then show ?thesis using assms(4) by (cases "sv_io st") (simp add: server_exit_def free_negative)
qed

end

text \<open>The states at the label \<open>reset\<close>, with the number of cycles so far: every one has accepted a connection.\<close>

inductive server_reach ::
  "('w, 'c, 'l, 's, 'g, 'x, 'd, 'p) tls_env \<Rightarrow> ('s, 'g, 'x, 'k, 'h) ssl_env \<Rightarrow> u8 list \<Rightarrow> int \<Rightarrow>
     ('c, 'l, 'w, 's) server_state \<Rightarrow> nat \<Rightarrow> ('c, 'l, 'w, 's) server_state \<Rightarrow> bool" for E X mem lfd st0 where
  start: "server_reach E X mem lfd st0 0 st0"
| again: "server_reach E X mem lfd st0 k st \<Longrightarrow> server_cycle E X mem lfd st = Some (Some (Goto_reset, st')) \<Longrightarrow>
    server_reach E X mem lfd st0 (Suc k) st'"

context ssl_program
begin

lemma server_reach_inv:
  assumes "server_inv (socks E) entries D lfd (-1) (fst (sv_io st0))" "sv_client st0 = -1" "length mem = frame_size E"
  shows "server_reach E X mem lfd st0 k st \<Longrightarrow>
    server_inv (socks E) entries D lfd (sv_client st) (fst (sv_io st)) \<and> (sv_client st < 0 \<longleftrightarrow> k = 0) \<and>
    card (dangling entries (fst (sv_io st))) = card (dangling entries (fst (sv_io st0))) + (k - 1)"
proof (induction rule: server_reach.induct)
  case (again k st st')
  then show ?case using server_cycle_returns [of D lfd st mem] assms(3) by (cases k) auto
qed (use assms in simp)

end

lemma server_reach_first:
  assumes "server_cycle E X mem lfd st0 = Some (Some (Goto_reset, st1))"
  shows "server_reach E X mem lfd st1 k st \<Longrightarrow> server_reach E X mem lfd st0 (Suc k) st"
  by (induction rule: server_reach.induct)
    (blast intro: server_reach.again [OF server_reach.start assms] server_reach.again)+

lemma server_loop_last:
  assumes "server_loop E X mem lfd st = Some r"
  shows "\<exists>k st'. server_reach E X mem lfd st k st' \<and>
     server_cycle E X mem lfd st' = Some (map_option (\<lambda>st. (Goto_exit, st)) r)"
proof (rule server_loop.raw_induct [where P = "\<lambda>E X mem lfd st r. \<exists>k st'. server_reach E X mem lfd st k st' \<and>
     server_cycle E X mem lfd st' = Some (map_option (\<lambda>st. (Goto_exit, st)) r)", OF _ assms], goal_cases)
  case (1 loop E X mem lfd st r)
  consider "server_cycle E X mem lfd st = Some None" "r = None"
    | st1 where "server_cycle E X mem lfd st = Some (Some (Goto_reset, st1))" "loop E X mem lfd st1 = Some r"
    | st1 where "server_cycle E X mem lfd st = Some (Some (Goto_exit, st1))" "r = Some st1"
    using 1(2) by (auto split: option.splits label.splits)
  then show ?case
  proof cases
    case (2 st1)
    from 1(1) [OF 2(2)] show ?thesis using server_reach_first [OF 2(1)] by blast
  qed (rule exI [of _ 0], rule exI [of _ st], simp add: server_reach.start)+
qed

subsection \<open>Properties\<close>

text \<open>
  C33. The client releases what it opens. For every network and every peer whose connection comes to
  an end, \<open>ssl_client1.c\<close> returns, whichever of its steps fails; no assertion fails, no deleted socket
  object is used, \<open>buf\<close> is not left and what is printed of it is a terminated string. Afterwards
  the live socket objects and the slots of the table of handles are those of before.
\<close>

theorem client1_releases:
  assumes "ssl_program E budget entries X" "heap_ok (socks E) entries h" "length mem = frame_size E"
    "length buf = BUF_SIZE"
  shows "\<exists>ret out h' w'. ssl_client1 E X mem buf (h, w) = Some (Some (ret, out, h', w')) \<and>
    heap_ok (socks E) entries h' \<and> dom (sh_objects h') = dom (sh_objects h) \<and>
    slot (entries (s_SocketArray h')) = slot (entries (s_SocketArray h))"
  using ssl_program.client1_returns [OF assms] .

text \<open>
  C32. The server. Its setup returns; if it fails, everything it opened is released. Otherwise,
  after any number of connections, every cycle (wait for a client, handshake, read, response, end of
  the connection) returns to \<open>reset\<close> or \<open>exit\<close>, for every behaviour of the clients, and never uses a
  deleted object or leaves a buffer; and when \<open>tlsmain\<close> returns, the live socket objects are those of
  before.
\<close>

theorem server_sound:
  assumes "ssl_program E budget entries X" "heap_ok (socks E) entries h" "length mem = frame_size E"
  shows "\<exists>lfd st0. server_setup E X mem buf (h, w) = Some (lfd, st0) \<and>
    (sv_ret st0 = 0 \<longrightarrow> (\<forall>k st. server_reach E X mem lfd st0 k st \<longrightarrow>
       (\<exists>lbl st'. server_cycle E X mem lfd st = Some (Some (lbl, st'))))) \<and>
    (\<forall>r. ssl_server E X mem buf (h, w) = Some r \<longrightarrow>
       (\<exists>ret out h' w'. r = Some (ret, out, h', w') \<and> dom (sh_objects h') = dom (sh_objects h)))"
proof -
  obtain lfd st0 where stp: "server_setup E X mem buf (h, w) = Some (lfd, st0)" "sv_client st0 = -1"
      "heap_ok (socks E) entries (fst (sv_io st0))" "opened_fd entries h (fst (sv_io st0)) lfd" "sv_ret st0 = 0 \<longrightarrow> 0 \<le> lfd"
    using ssl_program.server_setup_returns [OF assms] by meson
  show ?thesis
  proof (cases "sv_ret st0 = 0")
    case False
    have "\<exists>out h' w'. server_exit E lfd st0 = Some (sv_ret st0, out, h', w') \<and> dom (sh_objects h') = dom (sh_objects h)"
      using ssl_program.failed_setup_frees [OF assms(1,2) stp(3,4,2)] by blast
    then show ?thesis using stp(1) False by (auto simp: ssl_server_def)
  next
    case True
    let ?D = "dom (sh_objects h)"
    have inv: "server_inv (socks E) entries ?D lfd (-1) (fst (sv_io st0))"
      using ssl_program.listener_opened [OF assms(1) stp(4) _ stp(3)] stp(5) True by simp
    have cyc: "\<exists>lbl st'. server_cycle E X mem lfd st = Some (Some (lbl, st')) \<and>
        server_inv (socks E) entries ?D lfd (sv_client st') (fst (sv_io st'))" if "server_reach E X mem lfd st0 k st" for k st
      using ssl_program.server_reach_inv [OF assms(1) inv stp(2) assms(3) that]
        ssl_program.server_cycle_returns [OF assms(1) _ assms(3), of ?D lfd st] by blast
    have "\<exists>ret out h' w'. r = Some (ret, out, h', w') \<and> dom (sh_objects h') = ?D"
      if r: "ssl_server E X mem buf (h, w) = Some r" for r
    proof -
      obtain y where y: "server_loop E X mem lfd st0 = Some y" "r = y \<bind> server_exit E lfd"
        using r True stp(1) by (auto simp: ssl_server_def and_then_def split: option.splits)
      obtain k st where k: "server_reach E X mem lfd st0 k st"
          "server_cycle E X mem lfd st = Some (map_option (\<lambda>st. (Goto_exit, st)) y)"
        using server_loop_last [OF y(1)] by blast
      obtain st' where "y = Some st'" "server_inv (socks E) entries ?D lfd (sv_client st') (fst (sv_io st'))"
        using cyc [OF k(1)] k(2) by auto
      then show ?thesis using ssl_program.server_exit_frees [OF assms(1)] y(2) by fastforce
    qed
    then show ?thesis using stp(1) cyc by blast
  qed
qed

text \<open>
  C34. The server loses a slot of the table of handles with every connection. When it is back
  at \<open>reset\<close> after \<open>k\<close> accepted connections, the last of which is still open, \<open>k - 1\<close> more slots than
  at the start hold pointers to deleted objects, so that the table grows with the number of
  connections and not with the number of those that are open.
\<close>

theorem server_leaks_slots:
  assumes "ssl_program E budget entries X" "heap_ok (socks E) entries h" "length mem = frame_size E"
    "server_setup E X mem buf (h, w) = Some (lfd, st0)" "sv_ret st0 = 0" "server_reach E X mem lfd st0 k st"
  shows "card (dangling entries (fst (sv_io st))) = card (dangling entries (fst (sv_io st0))) + (k - 1) \<and>
    k - 1 \<le> length (entries (s_SocketArray (fst (sv_io st))))"
proof -
  have s: "sv_client st0 = -1" "heap_ok (socks E) entries (fst (sv_io st0))" "opened_fd entries h (fst (sv_io st0)) lfd"
      "0 \<le> lfd"
    using ssl_program.server_setup_returns [OF assms(1-3), of buf w] assms(4,5) by auto
  have inv: "server_inv (socks E) entries (dom (sh_objects h)) lfd (-1) (fst (sv_io st0))"
    using ssl_program.listener_opened [OF assms(1) s(3,4,2)] .
  have "card (dangling entries (fst (sv_io st))) = card (dangling entries (fst (sv_io st0))) + (k - 1)"
    using ssl_program.server_reach_inv [OF assms(1) inv s(1) assms(3,6)] by simp
  moreover have "card (dangling entries (fst (sv_io st))) \<le> card {..<length (entries (s_SocketArray (fst (sv_io st))))}"
    by (rule card_mono) (auto simp: dangling_def dest: slot_bound)
  ultimately show ?thesis by simp
qed

subsection \<open>What a lost peer looks like\<close>

text \<open>
  The network functions have one error code for a failed \<open>CSocket::Send\<close>. Neither of the callbacks
  ever returns \<open>MBEDTLS_ERR_NET_CONN_RESET\<close>, the code after which the server would go on with the next
  client.
\<close>

lemma net_send_codes:
  assumes "mbedtls_net_send E fd bs h w = Some (r, ds, h', w')"
  shows "0 \<le> r \<or> r = ERR_NET_SEND_FAILED E \<or> r = ERR_NET_INVALID_CONTEXT E"
  using assms by (auto simp: mbedtls_net_send_def on_socket_def SendBuf_def
    split: option.splits prod.splits if_splits Option.bind_splits)

lemma server_ends_on_send_error:
  assumes "handshake_loop E (net_bio E (sv_client st)) (sv_ssl st) (sv_io st) = Some (Some (0, s1, b1))"
    "server_read E (net_bio E (sv_client st)) s1 b1 = Some (Some (msg, buf, s2, b2))"
    "sprintf_buf buf (HTTP_RESPONSE (ssl_get_ciphersuite X s2)) = Some (buf', len)"
    "write_loop E {ERR_NET_CONN_RESET X} (net_bio E (sv_client st)) (take len buf') s2 b2 =
       Some (Some (ERR_NET_SEND_FAILED E, s3, b3))"
    "ERR_NET_SEND_FAILED E < 0" "ERR_NET_SEND_FAILED E \<noteq> ERR_NET_CONN_RESET X"
  shows "\<exists>st'. server_connection E X st = Some (Some (Goto_exit, st'))"
  using assms by (simp add: server_connection_def Let_def)

subsection \<open>Witnesses\<close>

text \<open>
  A library without encryption: the context counts the calls a session still takes, the handshake is
  one message, reads and writes are passed to the callbacks. There is always another client.
\<close>

definition session_tls_env ::
  "(sock_world, nat, nat option list, nat, int \<times> u8 list list option, u8 list list, unit, unit) tls_env" where
  "session_tls_env = script_tls_env\<lparr>
     cs_Accept := (\<lambda>_ w. (Some (9, [10, 0, 0, 1]), w)),
     ssl_handshake := (\<lambda>bio s b. if 2 < s then do { (r, b) \<leftarrow> bio_send bio [22] b; Some (-0x6900, s - 1, b) }
                                else Some (0, s, b)),
     ssl_read := (\<lambda>bio n s b. case s of
         0 \<Rightarrow> Some (0, [], 0, b)
       | Suc s \<Rightarrow> do { (r, bs, b) \<leftarrow> bio_recv bio n b; Some (r, take n bs, s, b) }),
     ssl_write := (\<lambda>bio bs s b. do { (r, b) \<leftarrow> bio_send bio bs b; Some (int (length bs), s, b) }),
     ssl_close_notify := (\<lambda>bio s b. do { (r, b) \<leftarrow> bio_send bio [21] b; Some (0, s, b) })\<rparr>"

definition session_ssl_env :: "(nat, int \<times> u8 list list option, u8 list list, unit, unit) ssl_env" where
  "session_ssl_env = \<lparr>ERR_SSL_PEER_CLOSE_NOTIFY = -0x7880, ERR_NET_CONN_RESET = -0x50, SSL_IS_SERVER = 1,
     SSL_VERIFY_OPTIONAL = 1, test_cas_pem = [1], test_srv_crt = [2], test_srv_key = [3], crt_next = tl,
     pk_init = (), pk_parse_key = (\<lambda>_ k. (0, k)), ssl_cache_init = (), ssl_conf_session_cache = (\<lambda>_ g. g),
     ssl_conf_own_cert = (\<lambda>_ _ g. (0, g)), ssl_session_reset = (\<lambda>_. (0, 3)),
     ssl_get_ciphersuite = (\<lambda>_. cstr ''NULL'')\<rparr>"

lemmas session_simps = session_tls_env_def script_tls_simps

lemma bio_keepsD:
  assumes "bio_keeps bio P" "P b"
  obtains r bs b' r' b'' where "bio_recv bio n b = Some (r, bs, b')" "P b'" "bio_send bio ds b = Some (r', b'')" "P b''"
  using assms unfolding bio_keeps_def by meson

interpretation session: ssl_program session_tls_env "\<lambda>s b. s" id session_ssl_env
proof
  fix bio :: "(nat, nat option list, sock_world) bio" and P b s n bs
  assume P: "bio_keeps bio P" "P b"
  show "\<exists>r s' b'. ssl_handshake session_tls_env bio s b = Some (r, s', b') \<and> P b'"
    by (rule bio_keepsD [OF P, of 0 "[22]"]) (auto simp: session_simps P(2) simp del: split_paired_Ex)
  show "\<exists>r ds s' b'. ssl_read session_tls_env bio n s b = Some (r, ds, s', b') \<and> length ds \<le> n \<and> P b'"
    by (rule bio_keepsD [OF P, of n "[]"]) (auto simp: session_simps P(2) split: nat.splits simp del: split_paired_Ex)
  show "\<exists>r s' b'. ssl_write session_tls_env bio bs s b = Some (r, s', b') \<and> P b'"
    by (rule bio_keepsD [OF P, of 0 bs]) (auto simp: session_simps simp del: split_paired_Ex)
  show "\<exists>r s' b'. ssl_close_notify session_tls_env bio s b = Some (r, s', b') \<and> P b'"
    by (rule bio_keepsD [OF P, of 0 "[21]"]) (auto simp: session_simps simp del: split_paired_Ex)
qed (auto simp: session_simps session_ssl_env_def c_string_def bind_some list_array_def split: nat.splits list.splits if_splits)

definition session_heap :: "(nat, nat option list) socket_heap" where
  "session_heap = \<lparr>sh_objects = Map.empty, sh_next = 0, s_SocketArray = []\<rparr>"

definition session_world :: sock_world where
  "session_world = \<lparr>sw_rx = [[71, 69, 84]], sw_conns = [9, 8], sw_ticks = 0, sw_log = []\<rparr>"

lemma session_heap_ok: "heap_ok (socks session_tls_env) id session_heap"
  by (simp add: heap_ok_def session_heap_def slot_def)

abbreviation session_buf :: "u8 list" where
  "session_buf \<equiv> replicate BUF_SIZE 0"

theorem client1_releases_witness:
  "\<exists>ret out h' w'. ssl_client1 session_tls_env session_ssl_env [0, 0, 0, 0] session_buf (session_heap, session_world) =
     Some (Some (ret, out, h', w')) \<and> sh_objects h' = Map.empty"
  using client1_releases [OF session.ssl_program_axioms session_heap_ok, of "[0, 0, 0, 0]" session_buf session_world]
  by (auto simp: session_simps session_heap_def)

lemma session_write: "write_loop session_tls_env stop bio bs s b = Some (Some (r, s', b')) \<Longrightarrow> r = int (length bs)"
  by (subst (asm) write_loop.simps) (auto simp: session_simps split: option.splits if_splits Option.bind_splits)

lemma session_connection:
  assumes "server_connection session_tls_env session_ssl_env st = Some (Some (lbl, st'))"
  shows "lbl = Goto_reset"
proof (rule ccontr)
  assume "lbl \<noteq> Goto_reset"
  then obtain bio stop buf str buf' len s b r s' b' where w: "sprintf_buf buf (HTTP_RESPONSE str) = Some (buf', len)"
      "write_loop session_tls_env stop bio (take len buf') s b = Some (Some (r, s', b'))" "r \<le> 0"
    using assms by (auto simp: server_connection_def and_then_def Let_def split: option.splits prod.splits if_splits)
  have "0 < length (take len buf')" using w(1) by (auto simp: sprintf_buf_def put_block_def HTTP_RESPONSE_def split: if_splits)
  then show False using session_write [OF w(2)] w(3) by linarith
qed

lemma session_accept:
  assumes "server_inv (socks session_tls_env) id D lfd (-1) h"
  shows "\<exists>cfd h' w'. mbedtls_net_accept (socks session_tls_env) [0, 0, 0, 0] lfd (-1) None h w = Some (0, cfd, None, h', w')"
proof -
  obtain lp ls where l: "0 \<le> lfd" "slot (id (s_SocketArray h)) (nat lfd) = Some lp" "sh_objects h lp = Some ls"
    using assms unfolding server_inv_def by blast
  show ?thesis
    using session.GetSocket_held [OF l(1,2)] l(3)
    by (simp add: mbedtls_net_accept_def Accept_def) (simp add: session_simps split: prod.splits)
qed

lemma session_cycle:
  assumes "server_inv (socks session_tls_env) id D lfd (sv_client st) (fst (sv_io st))"
  shows "\<exists>st'. server_cycle session_tls_env session_ssl_env [0, 0, 0, 0] lfd st = Some (Some (Goto_reset, st'))"
proof -
  let ?E = session_tls_env and ?mem = "[0, 0, 0, 0]"
  have "length ?mem = frame_size ?E" by (simp add: session_simps)
  then obtain lbl st' where cyc: "server_cycle ?E session_ssl_env ?mem lfd st = Some (Some (lbl, st'))"
    using session.server_cycle_returns [OF assms] by meson
  obtain h1 w1 where fr: "mbedtls_net_free (socks ?E) (sv_client st) (fst (sv_io st)) (snd (sv_io st)) = Some (-1, h1, w1)"
      "server_inv (socks ?E) id D lfd (-1) h1"
    using session.free_client [OF assms] by meson
  obtain cfd h2 w2 where "mbedtls_net_accept (socks ?E) ?mem lfd (-1) None h1 w1 = Some (0, cfd, None, h2, w2)"
    using session_accept [OF fr(2)] by meson
  then have "lbl = Goto_reset"
    using cyc fr(1) by (auto simp: server_cycle_def Let_def dest: session_connection)
  then show ?thesis using cyc by blast
qed

lemma session_setup:
  "\<exists>lfd st0. server_setup session_tls_env session_ssl_env [0, 0, 0, 0] session_buf (session_heap, session_world) =
     Some (lfd, st0) \<and> sv_ret st0 = 0"
proof -
  have "parse_port (cstr ''443'') = Some 443"
    by (simp add: parse_port_def strtoul_def sign_of_def digits_value_def digit_value_def isspace_def)
  then show ?thesis
    by (simp add: server_setup_def session_ssl_env_def session_simps server_configure_def Let_def
      mbedtls_net_bind_def CAdaptedSocket_new_def construct_def AddSocket_def GetHandle_def Bind_def
      free_slot.simps list_array_def session_heap_def split: prod.splits)
qed

lemma session_mem: "length ([0, 0, 0, 0] :: u8 list) = frame_size session_tls_env"
  by (simp add: session_simps)

lemma session_serves:
  assumes "server_setup session_tls_env session_ssl_env [0, 0, 0, 0] session_buf (session_heap, session_world) =
      Some (lfd, st0)" "sv_ret st0 = 0"
  shows "\<exists>st. server_reach session_tls_env session_ssl_env [0, 0, 0, 0] lfd st0 k st"
proof (induction k)
  case 0
  show ?case using server_reach.start by blast
next
  case (Suc k)
  then obtain st where st: "server_reach session_tls_env session_ssl_env [0, 0, 0, 0] lfd st0 k st" by blast
  have s: "sv_client st0 = -1" "heap_ok (socks session_tls_env) id (fst (sv_io st0))"
      "opened_fd id session_heap (fst (sv_io st0)) lfd" "0 \<le> lfd"
    using session.server_setup_returns [OF session_heap_ok session_mem, of session_buf session_world] assms by auto
  note inv = session.listener_opened [OF s(3,4,2)]
  have "server_inv (socks session_tls_env) id (dom (sh_objects session_heap)) lfd (sv_client st) (fst (sv_io st))"
    using session.server_reach_inv [OF inv s(1) session_mem st] by simp
  then show ?case using session_cycle st server_reach.again by blast
qed

theorem server_sound_witness:
  "\<exists>lfd st0 lbl st'. server_setup session_tls_env session_ssl_env [0, 0, 0, 0] session_buf (session_heap, session_world) =
     Some (lfd, st0) \<and> server_cycle session_tls_env session_ssl_env [0, 0, 0, 0] lfd st0 = Some (Some (lbl, st'))"
proof -
  obtain lfd st0 where s: "server_setup session_tls_env session_ssl_env [0, 0, 0, 0] session_buf (session_heap, session_world) =
      Some (lfd, st0)" "sv_ret st0 = 0"
    using session_setup by blast
  from server_sound [OF session.ssl_program_axioms session_heap_ok session_mem, of session_buf session_world] s
  show ?thesis using server_reach.start by fastforce
qed

theorem server_leaks_slots_witness:
  "\<exists>lfd st0 st. server_setup session_tls_env session_ssl_env [0, 0, 0, 0] session_buf (session_heap, session_world) =
     Some (lfd, st0) \<and> server_reach session_tls_env session_ssl_env [0, 0, 0, 0] lfd st0 3 st \<and>
     card (dangling id (fst (sv_io st))) = card (dangling id (fst (sv_io st0))) + 2"
proof -
  obtain lfd st0 where s: "server_setup session_tls_env session_ssl_env [0, 0, 0, 0] session_buf (session_heap, session_world) =
      Some (lfd, st0)" "sv_ret st0 = 0"
    using session_setup by blast
  obtain st where st: "server_reach session_tls_env session_ssl_env [0, 0, 0, 0] lfd st0 3 st"
    using session_serves [OF s, of 3] by blast
  from server_leaks_slots [OF session.ssl_program_axioms session_heap_ok session_mem s st] s st show ?thesis by auto
qed

end
