(* ===== verification/Ssl_Options.thy ===== *)
theory Ssl_Options
  imports Ssl_Programs
begin

text \<open>
  The helper functions of the configurable test server \<open>samples/mbedtls/04-https-server2/ssl_server2.c\<close>:
  the list of pre-shared keys given as an option (\<open>psk_parse\<close>, \<open>psk_callback\<close>, \<open>unhexify\<close>), the lists of
  elliptic curves and of protocols, the mode of authentication, and the callbacks for non-blocking mode, which \<open>ssl_client2.c\<close> has too.

  The option is a string in memory that the parser overwrites: an array of bytes, with indices for
  pointers. \<open>None\<close> is an access outside an array.
\<close>

subsection \<open>Hexadecimal strings\<close>

definition HEX2NUM :: "u8 \<Rightarrow> u8 option" where
  "HEX2NUM c =
     (if 48 \<le> c \<and> c \<le> 57 then Some (c - 48)
      else if 97 \<le> c \<and> c \<le> 102 then Some (c - 87)
      else if 65 \<le> c \<and> c \<le> 70 then Some (c - 55)
      else None)"

text \<open>The loop over the digits: the result and the output.\<close>

function unhex_loop :: "cstring \<Rightarrow> nat \<Rightarrow> nat \<Rightarrow> u8 list \<Rightarrow> (int \<times> u8 list) option" where
  "unhex_loop input olen j out =
     (if j < olen * 2
      then do {
        c \<leftarrow> get_at input j;
        case HEX2NUM c of
          None \<Rightarrow> Some (-1, out)
        | Some c \<Rightarrow> do {
            out \<leftarrow> put_at out (j div 2) (push_bit 4 c);
            d \<leftarrow> get_at input (j + 1);
            case HEX2NUM d of
              None \<Rightarrow> Some (-1, out)
            | Some d \<Rightarrow> do {
                v \<leftarrow> get_at out (j div 2);
                out \<leftarrow> put_at out (j div 2) (v OR d);
                unhex_loop input olen (j + 2) out
              }
          }
      }
      else Some (0, out))"
  by pat_completeness auto
termination by (relation "measure (\<lambda>(input, olen, j, out). olen * 2 - j)") auto

declare unhex_loop.simps [simp del]

text \<open>\<open>psk_max\<close> is \<open>MBEDTLS_PSK_MAX_LEN\<close>. The result, the output and \<open>*olen\<close>.\<close>

definition unhexify :: "nat \<Rightarrow> u8 list \<Rightarrow> cstring \<Rightarrow> (int \<times> u8 list \<times> nat) option" where
  "unhexify psk_max out input =
     (let olen = length input
      in if olen mod 2 \<noteq> 0 \<or> olen div 2 > psk_max then Some (-1, out, olen)
         else map_option (\<lambda>(r, out). (r, out, olen div 2)) (unhex_loop input (olen div 2) 0 out))"

subsection \<open>List of pre-shared keys\<close>

text \<open>
  The macro \<open>GET_ITEM\<close>: the string behind \<open>p\<close> up to the next comma is terminated there. \<open>Some None\<close> is
  the jump to \<open>error\<close>.
\<close>

function GET_ITEM :: "u8 list \<Rightarrow> nat \<Rightarrow> nat \<Rightarrow> (u8 list \<times> nat) option option" where
  "GET_ITEM buf e p =
     (case get_at buf p of
        None \<Rightarrow> None
      | Some c \<Rightarrow>
          if c = 44 then Some (Some (buf[p := 0], p + 1))
          else if p + 1 > e then Some None
          else GET_ITEM buf e (p + 1))"
  by pat_completeness auto
termination by (relation "measure (\<lambda>(buf, e, p). Suc e - p)") auto

declare GET_ITEM.simps [simp del]

lemma GET_ITEM_forward: "GET_ITEM buf e p = Some (Some (buf', p')) \<Longrightarrow> p < p'"
proof (induction buf e p rule: GET_ITEM.induct)
  case (1 buf e p)
  then show ?case by (subst (asm) (2) GET_ITEM.simps) (fastforce split: option.splits if_splits)
qed

text \<open>An entry with its address; the list that \<open>next\<close> links is a list of entries.\<close>

record psk_entry =
  pe_addr :: nat
  pe_name :: nat
  pe_key_len :: nat
  pe_key :: "u8 list"

text \<open>\<open>mbedtls_calloc\<close> (an address, or none if there is no memory) and \<open>mbedtls_free\<close>.\<close>

record 'w allocator_ops =
  al_calloc :: "'w \<Rightarrow> nat option \<times> 'w"
  al_free :: "nat \<Rightarrow> 'w \<Rightarrow> 'w"

fun psk_free :: "'w allocator_ops \<Rightarrow> psk_entry list \<Rightarrow> 'w \<Rightarrow> 'w" where
  "psk_free A [] w = w"
| "psk_free A (head # nxt) w = psk_free A nxt (al_free A (pe_addr head) w)"

text \<open>The loop of \<open>psk_parse\<close>: the list, if there is no error, with the string and the memory.\<close>

function psk_loop ::
  "'w allocator_ops \<Rightarrow> nat \<Rightarrow> nat \<Rightarrow> u8 list \<Rightarrow> nat \<Rightarrow> psk_entry list \<Rightarrow> 'w \<Rightarrow>
     (psk_entry list option \<times> u8 list \<times> 'w) option" where
  "psk_loop A psk_max e buf p cur w =
     (if p \<le> e
      then case al_calloc A w of
        (None, w) \<Rightarrow> Some (None, buf, psk_free A cur w)
      | (Some new, w) \<Rightarrow>
          (case GET_ITEM buf e p of
             None \<Rightarrow> None
           | Some None \<Rightarrow> Some (None, buf, psk_free A cur (al_free A new w))
           | Some (Some (buf, key_hex)) \<Rightarrow>
               (case GET_ITEM buf e key_hex of
                  None \<Rightarrow> None
                | Some None \<Rightarrow> Some (None, buf, psk_free A cur (al_free A new w))
                | Some (Some (buf, p')) \<Rightarrow> do {
                    str \<leftarrow> c_str_at buf key_hex;
                    (r, key, len) \<leftarrow> unhexify psk_max (replicate psk_max 0) str;
                    if r \<noteq> 0 then Some (None, buf, psk_free A cur (al_free A new w))
                    else psk_loop A psk_max e buf p'
                           (\<lparr>pe_addr = new, pe_name = p, pe_key_len = len, pe_key = key\<rparr> # cur) w
                  }))
      else Some (Some cur, buf, w))"
  by pat_completeness auto
termination
  by (relation "measure (\<lambda>(A, psk_max, e, buf, p, cur, w). Suc e - p)")
    (auto dest!: GET_ITEM_forward)

declare psk_loop.simps [simp del]

definition psk_parse ::
  "'w allocator_ops \<Rightarrow> nat \<Rightarrow> u8 list \<Rightarrow> 'w \<Rightarrow> (psk_entry list option \<times> u8 list \<times> 'w) option" where
  "psk_parse A psk_max buf w = do {
     str \<leftarrow> c_str_at buf 0;
     let e = length str;
     psk_loop A psk_max e (buf[e := 44]) 0 [] w
   }"

text \<open>\<open>set_psk\<close> is \<open>mbedtls_ssl_set_hs_psk\<close>.\<close>

fun psk_callback ::
  "(u8 list \<Rightarrow> 's \<Rightarrow> int \<times> 's) \<Rightarrow> u8 list \<Rightarrow> psk_entry list \<Rightarrow> u8 list \<Rightarrow> 's \<Rightarrow> (int \<times> 's) option" where
  "psk_callback set_psk buf [] name ssl = Some (-1, ssl)"
| "psk_callback set_psk buf (cur # nxt) name ssl = do {
     str \<leftarrow> c_str_at buf (pe_name cur);
     if length name = length str \<and> name = str
     then do { key \<leftarrow> get_block (pe_key cur) 0 (pe_key_len cur); Some (set_psk key ssl) }
     else psk_callback set_psk buf nxt name ssl
   }"

subsection \<open>Lists of curves and protocols\<close>

definition CURVE_LIST_SIZE :: nat where "CURVE_LIST_SIZE = 20"

definition ALPN_LIST_SIZE :: nat where "ALPN_LIST_SIZE = 10"

text \<open>The string behind \<open>p\<close> is terminated at the next comma; the result is where the next one starts.\<close>

function terminate_item :: "u8 list \<Rightarrow> nat \<Rightarrow> (u8 list \<times> nat) option" where
  "terminate_item buf p =
     (case get_at buf p of
        None \<Rightarrow> None
      | Some c \<Rightarrow>
          if c \<noteq> 44 \<and> c \<noteq> 0 then terminate_item buf (p + 1)
          else if c = 44 then Some (buf[p := 0], p + 1)
          else Some (buf, p))"
  by pat_completeness auto
termination by (relation "measure (\<lambda>(buf, p). length buf - p)") (auto simp: get_at_Some)

declare terminate_item.simps [simp del]

text \<open>
  \<open>lookup\<close> is \<open>mbedtls_ecp_curve_info_from_name\<close>, down to the field \<open>grp_id\<close>; \<open>out\<close> are the entries of
  \<open>curve_list\<close> so far. The list is missing where the program exits because of an unknown name.
\<close>

function curve_loop ::
  "(cstring \<Rightarrow> 'i option) \<Rightarrow> u8 list \<Rightarrow> nat \<Rightarrow> 'i list \<Rightarrow> ('i list option \<times> u8 list \<times> nat) option" where
  "curve_loop lookup buf p out =
     (if length out < CURVE_LIST_SIZE - 1
      then do {
        c \<leftarrow> get_at buf p;
        if c = 0 then Some (Some out, buf, p)
        else do {
          (buf, p') \<leftarrow> terminate_item buf p;
          q \<leftarrow> c_str_at buf p;
          case lookup q of
            None \<Rightarrow> Some (None, buf, p')
          | Some grp_id \<Rightarrow> curve_loop lookup buf p' (out @ [grp_id])
        }
      }
      else Some (Some out, buf, p))"
  by pat_completeness auto
termination by (relation "measure (\<lambda>(lookup, buf, p, out). CURVE_LIST_SIZE - length out)") auto

declare curve_loop.simps [simp del]

text \<open>
  The list of curves: the entries written into \<open>curve_list\<close>, none for \<open>default\<close>; it is missing where the
  program exits. \<open>dp_none\<close> is \<open>MBEDTLS_ECP_DP_NONE\<close>.
\<close>

definition parse_curves :: "(cstring \<Rightarrow> 'i option) \<Rightarrow> 'i \<Rightarrow> u8 list \<Rightarrow> 'i list option option" where
  "parse_curves lookup dp_none buf = do {
     str \<leftarrow> c_str_at buf 0;
     if str = cstr ''none'' then Some (Some [dp_none])
     else if str = cstr ''default'' then Some (Some [])
     else do {
       (r, buf, p) \<leftarrow> curve_loop lookup buf 0 [];
       case r of
         None \<Rightarrow> Some None
       | Some out \<Rightarrow> do {
           c \<leftarrow> get_at buf p;
           if length out = CURVE_LIST_SIZE - 1 \<and> c \<noteq> 0 then Some None else Some (Some (out @ [dp_none]))
         }
     }
   }"

text \<open>The list of protocols: the pointers stored into \<open>alpn_list\<close>, and the string they point into.\<close>

function alpn_loop :: "u8 list \<Rightarrow> nat \<Rightarrow> nat list \<Rightarrow> (nat list \<times> u8 list) option" where
  "alpn_loop buf p alpn_list =
     (if length alpn_list < ALPN_LIST_SIZE - 1
      then do {
        c \<leftarrow> get_at buf p;
        if c = 0 then Some (alpn_list, buf)
        else do {
          (buf, p') \<leftarrow> terminate_item buf p;
          alpn_loop buf p' (alpn_list @ [p])
        }
      }
      else Some (alpn_list, buf))"
  by pat_completeness auto
termination by (relation "measure (\<lambda>(buf, p, alpn_list). ALPN_LIST_SIZE - length alpn_list)") auto

declare alpn_loop.simps [simp del]

subsection \<open>Mode of authentication\<close>

definition get_auth_mode :: "('w, 'c, 'l, 's, 'g, 'x, 'd, 'p) tls_env \<Rightarrow> ('s, 'g, 'x, 'k, 'h) ssl_env \<Rightarrow> cstring \<Rightarrow> int" where
  "get_auth_mode E X s =
     (if s = cstr ''none'' then SSL_VERIFY_NONE E
      else if s = cstr ''optional'' then SSL_VERIFY_OPTIONAL X
      else if s = cstr ''required'' then SSL_VERIFY_REQUIRED E
      else -1)"

subsection \<open>Callbacks for non-blocking mode\<close>

text \<open>The flag is the static variable \<open>first_try\<close>.\<close>

definition my_recv ::
  "('w, 'c, 'l, 's, 'g, 'x, 'd, 'p) tls_env \<Rightarrow> int \<Rightarrow> nat \<Rightarrow> bool \<Rightarrow> ('c, 'l, 'w) io \<Rightarrow>
     (int \<times> u8 list \<times> bool \<times> ('c, 'l, 'w) io) option" where
  "my_recv E fd len first_try b =
     (if first_try then Some (ERR_SSL_WANT_READ E, [], False, b)
      else do {
        (ret, bs, b) \<leftarrow> bio_recv (net_bio E fd) len b;
        Some (ret, bs, ret \<noteq> ERR_SSL_WANT_READ E, b)
      })"

definition my_send ::
  "('w, 'c, 'l, 's, 'g, 'x, 'd, 'p) tls_env \<Rightarrow> int \<Rightarrow> u8 list \<Rightarrow> bool \<Rightarrow> ('c, 'l, 'w) io \<Rightarrow>
     (int \<times> bool \<times> ('c, 'l, 'w) io) option" where
  "my_send E fd bs first_try b =
     (if first_try then Some (ERR_SSL_WANT_WRITE E, False, b)
      else do {
        (ret, b) \<leftarrow> bio_send (net_bio E fd) bs b;
        Some (ret, ret \<noteq> ERR_SSL_WANT_WRITE E, b)
      })"

end
