(* ===== verification/Ssl_Options_Props.thy ===== *)
theory Ssl_Options_Props
  imports Ssl_Options
begin

text \<open>
  Properties of the list of pre-shared keys: what an option means for the callback, which options
  the parser reads beyond their end, and that it keeps no memory after an error.
\<close>

subsection \<open>Hexadecimal strings\<close>

definition hexify :: "u8 list \<Rightarrow> cstring" where
  "hexify bs = concat (map (\<lambda>b. [digit_char (unat b div 16), digit_char (unat b mod 16)]) bs)"

lemma HEX2NUM_digit:
  assumes "d < 16"
  shows "HEX2NUM (digit_char d) = Some (of_nat d)" "digit_char d \<noteq> 44"
proof -
  have u: "unat (digit_char d) = (if d < 10 then 48 + d else 87 + d)"
    using assms by (simp add: digit_char_def unat_of_nat)
  then show "HEX2NUM (digit_char d) = Some (of_nat d)"
    using assms by (simp add: HEX2NUM_def word_le_nat_alt) (simp add: digit_char_def)
  show "digit_char d \<noteq> 44" using u assms by (auto simp: word_unat_eq_iff)
qed

lemma nibbles: "unat (b :: u8) div 16 < 16" "push_bit 4 (of_nat (unat b div 16)) OR of_nat (unat b mod 16) = b"
proof -
  have "unat b < 2 ^ LENGTH(8)" by (rule unsigned_less)
  then show "unat b div 16 < 16" by simp
  have "of_nat (unat b div 16) = drop_bit 4 b"
    using arg_cong [OF unat_drop_bit_eq [of 4 b], of "of_nat :: nat \<Rightarrow> u8"] by (simp add: drop_bit_eq_div)
  moreover have t: "unat (take_bit 4 b) = unat b mod 16" by (simp only: unsigned_take_bit_eq) (simp add: take_bit_eq_mod)
  have "of_nat (unat b mod 16) = take_bit 4 b" by (simp only: t [symmetric]) simp
  moreover have "push_bit 4 (drop_bit 4 b) OR take_bit 4 b = b" by (rule bit_word_eqI) (auto simp: bit_simps)
  ultimately show "push_bit 4 (of_nat (unat b div 16)) OR of_nat (unat b mod 16) = b" by simp
qed

lemma length_hexify [simp]: "length (hexify bs) = 2 * length bs"
  by (induction bs) (simp_all add: hexify_def)

lemma hexify_nth:
  "i < length bs \<Longrightarrow> hexify bs ! (2 * i) = digit_char (unat (bs ! i) div 16) \<and>
    hexify bs ! (2 * i + 1) = digit_char (unat (bs ! i) mod 16)"
proof (induction bs arbitrary: i)
  case (Cons b bs)
  then show ?case by (cases i) (simp_all add: hexify_def)
qed simp

lemma hexify_chars: "c \<in> set (hexify bs) \<Longrightarrow> c \<noteq> 44 \<and> c \<noteq> 0"
  using HEX2NUM_digit(2) digit_char_range(1) nibbles(1) by (auto simp: hexify_def)

lemma unhex_loop_hexify:
  assumes "length bs \<le> length out" "k \<le> length bs"
  shows "unhex_loop (hexify bs) (length bs) (2 * k) (take k bs @ drop k out) = Some (0, bs @ drop (length bs) out)"
  using assms(2)
proof (induction "length bs - k" arbitrary: k)
  case 0
  then show ?case by (simp add: unhex_loop.simps)
next
  case (Suc n)
  then have k: "k < length bs" "k < length out" using assms(1) by auto
  let ?b = "bs ! k" and ?o = "take k bs @ drop k out"
  have g: "get_at (hexify bs) (2 * k) = Some (digit_char (unat ?b div 16))"
      "get_at (hexify bs) (2 * k + 1) = Some (digit_char (unat ?b mod 16))"
    using hexify_nth [OF k(1)] k(1) by (simp_all add: get_at_in)
  have u: "?o[k := v] = take k bs @ v # drop (Suc k) out" "(take k bs @ x # xs)[k := v] = take k bs @ v # xs" for v x xs
    using k by (simp_all add: list_update_append Cons_nth_drop_Suc [symmetric])
  have l: "k < length ?o" using k by simp
  have "unhex_loop (hexify bs) (length bs) (2 * k) ?o =
      unhex_loop (hexify bs) (length bs) (2 * Suc k) (take (Suc k) bs @ drop (Suc k) out)"
    by (subst unhex_loop.simps)
      (use k g l in \<open>simp add: HEX2NUM_digit nibbles put_at_in get_at_in u take_Suc_conv_app_nth nth_append\<close>)
  then show ?case using Suc.hyps(1) [of "Suc k"] Suc.hyps(2) k(1) by simp
qed

lemma unhexify_hexify:
  assumes "length bs \<le> psk_max"
  shows "unhexify psk_max (replicate psk_max 0) (hexify bs) = Some (0, bs @ replicate (psk_max - length bs) 0, length bs)"
  using unhex_loop_hexify [of bs "replicate psk_max 0" 0] assms by (simp add: unhexify_def)

subsection \<open>Reading a list\<close>

text \<open>The items of a list as the parser has them before and after it has read them.\<close>

definition items :: "u8 \<Rightarrow> cstring list \<Rightarrow> u8 list" where
  "items sep xs = concat (map (\<lambda>x. x @ [sep]) xs)"

definition pair_items :: "(cstring \<times> u8 list) list \<Rightarrow> cstring list" where
  "pair_items ps = concat (map (\<lambda>(n, k). [n, hexify k]) ps)"

text \<open>The option: the items with commas between them, and the terminating zero.\<close>

definition option_text :: "cstring list \<Rightarrow> u8 list" where
  "option_text xs = butlast (items 44 xs) @ [0]"

lemma items_simps [simp]: "items sep [] = []" "items sep (x # xs) = x @ sep # items sep xs"
    "items sep (xs @ ys) = items sep xs @ items sep ys"
  by (simp_all add: items_def)

lemma pair_items_simps [simp]: "pair_items [] = []" "pair_items ((n, k) # ps) = n # hexify k # pair_items ps"
  by (simp_all add: pair_items_def)

lemma get_at_append [simp]: "get_at (xs @ y # ys) (length xs) = Some y"
  by (simp add: get_at_in)

lemma GET_ITEM_item:
  assumes "44 \<notin> set x" "length pre + length x \<le> e"
  shows "GET_ITEM (pre @ x @ 44 # tail) e (length pre) = Some (Some (pre @ x @ 0 # tail, length pre + length x + 1))"
  using assms
proof (induction x arbitrary: pre)
  case Nil
  then show ?case by (subst GET_ITEM.simps) (simp add: list_update_append)
next
  case (Cons c x)
  have "GET_ITEM (pre @ (c # x) @ 44 # tail) e (length pre) = GET_ITEM ((pre @ [c]) @ x @ 44 # tail) e (length (pre @ [c]))"
    using Cons.prems by (subst GET_ITEM.simps) simp
  then show ?case using Cons.IH [of "pre @ [c]"] Cons.prems by simp
qed

lemma GET_ITEM_beyond: "length buf \<le> p \<Longrightarrow> GET_ITEM buf e p = None"
  by (subst GET_ITEM.simps) (simp add: get_at_def)

lemma c_str_at_item: "0 \<notin> set x \<Longrightarrow> c_str_at (pre @ x @ 0 # tail) (length pre) = Some x"
  by (intro c_str_at_terminated) (auto simp: c_string_def nth_append)

lemma c_str_at_append:
  assumes "c_str_at pre i = Some s"
  shows "c_str_at (pre @ tail) i = Some s"
proof -
  have "0 \<in> set (drop i pre)" "s = takeWhile (\<lambda>c. c \<noteq> 0) (drop i pre)"
    using assms by (simp_all add: c_str_at_def split: if_splits)
  then show ?thesis by (auto simp: c_str_at_def takeWhile_append1)
qed

text \<open>The entry of a pair in a string.\<close>

definition entry_for :: "nat \<Rightarrow> u8 list \<Rightarrow> psk_entry \<Rightarrow> cstring \<times> u8 list \<Rightarrow> bool" where
  "entry_for psk_max buf e nk \<longleftrightarrow> c_str_at buf (pe_name e) = Some (fst nk) \<and> pe_key_len e = length (snd nk) \<and>
     pe_key e = snd nk @ replicate (psk_max - length (snd nk)) 0"

definition pair_ok :: "nat \<Rightarrow> cstring \<times> u8 list \<Rightarrow> bool" where
  "pair_ok psk_max nk \<longleftrightarrow> c_string (fst nk) \<and> 44 \<notin> set (fst nk) \<and> length (snd nk) \<le> psk_max"

text \<open>One round of the loop on the next pair.\<close>

lemma psk_loop_pair:
  assumes "pair_ok psk_max (n, k)" "al_calloc A w = (Some a, w')" "e + 1 = length (pre @ items 44 (n # hexify k # xs))"
  shows "psk_loop A psk_max e (pre @ items 44 (n # hexify k # xs)) (length pre) cur w =
    psk_loop A psk_max e (pre @ items 0 [n, hexify k] @ items 44 xs) (length (pre @ items 0 [n, hexify k]))
      (\<lparr>pe_addr = a, pe_name = length pre, pe_key_len = length k, pe_key = k @ replicate (psk_max - length k) 0\<rparr> # cur) w'"
proof -
  let ?tail = "hexify k @ 44 # items 44 xs" and ?pre = "pre @ n @ [0]"
  have g1: "GET_ITEM (pre @ n @ 44 # ?tail) e (length pre) = Some (Some (pre @ n @ 0 # ?tail, length ?pre))"
    using assms by (subst GET_ITEM_item) (auto simp: pair_ok_def)
  have "GET_ITEM (?pre @ hexify k @ 44 # items 44 xs) e (length ?pre) =
      Some (Some (?pre @ hexify k @ 0 # items 44 xs, length ?pre + length (hexify k) + 1))"
    using assms(3) hexify_chars [of _ k] by (intro GET_ITEM_item) auto
  then have g2: "GET_ITEM (pre @ n @ 0 # ?tail) e (length ?pre) =
      Some (Some (pre @ items 0 [n, hexify k] @ items 44 xs, length (pre @ items 0 [n, hexify k])))"
    by simp
  have "c_str_at (?pre @ hexify k @ 0 # items 44 xs) (length ?pre) = Some (hexify k)"
    using hexify_chars [of _ k] by (intro c_str_at_item) auto
  then have c: "c_str_at (pre @ items 0 [n, hexify k] @ items 44 xs) (length ?pre) = Some (hexify k)" by simp
  have le: "length pre \<le> e" using assms(3) by simp
  have e: "pre @ items 44 (n # hexify k # xs) = pre @ n @ 44 # ?tail" by simp
  show ?thesis
    unfolding e
    by (subst psk_loop.simps)
      (simp only: le assms(2) g1 g2 c if_True prod.case option.case bind.bind_lunit unhexify_hexify simp_thms if_False
        pair_ok_def [THEN iffD1, OF assms(1), simplified])
qed

lemma psk_loop_pairs:
  assumes "list_all (pair_ok psk_max) ps" "\<And>w. \<exists>a w'. al_calloc A w = (Some a, w')"
    "e + 1 = length (pre @ items 44 (pair_items ps @ xs))" "list_all2 (entry_for psk_max pre) cur qs"
  shows "\<exists>cur' w'. psk_loop A psk_max e (pre @ items 44 (pair_items ps @ xs)) (length pre) cur w =
      psk_loop A psk_max e (pre @ items 0 (pair_items ps) @ items 44 xs) (length (pre @ items 0 (pair_items ps))) cur' w' \<and>
    list_all2 (entry_for psk_max (pre @ items 0 (pair_items ps))) cur' (rev ps @ qs)"
  using assms(1,3,4)
proof (induction ps arbitrary: pre cur qs w)
  case (Cons nk ps)
  obtain n k where nk: "nk = (n, k)" by (metis surj_pair)
  obtain a w1 where a: "al_calloc A w = (Some a, w1)" using assms(2) by blast
  let ?pre = "pre @ items 0 [n, hexify k]"
  let ?e = "\<lparr>pe_addr = a, pe_name = length pre, pe_key_len = length k, pe_key = k @ replicate (psk_max - length k) 0\<rparr>"
  have ok: "pair_ok psk_max (n, k)" "list_all (pair_ok psk_max) ps" using Cons.prems(1) nk by simp_all
  have "c_str_at ?pre (length pre) = Some n"
    using ok(1) c_str_at_item [of n pre "hexify k @ [0]"] by (simp add: pair_ok_def c_string_def)
  then have "entry_for psk_max ?pre ?e (n, k)" by (simp add: entry_for_def)
  moreover have "list_all2 (entry_for psk_max ?pre) cur qs"
    using Cons.prems(3) by (rule list_all2_mono) (auto simp: entry_for_def intro: c_str_at_append)
  ultimately have l: "list_all2 (entry_for psk_max ?pre) (?e # cur) ((n, k) # qs)" by simp
  have "e + 1 = length (?pre @ items 44 (pair_items ps @ xs))" using Cons.prems(2) nk by simp
  from Cons.IH [OF ok(2) this l, of w1] show ?case
    using psk_loop_pair [OF ok(1) a, of e pre "pair_items ps @ xs" cur] Cons.prems(2) nk by simp
qed auto

lemma psk_callback_entries:
  "list_all2 (entry_for psk_max buf) cur qs \<Longrightarrow>
     psk_callback set_psk buf cur name ssl =
       Some (case map_of qs name of None \<Rightarrow> (-1, ssl) | Some k \<Rightarrow> set_psk k ssl)"
proof (induction rule: list_all2_induct)
  case (Cons e cur nk qs)
  obtain n k where nk: "nk = (n, k)" by (metis surj_pair)
  have "c_str_at buf (pe_name e) = Some n" "get_block (pe_key e) 0 (pe_key_len e) = Some k"
    using Cons.hyps(1) nk by (simp_all add: entry_for_def get_block_in)
  then show ?case using Cons.IH nk by simp
qed simp

lemma option_text_string:
  assumes "xs \<noteq> []" "\<forall>x \<in> set xs. c_string x"
  shows "\<exists>e. c_str_at (option_text xs) 0 = Some (butlast (items 44 xs)) \<and> e = length (butlast (items 44 xs)) \<and>
    e + 1 = length (items 44 xs) \<and> (option_text xs)[e := 44] = items 44 xs"
proof -
  let ?t = "items 44 xs"
  obtain ys where t: "?t = ys @ [44]" using assms(1) by (cases xs rule: rev_cases) auto
  have "0 \<notin> set ?t" using assms(2) by (auto simp: items_def c_string_def)
  then have "c_str_at (ys @ [0]) 0 = Some ys" using c_str_at_item [of ys "[]" "[]"] t by simp
  then show ?thesis using t by (simp add: option_text_def)
qed

lemma pair_items_strings: "list_all (pair_ok psk_max) ps \<Longrightarrow> x \<in> set (pair_items ps) \<Longrightarrow> c_string x"
  using hexify_chars by (auto simp: pair_items_def pair_ok_def list_all_iff c_string_def)

subsection \<open>Memory\<close>

text \<open>\<open>live w\<close> are the blocks in use.\<close>

locale allocator =
  fixes A :: "'w allocator_ops" and live :: "'w \<Rightarrow> nat set"
  assumes calloc_live: "al_calloc A w = (r, w') \<Longrightarrow>
      (case r of None \<Rightarrow> live w' = live w | Some a \<Rightarrow> a \<notin> live w \<and> live w' = insert a (live w))"
    and free_live: "a \<in> live w \<Longrightarrow> live (al_free A a w) = live w - {a}"
begin

lemma psk_free_live:
  "distinct (map pe_addr es) \<Longrightarrow> pe_addr ` set es \<subseteq> live w \<Longrightarrow> live (psk_free A es w) = live w - pe_addr ` set es"
proof (induction es arbitrary: w)
  case (Cons x es)
  have l: "live (al_free A (pe_addr x) w) = live w - {pe_addr x}" using Cons.prems by (intro free_live) simp
  have "pe_addr ` set es \<subseteq> live (al_free A (pe_addr x) w)"
    using Cons.prems unfolding l by (simp add: subset_Diff_insert)
  from Cons.IH [OF _ this] show ?case using Cons.prems(1) l by auto
qed simp

lemma psk_error_live:
  assumes "al_calloc A w = (Some a, w1)" "distinct (map pe_addr cur)" "pe_addr ` set cur \<subseteq> live w"
  shows "live (psk_free A cur (al_free A a w1)) = live w - pe_addr ` set cur"
proof -
  have a: "a \<notin> live w" "live w1 = insert a (live w)" using calloc_live [OF assms(1)] by simp_all
  then have "live (al_free A a w1) = live w" using free_live [of a w1] by simp
  then show ?thesis using psk_free_live [OF assms(2)] assms(3) by simp
qed

text \<open>After an error the parser holds no memory; otherwise it holds exactly the entries of the list.\<close>

definition released :: "psk_entry list \<Rightarrow> 'w \<Rightarrow> psk_entry list option \<times> 'w \<Rightarrow> bool" where
  "released cur w = (\<lambda>(r, w'). case r of None \<Rightarrow> live w' = live w - pe_addr ` set cur
    | Some es \<Rightarrow> distinct (map pe_addr es) \<and> pe_addr ` set es \<subseteq> live w' \<and>
        live w' - pe_addr ` set es = live w - pe_addr ` set cur)"

lemma psk_loop_live:
  "psk_loop A psk_max e buf p cur w = Some (r, buf', w') \<Longrightarrow> distinct (map pe_addr cur) \<Longrightarrow> pe_addr ` set cur \<subseteq> live w \<Longrightarrow>
    released cur w (r, w')"
proof (induction "Suc e - p" arbitrary: buf p cur w rule: less_induct)
  case less
  show ?case
  proof (cases "p \<le> e")
    case False
    then have "r = Some cur" "w' = w" using less.prems(1) by (simp_all add: psk_loop.simps)
    then show ?thesis using less.prems(2,3) by (simp add: released_def)
  next
    case True
    obtain c w1 where c: "al_calloc A w = (c, w1)" by (metis surj_pair)
    show ?thesis
    proof (cases c)
      case None
      then have "live w1 = live w" "r = None" "w' = psk_free A cur w1"
        using calloc_live [OF c] less.prems(1) True c by (simp_all add: psk_loop.simps [of A psk_max e buf p])
      then show ?thesis using psk_free_live [OF less.prems(2)] less.prems(3) by (simp add: released_def)
    next
      case (Some a)
      have a: "a \<notin> live w" "live w1 = insert a (live w)" using calloc_live [OF c] Some by simp_all
      consider "r = None" "w' = psk_free A cur (al_free A a w1)"
        | buf2 p2 x where "p < p2" "pe_addr x = a" "psk_loop A psk_max e buf2 p2 (x # cur) w1 = Some (r, buf', w')"
        using less.prems(1) True c Some unfolding psk_loop.simps [of A psk_max e buf p]
        by (auto simp: bind_some dest!: GET_ITEM_forward split: option.splits if_splits)
          (metis less_trans psk_entry.select_convs(1))
      then show ?thesis
      proof cases
        case 1
        then show ?thesis using psk_error_live [OF c [unfolded Some] less.prems(2,3)] by (simp add: released_def)
      next
        case (2 buf2 p2 x)
        have "released (x # cur) w1 (r, w')"
          using less.prems(2,3) a 2 True by (intro less.hyps [OF _ 2(3)]) auto
        moreover have "live w1 - pe_addr ` set (x # cur) = live w - pe_addr ` set cur" using a 2(2) by auto
        ultimately show ?thesis by (cases r) (simp_all add: released_def)
      qed
    qed
  qed
qed

end

text \<open>Memory as the number of the next block, with the list of those in use; there is room for \<open>fst\<close> more.\<close>

definition list_allocator :: "(nat \<times> nat \<times> nat list) allocator_ops" where
  "list_allocator = \<lparr>al_calloc = (\<lambda>(room, n, bs). if room = 0 then (None, room, n, bs) else (Some n, room - 1, Suc n, n # bs)),
     al_free = (\<lambda>a (room, n, bs). (Suc room, n, removeAll a bs))\<rparr>"

definition list_live :: "nat \<times> nat \<times> nat list \<Rightarrow> nat set" where
  "list_live = (\<lambda>(room, n, bs). {b \<in> set bs. b < n})"

interpretation list_allocator: allocator list_allocator list_live
  by unfold_locales (auto simp: list_allocator_def list_live_def split: if_splits)

subsection \<open>Properties\<close>

text \<open>
  C40. The list of pre-shared keys. An option of pairs of a name and a key in hexadecimal digits,
  separated by commas, is parsed, and the callback then finds for every name that a client sends
  the key of the last pair with that name, and rejects every other name. The names may be any strings
  without a comma, the keys any bytes up to \<open>MBEDTLS_PSK_MAX_LEN\<close>.
\<close>

theorem psk_list_read_back:
  assumes "\<And>w. \<exists>a w'. al_calloc A w = (Some a, w')" "list_all (pair_ok psk_max) ps" "ps \<noteq> []"
  shows "\<exists>cur buf w'. psk_parse A psk_max (option_text (pair_items ps)) w = Some (Some cur, buf, w') \<and>
    psk_callback set_psk buf cur name ssl =
      Some (case map_of (rev ps) name of None \<Rightarrow> (-1, ssl) | Some k \<Rightarrow> set_psk k ssl)"
proof -
  have "pair_items ps \<noteq> []" using assms(3) by (cases ps) auto
  then obtain e where e: "c_str_at (option_text (pair_items ps)) 0 = Some (butlast (items 44 (pair_items ps)))"
      "e = length (butlast (items 44 (pair_items ps)))" "e + 1 = length (items 44 (pair_items ps))"
      "(option_text (pair_items ps))[e := 44] = items 44 (pair_items ps)"
    using option_text_string pair_items_strings [OF assms(2)] by meson
  let ?b = "items 0 (pair_items ps)"
  obtain cur w' where l: "psk_loop A psk_max e (items 44 (pair_items ps)) 0 [] w = psk_loop A psk_max e ?b (length ?b) cur w'"
      "list_all2 (entry_for psk_max ?b) cur (rev ps)"
    using psk_loop_pairs [OF assms(2,1), of e "[]" "[]" "[]" "[]" w] e(3) by auto
  have "length ?b = length (items 44 (pair_items ps))" by (simp add: items_def length_concat comp_def)
  then have "\<not> length ?b \<le> e" using e(3) by simp
  then have "psk_loop A psk_max e ?b (length ?b) cur w' = Some (Some cur, ?b, w')" by (simp add: psk_loop.simps)
  then have "psk_parse A psk_max (option_text (pair_items ps)) w = Some (Some cur, ?b, w')"
    unfolding psk_parse_def e(1) bind.bind_lunit Let_def e(2) [symmetric] e(4) l(1) .
  then show ?thesis using psk_callback_entries [OF l(2)] by auto
qed

text \<open>
  An option with a name and no key behind the last comma is read beyond its end: \<open>GET_ITEM\<close>
  looks at the byte behind the terminating zero before it compares the position with the end.
\<close>

lemma psk_odd_list_overrun:
  assumes "\<And>w. \<exists>a w'. al_calloc A w = (Some a, w')" "list_all (pair_ok psk_max) ps" "c_string n" "44 \<notin> set n"
  shows "psk_parse A psk_max (option_text (pair_items ps @ [n])) w = None"
proof -
  let ?xs = "pair_items ps @ [n]" and ?b = "items 0 (pair_items ps)"
  obtain e where e: "c_str_at (option_text ?xs) 0 = Some (butlast (items 44 ?xs))"
      "e = length (butlast (items 44 ?xs))" "e + 1 = length (items 44 ?xs)" "(option_text ?xs)[e := 44] = items 44 ?xs"
    using option_text_string [of ?xs] pair_items_strings [OF assms(2)] assms(3) by auto
  obtain cur w' where l: "psk_loop A psk_max e (items 44 ?xs) 0 [] w = psk_loop A psk_max e (?b @ n @ [44]) (length ?b) cur w'"
    using psk_loop_pairs [OF assms(2,1), of e "[]" "[n]" "[]" "[]" w] e(3) by auto
  obtain a w2 where a: "al_calloc A w' = (Some a, w2)" using assms(1) by blast
  have le: "length ?b + length n \<le> e" using e(3) by (simp add: items_def length_concat comp_def)
  have "GET_ITEM (?b @ n @ [44]) e (length ?b) = Some (Some (?b @ n @ [0], length ?b + length n + 1))"
    using GET_ITEM_item [OF assms(4) le] by simp
  then have "psk_loop A psk_max e (?b @ n @ [44]) (length ?b) cur w' = None"
    using le a by (subst psk_loop.simps) (simp add: GET_ITEM_beyond)
  then show ?thesis using e l by (simp add: psk_parse_def)
qed

lemma psk_parse_memory:
  assumes "allocator A live" "psk_parse A psk_max buf w = Some (None, buf', w')"
  shows "live w' = live w"
proof -
  obtain str :: cstring where "psk_loop A psk_max (length str) (buf[length str := 44]) 0 [] w = Some (None, buf', w')"
    using assms(2) by (auto simp: psk_parse_def bind_some Let_def)
  from allocator.psk_loop_live [OF assms(1) this] show ?thesis
    by (simp add: allocator.released_def [OF assms(1)])
qed

subsection \<open>Lists of curves and protocols\<close>

lemma terminate_item_comma:
  assumes "44 \<notin> set x" "0 \<notin> set x"
  shows "terminate_item (pre @ x @ 44 # tail) (length pre) = Some (pre @ x @ 0 # tail, length pre + length x + 1)"
  using assms
proof (induction x arbitrary: pre)
  case Nil
  then show ?case by (subst terminate_item.simps) (simp add: list_update_append)
next
  case (Cons c x)
  have "terminate_item (pre @ (c # x) @ 44 # tail) (length pre) = terminate_item ((pre @ [c]) @ x @ 44 # tail) (length (pre @ [c]))"
    using Cons.prems by (subst terminate_item.simps) auto
  then show ?case using Cons.IH [of "pre @ [c]"] Cons.prems by simp
qed

lemma terminate_item_end:
  assumes "44 \<notin> set x" "0 \<notin> set x"
  shows "terminate_item (pre @ x @ 0 # tail) (length pre) = Some (pre @ x @ 0 # tail, length pre + length x)"
  using assms
proof (induction x arbitrary: pre)
  case Nil
  then show ?case by (subst terminate_item.simps) simp
next
  case (Cons c x)
  have "terminate_item (pre @ (c # x) @ 0 # tail) (length pre) = terminate_item ((pre @ [c]) @ x @ 0 # tail) (length (pre @ [c]))"
    using Cons.prems by (subst terminate_item.simps) auto
  then show ?case using Cons.IH [of "pre @ [c]"] Cons.prems by simp
qed

definition item_ok :: "cstring \<Rightarrow> bool" where
  "item_ok x \<longleftrightarrow> x \<noteq> [] \<and> 44 \<notin> set x \<and> 0 \<notin> set x"

lemma option_text_Cons: "xs \<noteq> [] \<Longrightarrow> option_text (x # xs) = x @ 44 # option_text xs"
  by (cases xs) (simp_all add: option_text_def butlast_append)

lemma option_text_single: "option_text [x] = x @ [0]"
  by (simp add: option_text_def butlast_append)

text \<open>What reading the first item of a list does, in both cases.\<close>

lemma first_item:
  assumes "item_ok x"
  obtains buf p where "get_at (pre @ option_text (x # xs)) (length pre) = Some (hd x)" "hd x \<noteq> 0"
    "terminate_item (pre @ option_text (x # xs)) (length pre) = Some (buf, p)" "c_str_at buf (length pre) = Some x"
    "\<exists>t. buf = pre @ t"
    "if xs = [] then get_at buf p = Some 0 else buf = (pre @ x @ [0]) @ option_text xs \<and> p = length (pre @ x @ [0])"
proof (cases "xs = []")
  case True
  show thesis
  proof (rule that)
    show "terminate_item (pre @ option_text (x # xs)) (length pre) = Some (pre @ x @ [0], length pre + length x)"
      using terminate_item_end [of x pre "[]"] assms True by (simp add: option_text_single item_ok_def)
    show "if xs = [] then get_at (pre @ x @ [0]) (length pre + length x) = Some 0
        else pre @ x @ [0] = (pre @ x @ [0]) @ option_text xs \<and> length pre + length x = length (pre @ x @ [0])"
      using get_at_append [of "pre @ x" 0 "[]"] True by simp
  qed (use assms True c_str_at_item [of x pre "[]"] in \<open>cases x; auto simp: item_ok_def option_text_single\<close>)+
next
  case False
  show thesis
  proof (rule that)
    show "terminate_item (pre @ option_text (x # xs)) (length pre) =
        Some ((pre @ x @ [0]) @ option_text xs, length (pre @ x @ [0]))"
      using terminate_item_comma [of x pre "option_text xs"] assms False by (simp add: option_text_Cons item_ok_def)
  qed (use assms False c_str_at_item [of x pre "option_text xs"] in \<open>cases x; auto simp: item_ok_def option_text_Cons\<close>)+
qed

lemma curve_loop_items:
  assumes "list_all item_ok xs" "xs \<noteq> []" "length out + length xs \<le> CURVE_LIST_SIZE - 1"
    "\<And>x. x \<in> set xs \<Longrightarrow> lookup x = Some (g x)"
  shows "\<exists>buf p. curve_loop lookup (pre @ option_text xs) (length pre) out = Some (Some (out @ map g xs), buf, p) \<and>
    get_at buf p = Some 0"
  using assms
proof (induction xs arbitrary: pre out)
  case (Cons x xs)
  have ok: "item_ok x" "lookup x = Some (g x)" using Cons.prems by simp_all
  obtain buf p where x: "get_at (pre @ option_text (x # xs)) (length pre) = Some (hd x)" "hd x \<noteq> 0"
      "terminate_item (pre @ option_text (x # xs)) (length pre) = Some (buf, p)" "c_str_at buf (length pre) = Some x"
      "\<exists>t. buf = pre @ t"
      "if xs = [] then get_at buf p = Some 0 else buf = (pre @ x @ [0]) @ option_text xs \<and> p = length (pre @ x @ [0])"
    by (rule first_item [OF ok(1)])
  have "curve_loop lookup (pre @ option_text (x # xs)) (length pre) out = curve_loop lookup buf p (out @ [g x])"
    using x(1-4) ok(2) Cons.prems(3) by (subst curve_loop.simps) simp
  moreover have "\<exists>buf' p'. curve_loop lookup buf p (out @ [g x]) = Some (Some ((out @ [g x]) @ map g xs), buf', p') \<and>
      get_at buf' p' = Some 0"
  proof (cases "xs = []")
    case True
    then show ?thesis using x(6) by (subst curve_loop.simps) simp
  next
    case False
    then show ?thesis using x(6) Cons.IH [of "out @ [g x]" "pre @ x @ [0]"] Cons.prems by simp
  qed
  ultimately show ?case by simp
qed simp

text \<open>The parser of the curves never writes behind \<open>curve_list\<close>, and reads back up to 19 known names.\<close>

lemma curve_loop_bound:
  "curve_loop lookup buf p out = Some (Some r, buf', p') \<Longrightarrow> length out \<le> CURVE_LIST_SIZE - 1 \<Longrightarrow>
    length r \<le> CURVE_LIST_SIZE - 1"
proof (induction "CURVE_LIST_SIZE - length out" arbitrary: out buf p rule: less_induct)
  case less
  show ?case
  proof (cases "length out < CURVE_LIST_SIZE - 1")
    case True
    have hyp: "length r \<le> CURVE_LIST_SIZE - 1" if "curve_loop lookup b q (out @ [x]) = Some (Some r, buf', p')" for b q x
      using less.hyps [OF _ that] True by simp
    show ?thesis
      using less.prems True unfolding curve_loop.simps [of lookup buf p out]
      by (auto simp: bind_some split: if_splits option.splits) (erule hyp [simplified])
  qed (use less.prems in \<open>simp add: curve_loop.simps\<close>)
qed

lemma curve_list_fits:
  assumes "parse_curves lookup dp_none buf = Some (Some r)"
  shows "length r \<le> CURVE_LIST_SIZE"
  using assms curve_loop_bound [of lookup _ _ "[]"]
  by (auto simp: parse_curves_def bind_some CURVE_LIST_SIZE_def split: if_splits option.splits)

lemma curve_list_read_back:
  assumes "list_all item_ok xs" "xs \<noteq> []" "length xs \<le> CURVE_LIST_SIZE - 1" "\<And>x. x \<in> set xs \<Longrightarrow> lookup x = Some (g x)"
    "xs \<noteq> [cstr ''none'']" "xs \<noteq> [cstr ''default'']"
  shows "parse_curves lookup dp_none (option_text xs) = Some (Some (map g xs @ [dp_none]))"
proof -
  have c: "\<forall>x \<in> set xs. c_string x" using assms(1) by (auto simp: item_ok_def c_string_def list_all_iff)
  have s: "c_str_at (option_text xs) 0 = Some (butlast (items 44 xs))" using option_text_string [OF assms(2) c] by blast
  have n: "butlast (items 44 xs) \<noteq> y" if "xs \<noteq> [y]" "44 \<notin> set y" for y
  proof (cases xs rule: rev_cases)
    case (snoc zs z)
    then show ?thesis using that by (cases zs) (auto simp: butlast_append)
  qed (use assms(2) in simp)
  obtain buf p where "curve_loop lookup (option_text xs) 0 [] = Some (Some (map g xs), buf, p)" "get_at buf p = Some 0"
    using curve_loop_items [where lookup = lookup and g = g and out = "[]" and pre = "[]", OF assms(1,2) _ assms(4)] assms(3) by auto
  then show ?thesis
    using s n [of "cstr ''none''"] n [of "cstr ''default''"] assms(5,6) by (simp add: parse_curves_def)
qed

text \<open>The protocols: the first nine items are stored as terminated strings, further ones are dropped.\<close>

definition points_at :: "u8 list \<Rightarrow> nat \<Rightarrow> cstring \<Rightarrow> bool" where
  "points_at buf p x \<longleftrightarrow> c_str_at buf p = Some x"

lemma alpn_loop_items:
  assumes "list_all item_ok xs" "xs \<noteq> []" "list_all2 (points_at pre) ptrs ys"
  shows "\<exists>ptrs' buf. alpn_loop (pre @ option_text xs) (length pre) ptrs = Some (ptrs', buf) \<and>
    list_all2 (points_at buf) ptrs' (ys @ take (ALPN_LIST_SIZE - 1 - length ptrs) xs)"
  using assms
proof (induction xs arbitrary: pre ptrs ys)
  case (Cons x xs)
  have old: "list_all2 (points_at (pre @ t)) ptrs ys" for t
    using Cons.prems(3) by (rule list_all2_mono) (simp add: points_at_def c_str_at_append)
  have ok: "item_ok x" using Cons.prems(1) by simp
  show ?case
  proof (cases "length ptrs < ALPN_LIST_SIZE - 1")
    case False
    then show ?thesis using old [of "option_text (x # xs)"] by (subst alpn_loop.simps) simp
  next
    case True
    obtain buf p where x: "get_at (pre @ option_text (x # xs)) (length pre) = Some (hd x)" "hd x \<noteq> 0"
        "terminate_item (pre @ option_text (x # xs)) (length pre) = Some (buf, p)" "c_str_at buf (length pre) = Some x"
        "\<exists>t. buf = pre @ t"
        "if xs = [] then get_at buf p = Some 0 else buf = (pre @ x @ [0]) @ option_text xs \<and> p = length (pre @ x @ [0])"
      by (rule first_item [OF ok])
    have step: "alpn_loop (pre @ option_text (x # xs)) (length pre) ptrs = alpn_loop buf p (ptrs @ [length pre])"
      using x(1-3) True by (subst alpn_loop.simps) simp
    show ?thesis
    proof (cases "xs = []")
      case True
      have "list_all2 (points_at buf) (ptrs @ [length pre]) (ys @ [x])"
        using x(4,5) old by (auto simp: points_at_def intro: list_all2_appendI)
      moreover have "alpn_loop buf p (ptrs @ [length pre]) = Some (ptrs @ [length pre], buf)"
        using x(6) True by (subst alpn_loop.simps) simp
      ultimately show ?thesis using step True \<open>length ptrs < ALPN_LIST_SIZE - 1\<close> by simp
    next
      case False
      have "points_at (pre @ x @ [0]) (length pre) x"
        using c_str_at_item [of x pre "[]"] ok by (simp add: points_at_def item_ok_def)
      then have l: "list_all2 (points_at (pre @ x @ [0])) (ptrs @ [length pre]) (ys @ [x])"
        using old by (intro list_all2_appendI) simp_all
      have "\<not> ALPN_LIST_SIZE \<le> Suc (length ptrs)" using True by simp
      then show ?thesis using Cons.IH [OF _ False l] Cons.prems(1) step x(6) False by (simp add: take_Cons')
    qed
  qed
qed simp

lemma alpn_list_read_back:
  assumes "list_all item_ok xs" "xs \<noteq> []"
  shows "\<exists>ptrs buf. alpn_loop (option_text xs) 0 [] = Some (ptrs, buf) \<and>
    list_all2 (points_at buf) ptrs (take (ALPN_LIST_SIZE - 1) xs)"
  using alpn_loop_items [OF assms, of "[]" "[]" "[]"] by simp

subsection \<open>Non-blocking callbacks\<close>

text \<open>
  Every operation asks once to be repeated, without touching the network, and then does what the
  function of the library does; after a completed operation the next one starts again.
\<close>

lemma my_recv_second_try:
  "do { (_, _, first_try, b) \<leftarrow> my_recv E fd n True b; my_recv E fd n first_try b } =
     map_option (\<lambda>(r, bs, b). (r, bs, r \<noteq> ERR_SSL_WANT_READ E, b)) (bio_recv (net_bio E fd) n b)"
  by (cases "bio_recv (net_bio E fd) n b") (auto simp: my_recv_def)

lemma my_send_second_try:
  "do { (_, first_try, b) \<leftarrow> my_send E fd bs True b; my_send E fd bs first_try b } =
     map_option (\<lambda>(r, b). (r, r \<noteq> ERR_SSL_WANT_WRITE E, b)) (bio_send (net_bio E fd) bs b)"
  by (cases "bio_send (net_bio E fd) bs b") (auto simp: my_send_def)

subsection \<open>Witness\<close>

definition counter_allocator :: "nat allocator_ops" where
  "counter_allocator = \<lparr>al_calloc = (\<lambda>n. (Some n, Suc n)), al_free = (\<lambda>_ n. n)\<rparr>"

theorem psk_list_read_back_witness:
  "\<exists>cur buf w'. psk_parse counter_allocator 32 (cstr ''bob,0aff,eve,01,bob,02'' @ [0]) 0 = Some (Some cur, buf, w') \<and>
     psk_callback (\<lambda>k s. (0, k)) buf cur (cstr ''bob'') [] = Some (0, [2])"
proof -
  let ?ps = "[(cstr ''bob'', [10, 255]), (cstr ''eve'', [1]), (cstr ''bob'', [2])]"
  have "\<exists>a w'. al_calloc counter_allocator w = (Some a, w')" for w by (simp add: counter_allocator_def)
  moreover have "list_all (pair_ok 32) ?ps" by (simp add: pair_ok_def c_string_def)
  moreover have "option_text (pair_items ?ps) = cstr ''bob,0aff,eve,01,bob,02'' @ [0]"
    by (simp add: option_text_def hexify_def digit_char_def)
  ultimately show ?thesis
    using psk_list_read_back [of counter_allocator 32 ?ps 0 "\<lambda>k s. (0, k)" "cstr ''bob''" "[]"] by simp
qed

end
