(* ===== verification/Stdlib_App.thy ===== *)
theory Stdlib_App
  imports Prelude
begin

text \<open>
  The application classes (\<open>include/circle_stdlib_app.h\<close>) and the \<open>main\<close> function of an application.

  A call of a service of Circle, FatFs or circle-newlib is a value of \<open>call\<close>; the environment runs it
  on the state \<open>'w\<close> of the machine and says whether it succeeded (\<open>f_mount\<close>: whether it returned
  \<open>FR_OK\<close>; a call without result succeeds). A device is one of the type \<open>'d\<close>.
\<close>

datatype net_device_type = NetDeviceTypeEthernet | NetDeviceTypeWLAN

datatype shutdown_mode = ShutdownNone | ShutdownHalt | ShutdownReboot

datatype exit_code = EXIT_HALT | EXIT_REBOOT

datatype 'd call =
    Interrupt_Initialize
  | Screen_Initialize
  | Serial_Initialize nat
  | Logger_Initialize 'd
  | Timer_Initialize
  | EMMC_Initialize
  | F_mount bool cstring bool \<comment> \<open>a file system object or null, the path, mount at once\<close>
  | USBHCI_Initialize
  | Console_Initialize
  | GlueStdioInit
  | WLAN_Initialize
  | Net_Initialize bool
  | WPASupplicant_Initialize
  | GlueNetworkInit
  | Scheduler_Yield
  | Logger_WriteError cstring
  | Logger_WriteNotice cstring

record ('w, 'd) machine =
  service :: "'d call \<Rightarrow> 'w \<Rightarrow> bool \<times> 'w"
  GetDevice :: "cstring \<Rightarrow> 'w \<Rightarrow> 'd option"
  Net_IsRunning :: "'w \<Rightarrow> bool"

text \<open>The members of the classes that are not services.\<close>

record 'd app =
  app_LogDevice :: cstring
  app_Screen :: 'd
  app_PartitionName :: cstring
  app_DeviceType :: net_device_type

definition CSTDLIBAPP_LEGACY_DEFAULT_PARTITION :: cstring where
  "CSTDLIBAPP_LEGACY_DEFAULT_PARTITION = cstr ''emmc1-1''"

definition CSTDLIBAPP_DEFAULT_PARTITION :: cstring where
  "CSTDLIBAPP_DEFAULT_PARTITION = cstr ''SD:''"

subsection \<open>Initialisation\<close>

definition CStdlibApp_Initialize :: "('w, 'd) machine \<Rightarrow> 'w \<Rightarrow> bool \<times> 'w" where
  "CStdlibApp_Initialize M w = service M Interrupt_Initialize w"

definition CStdlibAppScreen_Initialize :: "('w, 'd) machine \<Rightarrow> 'd app \<Rightarrow> 'w \<Rightarrow> bool \<times> 'w" where
  "CStdlibAppScreen_Initialize M a w =
     (let (ok, w) = CStdlibApp_Initialize M w in
      if \<not> ok then (False, w)
      else let (ok, w) = service M Screen_Initialize w in
      if \<not> ok then (False, w)
      else let (ok, w) = service M (Serial_Initialize 115200) w in
      if \<not> ok then (False, w)
      else let pTarget = (case GetDevice M (app_LogDevice a) w of None \<Rightarrow> app_Screen a | Some d \<Rightarrow> d);
               (ok, w) = service M (Logger_Initialize pTarget) w in
      if \<not> ok then (False, w)
      else service M Timer_Initialize w)"

definition CStdlibAppStdio_Initialize :: "('w, 'd) machine \<Rightarrow> 'd app \<Rightarrow> 'w \<Rightarrow> bool \<times> 'w" where
  "CStdlibAppStdio_Initialize M a w =
     (let (ok, w) = CStdlibAppScreen_Initialize M a w in
      if \<not> ok then (False, w)
      else let (ok, w) = service M EMMC_Initialize w in
      if \<not> ok then (False, w)
      else let partitionName = app_PartitionName a;
               partitionName = (if partitionName = CSTDLIBAPP_LEGACY_DEFAULT_PARTITION
                                then CSTDLIBAPP_DEFAULT_PARTITION else partitionName);
               (ok, w) = service M (F_mount True partitionName True) w in
      if \<not> ok
      then let (_, w) = service M (Logger_WriteError (cstr ''Cannot mount partition: '' @ partitionName)) w
           in (False, w)
      else let (ok, w) = service M USBHCI_Initialize w in
      if \<not> ok then (False, w)
      else let (ok, w) = service M Console_Initialize w in
      if \<not> ok then (False, w)
      else let (_, w) = service M GlueStdioInit w;
               (_, w) = service M (Logger_WriteNotice (cstr ''Compile time: '')) w
           in (True, w))"

definition InitializeNoWaitForActivate :: "('w, 'd) machine \<Rightarrow> 'd app \<Rightarrow> 'w \<Rightarrow> bool \<times> 'w" where
  "InitializeNoWaitForActivate M a w =
     (let (ok, w) = CStdlibAppStdio_Initialize M a w in
      if \<not> ok then (False, w)
      else let (ok, w) = (if app_DeviceType a = NetDeviceTypeWLAN then service M WLAN_Initialize w else (True, w)) in
      if \<not> ok then (False, w)
      else let (ok, w) = service M (Net_Initialize False) w in
      if \<not> ok then (False, w)
      else let (ok, w) = (if app_DeviceType a = NetDeviceTypeWLAN then service M WPASupplicant_Initialize w else (True, w)) in
      if \<not> ok then (False, w)
      else (True, w))"

text \<open>The loop that waits for the network; \<open>None\<close> if it never comes up.\<close>

partial_function (option) wait_running :: "('w, 'd) machine \<Rightarrow> 'w \<Rightarrow> 'w option" where
  "wait_running M w =
     (if Net_IsRunning M w then Some w else wait_running M (snd (service M Scheduler_Yield w)))"

definition CStdlibAppNetwork_Initialize :: "('w, 'd) machine \<Rightarrow> 'd app \<Rightarrow> 'w \<Rightarrow> (bool \<times> 'w) option" where
  "CStdlibAppNetwork_Initialize M a w =
     (let (ok, w) = InitializeNoWaitForActivate M a w in
      if \<not> ok then Some (False, w)
      else do {
        w \<leftarrow> wait_running M w;
        let (_, w) = service M GlueNetworkInit w;
        Some (True, w)
      })"

subsection \<open>The end\<close>

definition CStdlibAppStdio_Cleanup :: "('w, 'd) machine \<Rightarrow> 'w \<Rightarrow> 'w" where
  "CStdlibAppStdio_Cleanup M w = snd (service M (F_mount False [] False) w)"

text \<open>
  \<open>main\<close> of an application with the network class. \<open>Run\<close> is the application's own; it may not return.
\<close>

definition app_main ::
  "('w, 'd) machine \<Rightarrow> 'd app \<Rightarrow> ('w \<Rightarrow> (shutdown_mode \<times> 'w) option) \<Rightarrow> 'w \<Rightarrow> (exit_code \<times> 'w) option" where
  "app_main M a Run w = do {
     (ok, w) \<leftarrow> CStdlibAppNetwork_Initialize M a w;
     if \<not> ok then Some (EXIT_HALT, w)
     else do {
       (ShutdownMode, w) \<leftarrow> Run w;
       let w = CStdlibAppStdio_Cleanup M w;
       Some (if ShutdownMode = ShutdownReboot then EXIT_REBOOT else EXIT_HALT, w)
     }
   }"

end
