(* ===== verification/Stdlib_App_Props.thy ===== *)
theory Stdlib_App_Props
  imports Stdlib_App
begin

text \<open>
  Properties of the application classes: the services come up in one fixed order, nothing is started
  after a failure, the network application returns as soon as the network runs, and what \<open>main\<close>
  does at the end.
\<close>

subsection \<open>The order of the services\<close>

definition mount_path :: "'d app \<Rightarrow> cstring" where
  "mount_path a = (if app_PartitionName a = CSTDLIBAPP_LEGACY_DEFAULT_PARTITION
     then CSTDLIBAPP_DEFAULT_PARTITION else app_PartitionName a)"

definition log_target :: "('w, 'd) machine \<Rightarrow> 'd app \<Rightarrow> 'w \<Rightarrow> 'd" where
  "log_target M a w = (case GetDevice M (app_LogDevice a) w of None \<Rightarrow> app_Screen a | Some d \<Rightarrow> d)"

definition early_plan :: "'d call list" where
  "early_plan = [Interrupt_Initialize, Screen_Initialize, Serial_Initialize 115200]"

definition late_plan :: "'d app \<Rightarrow> 'd \<Rightarrow> 'd call list" where
  "late_plan a d = [Logger_Initialize d, Timer_Initialize, EMMC_Initialize, F_mount True (mount_path a) True,
     USBHCI_Initialize, Console_Initialize, GlueStdioInit, Logger_WriteNotice (cstr ''Compile time: '')] @
     (if app_DeviceType a = NetDeviceTypeWLAN then [WLAN_Initialize, Net_Initialize False, WPASupplicant_Initialize]
      else [Net_Initialize False])"

text \<open>Calls without result do not fail; a mount that fails is reported.\<close>

fun is_void :: "'d call \<Rightarrow> bool" where
  "is_void GlueStdioInit \<longleftrightarrow> True"
| "is_void (Logger_WriteNotice s) \<longleftrightarrow> True"
| "is_void _ \<longleftrightarrow> False"

fun on_failure :: "'d call \<Rightarrow> 'd call list" where
  "on_failure (F_mount fs p now) = [Logger_WriteError (cstr ''Cannot mount partition: '' @ p)]"
| "on_failure _ = []"

fun run_calls :: "('w, 'd) machine \<Rightarrow> 'd call list \<Rightarrow> 'w \<Rightarrow> bool \<times> 'w" where
  "run_calls M [] w = (True, w)"
| "run_calls M (c # cs) w =
     (let (ok, w) = service M c w in
      if ok \<or> is_void c then run_calls M cs w
      else (False, fold (\<lambda>c w. snd (service M c w)) (on_failure c) w))"

lemma run_calls_append:
  "run_calls M (xs @ ys) w = (let (ok, w) = run_calls M xs w in if ok then run_calls M ys w else (False, w))"
  by (induction xs arbitrary: w) (auto split: prod.splits)

lemma Screen_plan:
  "CStdlibAppScreen_Initialize M a w =
     (let (ok, w) = run_calls M early_plan w in
      if ok then run_calls M [Logger_Initialize (log_target M a w), Timer_Initialize] w else (False, w))"
  by (simp add: CStdlibAppScreen_Initialize_def CStdlibApp_Initialize_def early_plan_def log_target_def Let_def
      split: prod.splits if_splits)

lemma Stdio_plan:
  "CStdlibAppStdio_Initialize M a w =
     (let (ok, w) = CStdlibAppScreen_Initialize M a w in
      if ok then run_calls M [EMMC_Initialize, F_mount True (mount_path a) True, USBHCI_Initialize, Console_Initialize,
        GlueStdioInit, Logger_WriteNotice (cstr ''Compile time: '')] w else (False, w))"
  by (simp add: CStdlibAppStdio_Initialize_def mount_path_def Let_def split: prod.splits if_splits)

lemma Network_plan:
  "InitializeNoWaitForActivate M a w =
     (let (ok, w) = CStdlibAppStdio_Initialize M a w in
      if ok then run_calls M (if app_DeviceType a = NetDeviceTypeWLAN
        then [WLAN_Initialize, Net_Initialize False, WPASupplicant_Initialize] else [Net_Initialize False]) w
      else (False, w))"
  by (simp add: InitializeNoWaitForActivate_def Let_def split: prod.splits if_splits)

lemma startup_plan:
  fixes M :: "('w, 'd) machine"
  shows "InitializeNoWaitForActivate M a w =
     (let (ok, w) = run_calls M early_plan w in
      if ok then run_calls M (late_plan a (log_target M a w)) w else (False, w))"
proof -
  define stdio :: "'d call list" where "stdio = [EMMC_Initialize, F_mount True (mount_path a) True, USBHCI_Initialize,
    Console_Initialize, GlueStdioInit, Logger_WriteNotice (cstr ''Compile time: '')]"
  define net :: "'d call list" where "net = (if app_DeviceType a = NetDeviceTypeWLAN
    then [WLAN_Initialize, Net_Initialize False, WPASupplicant_Initialize] else [Net_Initialize False])"
  have "late_plan a d = [Logger_Initialize d, Timer_Initialize] @ stdio @ net" for d
    by (simp add: late_plan_def stdio_def net_def)
  then show ?thesis
    by (simp only: Network_plan Stdio_plan Screen_plan run_calls_append stdio_def [symmetric] net_def [symmetric])
      (auto simp del: run_calls.simps split: prod.splits)
qed

subsection \<open>What is called\<close>

text \<open>A machine that records the calls and their results.\<close>

definition recorded :: "('w, 'd) machine \<Rightarrow> (('d call \<times> bool) list \<times> 'w, 'd) machine" where
  "recorded M =
     \<lparr>service = (\<lambda>c (tr, w). let (ok, w) = service M c w in (ok, (tr @ [(c, ok)], w))),
      GetDevice = (\<lambda>s (tr, w). GetDevice M s w),
      Net_IsRunning = (\<lambda>(tr, w). Net_IsRunning M w)\<rparr>"

text \<open>
  A record of a plan: all its calls, or its first calls up to one that failed, and the report.
\<close>

definition follows :: "'d call list \<Rightarrow> bool \<Rightarrow> ('d call \<times> bool) list \<Rightarrow> bool" where
  "follows plan ok tr \<longleftrightarrow>
     (if ok then map fst tr = plan \<and> list_all (\<lambda>(c, b). b \<or> is_void c) tr
      else \<exists>us c vs. plan = us @ c # vs \<and> \<not> is_void c \<and> map fst tr = us @ c # on_failure c \<and>
        list_all (\<lambda>(c, b). b \<or> is_void c) (take (length us) tr) \<and> snd (tr ! length us) = False)"

lemma follows_failed:
  assumes "plan = us @ c # vs" "\<not> is_void c" "map fst tr = us @ c # on_failure c"
    "list_all (\<lambda>(c, b). b \<or> is_void c) (take (length us) tr)" "snd (tr ! length us) = False"
  shows "follows plan False tr"
  unfolding follows_def if_False using assms by (intro exI conjI)

lemma follows_Cons:
  assumes "b \<or> is_void c" "follows plan ok tr"
  shows "follows (c # plan) ok ((c, b) # tr)"
proof (cases ok)
  case False
  then obtain us d vs where u: "plan = us @ d # vs" "\<not> is_void d" "map fst tr = us @ d # on_failure d"
      "list_all (\<lambda>(c, b). b \<or> is_void c) (take (length us) tr)" "snd (tr ! length us) = False"
    using assms(2) by (auto simp: follows_def)
  have "follows (c # plan) False ((c, b) # tr)"
    using u assms(1) by (intro follows_failed [of _ "c # us" d vs]) simp_all
  then show ?thesis using False by simp
qed (use assms in \<open>simp add: follows_def\<close>)

lemma fold_recorded:
  "\<exists>tr2 w2. fold (\<lambda>c w. snd (service (recorded M) c w)) cs (tr, w) = (tr @ tr2, w2) \<and> map fst tr2 = cs"
proof (induction cs arbitrary: tr w)
  case (Cons c cs)
  obtain b w1 where b: "service M c w = (b, w1)" by (cases "service M c w")
  obtain tr2 w2 where "fold (\<lambda>c w. snd (service (recorded M) c w)) cs (tr @ [(c, b)], w1) = ((tr @ [(c, b)]) @ tr2, w2)"
      "map fst tr2 = cs"
    using Cons.IH by blast
  then show ?case using b by (intro exI [of _ "(c, b) # tr2"] exI [of _ w2]) (simp add: recorded_def)
qed simp

lemma run_calls_recorded:
  "run_calls (recorded M) cs (tr0, w) = (ok, (tr, w')) \<Longrightarrow> \<exists>tr1. tr = tr0 @ tr1 \<and> follows cs ok tr1"
proof (induction cs arbitrary: tr0 w)
  case Nil
  then show ?case by (simp add: follows_def)
next
  case (Cons c cs)
  obtain b w1 where b: "service M c w = (b, w1)" by (cases "service M c w")
  show ?case
  proof (cases "b \<or> is_void c")
    case True
    then have "run_calls (recorded M) cs (tr0 @ [(c, b)], w1) = (ok, (tr, w'))"
      using Cons.prems b by (simp add: recorded_def)
    from Cons.IH [OF this] follows_Cons [OF True] show ?thesis by auto
  next
    case False
    then have r: "ok = False" "(tr, w') = fold (\<lambda>c w. snd (service (recorded M) c w)) (on_failure c) (tr0 @ [(c, b)], w1)"
      using Cons.prems b by (simp_all add: recorded_def)
    have "\<exists>tr2. tr = (tr0 @ [(c, b)]) @ tr2 \<and> map fst tr2 = on_failure c"
      using r(2) fold_recorded [of M "on_failure c" "tr0 @ [(c, b)]" w1] by (metis prod.inject)
    then obtain tr2 where t: "tr = (tr0 @ [(c, b)]) @ tr2" "map fst tr2 = on_failure c" by blast
    have "follows (c # cs) False ((c, b) # tr2)"
      using False t(2) by (intro follows_failed [of _ "[]" c cs]) simp_all
    then show ?thesis using t(1) r(1) by simp
  qed
qed

lemma follows_append:
  assumes "follows p True t1" "follows q ok t2"
  shows "follows (p @ q) ok (t1 @ t2)"
  using assms(1)
proof (induction t1 arbitrary: p)
  case Nil
  then show ?case using assms(2) by (simp add: follows_def)
next
  case (Cons x t1)
  then obtain c b p' where x: "x = (c, b)" "p = c # p'" "b \<or> is_void c" "follows p' True t1"
    by (cases x) (auto simp: follows_def)
  then show ?case using Cons.IH [OF x(4)] follows_Cons [OF x(3)] by simp
qed

lemma follows_extend: "follows p False t \<Longrightarrow> follows (p @ q) False t"
  unfolding follows_def if_False by (metis append_Cons append_assoc)

lemma startup_recorded:
  assumes "InitializeNoWaitForActivate (recorded M) a ([], w) = (ok, (tr, w'))"
  shows "\<exists>d. follows (early_plan @ late_plan a d) ok tr"
proof -
  obtain ok1 tr1 w1 where e: "run_calls (recorded M) early_plan ([], w) = (ok1, (tr1, w1))"
    by (cases "run_calls (recorded M) early_plan ([], w)") auto
  have t1: "follows early_plan ok1 tr1" using run_calls_recorded [OF e] by simp
  show ?thesis
  proof (cases ok1)
    case True
    then have "run_calls (recorded M) (late_plan a (log_target (recorded M) a (tr1, w1))) (tr1, w1) = (ok, (tr, w'))"
      using assms e by (simp add: startup_plan)
    from run_calls_recorded [OF this] show ?thesis using follows_append t1 True by metis
  next
    case False
    then have "ok = False" "tr = tr1" using assms e by (simp_all add: startup_plan)
    then show ?thesis using follows_extend [of early_plan tr1] t1 False by simp
  qed
qed

text \<open>
  C37. The services of a network application are started in one order: interrupts, screen, serial
  port, log, timer, SD card, the mount of the partition (the legacy name stands for the default
  one), USB, console, standard streams, and then the network, with the WLAN device before and the
  WPA supplicant after it if there is one. When a service fails \<open>InitializeNoWaitForActivate\<close>
  returns false and nothing is started any more (a failed mount is reported in the log), and it
  returns true only after all of them succeeded.
\<close>

theorem startup_in_order:
  assumes "InitializeNoWaitForActivate (recorded M) a ([], w) = (ok, (tr, w'))"
  shows "\<exists>d. if ok
     then map fst tr = early_plan @ late_plan a d \<and> (\<forall>c b. (c, b) \<in> set tr \<longrightarrow> b \<or> is_void c)
     else \<exists>us c vs. early_plan @ late_plan a d = us @ c # vs \<and> \<not> is_void c \<and>
       map fst tr = us @ c # on_failure c \<and> tr ! length us = (c, False)"
proof -
  obtain d where d: "follows (early_plan @ late_plan a d) ok tr" using startup_recorded [OF assms] by blast
  show ?thesis
  proof (cases ok)
    case True
    then show ?thesis using d by (intro exI [of _ d]) (auto simp: follows_def list_all_iff)
  next
    case False
    then obtain us c vs where u: "early_plan @ late_plan a d = us @ c # vs" "\<not> is_void c" "map fst tr = us @ c # on_failure c"
        "snd (tr ! length us) = False"
      using d unfolding follows_def by auto
    have "fst (tr ! length us) = map fst tr ! length us"
      using u(3) by (intro nth_map [symmetric]) (metis length_append length_map length_Cons less_add_Suc1 add_Suc_right)
    also have "\<dots> = c" using u(3) by simp
    finally have "tr ! length us = (c, False)" using u(4) by (simp add: prod_eq_iff)
    then show ?thesis using u False by auto
  qed
qed

subsection \<open>Waiting for the network\<close>

definition yield :: "('w, 'd) machine \<Rightarrow> 'w \<Rightarrow> 'w" where
  "yield M w = snd (service M Scheduler_Yield w)"

lemma wait_running_returns:
  "Net_IsRunning M ((yield M ^^ n) w) \<Longrightarrow>
     \<exists>k \<le> n. wait_running M w = Some ((yield M ^^ k) w) \<and> Net_IsRunning M ((yield M ^^ k) w)"
proof (induction n arbitrary: w)
  case 0
  then show ?case by (simp add: wait_running.simps)
next
  case (Suc n)
  show ?case
  proof (cases "Net_IsRunning M w")
    case True
    then show ?thesis by (intro exI [of _ 0]) (simp add: wait_running.simps)
  next
    case False
    obtain k where "k \<le> n" "wait_running M (yield M w) = Some ((yield M ^^ k) (yield M w))"
        "Net_IsRunning M ((yield M ^^ k) (yield M w))"
      using Suc.IH [of "yield M w"] Suc.prems by (auto simp: funpow_swap1)
    then show ?thesis
      using False by (intro exI [of _ "Suc k"]) (auto simp: wait_running.simps [of M w] yield_def [symmetric] funpow_swap1)
  qed
qed

text \<open>
  A network application comes up: when all services start and the network runs after some number
  of turns of the scheduler, \<open>Initialize\<close> returns true after at most that many turns, with the
  network running, and connects the C library to it last.
\<close>

theorem network_start_returns:
  assumes "InitializeNoWaitForActivate M a w = (True, w1)" "Net_IsRunning M ((yield M ^^ n) w1)"
  shows "\<exists>k \<le> n. Net_IsRunning M ((yield M ^^ k) w1) \<and>
    CStdlibAppNetwork_Initialize M a w = Some (True, snd (service M GlueNetworkInit ((yield M ^^ k) w1)))"
  using wait_running_returns [OF assms(2)] assms(1)
  by (auto simp: CStdlibAppNetwork_Initialize_def split: prod.splits)

subsection \<open>A concrete machine\<close>

text \<open>A machine whose network runs after three turns; the service \<open>bad\<close> fails.\<close>

definition sample_machine :: "unit call option \<Rightarrow> (nat, unit) machine" where
  "sample_machine bad = \<lparr>service = (\<lambda>c n. (Some c \<noteq> bad, if c = Scheduler_Yield then Suc n else n)),
     GetDevice = (\<lambda>s n. None), Net_IsRunning = (\<lambda>n. 3 \<le> n)\<rparr>"

definition sample_app :: "unit app" where
  "sample_app = \<lparr>app_LogDevice = cstr ''tty1'', app_Screen = (), app_PartitionName = cstr ''emmc1-1'',
     app_DeviceType = NetDeviceTypeWLAN\<rparr>"

lemmas sample_defs = sample_machine_def sample_app_def recorded_def InitializeNoWaitForActivate_def
  CStdlibAppStdio_Initialize_def CStdlibAppScreen_Initialize_def CStdlibApp_Initialize_def
  CSTDLIBAPP_LEGACY_DEFAULT_PARTITION_def CSTDLIBAPP_DEFAULT_PARTITION_def

lemma sample_failure:
  "InitializeNoWaitForActivate (recorded (sample_machine (Some (F_mount True (cstr ''SD:'') True)))) sample_app ([], 0) =
    (False, ([(Interrupt_Initialize, True), (Screen_Initialize, True), (Serial_Initialize 115200, True),
      (Logger_Initialize (), True), (Timer_Initialize, True), (EMMC_Initialize, True),
      (F_mount True (cstr ''SD:'') True, False),
      (Logger_WriteError (cstr ''Cannot mount partition: SD:''), True)], 0))"
  by (simp add: sample_defs Let_def)

theorem startup_in_order_witness:
  "\<exists>d us c vs. early_plan @ late_plan sample_app d = us @ c # vs \<and> \<not> is_void c \<and>
     [Interrupt_Initialize, Screen_Initialize, Serial_Initialize 115200, Logger_Initialize (), Timer_Initialize,
      EMMC_Initialize, F_mount True (cstr ''SD:'') True, Logger_WriteError (cstr ''Cannot mount partition: SD:'')] =
       us @ c # on_failure c"
  using startup_in_order [OF sample_failure] unfolding if_False list.map fst_conv by blast

theorem network_start_returns_witness:
  "\<exists>k \<le> 3. CStdlibAppNetwork_Initialize (sample_machine None) sample_app 0 =
     Some (True, snd (service (sample_machine None) GlueNetworkInit ((yield (sample_machine None) ^^ k) 0)))"
proof -
  have "InitializeNoWaitForActivate (sample_machine None) sample_app 0 = (True, 0)" by (simp add: sample_defs)
  moreover have "Net_IsRunning (sample_machine None) ((yield (sample_machine None) ^^ 3) 0)"
    by (simp add: sample_machine_def yield_def numeral_3_eq_3)
  ultimately show ?thesis using network_start_returns [of "sample_machine None" sample_app 0 0 3] by auto
qed

end
