(* ===== verification/Button_Task.thy ===== *)
theory Button_Task
  imports Prelude
begin

text \<open>
  The button task of the web server (\<open>samples/06-socket/buttontask.cpp\<close>): an interrupt on the falling
  edge starts a timer, the timer looks at the pin again after 50 ms and signals an event, and the
  task calls a handler for the event.

  The kernel timers and the pin of Circle are parameters; \<open>pending w\<close> is the set of the timers that
  were started for the task and will still call \<open>TimerHandler\<close>. The two handlers run with interrupts
  disabled, so each is one step; they come between any two steps of the task.
\<close>

record 'w kernel_env =
  MSEC2HZ :: "nat \<Rightarrow> nat"
  StartKernelTimer :: "nat \<Rightarrow> 'w \<Rightarrow> nat \<times> 'w"
  CancelKernelTimer :: "nat \<Rightarrow> 'w \<Rightarrow> 'w"
  GPIO_Read :: "'w \<Rightarrow> bool" \<comment> \<open>the pin is high\<close>

record button =
  bt_Event :: bool
  bt_Terminate :: bool
  bt_Timer :: nat

definition CButtonTask_new :: button where
  "CButtonTask_new = \<lparr>bt_Event = False, bt_Terminate = False, bt_Timer = 0\<rparr>"

definition InterruptHandler :: "'w kernel_env \<Rightarrow> button \<Rightarrow> 'w \<Rightarrow> button \<times> 'w" where
  "InterruptHandler E b w =
     (let (b, w) = (if bt_Timer b \<noteq> 0 then (b\<lparr>bt_Timer := 0\<rparr>, CancelKernelTimer E (bt_Timer b) w) else (b, w));
          (h, w) = StartKernelTimer E (MSEC2HZ E 50) w
      in (b\<lparr>bt_Timer := h\<rparr>, w))"

definition TimerHandler :: "'w kernel_env \<Rightarrow> button \<Rightarrow> 'w \<Rightarrow> button" where
  "TimerHandler E b w =
     (let b = b\<lparr>bt_Timer := 0\<rparr> in if \<not> GPIO_Read E w then b\<lparr>bt_Event := True\<rparr> else b)"

definition Terminate :: "button \<Rightarrow> button" where
  "Terminate b = b\<lparr>bt_Terminate := True, bt_Event := True\<rparr>"

text \<open>
  \<open>Run\<close>, one step between two points at which an interrupt can come; \<open>None\<close> while the task waits.
  \<open>CallHandler\<close>: the handler is running.
\<close>

datatype task_pc = Created | LoopHead | ClearEvent | WaitEvent | CallHandler | Ended

definition Task_step :: "task_pc \<Rightarrow> button \<Rightarrow> (task_pc \<times> button) option" where
  "Task_step pc b =
     (case pc of
        Created \<Rightarrow> Some (LoopHead, b)
      | LoopHead \<Rightarrow> Some (if \<not> bt_Terminate b then ClearEvent else Ended, b)
      | ClearEvent \<Rightarrow> Some (WaitEvent, b\<lparr>bt_Event := False\<rparr>)
      | WaitEvent \<Rightarrow> if bt_Event b then Some (if \<not> bt_Terminate b then CallHandler else LoopHead, b) else None
      | CallHandler \<Rightarrow> Some (LoopHead, b)
      | Ended \<Rightarrow> None)"

text \<open>The interrupt is enabled while \<open>Run\<close> is in its loop.\<close>

definition interrupt_enabled :: "task_pc \<Rightarrow> bool" where
  "interrupt_enabled pc \<longleftrightarrow> pc \<noteq> Created \<and> pc \<noteq> Ended"

subsection \<open>The system\<close>

text \<open>
  The task with its machine. The counters are history variables: \<open>bs_Presses\<close> counts the timers
  that found the pin low, \<open>bs_Calls\<close> the calls of the handler.
\<close>

record 'w button_sys =
  bs_Task :: button
  bs_pc :: task_pc
  bs_World :: 'w
  bs_Presses :: nat
  bs_Calls :: nat

inductive button_step :: "'w kernel_env \<Rightarrow> ('w \<Rightarrow> nat set) \<Rightarrow> 'w button_sys \<Rightarrow> 'w button_sys \<Rightarrow> bool"
  for E :: "'w kernel_env" and pending :: "'w \<Rightarrow> nat set" where
  edge: "interrupt_enabled (bs_pc s) \<Longrightarrow> InterruptHandler E (bs_Task s) (bs_World s) = (b, w) \<Longrightarrow>
     button_step E pending s (s\<lparr>bs_Task := b, bs_World := w\<rparr>)"
| expire: "h \<in> pending (bs_World s) \<Longrightarrow> pending w = pending (bs_World s) - {h} \<Longrightarrow>
     button_step E pending s (s\<lparr>bs_Task := TimerHandler E (bs_Task s) w, bs_World := w,
       bs_Presses := bs_Presses s + (if GPIO_Read E w then 0 else 1)\<rparr>)"
| turn: "Task_step (bs_pc s) (bs_Task s) = Some (pc, b) \<Longrightarrow>
     button_step E pending s (s\<lparr>bs_Task := b, bs_pc := pc, bs_Calls := bs_Calls s + (if pc = CallHandler then 1 else 0)\<rparr>)"
| terminate: "button_step E pending s (s\<lparr>bs_Task := Terminate (bs_Task s)\<rparr>)"
| pin: "pending w = pending (bs_World s) \<Longrightarrow> button_step E pending s (s\<lparr>bs_World := w\<rparr>)"

definition button_start :: "'w \<Rightarrow> 'w button_sys" where
  "button_start w = \<lparr>bs_Task = CButtonTask_new, bs_pc = Created, bs_World = w, bs_Presses = 0, bs_Calls = 0\<rparr>"

abbreviation button_reaches :: "'w kernel_env \<Rightarrow> ('w \<Rightarrow> nat set) \<Rightarrow> 'w button_sys \<Rightarrow> 'w button_sys \<Rightarrow> bool" where
  "button_reaches E pending \<equiv> (button_step E pending)\<^sup>*\<^sup>*"

subsection \<open>The contract of the kernel timers\<close>

locale kernel_timers =
  fixes E :: "'w kernel_env" and pending :: "'w \<Rightarrow> nat set"
  assumes start: "StartKernelTimer E d w = (h, w') \<Longrightarrow> h \<noteq> 0 \<and> h \<notin> pending w \<and> pending w' = insert h (pending w)"
    and cancel: "pending (CancelKernelTimer E h w) = pending w - {h}"
begin

definition timer_ok :: "'w button_sys \<Rightarrow> bool" where
  "timer_ok s \<longleftrightarrow> pending (bs_World s) = (if bt_Timer (bs_Task s) = 0 then {} else {bt_Timer (bs_Task s)})"

lemma timer_ok_step: "button_step E pending s s' \<Longrightarrow> timer_ok s \<Longrightarrow> timer_ok s'"
proof (induction rule: button_step.induct)
  case (edge s b w)
  define w1 where "w1 = (if bt_Timer (bs_Task s) \<noteq> 0 then CancelKernelTimer E (bt_Timer (bs_Task s)) (bs_World s) else bs_World s)"
  have "pending w1 = {}" using edge.prems by (simp add: w1_def timer_ok_def cancel)
  moreover obtain h where "StartKernelTimer E (MSEC2HZ E 50) w1 = (h, w)" "b = (bs_Task s)\<lparr>bt_Timer := h\<rparr>"
    using edge.hyps(2) by (auto simp: InterruptHandler_def w1_def split: if_splits prod.splits)
  ultimately show ?case using start [of "MSEC2HZ E 50" w1 h w] by (simp add: timer_ok_def)
next
  case (expire h s w)
  then show ?case by (auto simp: timer_ok_def TimerHandler_def Let_def split: if_splits)
qed (auto simp: timer_ok_def Task_step_def Terminate_def split: task_pc.splits if_splits)

definition calls_ok :: "'w button_sys \<Rightarrow> bool" where
  "calls_ok s \<longleftrightarrow> bs_Calls s +
     (if bt_Event (bs_Task s) \<and> bs_pc s = WaitEvent \<and> \<not> bt_Terminate (bs_Task s) then 1 else 0) \<le> bs_Presses s"

lemma calls_ok_step: "button_step E pending s s' \<Longrightarrow> calls_ok s \<Longrightarrow> calls_ok s'"
  by (induction rule: button_step.induct)
    (auto simp: calls_ok_def InterruptHandler_def TimerHandler_def Terminate_def Task_step_def Let_def
      split: if_splits prod.splits task_pc.splits)

lemma button_invariant:
  assumes "button_reaches E pending s s'" "timer_ok s" "calls_ok s"
  shows "timer_ok s' \<and> calls_ok s'"
  using assms by (induction rule: rtranclp_induct) (auto intro: timer_ok_step calls_ok_step)

end

subsection \<open>An instance\<close>

text \<open>Kernel timers with a list of the pending ones; a new number is larger than all of them.\<close>

record board =
  bd_Pending :: "nat list"
  bd_High :: bool

definition board_env :: "board kernel_env" where
  "board_env = \<lparr>MSEC2HZ = (\<lambda>ms. ms div 10),
     StartKernelTimer = (\<lambda>d w. let h = Suc (sum_list (bd_Pending w)) in (h, w\<lparr>bd_Pending := h # bd_Pending w\<rparr>)),
     CancelKernelTimer = (\<lambda>h w. w\<lparr>bd_Pending := removeAll h (bd_Pending w)\<rparr>),
     GPIO_Read = bd_High\<rparr>"

abbreviation board_pending :: "board \<Rightarrow> nat set" where
  "board_pending w \<equiv> set (bd_Pending w)"

interpretation board: kernel_timers board_env board_pending
proof
  show "h \<noteq> 0 \<and> h \<notin> board_pending w \<and> board_pending w' = insert h (board_pending w)"
    if "StartKernelTimer board_env d w = (h, w')" for d w h w'
    using that member_le_sum_list [of h "bd_Pending w"] by (auto simp: board_env_def Let_def)
  show "board_pending (CancelKernelTimer board_env h w) = board_pending w - {h}" for h w
    by (simp add: board_env_def)
qed

definition board0 :: board where
  "board0 = \<lparr>bd_Pending = [], bd_High = True\<rparr>"

subsection \<open>The properties\<close>

text \<open>
  C38. The button is debounced: in every interleaving of interrupts, expiring timers, changes of the
  pin, steps of the task and calls of \<open>Terminate\<close>, the task has exactly one timer pending if
  \<open>m_hTimer\<close> is set, that one, and none if it is not, so no timer is forgotten or cancelled twice;
  and the handler is called at most as often as a timer found the pin low.
\<close>

theorem button_debounced:
  assumes "kernel_timers E pending" "pending w = {}" "button_reaches E pending (button_start w) s"
  shows "pending (bs_World s) = (if bt_Timer (bs_Task s) = 0 then {} else {bt_Timer (bs_Task s)}) \<and>
    bs_Calls s \<le> bs_Presses s"
proof -
  have "kernel_timers.timer_ok pending (button_start w)" "kernel_timers.calls_ok (button_start w)"
    using assms(2) by (simp_all add: kernel_timers.timer_ok_def [OF assms(1)] kernel_timers.calls_ok_def [OF assms(1)]
        button_start_def CButtonTask_new_def)
  from kernel_timers.button_invariant [OF assms(1,3) this]
  show ?thesis by (auto simp: kernel_timers.timer_ok_def [OF assms(1)] kernel_timers.calls_ok_def [OF assms(1)] split: if_splits)
qed

text \<open>A press that is found while the task waits is handled in the task's next step.\<close>

lemma press_served:
  assumes "bs_pc s = WaitEvent" "\<not> bt_Terminate (bs_Task s)" "\<not> GPIO_Read E w"
  shows "Task_step (bs_pc s) (TimerHandler E (bs_Task s) w) = Some (CallHandler, TimerHandler E (bs_Task s) w)"
  using assms by (simp add: Task_step_def TimerHandler_def)

text \<open>
  A press that is found while the handler runs is lost: the task clears the event before it waits.
\<close>

lemma press_during_handler_lost:
  assumes "\<not> bt_Terminate b"
  shows "do {(pc, b) \<leftarrow> Task_step CallHandler b; (pc, b) \<leftarrow> Task_step pc b; Task_step pc b} = Some (WaitEvent, b\<lparr>bt_Event := False\<rparr>)"
  using assms by (simp add: Task_step_def)

text \<open>Steps of the instance, and one interleaving.\<close>

definition board_edge :: "board button_sys \<Rightarrow> board button_sys" where
  "board_edge s = (let (b, w) = InterruptHandler board_env (bs_Task s) (bs_World s) in s\<lparr>bs_Task := b, bs_World := w\<rparr>)"

definition board_turn :: "board button_sys \<Rightarrow> board button_sys" where
  "board_turn s = (case Task_step (bs_pc s) (bs_Task s) of None \<Rightarrow> s
     | Some (pc, b) \<Rightarrow> s\<lparr>bs_Task := b, bs_pc := pc, bs_Calls := bs_Calls s + (if pc = CallHandler then 1 else 0)\<rparr>)"

lemma board_edge_reach:
  "interrupt_enabled (bs_pc s) \<Longrightarrow> button_reaches board_env board_pending s (board_edge s)"
  by (intro r_into_rtranclp, cases "InterruptHandler board_env (bs_Task s) (bs_World s)")
    (simp add: board_edge_def button_step.edge)

lemma board_turn_reach:
  assumes "button_reaches board_env board_pending r s"
  shows "button_reaches board_env board_pending r (board_turn s)"
proof -
  have "button_reaches board_env board_pending s (board_turn s)"
    by (cases "Task_step (bs_pc s) (bs_Task s)") (auto simp: board_turn_def intro: r_into_rtranclp button_step.turn)
  with assms show ?thesis by (rule rtranclp_trans)
qed

definition edge_then_terminate :: "board button_sys" where
  "edge_then_terminate =
     (let s = board_edge (board_turn (board_turn (board_turn (button_start board0))));
          s = s\<lparr>bs_Task := Terminate (bs_Task s)\<rparr>
      in board_turn (board_turn s))"

lemma edge_then_terminate_reach: "button_reaches board_env board_pending (button_start board0) edge_then_terminate"
proof -
  let ?s = "board_turn (board_turn (board_turn (button_start board0)))"
  let ?e = "board_edge ?s"
  let ?t = "?e\<lparr>bs_Task := Terminate (bs_Task ?e)\<rparr>"
  have "button_reaches board_env board_pending (button_start board0) ?s" by (intro board_turn_reach rtranclp.rtrancl_refl)
  also have "button_reaches board_env board_pending ?s ?e"
    by (rule board_edge_reach) (simp add: board_turn_def button_start_def CButtonTask_new_def Task_step_def interrupt_enabled_def)
  also have "button_reaches board_env board_pending ?e ?t" by (intro r_into_rtranclp button_step.terminate)
  also have "button_reaches board_env board_pending ?t (board_turn (board_turn ?t))" by (intro board_turn_reach rtranclp.rtrancl_refl)
  finally show ?thesis unfolding edge_then_terminate_def Let_def .
qed

text \<open>The task can end with a timer pending, which then calls the handler of a deleted object.\<close>

lemma timer_survives_task:
  "\<exists>s. button_reaches board_env board_pending (button_start board0) s \<and> bs_pc s = Ended \<and> board_pending (bs_World s) = {1}"
  by (intro exI conjI, rule edge_then_terminate_reach)
    (simp_all add: edge_then_terminate_def board_edge_def board_turn_def button_start_def CButtonTask_new_def Task_step_def
      InterruptHandler_def board_env_def board0_def Terminate_def)

theorem button_debounced_witness:
  "board_pending (bs_World edge_then_terminate) = {bt_Timer (bs_Task edge_then_terminate)} \<and> bs_Calls edge_then_terminate \<le> 0"
  using button_debounced [OF board.kernel_timers_axioms _ edge_then_terminate_reach]
  by (simp add: board0_def edge_then_terminate_def board_edge_def board_turn_def button_start_def CButtonTask_new_def Task_step_def
      InterruptHandler_def board_env_def Terminate_def)

end
