(* ===== verification/Socket_App.thy ===== *)
theory Socket_App
  imports C_Strings
begin

text \<open>
  The web server (\<open>samples/06-socket/kernel.cpp\<close>): the handlers that the Mongoose library calls, the
  queue of messages, the loop that sends them to the WebSocket clients, and the sink of the library's
  log.

  A connection is a natural number (its address). Mongoose, the JSON library and \<open>stat\<close> are
  parameters; what the handlers hand to them is a list of actions. The queue is used under a mutex:
  by the main loop while it sends, otherwise for one push at a time.
\<close>

datatype file_kind = RegularFile | Directory | OtherFile

record web_env =
  mg_match :: "cstring \<Rightarrow> cstring \<Rightarrow> bool"
  stat :: "cstring \<Rightarrow> file_kind option"
  status_json :: cstring

datatype action =
    WsUpgrade nat
  | HttpReply nat nat cstring
  | ServeFile nat cstring
  | WsSend nat cstring

datatype mg_event = MG_EV_ACCEPT | MG_EV_HTTP_MSG cstring | MG_EV_WS_MSG "u8 list" | MG_EV_CLOSE | MG_EV_OTHER

record server =
  ws_connections :: "nat set"
  msg_queue :: "cstring list"

definition SVELTE_BUILD_DIR :: cstring where
  "SVELTE_BUILD_DIR = cstr ''circle-socket-app''"

definition SVELTE_FALLBACK_FILE :: cstring where
  "SVELTE_FALLBACK_FILE = SVELTE_BUILD_DIR @ cstr ''/200.html''"

definition c_str :: "u8 list \<Rightarrow> cstring" where
  "c_str s = takeWhile (\<lambda>c. c \<noteq> 0) s"

subsection \<open>Handlers\<close>

definition api_status :: "web_env \<Rightarrow> nat \<Rightarrow> action" where
  "api_status W c = HttpReply c 200 (status_json W @ [10])"

text \<open>The file for a path, if there is one.\<close>

definition find_file :: "web_env \<Rightarrow> cstring \<Rightarrow> cstring option" where
  "find_file W file_path =
     (case stat W (c_str file_path) of
        None \<Rightarrow> None
      | Some k \<Rightarrow>
          let file_path = (if k = Directory
                then (if last file_path \<noteq> 47 then file_path @ [47] else file_path) @ cstr ''index.html''
                else file_path);
              file_found = (if k = Directory then stat W (c_str file_path) = Some RegularFile else k = RegularFile)
          in if file_found then Some (c_str file_path) else None)"

definition http_handler :: "web_env \<Rightarrow> nat \<Rightarrow> cstring \<Rightarrow> server \<Rightarrow> action \<times> server" where
  "http_handler W c uri s =
     (if mg_match W uri (cstr ''/ws'')
      then (WsUpgrade c, s\<lparr>ws_connections := insert c (ws_connections s)\<rparr>)
      else if mg_match W uri (cstr ''/api/status'') then (api_status W c, s)
      else (ServeFile c (case find_file W (SVELTE_BUILD_DIR @ uri) of Some f \<Rightarrow> f | None \<Rightarrow> SVELTE_FALLBACK_FILE), s))"

definition websocket_handler :: "nat \<Rightarrow> u8 list \<Rightarrow> server \<Rightarrow> server" where
  "websocket_handler c data s =
     s\<lparr>msg_queue := msg_queue s @ [cstr ''From client '' @ fmt_num 10 c @ cstr '': '' @ data]\<rparr>"

definition ev_handler :: "web_env \<Rightarrow> nat \<Rightarrow> mg_event \<Rightarrow> server \<Rightarrow> action list \<times> server" where
  "ev_handler W c ev s =
     (case ev of
        MG_EV_HTTP_MSG uri \<Rightarrow> let (a, s) = http_handler W c uri s in ([a], s)
      | MG_EV_WS_MSG data \<Rightarrow> ([], websocket_handler c data s)
      | MG_EV_CLOSE \<Rightarrow> ([], s\<lparr>ws_connections := ws_connections s - {c}\<rparr>)
      | _ \<Rightarrow> ([], s))"

definition ButtonPressedHandler :: "nat \<Rightarrow> server \<Rightarrow> server" where
  "ButtonPressedHandler nGPIOPin s =
     s\<lparr>msg_queue := msg_queue s @ [cstr ''Button pressed on GPIO pin '' @ fmt_num 10 nGPIOPin]\<rparr>"

text \<open>One message of the loop in \<open>Run\<close>, to the connections in the order of the set, and the loop.\<close>

definition send_message :: "nat set \<Rightarrow> cstring \<Rightarrow> action list" where
  "send_message conns message = map (\<lambda>conn. WsSend conn message) (sorted_list_of_set conns)"

function send_queue :: "server \<Rightarrow> action list \<times> server" where
  "send_queue s =
     (case msg_queue s of
        [] \<Rightarrow> ([], s)
      | message # q \<Rightarrow>
          let (as, s') = send_queue (s\<lparr>msg_queue := q\<rparr>)
          in (send_message (ws_connections s) message @ as, s'))"
  by pat_completeness auto
termination
  by (relation "measure (\<lambda>s. length (msg_queue s))") auto

declare send_queue.simps [simp del]

text \<open>The sink of the log collects a line; \<open>buffer\<close> and the lines written.\<close>

definition mongoose_log_fn :: "u8 \<Rightarrow> u8 list \<times> cstring list \<Rightarrow> u8 list \<times> cstring list" where
  "mongoose_log_fn c bl = (case bl of (buffer, written) \<Rightarrow>
     if c = 10 then ([], written @ [c_str buffer]) else (buffer @ [c], written))"

subsection \<open>The system\<close>

text \<open>
  The server with the connections Mongoose holds open, the point of the main loop, and as history the
  actions. Events come while the main loop polls; a button is handled when the mutex is free. A
  step is labelled with what happens; \<open>Took\<close> is one turn of the inner loop of \<open>Run\<close>.
\<close>

datatype main_pc = Polling | Sending

datatype web_event =
    Accepted nat
  | Received nat mg_event
  | Closed nat
  | Pressed nat
  | Acquired
  | Took
  | Released

record web_sys =
  wb_Server :: server
  wb_pc :: main_pc
  wb_Open :: "nat set"
  wb_Actions :: "action list"

inductive web_step :: "web_env \<Rightarrow> web_sys \<Rightarrow> web_event \<Rightarrow> web_sys \<Rightarrow> bool" for W :: web_env where
  accept: "wb_pc s = Polling \<Longrightarrow> c \<notin> wb_Open s \<Longrightarrow> ev_handler W c MG_EV_ACCEPT (wb_Server s) = (as, sv) \<Longrightarrow>
     web_step W s (Accepted c) (s\<lparr>wb_Server := sv, wb_Open := insert c (wb_Open s), wb_Actions := wb_Actions s @ as\<rparr>)"
| message: "wb_pc s = Polling \<Longrightarrow> c \<in> wb_Open s \<Longrightarrow> ev \<noteq> MG_EV_CLOSE \<Longrightarrow> ev \<noteq> MG_EV_ACCEPT \<Longrightarrow>
     ev_handler W c ev (wb_Server s) = (as, sv) \<Longrightarrow>
     web_step W s (Received c ev) (s\<lparr>wb_Server := sv, wb_Actions := wb_Actions s @ as\<rparr>)"
| closed: "wb_pc s = Polling \<Longrightarrow> c \<in> wb_Open s \<Longrightarrow> ev_handler W c MG_EV_CLOSE (wb_Server s) = (as, sv) \<Longrightarrow>
     web_step W s (Closed c) (s\<lparr>wb_Server := sv, wb_Open := wb_Open s - {c}, wb_Actions := wb_Actions s @ as\<rparr>)"
| button: "wb_pc s = Polling \<Longrightarrow>
     web_step W s (Pressed pin) (s\<lparr>wb_Server := ButtonPressedHandler pin (wb_Server s)\<rparr>)"
| acquire: "wb_pc s = Polling \<Longrightarrow> web_step W s Acquired (s\<lparr>wb_pc := Sending\<rparr>)"
| send: "wb_pc s = Sending \<Longrightarrow> msg_queue (wb_Server s) = m # q \<Longrightarrow>
     web_step W s Took (s\<lparr>wb_Server := (wb_Server s)\<lparr>msg_queue := q\<rparr>,
       wb_Actions := wb_Actions s @ send_message (ws_connections (wb_Server s)) m\<rparr>)"
| release: "wb_pc s = Sending \<Longrightarrow> msg_queue (wb_Server s) = [] \<Longrightarrow> web_step W s Released (s\<lparr>wb_pc := Polling\<rparr>)"

definition web_start :: web_sys where
  "web_start = \<lparr>wb_Server = \<lparr>ws_connections = {}, msg_queue = []\<rparr>, wb_pc = Polling, wb_Open = {}, wb_Actions = []\<rparr>"

inductive web_run :: "web_env \<Rightarrow> web_event list \<Rightarrow> web_sys \<Rightarrow> bool" for W :: web_env where
  start: "web_run W [] web_start"
| more: "web_run W evs s \<Longrightarrow> web_step W s ev s' \<Longrightarrow> web_run W (evs @ [ev]) s'"

end
