(* ===== verification/Socket_App_Props.thy ===== *)
theory Socket_App_Props
  imports Socket_App
begin

text \<open>
  Properties of the web server: messages are sent only to open connections, and each connection has
  been sent exactly the messages taken from the queue while it was registered, in order; the loop in
  \<open>Run\<close> empties the queue; a request gets one answer, and only regular files are served.
\<close>

subsection \<open>What a connection is sent\<close>

fun sent_to :: "nat \<Rightarrow> action list \<Rightarrow> cstring list" where
  "sent_to c [] = []"
| "sent_to c (WsSend d m # as) = (if c = d then m # sent_to c as else sent_to c as)"
| "sent_to c (_ # as) = sent_to c as"

lemma sent_to_append [simp]: "sent_to c (as @ bs) = sent_to c as @ sent_to c bs"
  by (induction c as rule: sent_to.induct) simp_all

lemma sent_to_map: "distinct ds \<Longrightarrow> sent_to c (map (\<lambda>d. WsSend d m) ds) = (if c \<in> set ds then [m] else [])"
  by (induction ds) auto

lemma sent_to_message: "finite conns \<Longrightarrow> sent_to c (send_message conns m) = (if c \<in> conns then [m] else [])"
  by (simp add: send_message_def sent_to_map)

lemma sent_to_ev_handler:
  "ev_handler W c ev sv = (as, sv') \<Longrightarrow> sent_to d as = []"
  by (auto simp: ev_handler_def http_handler_def api_status_def split: mg_event.splits if_splits prod.splits)

subsection \<open>What a connection is owed\<close>

text \<open>
  From the events alone: whether the connection is registered (it asked for \<open>/ws\<close> and has not been closed
  since), the messages that arrived and have not been taken, and those the connection is to have
  received. A message of a client carries the number of the client, one of a button that of the pin.
\<close>

definition client_text :: "nat \<Rightarrow> u8 list \<Rightarrow> cstring" where
  "client_text c data = cstr ''From client '' @ fmt_num 10 c @ cstr '': '' @ data"

definition button_text :: "nat \<Rightarrow> cstring" where
  "button_text pin = cstr ''Button pressed on GPIO pin '' @ fmt_num 10 pin"

fun web_account :: "web_env \<Rightarrow> nat \<Rightarrow> web_event \<Rightarrow> bool \<times> cstring list \<times> cstring list \<Rightarrow> bool \<times> cstring list \<times> cstring list" where
  "web_account W c (Received d (MG_EV_HTTP_MSG uri)) (reg, q, rs) = (reg \<or> c = d \<and> mg_match W uri (cstr ''/ws''), q, rs)"
| "web_account W c (Received d (MG_EV_WS_MSG data)) (reg, q, rs) = (reg, q @ [client_text d data], rs)"
| "web_account W c (Pressed pin) (reg, q, rs) = (reg, q @ [button_text pin], rs)"
| "web_account W c (Closed d) (reg, q, rs) = (reg \<and> c \<noteq> d, q, rs)"
| "web_account W c Took (reg, q, rs) = (reg, tl q, if reg then rs @ [hd q] else rs)"
| "web_account W c _ (reg, q, rs) = (reg, q, rs)"

definition web_view :: "nat \<Rightarrow> web_sys \<Rightarrow> bool \<times> cstring list \<times> cstring list" where
  "web_view c s = (c \<in> ws_connections (wb_Server s), msg_queue (wb_Server s), sent_to c (wb_Actions s))"

definition web_ok :: "web_sys \<Rightarrow> bool" where
  "web_ok s \<longleftrightarrow> finite (wb_Open s) \<and> ws_connections (wb_Server s) \<subseteq> wb_Open s"

lemma ev_handler_account:
  assumes "ev_handler W d ev sv = (as, sv')" "ev \<noteq> MG_EV_CLOSE"
  shows "(c \<in> ws_connections sv', msg_queue sv', rs) = web_account W c (Received d ev) (c \<in> ws_connections sv, msg_queue sv, rs) \<and>
     ws_connections sv' \<subseteq> insert d (ws_connections sv)"
  using assms
  by (cases ev) (auto simp: ev_handler_def http_handler_def websocket_handler_def client_text_def split: if_splits)

lemma web_step_ok: "web_step W s ev s' \<Longrightarrow> web_ok s \<Longrightarrow> web_ok s'"
proof (induction rule: web_step.induct)
  case (message s d ev as sv)
  then show ?case using ev_handler_account [OF message(5,3)] by (auto simp: web_ok_def)
qed (auto simp: web_ok_def ev_handler_def ButtonPressedHandler_def)

lemma web_step_account: "web_step W s ev s' \<Longrightarrow> web_ok s \<Longrightarrow> web_view c s' = web_account W c ev (web_view c s)"
proof (induction rule: web_step.induct)
  case (message s d ev as sv)
  then show ?case
    using sent_to_ev_handler [OF message(5)] ev_handler_account [OF message(5,3), of c "sent_to c (wb_Actions s)"]
    by (simp add: web_view_def)
next
  case (send s m q)
  then have "finite (ws_connections (wb_Server s))" by (auto simp: web_ok_def intro: finite_subset)
  then show ?case using send by (simp add: web_view_def sent_to_message)
qed (auto simp: web_view_def ev_handler_def ButtonPressedHandler_def button_text_def)

lemma web_run_account:
  "web_run W evs s \<Longrightarrow> web_ok s \<and> web_view c s = fold (web_account W c) evs (False, [], [])"
proof (induction rule: web_run.induct)
  case start
  then show ?case by (simp add: web_ok_def web_view_def web_start_def)
next
  case (more evs s ev s')
  then show ?case using web_step_ok [OF more.hyps(2)] web_step_account [OF more.hyps(2), of c] by simp
qed

subsection \<open>The sending loop\<close>

text \<open>The run of the loop over the queue is \<open>send_queue\<close>.\<close>

lemma send_queue_run:
  "web_run W evs s \<Longrightarrow> wb_pc s = Sending \<Longrightarrow>
     web_run W (evs @ replicate (length (msg_queue (wb_Server s))) Took @ [Released])
       (s\<lparr>wb_Server := snd (send_queue (wb_Server s)), wb_pc := Polling, wb_Actions := wb_Actions s @ fst (send_queue (wb_Server s))\<rparr>)"
proof (induction "length (msg_queue (wb_Server s))" arbitrary: s evs)
  case 0
  then have "web_step W s Released (s\<lparr>wb_pc := Polling\<rparr>)" by (intro web_step.release) simp_all
  then show ?case using web_run.more [OF 0(2)] 0 by (simp add: send_queue.simps [of "wb_Server s"])
next
  case (Suc n)
  then obtain m q where q: "msg_queue (wb_Server s) = m # q" by (cases "msg_queue (wb_Server s)") auto
  let ?t = "s\<lparr>wb_Server := (wb_Server s)\<lparr>msg_queue := q\<rparr>,
       wb_Actions := wb_Actions s @ send_message (ws_connections (wb_Server s)) m\<rparr>"
  have "web_run W (evs @ [Took]) ?t" using web_run.more [OF Suc.prems(1) web_step.send [OF Suc.prems(2) q]] .
  from Suc.hyps(1) [OF _ this] Suc.hyps(2) Suc.prems(2) q show ?case
    by (simp add: send_queue.simps [of "wb_Server s"] split_beta)
qed

lemma fold_took:
  "(web_account W c Took ^^ length q) (reg, q, rs) = (reg, [], if reg then rs @ q else rs)"
  by (induction q arbitrary: rs) (auto simp: funpow_Suc_right simp del: funpow.simps)

subsection \<open>The properties\<close>

text \<open>
  C39. Messages are neither lost, repeated nor reordered. After any sequence \<open>evs\<close> of events of the
  network, button presses and turns of the main loop: only open connections are registered; a
  connection is registered exactly if it asked for the WebSocket and has not been closed since; the queue
  holds exactly the messages that arrived and were not taken yet, in order; and the connection has
  been sent exactly the messages that were taken while it was registered, each once and in order.
  From a state in which the main loop has the mutex, its loop takes all of the queue and releases
  the mutex, and then the connection, if registered, has been sent all of these messages too.
\<close>

theorem web_messages_in_order:
  assumes "web_run W evs s" "fold (web_account W c) evs (False, [], []) = (reg, q, received)"
  shows "ws_connections (wb_Server s) \<subseteq> wb_Open s \<and> (c \<in> ws_connections (wb_Server s)) = reg \<and>
    msg_queue (wb_Server s) = q \<and> sent_to c (wb_Actions s) = received \<and>
    (wb_pc s = Sending \<longrightarrow> (\<exists>s'. web_run W (evs @ replicate (length q) Took @ [Released]) s' \<and> wb_pc s' = Polling \<and>
       msg_queue (wb_Server s') = [] \<and> sent_to c (wb_Actions s') = (if reg then received @ q else received)))"
proof -
  have ok: "web_ok s" and view: "web_view c s = (reg, q, received)"
    using web_run_account [OF assms(1)] assms(2) by auto
  have "\<exists>s'. web_run W (evs @ replicate (length q) Took @ [Released]) s' \<and> wb_pc s' = Polling \<and>
       msg_queue (wb_Server s') = [] \<and> sent_to c (wb_Actions s') = (if reg then received @ q else received)"
    if pc: "wb_pc s = Sending"
  proof -
    let ?s = "s\<lparr>wb_Server := snd (send_queue (wb_Server s)), wb_pc := Polling, wb_Actions := wb_Actions s @ fst (send_queue (wb_Server s))\<rparr>"
    have run: "web_run W (evs @ replicate (length q) Took @ [Released]) ?s"
      using send_queue_run [OF assms(1) pc] view by (simp add: web_view_def)
    have "web_view c ?s = (reg, [], if reg then received @ q else received)"
      using conjunct2 [OF web_run_account [OF run, of c]] assms(2) by (simp add: fold_took)
    then show ?thesis using run by (intro exI [of _ ?s]) (simp add: web_view_def)
  qed
  then show ?thesis using ok view by (auto simp: web_ok_def web_view_def)
qed

text \<open>
  What a request is answered with: \<open>http_handler\<close> gives exactly one answer, to the connection that
  asked; a file it serves is one that \<open>stat\<close> calls a regular file, or the fallback page; and the
  connection is registered for messages exactly if it asked for the WebSocket.
\<close>

theorem http_handler_answer:
  "\<exists>a s'. ev_handler W c (MG_EV_HTTP_MSG uri) s = ([a], s') \<and> msg_queue s' = msg_queue s \<and>
    (case a of
       WsUpgrade d \<Rightarrow> d = c \<and> mg_match W uri (cstr ''/ws'') \<and> ws_connections s' = insert c (ws_connections s)
     | HttpReply d st body \<Rightarrow> d = c \<and> s' = s \<and> st = 200
     | ServeFile d f \<Rightarrow> d = c \<and> s' = s \<and> (f = SVELTE_FALLBACK_FILE \<or> stat W f = Some RegularFile)
     | WsSend d m \<Rightarrow> False)"
  by (auto simp: ev_handler_def http_handler_def api_status_def find_file_def Let_def split: option.splits)

text \<open>A line of the log is written when its end arrives.\<close>

lemma mongoose_log_line:
  "10 \<notin> set line \<Longrightarrow> fold mongoose_log_fn (line @ [10]) (buffer, written) = ([], written @ [c_str (buffer @ line)])"
  by (induction line arbitrary: buffer) (auto simp: mongoose_log_fn_def)

subsection \<open>A concrete run\<close>

definition sample_web :: web_env where
  "sample_web = \<lparr>mg_match = (=), stat = (\<lambda>p. None), status_json = []\<rparr>"

definition sample_events :: "web_event list" where
  "sample_events = [Accepted 7, Received 7 (MG_EV_HTTP_MSG (cstr ''/ws'')), Pressed 17, Acquired, Took, Released,
     Received 7 (MG_EV_WS_MSG (cstr ''hi'')), Acquired]"

definition sample_web_sys :: web_sys where
  "sample_web_sys = \<lparr>wb_Server = \<lparr>ws_connections = {7}, msg_queue = [client_text 7 (cstr ''hi'')]\<rparr>,
     wb_pc = Sending, wb_Open = {7}, wb_Actions = [WsUpgrade 7, WsSend 7 (button_text 17)]\<rparr>"

lemma sample_web_run: "web_run sample_web sample_events sample_web_sys"
proof -
  let ?s1 = "web_start\<lparr>wb_Open := {7}\<rparr>"
  let ?s2 = "?s1\<lparr>wb_Server := \<lparr>ws_connections = {7}, msg_queue = []\<rparr>, wb_Actions := [WsUpgrade 7]\<rparr>"
  let ?s3 = "?s2\<lparr>wb_Server := \<lparr>ws_connections = {7}, msg_queue = [button_text 17]\<rparr>\<rparr>"
  let ?s4 = "?s3\<lparr>wb_pc := Sending\<rparr>"
  let ?s5 = "?s2\<lparr>wb_pc := Sending, wb_Actions := [WsUpgrade 7, WsSend 7 (button_text 17)]\<rparr>"
  let ?s6 = "?s5\<lparr>wb_pc := Polling\<rparr>"
  let ?s7 = "?s6\<lparr>wb_Server := \<lparr>ws_connections = {7}, msg_queue = [client_text 7 (cstr ''hi'')]\<rparr>\<rparr>"
  have 1: "web_step sample_web web_start (Accepted 7) ?s1"
    using web_step.accept [of web_start 7 sample_web] by (simp add: web_start_def ev_handler_def)
  have 2: "web_step sample_web ?s1 (Received 7 (MG_EV_HTTP_MSG (cstr ''/ws''))) ?s2"
    using web_step.message [of ?s1 7 "MG_EV_HTTP_MSG (cstr ''/ws'')" sample_web]
    by (simp add: web_start_def ev_handler_def http_handler_def sample_web_def)
  have 3: "web_step sample_web ?s2 (Pressed 17) ?s3"
    using web_step.button [of ?s2 sample_web 17] by (simp add: web_start_def ButtonPressedHandler_def button_text_def)
  have 4: "web_step sample_web ?s3 Acquired ?s4"
    by (rule web_step.acquire) (simp add: web_start_def)
  have 5: "web_step sample_web ?s4 Took ?s5"
    using web_step.send [of ?s4 "button_text 17" "[]" sample_web] by (simp add: web_start_def send_message_def)
  have 6: "web_step sample_web ?s5 Released ?s6"
    by (rule web_step.release) simp_all
  have 7: "web_step sample_web ?s6 (Received 7 (MG_EV_WS_MSG (cstr ''hi''))) ?s7"
    using web_step.message [of ?s6 7 "MG_EV_WS_MSG (cstr ''hi'')" sample_web]
    by (simp add: web_start_def ev_handler_def websocket_handler_def client_text_def)
  have 8: "web_step sample_web ?s7 Acquired sample_web_sys"
    using web_step.acquire [of ?s7 sample_web] by (simp add: web_start_def sample_web_sys_def)
  note web_run.more [OF web_run.more [OF web_run.more [OF web_run.more [OF web_run.start 1] 2] 3] 4]
  from web_run.more [OF web_run.more [OF web_run.more [OF web_run.more [OF this 5] 6] 7] 8]
  show ?thesis by (simp add: sample_events_def)
qed

theorem web_messages_in_order_witness:
  "sent_to 7 (wb_Actions sample_web_sys) = [button_text 17] \<and> wb_pc sample_web_sys = Sending \<and>
     (\<exists>s'. web_run sample_web (sample_events @ [Took, Released]) s' \<and>
        sent_to 7 (wb_Actions s') = [button_text 17, client_text 7 (cstr ''hi'')])"
proof -
  have "fold (web_account sample_web 7) sample_events (False, [], []) = (True, [client_text 7 (cstr ''hi'')], [button_text 17])"
    by (simp add: sample_events_def sample_web_def)
  moreover have pc: "wb_pc sample_web_sys = Sending" by (simp add: sample_web_sys_def)
  ultimately show ?thesis using web_messages_in_order [OF sample_web_run] by force
qed

end
