(* ===== verification/Spec2Isabelle.thy ===== *)
theory Spec2Isabelle
  imports Mqtt_Session_Props Mqtt_Sample Http_Props Web_Client Cxx_Thread_Props Ssl_Server_Props Ssl_Options_Props
    Stdlib_App_Props Button_Task Socket_App_Props
begin

text \<open>
  Verification of circle-stdlib: the network clients and sockets of \<open>src/circle-mbedtls\<close>, the
  C++ threading layer \<open>libs/libcxx-threading\<close>, and the applications built on them.

  \<^bold>\<open>The program.\<close> circle-stdlib joins the bare-metal environment Circle with the C library newlib,
  the C++ library and mbed TLS. Its own logic is the library \<open>circle-mbedtls\<close>, in layers, and the
  threading layer below the C++ library. From the bottom: adapted sockets (\<open>adaptedsocket.cpp\<close>)
  wrap the sockets of Circle behind handles; the network functions of mbed TLS
  (\<open>net_sockets.cpp\<close>) and the TLS sockets (\<open>tlssocket.cpp\<close>) use them; the simple client
  (\<open>tlssimpleclientsocket.cpp\<close>, \<open>x509certchain.cpp\<close>) configures a TLS socket; mutex callbacks and
  the entropy source (\<open>threadingmodule.cpp\<close>, \<open>entropymodule.cpp\<close>) serve mbed TLS. On top, an HTTP
  client (\<open>httpclient.cpp\<close>) and an MQTT client (\<open>mqttclient.cpp\<close> with its packet classes) use a plain
  or a TLS socket. Applications derive from the classes of \<open>circle_stdlib_app.h\<close>, which start the
  devices; the samples are such applications. Circle, newlib and mbed TLS are separate repositories;
  what the code calls of them is a parameter of the definitions here, and what it relies on is stated
  as the assumptions of locales.

  \<^bold>\<open>Shared theories.\<close>
  \<^item> \<open>Prelude\<close>: machine words and C strings, assertions, buffers with checked access, big-endian
    words, and a small Hoare calculus for option-valued steps.
  \<^item> \<open>Circle_Interface\<close>: the services of Circle the clients call (\<open>record circle\<close>, \<open>record net_env\<close>:
    heap, socket, resolver, clock), their contract (\<open>locale circle_contract\<close>) with a scripted network
    as an instance, and the pointer list \<open>CPtrList\<close> (\<open>locale ptr_list\<close>) with an instance. The clients call
    \<open>CTLSSimpleClientSocket::Setup\<close> without its personalization string, which is then read from
    address 0: \<open>simple_Setup\<close> fails unless \<open>null_string\<close> says that there is one.
  \<^item> \<open>C_Strings\<close>: the string functions the code calls (\<open>strtok_r\<close>, \<open>strtoul\<close>, number formatting) on
    byte arrays, with the round trip of printing and reading a number.

  \<^bold>\<open>MQTT client.\<close>
  \<^item> \<open>Mqtt_Protocol\<close>: constants and packet types (\<open>mqtt.h\<close>).
  \<^item> \<open>Mqtt_Send_Packet\<close>: the class \<open>CMQTTSendPacket\<close>; \<open>sp_payload\<close> and
    \<open>sp_frame\<close> are its abstract content.
  \<^item> \<open>Mqtt_Receive_Packet\<close>: the class \<open>CMQTTReceivePacket\<close>; \<open>rp_stream\<close> is
    the received byte stream its buffer stands for. The destination of \<open>GetString\<close> is given by its size,
    against which every write is checked; its content is what the function returns.
  \<^item> \<open>Mqtt_Queue\<close>: retransmission queue and packet identifier store of the client as operations
    over \<open>ptr_list\<close>, refined to functions on lists (\<open>locale send_queue\<close>,
    \<open>locale id_store\<close>).
  \<^item> \<open>Mqtt_Client\<close>: the class \<open>CMQTTClient\<close>, a record and one function per method; the
    handlers of the receiver are one function per packet type.
  \<^item> \<open>Mqtt_Client_Inv\<close>: the invariant \<open>mc_inv\<close> of the client, kept by every method.
  \<^item> \<open>Mqtt_Receiver\<close>: the handlers of the receiver on valid packets, termination of the
    receiver on a network that goes quiet (\<open>locale mqtt_client_quiet\<close>), frame properties.
  \<^item> \<open>Mqtt_Exchange\<close>: the path of a message from one client to another, and the exactly-once
    receiver as a refinement of an abstract machine.
  \<^item> \<open>Mqtt_Packet_Props\<close>, \<open>Mqtt_Client_Props\<close>, \<open>Mqtt_Session_Props\<close>: the
    properties, with an application of each on a concrete input: packets are built and parsed
    exactly, the client keeps its invariant and its calls return (with the one exception of a TLS
    set-up that reads address 0), messages of quality 2 are delivered once, retransmission, and
    the ping of the keep-alive handler.

  \<^bold>\<open>HTTP client.\<close>
  \<^item> \<open>Http_Client\<close>: the class \<open>CHTTPClient\<close>: request text, the character-driven response parser, the
    receive loop and every return of \<open>Request\<close>, each with the statements in front of it
    (\<open>exit_stmt\<close>: delete the socket, clear the pointer).
  \<^item> \<open>Http_Response\<close>: the parser against a specification of status line, header lines, plain and
    chunked bodies; fragmentation of the response does not matter.
  \<^item> \<open>Http_Props\<close>: content reaches the caller, exactly which responses fail an access, that every
    other request returns, release of the socket on every path, and two malformed answers that are
    accepted.

  \<^bold>\<open>Sockets.\<close>
  \<^item> \<open>Adapted_Socket\<close>: the class \<open>CAdaptedSocket\<close>; objects live in a heap, the table of handles is a
    pointer array of Circle (\<open>locale ptr_array\<close>).
  \<^item> \<open>Net_Sockets\<close>: the functions \<open>mbedtls_net_*\<close> and programs that call them on several contexts
    (\<open>net_call\<close>, \<open>net_run\<close>).
  \<^item> \<open>Net_Sockets_Inv\<close>: the contract of \<open>CSocket\<close> (\<open>locale socket_provider\<close>, extended by a log of the
    delivered bytes and by a clock), and under it the invariant of the table, reading as a byte
    stream, the end of reads with a timeout.
  \<^item> \<open>Net_Heap\<close>: the weaker invariant of the contexts that \<open>mbedtls_net_accept\<close> keeps, too (\<open>ctx_inv\<close>; it
    allows slots of deleted objects), for every call, and the return of every program.
  \<^item> \<open>Net_Props\<close>: the properties, and a scripted network on which the locales are interpreted.

  \<^bold>\<open>TLS.\<close>
  \<^item> \<open>Tls_Socket\<close>: the class \<open>CTLSSocket\<close>; mbed TLS reaches the network only through the callbacks
    it is given.
  \<^item> \<open>Tls_Client\<close>: certificate chain, certificate profile, configuration and the simple client.
  \<^item> \<open>Tls_Support\<close>: mutex callbacks, recursive C++ mutexes (both over \<open>locale recursive_mutex\<close>) and the
    entropy source.
  \<^item> \<open>Tls_Props\<close>: when a connection counts as established, when the certificate of the server is
    required, which files are read, what the entropy source writes, and the mutex callbacks as owned,
    recursive mutexes (a variable that was never set holds anything; reading it fails).

  \<^bold>\<open>C++ threading.\<close>
  \<^item> \<open>Cxx_Sync\<close>: mutex and condition variable on counting semaphores
    (\<open>locale counting_semaphore\<close>), every interleaving of the tasks as a step relation with an
    invariant; exclusion and hand-over, and the wake-ups of a condition variable against an account
    computed from the events (\<open>cv_account\<close>).
  \<^item> \<open>Cxx_Thread\<close>: join handles, one-time execution, thread-local storage and its destructors,
    creation of threads, sleeping.
  \<^item> \<open>Cxx_Thread_Props\<close>: life cycle of the join handle, exactly-once execution, order of the
    destructors, times that are cut to 32 bits.

  \<^bold>\<open>Applications.\<close>
  \<^item> \<open>Ssl_Programs\<close>: client and server taken from mbed TLS (\<open>ssl_client1.c\<close>, \<open>ssl_server.c\<close> of
    \<open>samples/mbedtls/01\<close> and \<open>03\<close>), the whole of \<open>tlsmain\<close> split at its labels and loops, on the
    functions of \<open>Net_Sockets\<close>.
  \<^item> \<open>Ssl_Inv\<close>: what the programs keep of the socket objects (on top of \<open>Net_Heap\<close>), and the
    contract of mbed TLS: it reaches the network through the callbacks only
    (\<open>locale ssl_callbacks\<close>) and a connection comes to an end (\<open>locale ssl_progress\<close>).
  \<^item> \<open>Ssl_Props\<close>, \<open>Ssl_Server_Props\<close>: both programs together with the sockets
    (\<open>locale ssl_program\<close>): they return on every path and release what they opened, the server in
    every cycle; the slots the server loses.
  \<^item> \<open>Ssl_Options\<close>, \<open>Ssl_Options_Props\<close>: the option parsers and callbacks of the test server
    \<open>ssl_server2.c\<close> (\<open>samples/mbedtls/04\<close>) on strings in memory: lists of keys, curves and protocols are
    read back as they were written, within their arrays, and the memory of the parser
    (\<open>locale allocator\<close>) is released after an error.
  \<^item> \<open>Stdlib_App\<close>, \<open>Stdlib_App_Props\<close>: the application classes (\<open>include/circle_stdlib_app.h\<close>) and
    \<open>main\<close>; services start in a fixed order up to the first failure, and the wait for the network
    ends when it runs.
  \<^item> \<open>Html_Scanner\<close>, \<open>Html_Props\<close>, \<open>Html_Items\<close>: the HTML scanner of the web client
    (\<open>samples/mbedtls/06-webclient\<close>); it ends within the document and returns the items that were
    written.
  \<^item> \<open>Web_Client\<close>: the web client with its constants (SSL is on), HTTP client and scanner together: the
    table of a page that the server sends is shown.
  \<^item> \<open>Mqtt_Sample\<close>: publisher and subscriber (\<open>samples/mbedtls/07-mqttclient\<close>) as clients of
    \<open>Mqtt_Client\<close>: their callbacks stay within its reachable states; the schedule of the messages.
  \<^item> \<open>Button_Task\<close>: the button task of the web server (\<open>samples/06-socket\<close>) with its interrupt and
    timer handlers as a step relation over the contract of the kernel timers
    (\<open>locale kernel_timers\<close>).
  \<^item> \<open>Socket_App\<close>, \<open>Socket_App_Props\<close>: the handlers, the message queue and the main loop of the web
    server as a step relation with labelled steps; each connection is sent exactly what the account of
    the events (\<open>web_account\<close>) owes it.

  \<^bold>\<open>Conventions.\<close> A method is a function from the state of its object and the world to new
  states; the result is \<open>None\<close> exactly where an assertion of the code fails, a null pointer is
  dereferenced, an array is left or a deleted object is used. Assertions are
  taken as checked (the code is built without \<open>NDEBUG\<close>). The type \<open>size_t\<close> is
  read at 32 bits, the narrower of the two targets, where its wrap-around matters.
  Loops that depend on the peer are partial functions with an outer option, \<open>None\<close> for a loop
  that does not end, and their termination is a theorem. Tasks of Circle are scheduled
  cooperatively: a step of a task runs from one blocking call to the next.

  \<^bold>\<open>Not modelled.\<close> The configuration header of mbed TLS (preprocessor switches), the glue to
  newlib, the debug output callback, the build scripts, the configurable test programs of the mbed TLS
  project (\<open>samples/mbedtls/02\<close> and \<open>04\<close>) except what \<open>Ssl_Options\<close> has of them (they are tables of
  options around the connection that \<open>Ssl_Programs\<close> has), and the samples and tests that only print the results of
  library calls (\<open>samples/01\<close> to \<open>05\<close>, \<open>07\<close>, \<open>08\<close>, \<open>samples/mbedtls/05\<close>).
\<close>

end
